(* ===== verification/Atropos_Prelude.thy ===== *)
theory Atropos_Prelude
  imports Complex_Main "HOL-Library.Word" "HOL-Library.Multiset"
    "HOL-Library.List_Lexorder" "HOL-Library.Char_ord" "HOL-Library.Signed_Division"
    "HOL-Library.Sublist"
begin

text \<open>
  Shared material of the development: the Go integers the program computes with, Go's
  comparison of \<open>float64\<close> values, Go maps with string keys, and generic lemmas on lists.

  \<^item> \<open>int\<close>, \<open>int64\<close> and \<open>time.Duration\<close> are Isabelle integers; wherever the code computes
    with them and the result can leave the 64-bit range, the model applies \<open>wrap64\<close>, the
    two's complement wrap-around of the language. The predicate \<open>i64\<close> says that a value
    fits; integer division of the code is \<open>sdiv\<close>, which truncates towards zero.
  \<^item> \<open>uint64\<close> is \<open>64 word\<close>.
  \<^item> \<open>float64\<close> is a datatype of the finite values (rationals), the infinities and NaN,
    with the IEEE comparisons, for code that only compares such values.
  \<^item> \<open>string\<close> and \<open>[]byte\<close> are lists of characters, that is of bytes.
  \<^item> \<open>map[string]string\<close> is an association list read by \<open>go_index\<close>.
\<close>

section \<open>Collections of facts\<close>

named_theorems go_int \<open>wrap-around arithmetic\<close>
named_theorems inv_simps \<open>invariants of the components, unfolded\<close>

section \<open>64-bit integers\<close>

definition wrap64 :: "int \<Rightarrow> int" where
  "wrap64 x = (x + 2 ^ 63) mod 2 ^ 64 - 2 ^ 63"

definition i64 :: "int \<Rightarrow> bool" where
  "i64 x \<longleftrightarrow> - (2 ^ 63) \<le> x \<and> x < 2 ^ 63"

lemma i64_wrap64 [simp, intro]: "i64 (wrap64 x)"
proof -
  have "0 \<le> (x + 2 ^ 63) mod 2 ^ 64" and "(x + 2 ^ 63) mod 2 ^ 64 < 2 ^ 64"
    by simp_all
  then show ?thesis by (simp add: i64_def wrap64_def)
qed

lemma wrap64_id [go_int]: "i64 x \<Longrightarrow> wrap64 x = x"
  by (simp add: i64_def wrap64_def)

lemma wrap64_idem [simp]: "wrap64 (wrap64 x) = wrap64 x"
  by (simp add: wrap64_id)

lemma wrap64_above [go_int]:
  assumes "2 ^ 63 \<le> x" and "x < 2 ^ 64 + 2 ^ 63"
  shows "wrap64 x = x - 2 ^ 64"
proof -
  define y where "y = x + 2 ^ 63 - 2 ^ 64"
  have y: "0 \<le> y" "y < 2 ^ 64" using assms by (simp_all add: y_def)
  have "(x + 2 ^ 63) mod 2 ^ 64 = (y + 2 ^ 64) mod 2 ^ 64"
    by (simp add: y_def add.commute)
  also have "\<dots> = y"
    using y by (simp only: mod_add_self2 mod_pos_pos_trivial)
  finally show ?thesis by (simp add: wrap64_def y_def)
qed

lemma i64_nonneg: "0 \<le> x \<Longrightarrow> x < 2 ^ 63 \<Longrightarrow> i64 x"
  by (simp add: i64_def)

lemma sdiv_nonneg [go_int]: "0 \<le> (a::int) \<Longrightarrow> 0 < b \<Longrightarrow> a sdiv b = a div b"
  by (cases "a = 0") (simp_all add: signed_divide_int_def sgn_if)

text \<open>The units of package \<open>time\<close>, in nanoseconds.\<close>

definition Microsecond :: int where "Microsecond = 1000"
definition Millisecond :: int where "Millisecond = 1000000"
definition Second :: int where "Second = 1000000000"

text \<open>
  \<open>t.Sub(u)\<close> on instants, here nanoseconds on an unbounded axis: the difference,
  saturated at the bounds of \<open>time.Duration\<close>.
\<close>

definition time_sub :: "int \<Rightarrow> int \<Rightarrow> int" where
  "time_sub t u = max (- (2 ^ 63)) (min (2 ^ 63 - 1) (t - u))"

section \<open>Comparing floating point values\<close>

datatype float64 = Fin rat | PosInf | NegInf | NaN

fun flt_less :: "float64 \<Rightarrow> float64 \<Rightarrow> bool" where
  "flt_less (Fin a) (Fin b) \<longleftrightarrow> a < b"
| "flt_less (Fin a) PosInf \<longleftrightarrow> True"
| "flt_less NegInf (Fin b) \<longleftrightarrow> True"
| "flt_less NegInf PosInf \<longleftrightarrow> True"
| "flt_less _ _ \<longleftrightarrow> False"

fun flt_leq :: "float64 \<Rightarrow> float64 \<Rightarrow> bool" where
  "flt_leq NaN _ \<longleftrightarrow> False"
| "flt_leq _ NaN \<longleftrightarrow> False"
| "flt_leq (Fin a) (Fin b) \<longleftrightarrow> a \<le> b"
| "flt_leq x y \<longleftrightarrow> flt_less x y \<or> x = y"

text \<open>
  \<open>int64(f)\<close>: truncation towards zero; outside the range, and for NaN and the infinities,
  the result is implementation-defined, here the parameter \<open>ovf\<close>.
\<close>

definition rat_trunc :: "rat \<Rightarrow> int" where
  "rat_trunc q = (if 0 \<le> q then \<lfloor>q\<rfloor> else \<lceil>q\<rceil>)"

definition float_to_int64 :: "int \<Rightarrow> float64 \<Rightarrow> int" where
  "float_to_int64 ovf f =
     (case f of Fin q \<Rightarrow> (if i64 (rat_trunc q) then rat_trunc q else ovf) | _ \<Rightarrow> ovf)"

section \<open>Decimal numerals\<close>

text \<open>\<open>strconv.FormatInt(n, 10)\<close>.\<close>

fun format_dec :: "nat \<Rightarrow> string" where
  "format_dec n = (if n < 10 then [char_of (48 + n)]
                   else format_dec (n div 10) @ [char_of (48 + n mod 10)])"

declare format_dec.simps [simp del]

definition format_int :: "int \<Rightarrow> string" where
  "format_int i = (if i < 0 then CHR ''-'' # format_dec (nat (- i)) else format_dec (nat i))"

section \<open>Go maps with string keys\<close>

type_synonym labels = "(string \<times> string) list"

text \<open>\<open>m[k]\<close> yields the zero value \<open>""\<close> for a missing key.\<close>

definition go_index :: "labels \<Rightarrow> string \<Rightarrow> string" where
  "go_index m k = (case map_of m k of None \<Rightarrow> [] | Some v \<Rightarrow> v)"

definition go_store :: "string \<Rightarrow> string \<Rightarrow> labels \<Rightarrow> labels" where
  "go_store k v m = (k, v) # filter (\<lambda>p. fst p \<noteq> k) m"

lemma map_of_go_store [simp]: "map_of (go_store k v m) = (map_of m)(k \<mapsto> v)"
proof -
  have "map_of (filter (\<lambda>p. fst p \<noteq> k) m) x = map_of m x" if "x \<noteq> k" for x
    using that by (induction m) auto
  then show ?thesis by (auto simp: go_store_def fun_eq_iff)
qed

lemma go_index_store [simp]:
  "go_index (go_store k v m) k' = (if k' = k then v else go_index m k')"
  by (simp add: go_index_def)

section \<open>Lists\<close>

lemma append_eq_sep_iff:
  assumes "c \<notin> set a" and "c \<notin> set a'"
  shows "a @ c # b = a' @ c # b' \<longleftrightarrow> a = a' \<and> b = b'"
  using assms
proof (induction a arbitrary: a')
  case Nil
  then show ?case by (cases a') auto
next
  case (Cons x a)
  then show ?case by (cases a') auto
qed

lemma filter_neq_id: "x \<notin> f ` set xs \<Longrightarrow> filter (\<lambda>y. f y \<noteq> x) xs = xs"
  by (induction xs) auto


lemma length_filter_update:
  "i < length xs \<Longrightarrow>
   int (length (filter P (xs[i := x]))) =
   int (length (filter P xs)) - (if P (xs ! i) then 1 else 0) + (if P x then 1 else 0)"
proof (induction xs arbitrary: i)
  case (Cons a xs)
  show ?case
  proof (cases i)
    case (Suc j)
    with Cons.IH [of j] Cons.prems show ?thesis by auto
  qed simp
qed simp

end
