(* ===== verification/Fault_Model.thy ===== *)
theory Fault_Model
  imports Atropos_Prelude
begin

text \<open>
  The fault taxonomy: the duration and ramp parameters common to all faults
  (\<open>internal/fault/fault.go\<close>), the inline faults (\<open>internal/fault/inline\<close>), the
  configurations of the network proxy (\<open>internal/fault/network/config.go\<close>) and of the
  resource faults (\<open>internal/fault/resource\<close>), their \<open>Validate\<close> methods and effective
  defaults, and the constructors of \<open>faults.go\<close>. A Go \<open>error\<close> result is an option, \<open>None\<close>
  being nil; one constructor of \<open>fault_error\<close> stands for each error the code builds.
\<close>

section \<open>Duration and ramps\<close>

record fault_config =
  fc_duration :: int
  fc_ramp_up :: int
  fc_ramp_down :: int

datatype fault_error =
    DurationNotPositive | RampUpNegative | RampUpTooLong | RampDownNegative | RampDownTooLong
  | RampsTooLong | BadStatusCode int | NoDelay | EmptyListen | EmptyUpstream | BadScope | NoToxics
  | BadTargetLoad | BadChunkSize int | BadThrashWorkers int | BadWriteRate int | BadMaxDiskUsage int
  | BadReadRate int | BadFileSize int | BadFileCount int | BadWorkers int | OtherFaultError string

definition FaultConfig_Validate :: "fault_config \<Rightarrow> fault_error option" where
  "FaultConfig_Validate c =
     (if fc_duration c \<le> 0 then Some DurationNotPositive
      else if fc_ramp_up c < 0 then Some RampUpNegative
      else if fc_ramp_up c \<ge> fc_duration c then Some RampUpTooLong
      else if fc_ramp_down c < 0 then Some RampDownNegative
      else if fc_ramp_down c \<ge> fc_duration c then Some RampDownTooLong
      else if wrap64 (fc_ramp_up c + fc_ramp_down c) \<ge> fc_duration c then Some RampsTooLong
      else None)"

section \<open>Inline faults\<close>

record latency_fault =
  lf_base :: fault_config
  lf_delay :: int
  lf_jitter :: int

definition Latency_Validate :: "latency_fault \<Rightarrow> fault_error option" where
  "Latency_Validate l = (if lf_delay l \<le> 0 \<and> lf_jitter l \<le> 0 then Some NoDelay else None)"

record error_fault =
  ef_base :: fault_config
  ef_status :: int
  ef_message :: string

definition Error_Validate :: "error_fault \<Rightarrow> fault_error option" where
  "Error_Validate e =
     (if ef_status e < 100 \<or> ef_status e > 599 then Some (BadStatusCode (ef_status e)) else None)"

text \<open>The error a fault delivers in its result, and the texts derived from it.\<close>

record error_detail =
  ed_status :: int
  ed_message :: string

definition ErrorDetail_StatusText :: "error_detail \<Rightarrow> string" where
  "ErrorDetail_StatusText d =
     (if ed_message d \<noteq> [] then ed_message d
      else ''injected fault: HTTP '' @ format_int (ed_status d))"

definition ErrorDetail_Err :: "error_detail \<Rightarrow> string" where
  "ErrorDetail_Err d = ''injected error: '' @ format_int (ed_status d) @ '' '' @ ed_message d"

record hang_fault =
  hf_base :: fault_config

definition Hang_Validate :: "hang_fault \<Rightarrow> fault_error option" where
  "Hang_Validate h = FaultConfig_Validate (hf_base h)"

text \<open>
  What the goroutine an inline fault starts delivers. For the latency fault, \<open>draw\<close> is
  the value of \<open>rand.Int63n(Jitter)\<close>; \<open>cancelled\<close> says that the context was done
  before the timer fired.
\<close>

datatype ctx_error = Canceled | DeadlineExceeded

datatype fault_detail = NoDetail | ErrorFault error_detail

record fault_result =
  fr_duration :: int
  fr_err :: "ctx_error option"
  fr_detail :: fault_detail

definition Latency_delay :: "latency_fault \<Rightarrow> int \<Rightarrow> int" where
  "Latency_delay l draw =
     (if lf_jitter l > 0 then wrap64 (lf_delay l + draw) else lf_delay l)"

definition Latency_result :: "int \<Rightarrow> ctx_error option \<Rightarrow> fault_result" where
  "Latency_result elapsed cancelled = \<lparr>fr_duration = elapsed, fr_err = cancelled, fr_detail = NoDetail\<rparr>"

definition Error_result :: "error_fault \<Rightarrow> fault_result" where
  "Error_result e =
     \<lparr>fr_duration = 0, fr_err = None,
      fr_detail = ErrorFault \<lparr>ed_status = ef_status e, ed_message = ef_message e\<rparr>\<rparr>"

definition Hang_result :: "int \<Rightarrow> ctx_error \<Rightarrow> fault_result" where
  "Hang_result elapsed e = \<lparr>fr_duration = elapsed, fr_err = Some e, fr_detail = NoDetail\<rparr>"

definition IsErrorResult :: "fault_result \<Rightarrow> error_detail option" where
  "IsErrorResult r = (case fr_detail r of ErrorFault d \<Rightarrow> Some d | NoDetail \<Rightarrow> None)"

section \<open>Network faults\<close>

datatype direction = Upstream | Downstream | DirectionOther int

definition direction_String :: "direction \<Rightarrow> string" where
  "direction_String d =
     (case d of Upstream \<Rightarrow> ''upstream'' | Downstream \<Rightarrow> ''downstream''
      | DirectionOther i \<Rightarrow> ''direction('' @ format_int i @ '')'')"

datatype toxic =
    LatencyToxic int int
  | LossToxic float64 int int
  | BlackholeToxic
  | DripToxic int int
  | RSTToxic int int
  | ThrottleToxic int

record toxic_link =
  tl_toxic :: toxic
  tl_direction :: direction

record net_config =
  nc_base :: fault_config
  nc_listen :: string
  nc_upstream :: string
  nc_scope :: float64
  nc_toxics :: "toxic_link list"
  nc_external :: bool

definition net_Validate :: "net_config \<Rightarrow> fault_error option" where
  "net_Validate c =
     (if nc_external c then FaultConfig_Validate (nc_base c)
      else case FaultConfig_Validate (nc_base c) of
        Some e \<Rightarrow> Some e
      | None \<Rightarrow>
          if nc_listen c = [] then Some EmptyListen
          else if nc_upstream c = [] then Some EmptyUpstream
          else if flt_less (nc_scope c) (Fin 0) \<or> flt_less (Fin 1) (nc_scope c) then Some BadScope
          else if nc_toxics c = [] then Some NoToxics
          else None)"

definition effectiveScope :: "net_config \<Rightarrow> float64" where
  "effectiveScope c = (if flt_leq (nc_scope c) (Fin 0) then Fin 1 else nc_scope c)"

section \<open>Resource faults\<close>

record resource_config =
  rc_base :: fault_config
  rc_target_load :: float64
  rc_window :: int

definition DefaultWindow :: int where
  "DefaultWindow = 100 * Millisecond"

definition load_ok :: "float64 \<Rightarrow> bool" where
  "load_ok f \<longleftrightarrow> \<not> (flt_leq f (Fin 0) \<or> flt_less (Fin 1) f)"

definition resource_Validate :: "resource_config \<Rightarrow> fault_error option" where
  "resource_Validate c =
     (case FaultConfig_Validate (rc_base c) of
        Some e \<Rightarrow> Some e
      | None \<Rightarrow> if \<not> load_ok (rc_target_load c) then Some BadTargetLoad else None)"

definition EffectiveWindow :: "resource_config \<Rightarrow> int" where
  "EffectiveWindow c = (if rc_window c \<le> 0 then DefaultWindow else rc_window c)"

record memory_config =
  mc_base :: fault_config
  mc_target_load :: float64
  mc_chunk_size :: int
  mc_thrashing :: bool
  mc_thrash_workers :: int

definition memory_Validate :: "memory_config \<Rightarrow> fault_error option" where
  "memory_Validate c =
     (case FaultConfig_Validate (mc_base c) of
        Some e \<Rightarrow> Some e
      | None \<Rightarrow>
          if \<not> load_ok (mc_target_load c) then Some BadTargetLoad
          else if mc_chunk_size c < 0 then Some (BadChunkSize (mc_chunk_size c))
          else if mc_thrashing c \<and> mc_thrash_workers c < 0
          then Some (BadThrashWorkers (mc_thrash_workers c))
          else None)"

definition memory_EffectiveChunkSize :: "memory_config \<Rightarrow> int" where
  "memory_EffectiveChunkSize c = (if mc_chunk_size c \<le> 0 then 1048576 else mc_chunk_size c)"

definition EffectiveThrashWorkers :: "memory_config \<Rightarrow> int" where
  "EffectiveThrashWorkers c = (if mc_thrash_workers c \<le> 0 then 2 else mc_thrash_workers c)"

record disk_config =
  dc_base :: fault_config
  dc_write_rate :: int
  dc_max_disk :: int
  dc_chunk_size :: int
  dc_path :: string

definition DefaultWriteRate :: int where "DefaultWriteRate = 10 * 1024 * 1024"
definition DefaultMaxDisk :: int where "DefaultMaxDisk = 512 * 1024 * 1024"
definition DefaultChunkSize :: int where "DefaultChunkSize = 1 * 1024 * 1024"

definition disk_Validate :: "disk_config \<Rightarrow> fault_error option" where
  "disk_Validate c =
     (case FaultConfig_Validate (dc_base c) of
        Some e \<Rightarrow> Some e
      | None \<Rightarrow>
          if dc_write_rate c \<le> 0 then Some (BadWriteRate (dc_write_rate c))
          else if dc_max_disk c \<le> 0 then Some (BadMaxDiskUsage (dc_max_disk c))
          else None)"

definition EffectiveWriteRate :: "disk_config \<Rightarrow> int" where
  "EffectiveWriteRate c = (if dc_write_rate c \<le> 0 then DefaultWriteRate else dc_write_rate c)"

definition EffectiveMaxDiskUsage :: "disk_config \<Rightarrow> int" where
  "EffectiveMaxDiskUsage c = (if dc_max_disk c \<le> 0 then DefaultMaxDisk else dc_max_disk c)"

definition disk_EffectiveChunkSize :: "disk_config \<Rightarrow> int" where
  "disk_EffectiveChunkSize c = (if dc_chunk_size c \<le> 0 then DefaultChunkSize else dc_chunk_size c)"

datatype io_mode = ModeWrite | ModeRead | ModeReadWrite | ModeOther int

record io_config =
  ic_base :: fault_config
  ic_read_rate :: int
  ic_file_size :: int
  ic_file_count :: int
  ic_workers :: int
  ic_path :: string
  ic_mode :: io_mode

definition DefaultFileSize :: int where "DefaultFileSize = 4096"
definition DefaultFileCount :: int where "DefaultFileCount = 256"
definition DefaultWorkers :: int where "DefaultWorkers = 4"
definition DefaultReadRate :: int where "DefaultReadRate = 102400"

definition io_Validate :: "io_config \<Rightarrow> fault_error option" where
  "io_Validate c =
     (case FaultConfig_Validate (ic_base c) of
        Some e \<Rightarrow> Some e
      | None \<Rightarrow>
          if ic_read_rate c \<le> 0 then Some (BadReadRate (ic_read_rate c))
          else if ic_file_size c \<le> 0 then Some (BadFileSize (ic_file_size c))
          else if ic_file_count c \<le> 0 then Some (BadFileCount (ic_file_count c))
          else if ic_workers c \<le> 0 then Some (BadWorkers (ic_workers c))
          else None)"

definition EffectiveFileSize :: "io_config \<Rightarrow> int" where
  "EffectiveFileSize c = (if ic_file_size c \<le> 0 then DefaultFileSize else ic_file_size c)"

definition EffectiveFileCount :: "io_config \<Rightarrow> int" where
  "EffectiveFileCount c = (if ic_file_count c \<le> 0 then DefaultFileCount else ic_file_count c)"

definition EffectiveWorkers :: "io_config \<Rightarrow> int" where
  "EffectiveWorkers c = (if ic_workers c \<le> 0 then DefaultWorkers else ic_workers c)"

definition EffectiveReadRate :: "io_config \<Rightarrow> int" where
  "EffectiveReadRate c = (if ic_read_rate c \<le> 0 then DefaultReadRate else ic_read_rate c)"

end
