(* ===== verification/Fault_Kinds.thy ===== *)
theory Fault_Kinds
  imports Fault_Model
begin

text \<open>
  The \<open>Fault\<close> interface as a datatype of its implementations: \<open>Validate\<close> by dynamic type,
  the dynamic type's name (\<open>%T\<close>), whether it takes an event emitter, and the constructors of
  \<open>faults.go\<close>. \<open>UserFault\<close> stands for implementations outside the repository (the interface is
  exported), given by what their methods return.
\<close>

datatype fault =
    LatencyFault latency_fault
  | InlineError error_fault
  | HangFault hang_fault
  | ProxyFault net_config
  | CpuStress resource_config
  | MemoryStress memory_config
  | DiskStress disk_config
  | IoStress io_config
  | UserFault string "fault_error option" bool

fun fault_Validate :: "fault \<Rightarrow> fault_error option" where
  "fault_Validate (LatencyFault l) = Latency_Validate l"
| "fault_Validate (InlineError e) = Error_Validate e"
| "fault_Validate (HangFault h) = Hang_Validate h"
| "fault_Validate (ProxyFault c) = net_Validate c"
| "fault_Validate (CpuStress c) = resource_Validate c"
| "fault_Validate (MemoryStress c) = memory_Validate c"
| "fault_Validate (DiskStress c) = disk_Validate c"
| "fault_Validate (IoStress c) = io_Validate c"
| "fault_Validate (UserFault n v a) = v"

fun fault_type :: "fault \<Rightarrow> string" where
  "fault_type (LatencyFault l) = ''*inline.Latency''"
| "fault_type (InlineError e) = ''*inline.Error''"
| "fault_type (HangFault h) = ''*inline.Hang''"
| "fault_type (ProxyFault c) = ''*network.Proxy''"
| "fault_type (CpuStress c) = ''*cpu.Stress''"
| "fault_type (MemoryStress c) = ''*memory.Stress''"
| "fault_type (DiskStress c) = ''*disk.Stress''"
| "fault_type (IoStress c) = ''*io.Stress''"
| "fault_type (UserFault n v a) = n"

fun event_aware :: "fault \<Rightarrow> bool" where
  "event_aware (ProxyFault c) = True"
| "event_aware (CpuStress c) = True"
| "event_aware (DiskStress c) = True"
| "event_aware (IoStress c) = True"
| "event_aware (UserFault n v a) = a"
| "event_aware _ = False"

text \<open>
  \<open>Start\<close> validates again, then acquires what the fault needs from the operating system
  (the listener of a proxy, the temporary files of the disk and I/O faults); \<open>os\<close> is the
  outcome of that.
\<close>

definition fault_Start :: "(fault \<Rightarrow> fault_error option) \<Rightarrow> fault \<Rightarrow> fault_error option" where
  "fault_Start os f = (case fault_Validate f of Some e \<Rightarrow> Some e | None \<Rightarrow> os f)"

section \<open>Constructors\<close>

abbreviation no_ramps :: "int \<Rightarrow> fault_config" where
  "no_ramps d \<equiv> \<lparr>fc_duration = d, fc_ramp_up = 0, fc_ramp_down = 0\<rparr>"

definition NewLatencyFault :: "int \<Rightarrow> int \<Rightarrow> fault" where
  "NewLatencyFault delay jitter =
     LatencyFault \<lparr>lf_base = no_ramps (wrap64 (delay + jitter)), lf_delay = delay, lf_jitter = jitter\<rparr>"

definition NewHangFault :: "int \<Rightarrow> fault" where
  "NewHangFault dur = HangFault \<lparr>hf_base = no_ramps dur\<rparr>"

definition NewErrorFault :: "int \<Rightarrow> string \<Rightarrow> fault" where
  "NewErrorFault statusCode message =
     InlineError \<lparr>ef_base = no_ramps 1, ef_status = statusCode, ef_message = message\<rparr>"

definition NewDiskStressFault :: "int \<Rightarrow> int \<Rightarrow> int \<Rightarrow> int \<Rightarrow> string \<Rightarrow> fault" where
  "NewDiskStressFault dur writeRate maxDiskUsage chunkSize path =
     DiskStress \<lparr>dc_base = no_ramps dur, dc_write_rate = writeRate, dc_max_disk = maxDiskUsage,
                 dc_chunk_size = chunkSize, dc_path = path\<rparr>"

definition NewCPUStressFault :: "int \<Rightarrow> float64 \<Rightarrow> fault" where
  "NewCPUStressFault dur targetLoad =
     CpuStress \<lparr>rc_base = no_ramps dur, rc_target_load = targetLoad, rc_window = 0\<rparr>"

definition NewMemoryStressFault :: "int \<Rightarrow> float64 \<Rightarrow> bool \<Rightarrow> fault" where
  "NewMemoryStressFault dur targetLoad thrashing =
     MemoryStress \<lparr>mc_base = no_ramps dur, mc_target_load = targetLoad, mc_chunk_size = 0,
                   mc_thrashing = thrashing, mc_thrash_workers = 0\<rparr>"

definition NewIOStressFault :: "int \<Rightarrow> int \<Rightarrow> fault" where
  "NewIOStressFault dur readRate =
     IoStress \<lparr>ic_base = no_ramps dur, ic_read_rate = readRate, ic_file_size = DefaultFileSize,
               ic_file_count = DefaultFileCount, ic_workers = DefaultWorkers, ic_path = [],
               ic_mode = ModeWrite\<rparr>"

section \<open>What validation accepts\<close>

lemma FaultConfig_Validate_iff:
  assumes "i64 (fc_duration c)" and "i64 (fc_ramp_up c)" and "i64 (fc_ramp_down c)"
  shows "FaultConfig_Validate c = None \<longleftrightarrow>
    0 < fc_duration c \<and> 0 \<le> fc_ramp_up c \<and> fc_ramp_up c < fc_duration c \<and>
    0 \<le> fc_ramp_down c \<and> fc_ramp_down c < fc_duration c \<and>
    (fc_ramp_up c + fc_ramp_down c < fc_duration c \<or> 2 ^ 63 \<le> fc_ramp_up c + fc_ramp_down c)"
proof (cases "0 < fc_duration c \<and> 0 \<le> fc_ramp_up c \<and> fc_ramp_up c < fc_duration c \<and>
    0 \<le> fc_ramp_down c \<and> fc_ramp_down c < fc_duration c")
  case True
  let ?s = "fc_ramp_up c + fc_ramp_down c"
  have "(wrap64 ?s < fc_duration c) = (?s < fc_duration c \<or> 2 ^ 63 \<le> ?s)"
  proof (cases "?s < 2 ^ 63")
    case below: True
    with True have "wrap64 ?s = ?s" by (intro wrap64_id) (auto simp: i64_def)
    with below show ?thesis by auto
  next
    case above: False
    with True assms have "wrap64 ?s = ?s - 2 ^ 64"
      by (intro wrap64_above) (auto simp: i64_def)
    with above True assms show ?thesis by (auto simp: i64_def)
  qed
  with True show ?thesis by (auto simp: FaultConfig_Validate_def)
next
  case False
  then show ?thesis by (auto simp: FaultConfig_Validate_def)
qed

lemma no_ramps_Validate [simp]:
  "FaultConfig_Validate (no_ramps d) = None \<longleftrightarrow> 0 < d"
  by (simp add: FaultConfig_Validate_def wrap64_def)

lemma load_ok_iff: "load_ok f \<longleftrightarrow> f = NaN \<or> (\<exists>q. f = Fin q \<and> 0 < q \<and> q \<le> 1)"
  by (cases f) (auto simp: load_ok_def)

lemma resource_Validate_iff:
  "resource_Validate c = None \<longleftrightarrow> FaultConfig_Validate (rc_base c) = None \<and> load_ok (rc_target_load c)"
  by (auto simp: resource_Validate_def split: option.splits)

lemma fault_Start_valid: "fault_Start os f = None \<Longrightarrow> fault_Validate f = None"
  by (auto simp: fault_Start_def split: option.splits)

lemma io_defaults_pos:
  "0 < DefaultFileSize" "0 < DefaultFileCount" "0 < DefaultWorkers" "0 < DefaultReadRate"
  by (simp_all add: DefaultFileSize_def DefaultFileCount_def DefaultWorkers_def DefaultReadRate_def)

section \<open>Properties of validation\<close>

text \<open>
  What the common validation accepts, exactly: a positive duration and ramps that are each
  shorter, with a sum that is shorter too or that overflows 64 bits; a sum of 2^63 nanoseconds
  or more wraps around and passes.
\<close>

theorem FaultConfig_Validate_exact:
  assumes "i64 (fc_duration c)" and "i64 (fc_ramp_up c)" and "i64 (fc_ramp_down c)"
  shows "FaultConfig_Validate c = None \<longleftrightarrow>
    0 < fc_duration c \<and> 0 \<le> fc_ramp_up c \<and> fc_ramp_up c < fc_duration c \<and>
    0 \<le> fc_ramp_down c \<and> fc_ramp_down c < fc_duration c \<and>
    (fc_ramp_up c + fc_ramp_down c < fc_duration c \<or> 2 ^ 63 \<le> fc_ramp_up c + fc_ramp_down c)"
  by (rule FaultConfig_Validate_iff [OF assms])

theorem FaultConfig_Validate_exact_witness:
  "FaultConfig_Validate \<lparr>fc_duration = 2 ^ 63 - 1, fc_ramp_up = 2 ^ 62, fc_ramp_down = 2 ^ 62\<rparr> = None"
  by (subst FaultConfig_Validate_exact) (simp_all add: i64_def)

text \<open>
  The target load of a CPU fault: a fraction in (0, 1], or NaN, which no comparison rejects.
\<close>

theorem resource_Validate_exact:
  "resource_Validate c = None \<longleftrightarrow>
     FaultConfig_Validate (rc_base c) = None \<and>
     (rc_target_load c = NaN \<or> (\<exists>q. rc_target_load c = Fin q \<and> 0 < q \<and> q \<le> 1))"
  by (simp add: resource_Validate_iff load_ok_iff)

text \<open>
  The constructors of \<open>faults.go\<close> yield a fault that validates exactly for the arguments
  listed here; the defaults they fill in never stand in the way.
\<close>

theorem constructors_valid:
  "(fault_Validate (NewHangFault d) = None \<longleftrightarrow> 0 < d) \<and>
   (fault_Validate (NewErrorFault code m) = None \<longleftrightarrow> 100 \<le> code \<and> code \<le> 599) \<and>
   (fault_Validate (NewLatencyFault dl j) = None \<longleftrightarrow> 0 < dl \<or> 0 < j) \<and>
   (fault_Validate (NewCPUStressFault d f) = None \<longleftrightarrow> 0 < d \<and> load_ok f) \<and>
   (fault_Validate (NewMemoryStressFault d f t) = None \<longleftrightarrow> 0 < d \<and> load_ok f) \<and>
   (fault_Validate (NewDiskStressFault d wr mx ch p) = None \<longleftrightarrow> 0 < d \<and> 0 < wr \<and> 0 < mx) \<and>
   (fault_Validate (NewIOStressFault d rr) = None \<longleftrightarrow> 0 < d \<and> 0 < rr)"
proof (intro conjI)
  have nr: "FaultConfig_Validate (no_ramps d) = (if 0 < d then None else Some DurationNotPositive)"
    by (simp add: FaultConfig_Validate_def wrap64_def)
  show "fault_Validate (NewHangFault d) = None \<longleftrightarrow> 0 < d" by (simp add: NewHangFault_def Hang_Validate_def)
  show "fault_Validate (NewErrorFault code m) = None \<longleftrightarrow> 100 \<le> code \<and> code \<le> 599"
    by (auto simp: NewErrorFault_def Error_Validate_def)
  show "fault_Validate (NewLatencyFault dl j) = None \<longleftrightarrow> 0 < dl \<or> 0 < j"
    by (auto simp: NewLatencyFault_def Latency_Validate_def)
  show "fault_Validate (NewCPUStressFault d f) = None \<longleftrightarrow> 0 < d \<and> load_ok f"
    by (simp add: nr NewCPUStressFault_def resource_Validate_def)
  show "fault_Validate (NewMemoryStressFault d f t) = None \<longleftrightarrow> 0 < d \<and> load_ok f"
    by (simp add: nr NewMemoryStressFault_def memory_Validate_def)
  show "fault_Validate (NewDiskStressFault d wr mx ch p) = None \<longleftrightarrow> 0 < d \<and> 0 < wr \<and> 0 < mx"
    by (simp add: nr NewDiskStressFault_def disk_Validate_def)
  show "fault_Validate (NewIOStressFault d rr) = None \<longleftrightarrow> 0 < d \<and> 0 < rr"
    using io_defaults_pos by (simp add: nr NewIOStressFault_def io_Validate_def)
qed

end
