(* ===== verification/Evaluator.thy ===== *)
theory Evaluator
  imports Fault_Kinds
begin

text \<open>
  The rule engine contract and its two implementations: injection points, modes, start
  policies, cache-box actions and decisions (\<open>internal/evaluator/evaluator.go\<close>), the static
  evaluator (\<open>internal/evaluator/static.go\<close>) and the demo evaluator of \<open>admin.go\<close>. The Go
  enumerations are integers: the last constructor of each datatype stands for the integers
  without a name.
\<close>

section \<open>Enumerations\<close>

datatype injection_point = Ingress | Egress | Transient | Custom | PointOther int

definition point_String :: "injection_point \<Rightarrow> string" where
  "point_String p =
     (case p of Ingress \<Rightarrow> ''ingress'' | Egress \<Rightarrow> ''egress'' | Transient \<Rightarrow> ''transient''
      | Custom \<Rightarrow> ''custom'' | PointOther i \<Rightarrow> ''point('' @ format_int i @ '')'')"

datatype mode = Background | Inline | ModeUnknown int

definition mode_String :: "mode \<Rightarrow> string" where
  "mode_String m =
     (case m of Background \<Rightarrow> ''background'' | Inline \<Rightarrow> ''inline''
      | ModeUnknown i \<Rightarrow> ''mode('' @ format_int i @ '')'')"

datatype start_policy = DeduplicateByRule | DeduplicateByType | AlwaysStart | PolicyOther int

definition policy_String :: "start_policy \<Rightarrow> string" where
  "policy_String p =
     (case p of DeduplicateByRule \<Rightarrow> ''deduplicate_by_rule''
      | DeduplicateByType \<Rightarrow> ''deduplicate_by_type'' | AlwaysStart \<Rightarrow> ''always_start''
      | PolicyOther i \<Rightarrow> ''start_policy('' @ format_int i @ '')'')"

datatype cachebox_action =
  CacheBoxNone | CacheBoxPassthrough | CacheBoxReplay | CacheBoxReplayDelay | CacheBoxOther int

definition action_String :: "cachebox_action \<Rightarrow> string" where
  "action_String a =
     (case a of CacheBoxNone \<Rightarrow> ''none'' | CacheBoxPassthrough \<Rightarrow> ''passthrough''
      | CacheBoxReplay \<Rightarrow> ''replay'' | CacheBoxReplayDelay \<Rightarrow> ''replay_with_delay''
      | CacheBoxOther i \<Rightarrow> ''cachebox('' @ format_int i @ '')'')"

section \<open>Requests and decisions\<close>

record eval_request =
  er_point :: injection_point
  er_labels :: labels

record decision =
  d_name :: string
  d_fault :: "fault option"
  d_reason :: string
  d_mode :: mode
  d_cachebox :: cachebox_action
  d_policy :: start_policy

text \<open>The invariant the \<open>Decision\<close> type documents.\<close>

definition decision_ok :: "decision \<Rightarrow> bool" where
  "decision_ok d \<longleftrightarrow> (d_cachebox d \<noteq> CacheBoxNone \<longrightarrow> d_fault d = None)"

section \<open>The static evaluator\<close>

record static_rule =
  sr_name :: string
  sr_point :: injection_point
  sr_labels :: labels
  sr_decision :: decision

record static_evaluator =
  se_rules :: "static_rule list"

definition NewStaticEvaluator :: "static_rule list \<Rightarrow> static_evaluator" where
  "NewStaticEvaluator rules = \<lparr>se_rules = rules\<rparr>"

text \<open>The range loop of \<open>labelsMatch\<close>.\<close>

fun labelsMatch :: "labels \<Rightarrow> labels \<Rightarrow> bool" where
  "labelsMatch [] have_labels = True"
| "labelsMatch ((k, v) # want) have_labels =
     (if go_index have_labels k \<noteq> v then False else labelsMatch want have_labels)"

fun first_match :: "static_rule list \<Rightarrow> eval_request \<Rightarrow> decision option" where
  "first_match [] req = None"
| "first_match (r # rules) req =
     (if sr_point r \<noteq> er_point req then first_match rules req
      else if \<not> labelsMatch (sr_labels r) (er_labels req) then first_match rules req
      else Some (sr_decision r))"

definition Evaluate :: "static_evaluator \<Rightarrow> eval_request \<Rightarrow> decision option" where
  "Evaluate e req = first_match (se_rules e) req"

definition SetRules :: "static_rule list \<Rightarrow> static_evaluator \<Rightarrow> static_evaluator" where
  "SetRules rules e = e\<lparr>se_rules := rules\<rparr>"

definition Rules :: "static_evaluator \<Rightarrow> static_rule list" where
  "Rules e = se_rules e"

section \<open>The demo evaluator\<close>

record 'req demo_evaluator =
  de_decision :: "decision option"
  de_req :: "'req option"

definition demo_Evaluate :: "'req demo_evaluator \<Rightarrow> eval_request \<Rightarrow> decision option" where
  "demo_Evaluate d req = de_decision d"

definition demo_Set :: "decision option \<Rightarrow> 'req option \<Rightarrow> 'req demo_evaluator \<Rightarrow> 'req demo_evaluator" where
  "demo_Set dec req d = d\<lparr>de_decision := dec, de_req := req\<rparr>"

definition demo_Clear :: "'req demo_evaluator \<Rightarrow> 'req demo_evaluator" where
  "demo_Clear d = d\<lparr>de_decision := None, de_req := None\<rparr>"

definition demo_Active :: "'req demo_evaluator \<Rightarrow> 'req option" where
  "demo_Active d = de_req d"

section \<open>Matching\<close>

lemma labelsMatch_iff:
  "labelsMatch want have_labels \<longleftrightarrow> (\<forall>(k, v) \<in> set want. go_index have_labels k = v)"
  by (induction want have_labels rule: labelsMatch.induct) auto

lemma go_index_eq_iff:
  "go_index m k = v \<longleftrightarrow> map_of m k = Some v \<or> (map_of m k = None \<and> v = [])"
  by (auto simp: go_index_def split: option.splits)

text \<open>The order in which Go ranges over the wanted labels does not matter.\<close>

lemma labelsMatch_perm: "mset want = mset want' \<Longrightarrow> labelsMatch want m = labelsMatch want' m"
  unfolding labelsMatch_iff by (metis mset_eq_setD)

definition rule_matches :: "static_rule \<Rightarrow> eval_request \<Rightarrow> bool" where
  "rule_matches r req \<longleftrightarrow> sr_point r = er_point req \<and> labelsMatch (sr_labels r) (er_labels req)"

lemma first_match_find:
  "first_match rules req = map_option sr_decision (find (\<lambda>r. rule_matches r req) rules)"
  by (induction rules req rule: first_match.induct) (auto simp: rule_matches_def)

lemma Evaluate_Some_iff:
  "Evaluate e req = Some d \<longleftrightarrow>
   (\<exists>i < length (se_rules e). rule_matches (se_rules e ! i) req \<and> sr_decision (se_rules e ! i) = d \<and>
      (\<forall>j < i. \<not> rule_matches (se_rules e ! j) req))"
  by (auto simp: Evaluate_def first_match_find find_Some_iff)

lemma Evaluate_None_iff:
  "Evaluate e req = None \<longleftrightarrow> (\<forall>r \<in> set (se_rules e). \<not> rule_matches r req)"
  by (auto simp: Evaluate_def first_match_find find_None_iff)

section \<open>Rule stores\<close>

text \<open>
  What the control plane (\<open>Apply\<close>, the poll loop, the rules endpoint) relies on when it
  installs rules: the whole list is replaced, and evaluation depends on the current list only.
\<close>

locale rule_store =
  fixes set_rules :: "static_rule list \<Rightarrow> 'e \<Rightarrow> 'e"
    and get_rules :: "'e \<Rightarrow> static_rule list"
    and eval :: "'e \<Rightarrow> eval_request \<Rightarrow> decision option"
  assumes get_set: "get_rules (set_rules rs e) = rs"
    and eval_rules: "get_rules e = get_rules e' \<Longrightarrow> eval e = eval e'"
    and eval_from: "eval e req = Some d \<Longrightarrow> \<exists>r \<in> set (get_rules e). sr_decision r = d \<and> sr_point r = er_point req"
begin

lemma set_rules_overwrites: "eval (set_rules rs (set_rules rs' e)) = eval (set_rules rs e')"
  by (rule eval_rules) (simp add: get_set)

lemma set_empty: "eval (set_rules [] e) req = None"
  using eval_from [of "set_rules [] e" req] by (cases "eval (set_rules [] e) req") (auto simp: get_set)

lemma eval_decisions:
  "(\<And>r. r \<in> set rs \<Longrightarrow> P (sr_decision r)) \<Longrightarrow> eval (set_rules rs e) req = Some d \<Longrightarrow> P d"
  using eval_from [of "set_rules rs e" req d] by (auto simp: get_set)

end

interpretation static: rule_store SetRules Rules Evaluate
proof unfold_locales
  show "Rules (SetRules rs e) = rs" for rs e by (simp add: Rules_def SetRules_def)
  show "Evaluate e = Evaluate e'" if "Rules e = Rules e'" for e e'
    using that by (simp add: fun_eq_iff Evaluate_def Rules_def)
  show "\<exists>r \<in> set (Rules e). sr_decision r = d \<and> sr_point r = er_point req"
    if "Evaluate e req = Some d" for e req d
    using that by (auto simp: Evaluate_Some_iff Rules_def rule_matches_def)
qed

section \<open>Properties of the static evaluator\<close>

text \<open>
  The first matching rule decides: the evaluator returns a decision exactly when some rule
  matches, and it is the decision of the first rule in the list that does.
\<close>

theorem Evaluate_first_match:
  "(Evaluate e req = Some d \<longleftrightarrow>
     (\<exists>i < length (se_rules e). rule_matches (se_rules e ! i) req \<and> sr_decision (se_rules e ! i) = d \<and>
        (\<forall>j < i. \<not> rule_matches (se_rules e ! j) req))) \<and>
   (Evaluate e req = None \<longleftrightarrow> (\<forall>r \<in> set (se_rules e). \<not> rule_matches r req))"
  using Evaluate_Some_iff Evaluate_None_iff by blast

definition two_rules :: static_evaluator where
  "two_rules = NewStaticEvaluator
     (map (\<lambda>(p, n). \<lparr>sr_name = n, sr_point = p, sr_labels = [],
        sr_decision = \<lparr>d_name = n, d_fault = None, d_reason = [], d_mode = Inline, d_cachebox = CacheBoxNone,
                       d_policy = AlwaysStart\<rparr>\<rparr>)
       [(Egress, ''a''), (Ingress, ''b''), (Ingress, ''c'')])"

theorem Evaluate_first_match_witness:
  "\<exists>d. Evaluate two_rules \<lparr>er_point = Ingress, er_labels = []\<rparr> = Some d \<and> d_name d = ''b''"
proof -
  let ?d = "sr_decision (se_rules two_rules ! 1)"
  have "\<exists>i < length (se_rules two_rules).
      rule_matches (se_rules two_rules ! i) \<lparr>er_point = Ingress, er_labels = []\<rparr> \<and> sr_decision (se_rules two_rules ! i) = ?d \<and>
      (\<forall>j < i. \<not> rule_matches (se_rules two_rules ! j) \<lparr>er_point = Ingress, er_labels = []\<rparr>)"
    by (intro exI [of _ 1]) (simp add: two_rules_def NewStaticEvaluator_def rule_matches_def)
  with Evaluate_first_match [of two_rules "\<lparr>er_point = Ingress, er_labels = []\<rparr>" ?d] show ?thesis
    by (intro exI [of _ ?d]) (simp add: two_rules_def NewStaticEvaluator_def)
qed

text \<open>
  When labels match: every wanted label has its value in the request, where a label wanted
  with the empty value also matches a request that does not carry it.
\<close>

theorem labelsMatch_exact:
  "labelsMatch want m \<longleftrightarrow>
     (\<forall>(k, v) \<in> set want. map_of m k = Some v \<or> (map_of m k = None \<and> v = []))"
  by (simp add: labelsMatch_iff go_index_eq_iff)

theorem labelsMatch_exact_witness:
  "labelsMatch [(''debug'', [])] [(''path'', ''/'')] \<and> \<not> labelsMatch [(''path'', ''/x'')] [(''path'', ''/'')]"
  by (subst labelsMatch_exact, subst labelsMatch_exact) simp

text \<open>
  Installing rules replaces the list: what was installed before has no influence, every
  decision comes from the new list, and after installing no rules nothing matches.
\<close>

theorem SetRules_replaces:
  "Rules (SetRules rs e) = rs \<and> Evaluate (SetRules rs (SetRules rs' e)) = Evaluate (SetRules rs e') \<and>
   Evaluate (SetRules [] e) req = None \<and>
   (Evaluate (SetRules rs e) req = Some d \<longrightarrow> (\<exists>r \<in> set rs. sr_decision r = d \<and> sr_point r = er_point req))"
  using static.get_set static.set_empty static.eval_from [of "SetRules rs e" req d]
    static.eval_rules [of "SetRules rs (SetRules rs' e)" "SetRules rs e'"]
  by (auto simp: static.get_set)

theorem SetRules_replaces_witness:
  "Rules (SetRules [] (NewStaticEvaluator [])) = []"
  using SetRules_replaces by blast

end
