(* ===== verification/Fault_Registry.thy ===== *)
theory Fault_Registry
  imports Evaluator
begin

text \<open>
  Fault handles (\<open>Handle\<close> in \<open>internal/fault/fault.go\<close>) and the registry that deduplicates
  service-scoped faults (\<open>internal/interceptor/registry.go\<close>). The record \<open>world\<close> holds what
  several goroutines share: the handles, the registry's map, wait group and flags, and the
  log of span operations. \<open>StartOrJoin\<close> is a critical section, \<open>reg_enter\<close>, followed by the
  registration of a callback outside it; \<open>reg_step\<close> lets other goroutines run between the two.
\<close>

section \<open>Handles and spans\<close>

datatype callback = RecordSpan nat | FreeKey string | WgDone

text \<open>
  \<open>hc_cb\<close> is the \<open>onResult\<close> pointer, \<open>hc_sent\<close> says that \<open>Send\<close> has run. The other two
  fields are bookkeeping of the specification: the callback that \<open>Send\<close> fired, and whether
  the registry added the handle to its wait group.
\<close>

record hcell =
  hc_cb :: "callback option"
  hc_sent :: bool
  hc_fired :: "callback option"
  hc_tracked :: bool

datatype span_op =
    SpanStart nat string labels
  | SpanAttrs nat labels
  | SpanEvent nat string labels
  | SpanEmitter nat
  | SpanEndError nat
  | SpanResult nat
  | SpanEnd nat

record world =
  w_handles :: "hcell list"
  w_active :: "string \<rightharpoonup> nat"
  w_wg :: int
  w_closed :: bool
  w_cancelled :: bool
  w_spans :: nat
  w_log :: "span_op list"

definition NewFaultRegistry :: world where
  "NewFaultRegistry =
     \<lparr>w_handles = [], w_active = Map.empty, w_wg = 0, w_closed = False, w_cancelled = False,
      w_spans = 0, w_log = []\<rparr>"

definition log_op :: "span_op \<Rightarrow> world \<Rightarrow> world" where
  "log_op x w = w\<lparr>w_log := w_log w @ [x]\<rparr>"

definition NewHandle :: "world \<Rightarrow> nat \<times> world" where
  "NewHandle w =
     (length (w_handles w),
      w\<lparr>w_handles := w_handles w @
        [\<lparr>hc_cb = None, hc_sent = False, hc_fired = None, hc_tracked = False\<rparr>]\<rparr>)"

definition update_handle :: "nat \<Rightarrow> (hcell \<Rightarrow> hcell) \<Rightarrow> world \<Rightarrow> world" where
  "update_handle h f w =
     (if h < length (w_handles w)
      then w\<lparr>w_handles := (w_handles w)[h := f (w_handles w ! h)]\<rparr> else w)"

definition SetOnResult :: "nat \<Rightarrow> callback \<Rightarrow> world \<Rightarrow> world" where
  "SetOnResult h cb = update_handle h (\<lambda>c. c\<lparr>hc_cb := Some cb\<rparr>)"

text \<open>The effects of the three callbacks the code registers.\<close>

definition fire :: "callback \<Rightarrow> world \<Rightarrow> world" where
  "fire cb w =
     (case cb of
        RecordSpan s \<Rightarrow> log_op (SpanResult s) w
      | FreeKey k \<Rightarrow> w\<lparr>w_active := (w_active w)(k := None), w_wg := w_wg w - 1\<rparr>
      | WgDone \<Rightarrow> w\<lparr>w_wg := w_wg w - 1\<rparr>)"

text \<open>
  \<open>Send\<close>: the callback, if one is registered, then the send on the channel of capacity one.
  A second \<open>Send\<close> would block; no fault sends twice.
\<close>

definition Send :: "nat \<Rightarrow> world \<Rightarrow> world" where
  "Send h w =
     (if h < length (w_handles w) \<and> \<not> hc_sent (w_handles w ! h)
      then (let cb = hc_cb (w_handles w ! h);
                w1 = (case cb of None \<Rightarrow> w | Some c \<Rightarrow> fire c w)
            in update_handle h (\<lambda>c. c\<lparr>hc_sent := True, hc_fired := cb\<rparr>) w1)
      else w)"

section \<open>Starting or joining\<close>

type_synonym start_fn = "world \<Rightarrow> (fault_error + nat) \<times> world"

text \<open>
  The part of \<open>StartOrJoin\<close> up to the unlock (for \<open>AlwaysStart\<close>: up to \<open>wg.Add\<close>). The
  result is an error, nothing (the call joined a running fault), or the new handle with
  the callback still to be registered on it.
\<close>

definition reg_enter ::
  "string \<Rightarrow> start_policy \<Rightarrow> start_fn \<Rightarrow> world \<Rightarrow> (fault_error + (nat \<times> callback) option) \<times> world" where
  "reg_enter key policy startFn w =
     (if policy = AlwaysStart
      then (case startFn w of
              (Inl e, w') \<Rightarrow> (Inl e, w')
            | (Inr h, w') \<Rightarrow>
                (Inr (Some (h, WgDone)),
                 update_handle h (\<lambda>c. c\<lparr>hc_tracked := True\<rparr>) (w'\<lparr>w_wg := w_wg w' + 1\<rparr>)))
      else if w_active w key \<noteq> None then (Inr None, w)
      else (case startFn w of
              (Inl e, w') \<Rightarrow> (Inl e, w')
            | (Inr h, w') \<Rightarrow>
                (Inr (Some (h, FreeKey key)),
                 update_handle h (\<lambda>c. c\<lparr>hc_tracked := True\<rparr>)
                   (w'\<lparr>w_active := (w_active w')(key \<mapsto> h), w_wg := w_wg w' + 1\<rparr>))))"

definition StartOrJoin ::
  "string \<Rightarrow> start_policy \<Rightarrow> start_fn \<Rightarrow> world \<Rightarrow> (fault_error + (nat option \<times> bool)) \<times> world" where
  "StartOrJoin key policy startFn w =
     (case reg_enter key policy startFn w of
        (Inl e, w') \<Rightarrow> (Inl e, w')
      | (Inr None, w') \<Rightarrow> (Inr (None, True), w')
      | (Inr (Some (h, cb)), w') \<Rightarrow> (Inr (Some h, False), SetOnResult h cb w'))"

text \<open>
  \<open>Close\<close> up to \<open>cancel\<close>; it then waits until the wait group is zero.
\<close>

definition Close_begin :: "world \<Rightarrow> world" where
  "Close_begin w = (if w_closed w then w else w\<lparr>w_closed := True, w_cancelled := True\<rparr>)"

definition Close_returns :: "world \<Rightarrow> bool" where
  "Close_returns w \<longleftrightarrow> w_wg w = 0"

section \<open>Steps\<close>

text \<open>
  A start function that succeeded: it made one new handle, with at most a span callback on
  it, and left the rest of the registry alone. The fault's goroutine may already have sent
  its result.
\<close>

definition fresh_start :: "world \<Rightarrow> nat \<Rightarrow> world \<Rightarrow> bool" where
  "fresh_start w h w' \<longleftrightarrow>
     h = length (w_handles w) \<and> length (w_handles w') = Suc h \<and>
     take h (w_handles w') = w_handles w \<and>
     \<not> hc_tracked (w_handles w' ! h) \<and> (\<not> hc_sent (w_handles w' ! h) \<longrightarrow> hc_fired (w_handles w' ! h) = None) \<and>
     (case hc_fired (w_handles w' ! h) of None \<Rightarrow> True | Some cb \<Rightarrow> \<exists>s. cb = RecordSpan s) \<and>
     (case hc_cb (w_handles w' ! h) of None \<Rightarrow> True | Some cb \<Rightarrow> \<exists>s. cb = RecordSpan s) \<and>
     w_active w' = w_active w \<and> w_wg w' = w_wg w"

type_synonym reg_state = "world \<times> (nat \<times> callback) list"

text \<open>
  The second component lists the calls between the end of the critical section and
  \<open>SetOnResult\<close>. A call that joins or fails changes nothing here.
\<close>

inductive reg_step :: "reg_state \<Rightarrow> reg_state \<Rightarrow> bool" where
  enter: "startFn w = (Inr h, w1) \<Longrightarrow> fresh_start w h w1 \<Longrightarrow>
     reg_enter key policy startFn w = (Inr (Some p), w') \<Longrightarrow>
     reg_step (w, pend) (w', p # pend)"
| set_callback: "(h, cb) \<in> set pend \<Longrightarrow>
     reg_step (w, pend) (SetOnResult h cb w, remove1 (h, cb) pend)"
| deliver: "h < length (w_handles w) \<Longrightarrow> \<not> hc_sent (w_handles w ! h) \<Longrightarrow>
     reg_step (w, pend) (Send h w, pend)"
| close: "reg_step (w, pend) (Close_begin w, pend)"

inductive reg_reach :: "reg_state \<Rightarrow> reg_state \<Rightarrow> bool" for s0 :: reg_state where
  reg_refl: "reg_reach s0 s0"
| reg_trans: "reg_reach s0 s \<Longrightarrow> reg_step s t \<Longrightarrow> reg_reach s0 t"

section \<open>The invariant\<close>

definition owns :: "world \<Rightarrow> (nat \<times> callback) list \<Rightarrow> nat \<Rightarrow> callback \<Rightarrow> bool" where
  "owns w pend h cb \<longleftrightarrow> (h, cb) \<in> set pend \<or> (h < length (w_handles w) \<and> hc_cb (w_handles w ! h) = Some cb)"

definition unreleased :: "hcell \<Rightarrow> bool" where
  "unreleased c \<longleftrightarrow> hc_tracked c \<and>
     (case hc_fired c of None \<Rightarrow> True | Some cb \<Rightarrow> \<exists>s. cb = RecordSpan s)"

definition pend_ok :: "world \<Rightarrow> (nat \<times> callback) list \<Rightarrow> bool" where
  "pend_ok w pend \<longleftrightarrow> distinct (map fst pend) \<and>
     (\<forall>(h, cb) \<in> set pend. h < length (w_handles w) \<and> (\<forall>s. cb \<noteq> RecordSpan s) \<and>
        hc_tracked (w_handles w ! h) \<and>
        (case hc_cb (w_handles w ! h) of None \<Rightarrow> True | Some cb \<Rightarrow> \<exists>s. cb = RecordSpan s))"

definition cells_ok :: "world \<Rightarrow> bool" where
  "cells_ok w \<longleftrightarrow>
     (\<forall>c \<in> set (w_handles w). (\<not> hc_sent c \<longrightarrow> hc_fired c = None) \<and>
        (\<forall>cb. hc_cb c = Some cb \<and> (\<forall>s. cb \<noteq> RecordSpan s) \<longrightarrow> hc_tracked c))"

definition active_owned :: "world \<Rightarrow> (nat \<times> callback) list \<Rightarrow> bool" where
  "active_owned w pend \<longleftrightarrow>
     (\<forall>k h. w_active w k = Some h \<longrightarrow> h < length (w_handles w) \<and> owns w pend h (FreeKey k))"

definition owned_active :: "world \<Rightarrow> (nat \<times> callback) list \<Rightarrow> bool" where
  "owned_active w pend \<longleftrightarrow>
     (\<forall>k h. owns w pend h (FreeKey k) \<longrightarrow> h < length (w_handles w) \<longrightarrow>
        \<not> hc_sent (w_handles w ! h) \<longrightarrow> w_active w k = Some h)"

definition wg_exact :: "world \<Rightarrow> bool" where
  "wg_exact w \<longleftrightarrow> w_wg w = int (length (filter unreleased (w_handles w)))"

definition reg_inv :: "reg_state \<Rightarrow> bool" where
  "reg_inv s \<longleftrightarrow>
     pend_ok (fst s) (snd s) \<and> cells_ok (fst s) \<and> active_owned (fst s) (snd s) \<and>
     owned_active (fst s) (snd s) \<and> wg_exact (fst s)"

lemma update_handle_simps [simp]:
  "w_active (update_handle h f w) = w_active w" "w_wg (update_handle h f w) = w_wg w"
  "w_log (update_handle h f w) = w_log w" "w_closed (update_handle h f w) = w_closed w"
  "length (w_handles (update_handle h f w)) = length (w_handles w)"
  by (simp_all add: update_handle_def)

lemma update_handle_nth:
  "i < length (w_handles w) \<Longrightarrow>
   w_handles (update_handle h f w) ! i = (if i = h then f (w_handles w ! h) else w_handles w ! i)"
  by (simp add: update_handle_def nth_list_update)

lemma cells_okD:
  assumes "cells_ok w" and "h < length (w_handles w)"
  shows "\<not> hc_sent (w_handles w ! h) \<Longrightarrow> hc_fired (w_handles w ! h) = None"
    and "hc_cb (w_handles w ! h) = Some cb \<Longrightarrow> \<forall>s. cb \<noteq> RecordSpan s \<Longrightarrow> hc_tracked (w_handles w ! h)"
  using assms nth_mem unfolding cells_ok_def by blast+

lemma cells_okI:
  assumes "\<And>h. h < length (w_handles w) \<Longrightarrow> \<not> hc_sent (w_handles w ! h) \<Longrightarrow> hc_fired (w_handles w ! h) = None"
    and "\<And>h cb. h < length (w_handles w) \<Longrightarrow> hc_cb (w_handles w ! h) = Some cb \<Longrightarrow> \<forall>s. cb \<noteq> RecordSpan s \<Longrightarrow>
        hc_tracked (w_handles w ! h)"
  shows "cells_ok w"
  using assms by (auto simp: cells_ok_def all_set_conv_all_nth)

lemma pend_okD:
  assumes "pend_ok w pend" and "(h, cb) \<in> set pend"
  shows "h < length (w_handles w)" and "\<forall>s. cb \<noteq> RecordSpan s" and "hc_tracked (w_handles w ! h)"
    and "hc_cb (w_handles w ! h) = Some cb' \<Longrightarrow> \<exists>s. cb' = RecordSpan s"
    and "(h, cb'') \<in> set pend \<Longrightarrow> cb'' = cb"
  using assms by (auto simp: pend_ok_def dest: eq_key_imp_eq_value)

lemma reg_invD:
  assumes "reg_inv (w, pend)"
  shows "pend_ok w pend" and "cells_ok w" and "active_owned w pend" and "owned_active w pend" and "wg_exact w"
  using assms by (simp_all add: reg_inv_def)

lemma active_ownedD:
  "active_owned w pend \<Longrightarrow> w_active w k = Some h \<Longrightarrow> h < length (w_handles w) \<and> owns w pend h (FreeKey k)"
  by (simp add: active_owned_def)

lemma owned_activeD:
  "owned_active w pend \<Longrightarrow> owns w pend h (FreeKey k) \<Longrightarrow> h < length (w_handles w) \<Longrightarrow>
   \<not> hc_sent (w_handles w ! h) \<Longrightarrow> w_active w k = Some h"
  by (simp add: owned_active_def)

lemma remove1_pend:
  assumes "distinct (map fst pend)" and "(h, cb) \<in> set pend"
  shows "distinct (map fst (remove1 (h, cb) pend))"
    and "p \<in> set (remove1 (h, cb) pend) \<longleftrightarrow> p \<in> set pend \<and> fst p \<noteq> h"
proof -
  have d: "distinct pend" using assms(1) by (simp add: distinct_map)
  show "distinct (map fst (remove1 (h, cb) pend))"
    using assms(1) d by (auto simp: distinct_map distinct_remove1 set_remove1_eq intro: inj_on_subset)
  have "p = (h, cb)" if "p \<in> set pend" "fst p = h"
    using that assms by (metis eq_key_imp_eq_value prod.collapse)
  then show "p \<in> set (remove1 (h, cb) pend) \<longleftrightarrow> p \<in> set pend \<and> fst p \<noteq> h"
    using d assms(2) by (auto simp: set_remove1_eq)
qed

lemma reg_inv_set_callback:
  assumes inv: "reg_inv (w, pend)" and mem: "(h, cb) \<in> set pend"
  shows "reg_inv (SetOnResult h cb w, remove1 (h, cb) pend)"
proof -
  let ?w = "SetOnResult h cb w" and ?p = "remove1 (h, cb) pend"
  note D = reg_invD [OF inv] and P = pend_okD [OF reg_invD(1) [OF inv] mem]
  have dist: "distinct (map fst pend)" using D(1) by (simp add: pend_ok_def)
  note R = remove1_pend [OF dist mem]
  have nth: "w_handles ?w ! i = (if i = h then (w_handles w ! h)\<lparr>hc_cb := Some cb\<rparr> else w_handles w ! i)"
    if "i < length (w_handles w)" for i
    using that by (simp add: SetOnResult_def update_handle_nth)
  have len: "length (w_handles ?w) = length (w_handles w)" by (simp add: SetOnResult_def)
  have owns: "owns ?w ?p i (FreeKey k) = owns w pend i (FreeKey k)" for i k
  proof (cases "i = h")
    case True
    have "owns ?w ?p h (FreeKey k) \<longleftrightarrow> cb = FreeKey k"
      using R(2) nth [of h] P(1) len by (simp add: owns_def)
    moreover have "owns w pend h (FreeKey k) \<longleftrightarrow> cb = FreeKey k"
      using P(4) [of "FreeKey k"] P(5) [of "FreeKey k"] mem by (auto simp: owns_def)
    ultimately show ?thesis using True by simp
  next
    case False
    then show ?thesis using R(2) nth [of i] len by (auto simp: owns_def)
  qed
  have sent: "hc_sent (w_handles ?w ! i) = hc_sent (w_handles w ! i)" if "i < length (w_handles w)" for i
    using nth [OF that] by simp
  have "pend_ok ?w ?p"
    using D(1) R nth len by (auto simp: pend_ok_def split_beta)
  moreover have "cells_ok ?w"
    by (rule cells_okI) (use cells_okD [OF D(2)] nth len P(3) in \<open>auto split: if_splits\<close>)
  moreover have "wg_exact ?w"
    using D(5) P(1) by (simp add: wg_exact_def SetOnResult_def update_handle_def length_filter_update unreleased_def)
  moreover have "active_owned ?w ?p"
    using active_ownedD [OF D(3)] owns len by (simp add: active_owned_def SetOnResult_def)
  moreover have "owned_active ?w ?p"
    using owned_activeD [OF D(4)] owns len sent by (simp add: owned_active_def SetOnResult_def)
  ultimately show ?thesis by (simp add: reg_inv_def)
qed


lemma fire_simps [simp]:
  "w_handles (fire cb w) = w_handles w"
  by (cases cb) (simp_all add: fire_def log_op_def)

lemma Send_handles:
  assumes "h < length (w_handles w)" and "\<not> hc_sent (w_handles w ! h)"
  shows "w_handles (Send h w) =
     (w_handles w)[h := (w_handles w ! h)\<lparr>hc_sent := True, hc_fired := hc_cb (w_handles w ! h)\<rparr>]"
  using assms by (cases "hc_cb (w_handles w ! h)") (simp_all add: Send_def update_handle_def Let_def)

lemma Send_active:
  assumes "h < length (w_handles w)" and "\<not> hc_sent (w_handles w ! h)"
  shows "w_active (Send h w) =
     (case hc_cb (w_handles w ! h) of Some (FreeKey k) \<Rightarrow> (w_active w)(k := None) | _ \<Rightarrow> w_active w)"
    and "w_wg (Send h w) =
     (case hc_cb (w_handles w ! h) of Some (FreeKey k) \<Rightarrow> w_wg w - 1 | Some WgDone \<Rightarrow> w_wg w - 1 | _ \<Rightarrow> w_wg w)"
  using assms by (auto simp: Send_def Let_def fire_def log_op_def split: option.splits callback.splits)

lemma reg_inv_deliver:
  assumes inv: "reg_inv (w, pend)" and h: "h < length (w_handles w)" and unsent: "\<not> hc_sent (w_handles w ! h)"
  shows "reg_inv (Send h w, pend)"
proof -
  note D = reg_invD [OF inv] and C = cells_okD [OF reg_invD(2) [OF inv] h]
  let ?w = "Send h w" and ?c = "w_handles w ! h"
  note H = Send_handles [OF h unsent] and A = Send_active [OF h unsent]
  have len: "length (w_handles ?w) = length (w_handles w)" by (simp add: H)
  have nth: "w_handles ?w ! i =
      (if i = h then ?c\<lparr>hc_sent := True, hc_fired := hc_cb ?c\<rparr> else w_handles w ! i)"
    if "i < length (w_handles w)" for i
    using that by (simp add: H nth_list_update)
  have owns: "owns ?w pend i cb = owns w pend i cb" for i cb
    using nth [of i] len by (cases "i = h") (auto simp: owns_def)
  have tracked: "hc_tracked ?c" if "hc_cb ?c = Some cb" "\<forall>s. cb \<noteq> RecordSpan s" for cb
    using C(2) that by blast
  have "pend_ok ?w pend"
    using D(1) nth len by (auto simp: pend_ok_def split_beta)
  moreover have "cells_ok ?w"
    by (rule cells_okI) (use cells_okD [OF D(2)] nth len in \<open>auto split: if_splits\<close>)
  moreover have "wg_exact ?w"
    using D(5) C(1) unsent h tracked
    by (auto simp: wg_exact_def H A length_filter_update unreleased_def split: option.splits callback.splits)
  moreover have "active_owned ?w pend"
    using active_ownedD [OF D(3)] owns len
    by (auto simp: active_owned_def A split: option.splits callback.splits if_splits)
  moreover have "owned_active ?w pend"
    unfolding owned_active_def
  proof (intro allI impI)
    fix k i
    assume o: "owns ?w pend i (FreeKey k)" and i: "i < length (w_handles ?w)" and s: "\<not> hc_sent (w_handles ?w ! i)"
    from s i len nth have ne: "i \<noteq> h" by auto
    with o i s len nth owns have act: "w_active w k = Some i"
      by (intro owned_activeD [OF D(4)]) auto
    have "hc_cb ?c \<noteq> Some (FreeKey k)"
    proof
      assume "hc_cb ?c = Some (FreeKey k)"
      then have "w_active w k = Some h"
        using h unsent by (intro owned_activeD [OF D(4)]) (auto simp: owns_def)
      with act ne show False by simp
    qed
    with act show "w_active ?w k = Some i"
      by (auto simp: A split: option.splits callback.splits)
  qed
  ultimately show ?thesis by (simp add: reg_inv_def)
qed

lemma reg_inv_cong:
  assumes "w_handles w' = w_handles w" and "w_active w' = w_active w" and "w_wg w' = w_wg w"
  shows "reg_inv (w', pend) = reg_inv (w, pend)"
  using assms
  by (simp only: reg_inv_def pend_ok_def cells_ok_def active_owned_def owned_active_def
      wg_exact_def owns_def fst_conv snd_conv)

lemma reg_inv_close: "reg_inv (w, pend) \<Longrightarrow> reg_inv (Close_begin w, pend)"
  by (subst reg_inv_cong [of _ w]) (simp_all add: Close_begin_def)

lemma reg_enter_Some:
  assumes "startFn w = (Inr h, w1)" and "reg_enter key policy startFn w = (Inr (Some p), w')"
  shows "(policy = AlwaysStart \<and> p = (h, WgDone) \<and>
            w' = update_handle h (\<lambda>c. c\<lparr>hc_tracked := True\<rparr>) (w1\<lparr>w_wg := w_wg w1 + 1\<rparr>)) \<or>
         (policy \<noteq> AlwaysStart \<and> w_active w key = None \<and> p = (h, FreeKey key) \<and>
            w' = update_handle h (\<lambda>c. c\<lparr>hc_tracked := True\<rparr>)
                   (w1\<lparr>w_active := (w_active w1)(key \<mapsto> h), w_wg := w_wg w1 + 1\<rparr>))"
  using assms by (auto simp: reg_enter_def split: if_splits)

lemma reg_inv_enter:
  assumes inv: "reg_inv (w, pend)" and start: "startFn w = (Inr h, w1)" and fresh: "fresh_start w h w1"
    and enter: "reg_enter key policy startFn w = (Inr (Some p), w')"
  shows "reg_inv (w', p # pend)"
proof -
  note D = reg_invD [OF inv] and E = reg_enter_Some [OF start enter]
  have h: "h = length (w_handles w)" and l1: "length (w_handles w1) = Suc h"
    and cell: "\<not> hc_tracked (w_handles w1 ! h)"
      "\<not> hc_sent (w_handles w1 ! h) \<longrightarrow> hc_fired (w_handles w1 ! h) = None"
      "case hc_fired (w_handles w1 ! h) of None \<Rightarrow> True | Some cb \<Rightarrow> \<exists>s. cb = RecordSpan s"
      "case hc_cb (w_handles w1 ! h) of None \<Rightarrow> True | Some cb \<Rightarrow> \<exists>s. cb = RecordSpan s"
    and same: "w_active w1 = w_active w" "w_wg w1 = w_wg w"
    and old: "take h (w_handles w1) = w_handles w"
    using fresh unfolding fresh_start_def by blast+
  define c where "c = (w_handles w1 ! h)\<lparr>hc_tracked := True\<rparr>"
  have "w_handles w1 = take (Suc h) (w_handles w1)" using l1 by simp
  also have "\<dots> = take h (w_handles w1) @ [w_handles w1 ! h]"
    by (rule take_Suc_conv_app_nth) (simp add: l1)
  finally have hs1: "w_handles w1 = w_handles w @ [w_handles w1 ! h]"
    unfolding old .
  have hs: "w_handles w' = w_handles w @ [c]"
    using E h hs1 l1 by (auto simp: update_handle_def c_def) (metis list_update_length)+
  have p: "fst p = h" "\<forall>s. snd p \<noteq> RecordSpan s" using E by auto
  have wg: "w_wg w' = w_wg w + 1" using E same by auto
  have cc: "hc_tracked c" "\<not> hc_sent c \<longrightarrow> hc_fired c = None" "unreleased c"
      "case hc_cb c of None \<Rightarrow> True | Some cb \<Rightarrow> \<exists>s. cb = RecordSpan s"
    using cell by (simp_all add: c_def unreleased_def)
  have new: "h' \<noteq> h" if "(h', cb) \<in> set pend" for h' cb
    using pend_okD(1) [OF D(1) that] h by simp
  have owns: "owns w' (p # pend) i (FreeKey k) \<longleftrightarrow> (i = h \<and> snd p = FreeKey k) \<or> (i \<noteq> h \<and> owns w pend i (FreeKey k))"
    for i k
    using h hs cc(4) p new [of i] by (cases p) (auto simp: owns_def nth_append split: option.splits)
  have "pend_ok w' (p # pend)"
    using D(1) hs h p cc new by (auto simp: pend_ok_def split_beta nth_append)
  moreover have "cells_ok w'"
    using D(2) cc hs by (auto simp: cells_ok_def)
  moreover have "wg_exact w'"
    using D(5) wg hs cc by (simp add: wg_exact_def unreleased_def)
  moreover have "active_owned w' (p # pend)"
  proof (unfold active_owned_def, intro allI impI)
    fix k i
    assume a: "w_active w' k = Some i"
    show "i < length (w_handles w') \<and> owns w' (p # pend) i (FreeKey k)"
    proof (cases "i = h")
      case True
      with a E same active_ownedD [OF D(3), of k i] h have "snd p = FreeKey k"
        by (auto split: if_splits)
      with True owns hs h show ?thesis by simp
    next
      case False
      with a E same have "w_active w k = Some i" by (auto split: if_splits)
      from active_ownedD [OF D(3) this] False owns hs show ?thesis by simp
    qed
  qed
  moreover have "owned_active w' (p # pend)"
  proof (unfold owned_active_def, intro allI impI)
    fix k i
    assume o: "owns w' (p # pend) i (FreeKey k)" and i: "i < length (w_handles w')"
      and s: "\<not> hc_sent (w_handles w' ! i)"
    show "w_active w' k = Some i"
    proof (cases "i = h")
      case True
      with o owns have "snd p = FreeKey k" by simp
      with E True show ?thesis by auto
    next
      case False
      with o i s owns hs h have "w_active w k = Some i"
        by (intro owned_activeD [OF D(4)]) (auto simp: nth_append split: if_splits)
      with E same show ?thesis by auto
    qed
  qed
  ultimately show ?thesis by (simp add: reg_inv_def)
qed

lemma reg_inv_step: "reg_step s t \<Longrightarrow> reg_inv s \<Longrightarrow> reg_inv t"
  by (induction rule: reg_step.induct)
    (blast intro: reg_inv_enter reg_inv_set_callback reg_inv_deliver reg_inv_close)+

lemma reg_inv_new: "reg_inv (NewFaultRegistry, [])"
  by (simp add: reg_inv_def NewFaultRegistry_def pend_ok_def cells_ok_def active_owned_def
      owned_active_def wg_exact_def owns_def)

lemma reg_inv_reach: "reg_reach s0 s \<Longrightarrow> reg_inv s0 \<Longrightarrow> reg_inv s"
  by (induction rule: reg_reach.induct) (auto dest: reg_inv_step)


section \<open>Lost callbacks\<close>

text \<open>
  A handle whose fault finished before \<open>SetOnResult\<close> was called: it is in the map, and the
  callback that would take it out will not fire again.
\<close>

definition leaked :: "world \<Rightarrow> string \<Rightarrow> nat \<Rightarrow> bool" where
  "leaked w k h \<longleftrightarrow> w_active w k = Some h \<and> h < length (w_handles w) \<and>
     hc_sent (w_handles w ! h) \<and> unreleased (w_handles w ! h)"

definition running_for :: "reg_state \<Rightarrow> string \<Rightarrow> nat \<Rightarrow> bool" where
  "running_for s k h \<longleftrightarrow> owns (fst s) (snd s) h (FreeKey k) \<and> h < length (w_handles (fst s)) \<and>
     \<not> hc_sent (w_handles (fst s) ! h)"

lemma running_for_active: "reg_inv s \<Longrightarrow> running_for s k h \<Longrightarrow> w_active (fst s) k = Some h"
  by (cases s) (auto simp: running_for_def dest: reg_invD(4) intro: owned_activeD)

lemma leaked_cong:
  assumes "leaked w k h" and "w_active w' k = w_active w k" and "h < length (w_handles w')"
    and "hc_sent (w_handles w' ! h) = hc_sent (w_handles w ! h)"
    and "unreleased (w_handles w' ! h) = unreleased (w_handles w ! h)"
  shows "leaked w' k h"
  using assms by (simp add: leaked_def)

lemma leaked_step:
  assumes step: "reg_step s t" and inv: "reg_inv s" and leak: "leaked (fst s) k h"
  shows "leaked (fst t) k h"
  using step inv leak
proof (induction rule: reg_step.induct)
  case (enter startFn w h0 w1 key policy p w' pend)
  have w1: "w_active w1 = w_active w" using enter.hyps(2) unfolding fresh_start_def by blast
  have k: "w_active w k = Some h" using enter.prems(2) by (simp add: leaked_def)
  have act: "w_active w' k = w_active w k"
    using reg_enter_Some [OF enter.hyps(1,3)] w1 k by auto
  have h: "h < length (w_handles w)" using enter.prems(2) by (simp add: leaked_def)
  have h0: "h0 = length (w_handles w)" "length (w_handles w1) = Suc h0" "take h0 (w_handles w1) = w_handles w"
    using enter.hyps(2) unfolding fresh_start_def by blast+
  then have ne: "h \<noteq> h0" and len: "h < length (w_handles w1)" using h by auto
  have old: "w_handles w1 ! h = w_handles w ! h" using h0 h by (metis nth_take)
  have same: "w_handles w' ! h = w_handles w ! h" "h < length (w_handles w')"
    using reg_enter_Some [OF enter.hyps(1,3)] old ne len by (auto simp: update_handle_nth)
  show ?case using enter.prems(2) act same by (auto intro: leaked_cong)
next
  case (set_callback h0 cb pend w)
  then have h: "h < length (w_handles w)" by (simp add: leaked_def)
  have nth: "w_handles (SetOnResult h0 cb w) ! h =
      (if h = h0 then (w_handles w ! h)\<lparr>hc_cb := Some cb\<rparr> else w_handles w ! h)"
    using h by (simp add: SetOnResult_def update_handle_nth)
  have "leaked w k h" using set_callback.prems(2) by simp
  then have "leaked (SetOnResult h0 cb w) k h"
  proof (rule leaked_cong)
    show "w_active (SetOnResult h0 cb w) k = w_active w k" by (simp add: SetOnResult_def)
    show "h < length (w_handles (SetOnResult h0 cb w))" using h by (simp add: SetOnResult_def)
  qed (simp_all only: nth, simp_all add: unreleased_def)
  then show ?case by simp
next
  case (deliver h0 w pend)
  note H = Send_handles [OF deliver.hyps] and A = Send_active(1) [OF deliver.hyps]
  have ne: "h0 \<noteq> h" using deliver by (auto simp: leaked_def)
  have "hc_cb (w_handles w ! h0) \<noteq> Some (FreeKey k)"
  proof
    assume "hc_cb (w_handles w ! h0) = Some (FreeKey k)"
    with deliver have "w_active w k = Some h0"
      by (intro owned_activeD [OF reg_invD(4)]) (auto simp: owns_def)
    with deliver.prems(2) ne show False by (simp add: leaked_def)
  qed
  then have "w_active (Send h0 w) k = w_active w k"
    by (auto simp: A split: option.splits callback.splits)
  with deliver.prems(2) ne H show ?case by (simp add: leaked_def)
next
  case (close w pend)
  then show ?case by (simp add: leaked_def Close_begin_def)
qed

lemma leaked_reach:
  "reg_reach s t \<Longrightarrow> reg_inv s \<Longrightarrow> leaked (fst s) k h \<Longrightarrow> leaked (fst t) k h"
proof (induction rule: reg_reach.induct)
  case (reg_trans u t)
  then show ?case using reg_inv_reach leaked_step by blast
qed simp

lemma leaked_blocks_close:
  assumes "reg_inv s" and "leaked (fst s) k h"
  shows "\<not> Close_returns (fst s)"
proof -
  have "w_handles (fst s) ! h \<in> set (filter unreleased (w_handles (fst s)))"
    using assms(2) by (simp add: leaked_def)
  then have "0 < length (filter unreleased (w_handles (fst s)))" by (cases "filter unreleased (w_handles (fst s))") auto
  with assms(1) show ?thesis by (simp add: Close_returns_def reg_inv_def wg_exact_def)
qed

lemma joined_when_active:
  "w_active w k = Some h \<Longrightarrow> policy \<noteq> AlwaysStart \<Longrightarrow> StartOrJoin k policy startFn w = (Inr (None, True), w)"
  by (simp add: StartOrJoin_def reg_enter_def)

text \<open>The shortest such run: start, result, and only then the registration.\<close>

definition plain_start :: start_fn where
  "plain_start w = (let (h, w') = NewHandle w in (Inr h, w'))"

lemma fresh_plain: "plain_start w = (Inr h, w1) \<Longrightarrow> fresh_start w h w1"
  by (auto simp: plain_start_def NewHandle_def fresh_start_def)

definition leak_state :: "string \<Rightarrow> reg_state" where
  "leak_state k =
     (let w = snd (reg_enter k DeduplicateByRule plain_start NewFaultRegistry)
      in (SetOnResult 0 (FreeKey k) (Send 0 w), []))"

lemma leak_state_reached: "reg_reach (NewFaultRegistry, []) (leak_state k)"
proof -
  let ?s = "plain_start NewFaultRegistry"
  let ?w = "snd (reg_enter k DeduplicateByRule plain_start NewFaultRegistry)"
  have start: "plain_start NewFaultRegistry = (Inr 0, snd ?s)"
    by (simp add: plain_start_def NewHandle_def NewFaultRegistry_def)
  have "reg_enter k DeduplicateByRule plain_start NewFaultRegistry = (Inr (Some (0, FreeKey k)), ?w)"
    using start by (simp add: reg_enter_def NewFaultRegistry_def plain_start_def NewHandle_def)
  from reg_step.enter [OF start fresh_plain [OF start] this]
  have 1: "reg_step (NewFaultRegistry, []) (?w, [(0, FreeKey k)])" .
  have "0 < length (w_handles ?w)" "\<not> hc_sent (w_handles ?w ! 0)"
    by (simp_all add: reg_enter_def NewFaultRegistry_def plain_start_def NewHandle_def update_handle_def)
  then have 2: "reg_step (?w, [(0, FreeKey k)]) (Send 0 ?w, [(0, FreeKey k)])"
    by (rule reg_step.deliver)
  have 3: "reg_step (Send 0 ?w, [(0, FreeKey k)]) (SetOnResult 0 (FreeKey k) (Send 0 ?w), [])"
    using reg_step.set_callback [of 0 "FreeKey k" "[(0, FreeKey k)]" "Send 0 ?w"] by simp
  from 1 2 3 show ?thesis
    unfolding leak_state_def Let_def by (meson reg_reach.intros)
qed

lemma leak_state_leaked: "leaked (fst (leak_state k)) k 0"
  by (simp add: leak_state_def leaked_def reg_enter_def NewFaultRegistry_def plain_start_def
      NewHandle_def update_handle_def Send_def SetOnResult_def unreleased_def Let_def)

section \<open>Properties of the registry\<close>

text \<open>
  C6. One running fault per key, and an exact wait group. In every interleaving of starts,
  registrations, results and closing, a handle that owns a key and has not sent its result is
  the one in the map, so no two run for one key; and the wait group counts exactly the tracked
  handles whose releasing callback has not fired.
\<close>

theorem registry_single_runner:
  assumes "reg_reach (NewFaultRegistry, []) s"
  shows "(running_for s k h \<longrightarrow> running_for s k h' \<longrightarrow> h = h') \<and>
     (running_for s k h \<longrightarrow> w_active (fst s) k = Some h) \<and>
     w_wg (fst s) = int (length (filter unreleased (w_handles (fst s))))"
proof -
  have inv: "reg_inv s" by (rule reg_inv_reach [OF assms reg_inv_new])
  then have "w_wg (fst s) = int (length (filter unreleased (w_handles (fst s))))"
    by (simp add: reg_inv_def wg_exact_def)
  with running_for_active [OF inv, of k h] running_for_active [OF inv, of k h'] show ?thesis by auto
qed

theorem registry_single_runner_witness:
  "w_wg (fst (leak_state ''k'')) = int (length (filter unreleased (w_handles (fst (leak_state ''k'')))))"
  using registry_single_runner [OF leak_state_reached] by blast

text \<open>
  A result that precedes the registration of the callback is lost for good. Once a handle is
  in the map after its fault has sent its result, no later step of any goroutine frees the key:
  every later call for that key joins a fault that no longer runs, and \<open>Close\<close> never returns.
\<close>

theorem lost_callback_is_permanent:
  assumes "reg_reach (NewFaultRegistry, []) s" and "leaked (fst s) k h" and "reg_reach s t" and "policy \<noteq> AlwaysStart"
  shows "w_active (fst t) k = Some h \<and> StartOrJoin k policy startFn (fst t) = (Inr (None, True), fst t) \<and>
     \<not> Close_returns (fst t)"
proof -
  have inv: "reg_inv s" by (rule reg_inv_reach [OF assms(1) reg_inv_new])
  have leak: "leaked (fst t) k h" by (rule leaked_reach [OF assms(3) inv assms(2)])
  then have act: "w_active (fst t) k = Some h" by (simp add: leaked_def)
  with joined_when_active [OF act assms(4)] leaked_blocks_close [OF reg_inv_reach [OF assms(3) inv] leak]
  show ?thesis by simp
qed

theorem lost_callback_is_permanent_witness:
  "reg_reach (NewFaultRegistry, []) (leak_state ''k'') \<and> \<not> Close_returns (fst (leak_state ''k'')) \<and>
   StartOrJoin ''k'' DeduplicateByRule plain_start (fst (leak_state ''k'')) = (Inr (None, True), fst (leak_state ''k''))"
  using leak_state_reached [of "''k''"]
    lost_callback_is_permanent [OF leak_state_reached leak_state_leaked reg_refl, of DeduplicateByRule "''k''" plain_start]
  by simp

end
