(* ===== verification/Interceptor.thy ===== *)
theory Interceptor
  imports Fault_Registry
begin

text \<open>
  The policy dispatcher (\<open>internal/interceptor/interceptor.go\<close>), hooks and \<open>MustFault\<close>
  (\<open>internal/interceptor/hook.go\<close>), the ingress middleware and the label extraction of
  \<open>internal/interceptor/middleware.go\<close>, and the gRPC interceptors (\<open>grpc/interceptor.go\<close>).
  The evaluator is a function, what its \<open>Evaluate\<close> answers at the time of the call. Starting a
  fault takes two parameters for what is decided outside the repository: \<open>os\<close>, the outcome
  of the system calls of \<open>Start\<close>, and \<open>early\<close>, whether the goroutine of the fault delivers
  its result before the caller registers a callback on the handle.
\<close>

section \<open>Names of the trace package\<close>

definition AttrFaultType :: string where "AttrFaultType = ''atropos.fault.type''"
definition AttrFaultInjectionPoint :: string where "AttrFaultInjectionPoint = ''atropos.fault.injection_point''"
definition AttrFaultReason :: string where "AttrFaultReason = ''atropos.fault.reason''"
definition AttrHookName :: string where "AttrHookName = ''atropos.hook.name''"
definition AttrHTTPMethod :: string where "AttrHTTPMethod = ''atropos.http.method''"
definition AttrHTTPPath :: string where "AttrHTTPPath = ''atropos.http.path''"
definition AttrHTTPQuery :: string where "AttrHTTPQuery = ''atropos.http.query''"
definition AttrHTTPHost :: string where "AttrHTTPHost = ''atropos.http.host''"
definition AttrHTTPUserAgent :: string where "AttrHTTPUserAgent = ''atropos.http.user_agent''"
definition AttrGRPCMethod :: string where "AttrGRPCMethod = ''atropos.grpc.method''"
definition AttrGRPCUserAgent :: string where "AttrGRPCUserAgent = ''atropos.grpc.user_agent''"
definition AttrCacheBoxWorkflow :: string where "AttrCacheBoxWorkflow = ''atropos.cachebox.workflow''"
definition workflowBaggageKey :: string where "workflowBaggageKey = ''atropos.workflow''"
definition SpanFaultInject :: string where "SpanFaultInject = ''atropos.fault.inject''"
definition SpanHookPrefix :: string where "SpanHookPrefix = ''atropos.hook.''"
definition EventFaultInjected :: string where "EventFaultInjected = ''atropos.fault.injected''"
definition EventFaultSkipped :: string where "EventFaultSkipped = ''atropos.fault.skipped''"
definition EventFaultCheckErr :: string where "EventFaultCheckErr = ''atropos.fault.check.error''"

section \<open>The interceptor\<close>

type_synonym evaluator = "eval_request \<Rightarrow> decision option"

record interceptor =
  it_eval :: evaluator
  it_cachebox :: bool
  it_registry :: bool

definition noopEval :: evaluator where
  "noopEval req = None"

datatype interceptor_option = WithCacheBox bool | WithRegistry bool

fun apply_option :: "interceptor_option \<Rightarrow> interceptor \<Rightarrow> interceptor" where
  "apply_option (WithCacheBox cb) i = i\<lparr>it_cachebox := cb\<rparr>"
| "apply_option (WithRegistry r) i = i\<lparr>it_registry := r\<rparr>"

text \<open>\<open>New\<close>; a nil option is skipped, the argument of an option may itself be nil (False).\<close>

definition Interceptor_New :: "evaluator option \<Rightarrow> interceptor_option option list \<Rightarrow> interceptor" where
  "Interceptor_New eval opts =
     fold (\<lambda>opt i. case opt of None \<Rightarrow> i | Some f \<Rightarrow> apply_option f i) opts
       \<lparr>it_eval = (case eval of None \<Rightarrow> noopEval | Some e \<Rightarrow> e), it_cachebox = False, it_registry = False\<rparr>"

text \<open>\<open>Configure\<close> of \<open>atropos.go\<close>: the options set the evaluator and the cache box.\<close>

datatype configure_option = WithEvaluator "evaluator option" | WithCacheBoxCoordinator bool

fun configure_apply :: "configure_option \<Rightarrow> evaluator option \<times> bool \<Rightarrow> evaluator option \<times> bool" where
  "configure_apply (WithEvaluator e) (_, cb) = (e, cb)"
| "configure_apply (WithCacheBoxCoordinator b) (e, _) = (e, b)"

definition Configure :: "configure_option option list \<Rightarrow> interceptor" where
  "Configure opts =
     (let (e, cb) = fold (\<lambda>opt s. case opt of None \<Rightarrow> s | Some f \<Rightarrow> configure_apply f s) opts (None, False)
      in Interceptor_New e (if cb then [Some (WithCacheBox cb)] else []))"

datatype check_error =
  InvalidFault fault_error | StartFailed fault_error | DirectInvalid fault_error | DirectFailed fault_error

record check_result =
  ck_handle :: "nat option"
  ck_decision :: "decision option"

definition empty_result :: check_result where
  "empty_result = \<lparr>ck_handle = None, ck_decision = None\<rparr>"

fun isInlineFault :: "fault \<Rightarrow> bool" where
  "isInlineFault (LatencyFault _) = True"
| "isInlineFault (InlineError _) = True"
| "isInlineFault (HangFault _) = True"
| "isInlineFault _ = False"

section \<open>Starting a fault under a span\<close>

definition tracer_Start :: "string \<Rightarrow> labels \<Rightarrow> world \<Rightarrow> nat \<times> world" where
  "tracer_Start name attrs w =
     (w_spans w, log_op (SpanStart (w_spans w) name attrs) (w\<lparr>w_spans := w_spans w + 1\<rparr>))"

definition span_labels :: "nat \<Rightarrow> labels \<Rightarrow> world \<Rightarrow> world" where
  "span_labels s labels w = fold (\<lambda>kv. log_op (SpanAttrs s [kv])) labels w"

text \<open>
  From the emitter to the callback, the same statements in \<open>startDirect\<close>, in the function
  \<open>startRegistered\<close> passes to the registry and in \<open>directStart\<close>.
\<close>

definition start_under :: "(fault \<Rightarrow> fault_error option) \<Rightarrow> bool \<Rightarrow> fault \<Rightarrow> nat \<Rightarrow> start_fn" where
  "start_under os early f s w =
     (let w1 = (if event_aware f then log_op (SpanEmitter s) w else w)
      in case fault_Start os f of
           Some e \<Rightarrow> (Inl e, log_op (SpanEndError s) w1)
         | None \<Rightarrow>
             (let (h, w2) = NewHandle w1;
                  w3 = (if early then Send h w2 else w2)
              in (Inr h, SetOnResult h (RecordSpan s) w3)))"

definition fault_span :: "string \<Rightarrow> injection_point \<Rightarrow> string \<Rightarrow> world \<Rightarrow> nat \<times> world" where
  "fault_span ftype point reason =
     tracer_Start SpanFaultInject
       [(AttrFaultType, ftype), (AttrFaultInjectionPoint, point_String point), (AttrFaultReason, reason)]"

definition traced_start ::
  "(fault \<Rightarrow> fault_error option) \<Rightarrow> bool \<Rightarrow> eval_request \<Rightarrow> string \<Rightarrow> string \<Rightarrow> fault \<Rightarrow> start_fn" where
  "traced_start os early req ftype reason f w =
     (let (s, w1) = fault_span ftype (er_point req) reason w;
          w2 = span_labels s (er_labels req) w1
      in start_under os early f s w2)"

definition startDirect ::
  "(fault \<Rightarrow> fault_error option) \<Rightarrow> bool \<Rightarrow> eval_request \<Rightarrow> decision \<Rightarrow> fault \<Rightarrow> string \<Rightarrow> mode \<Rightarrow> world \<Rightarrow>
   (check_error + check_result) \<times> world" where
  "startDirect os early req d f ftype md w =
     (case traced_start os early req ftype (d_reason d) f w of
        (Inl e, w') \<Rightarrow> (Inl (StartFailed e), w')
      | (Inr h, w') \<Rightarrow> (Inr \<lparr>ck_handle = Some h, ck_decision = Some (d\<lparr>d_mode := md\<rparr>)\<rparr>, w'))"

definition startRegistered ::
  "(fault \<Rightarrow> fault_error option) \<Rightarrow> bool \<Rightarrow> eval_request \<Rightarrow> decision \<Rightarrow> fault \<Rightarrow> string \<Rightarrow> mode \<Rightarrow> world \<Rightarrow>
   (check_error + check_result) \<times> world" where
  "startRegistered os early req d f ftype md w =
     (let key = (if d_name d = [] then ftype else d_name d)
      in case StartOrJoin key (d_policy d) (traced_start os early req ftype (d_reason d) f) w of
           (Inl e, w') \<Rightarrow> (Inl (StartFailed e), w')
         | (Inr (h, deduped), w') \<Rightarrow>
             (if deduped then (Inr empty_result, w')
              else (Inr \<lparr>ck_handle = h, ck_decision = Some (d\<lparr>d_mode := md\<rparr>)\<rparr>, w')))"

definition StartFault ::
  "interceptor \<Rightarrow> (fault \<Rightarrow> fault_error option) \<Rightarrow> bool \<Rightarrow> eval_request \<Rightarrow> decision option \<Rightarrow> world \<Rightarrow>
   (check_error + check_result) \<times> world" where
  "StartFault i os early req decision w =
     (case decision of
        None \<Rightarrow> (Inr empty_result, w)
      | Some d \<Rightarrow>
          (case d_fault d of
             None \<Rightarrow> (Inr empty_result, w)
           | Some f \<Rightarrow>
               (case fault_Validate f of
                  Some e \<Rightarrow> (Inl (InvalidFault e), w)
                | None \<Rightarrow>
                    (let ftype = fault_type f;
                         md = (if \<not> isInlineFault f then Background else d_mode d)
                     in if it_registry i \<and> \<not> isInlineFault f
                        then startRegistered os early req d f ftype md w
                        else startDirect os early req d f ftype md w))))"

definition Check ::
  "interceptor \<Rightarrow> (fault \<Rightarrow> fault_error option) \<Rightarrow> bool \<Rightarrow> eval_request \<Rightarrow> world \<Rightarrow>
   (check_error + check_result) \<times> world" where
  "Check i os early req w =
     (case it_eval i req of
        None \<Rightarrow> (Inr empty_result, w)
      | Some d \<Rightarrow>
          if d_cachebox d \<noteq> CacheBoxNone then (Inr empty_result, w)
          else StartFault i os early req (Some d) w)"

section \<open>Hooks\<close>

text \<open>
  \<open>Hook\<close> returns the span, the labels map (a non-nil map of the caller is written to), and
  the check's outcome. \<open>err_text\<close> renders the error for the event.
\<close>

definition Hook ::
  "interceptor \<Rightarrow> (fault \<Rightarrow> fault_error option) \<Rightarrow> bool \<Rightarrow> (check_error \<Rightarrow> string) \<Rightarrow> string \<Rightarrow> labels option \<Rightarrow> world \<Rightarrow>
   (nat \<times> labels \<times> (check_error + check_result)) \<times> world" where
  "Hook i os early err_text name labels w =
     (let ls = go_store AttrHookName name (case labels of None \<Rightarrow> [] | Some l \<Rightarrow> l);
          (s, w1) = tracer_Start (SpanHookPrefix @ name) [(AttrHookName, name)] w;
          w2 = span_labels s ls w1;
          (res, w3) = Check i os early \<lparr>er_point = Custom, er_labels = ls\<rparr> w2
      in case res of
           Inl e \<Rightarrow> ((s, ls, Inl e), log_op (SpanEvent s EventFaultCheckErr [(''error'', err_text e)]) w3)
         | Inr cr \<Rightarrow>
             (case ck_handle cr of
                None \<Rightarrow> ((s, ls, Inr cr), log_op (SpanEvent s EventFaultSkipped []) w3)
              | Some h \<Rightarrow>
                  ((s, ls, Inr cr),
                   log_op (SpanEvent s EventFaultInjected
                     (case ck_decision cr of
                        None \<Rightarrow> []
                      | Some d \<Rightarrow>
                          [(AttrFaultType, (case d_fault d of None \<Rightarrow> ''<nil>'' | Some f \<Rightarrow> fault_type f)),
                           (AttrFaultReason, d_reason d)])) w3)))"

definition directStart ::
  "(fault \<Rightarrow> fault_error option) \<Rightarrow> bool \<Rightarrow> injection_point \<Rightarrow> string \<Rightarrow> fault \<Rightarrow> world \<Rightarrow> (check_error + nat) \<times> world" where
  "directStart os early point name f w =
     (case fault_Validate f of
        Some e \<Rightarrow> (Inl (DirectInvalid e), w)
      | None \<Rightarrow>
          (let (s, w1) = fault_span (fault_type f) point (''direct: '' @ name) w
           in case start_under os early f s w1 of
                (Inl e, w2) \<Rightarrow> (Inl (DirectFailed e), w2)
              | (Inr h, w2) \<Rightarrow> (Inr h, w2)))"

definition startTraced ::
  "interceptor \<Rightarrow> (fault \<Rightarrow> fault_error option) \<Rightarrow> bool \<Rightarrow> injection_point \<Rightarrow> string \<Rightarrow> fault \<Rightarrow> world \<Rightarrow>
   (check_error + nat) \<times> world" where
  "startTraced i os early point name f w =
     (case Check i os early \<lparr>er_point = point, er_labels = [(AttrHookName, name)]\<rparr> w of
        (Inl e, w') \<Rightarrow> (Inl e, w')
      | (Inr cr, w') \<Rightarrow>
          (case ck_handle cr of
             Some h \<Rightarrow> (Inr h, w')
           | None \<Rightarrow> directStart os early point name f w'))"

definition MustFault ::
  "interceptor \<Rightarrow> (fault \<Rightarrow> fault_error option) \<Rightarrow> bool \<Rightarrow> injection_point \<Rightarrow> string \<Rightarrow> fault \<Rightarrow> world \<Rightarrow>
   (check_error + nat) \<times> world" where
  "MustFault i os early point name f w = startTraced i os early point name f w"

section \<open>Middleware\<close>

text \<open>What a middleware does around the wrapped handler, in order.\<close>

datatype mw_action = LogError check_error | WaitDone nat | CallNext

definition check_actions :: "(check_error + check_result) \<Rightarrow> mw_action list" where
  "check_actions res =
     (case res of
        Inl e \<Rightarrow> [LogError e]
      | Inr cr \<Rightarrow>
          (case ck_handle cr of
             None \<Rightarrow> []
           | Some h \<Rightarrow>
               (case ck_decision cr of
                  None \<Rightarrow> []
                | Some d \<Rightarrow> (if d_mode d = Inline then [WaitDone h] else []))))"

record http_request =
  hr_method :: string
  hr_path :: string
  hr_host :: string
  hr_query :: string
  hr_user_agent :: string
  hr_baggage :: labels

definition extractHTTPLabels :: "http_request \<Rightarrow> labels" where
  "extractHTTPLabels r =
     (let l0 = [(AttrHTTPMethod, hr_method r), (AttrHTTPPath, hr_path r), (AttrHTTPHost, hr_host r)];
          l1 = (if hr_query r \<noteq> [] then go_store AttrHTTPQuery (hr_query r) l0 else l0);
          l2 = (if hr_user_agent r \<noteq> [] then go_store AttrHTTPUserAgent (hr_user_agent r) l1 else l1)
      in case map_of (hr_baggage r) workflowBaggageKey of
           None \<Rightarrow> l2
         | Some v \<Rightarrow> go_store AttrCacheBoxWorkflow v l2)"

definition IngressMiddleware ::
  "interceptor \<Rightarrow> (fault \<Rightarrow> fault_error option) \<Rightarrow> bool \<Rightarrow> http_request \<Rightarrow> world \<Rightarrow> mw_action list \<times> world" where
  "IngressMiddleware i os early r w =
     (let (res, w') = Check i os early \<lparr>er_point = Ingress, er_labels = extractHTTPLabels r\<rparr> w
      in (check_actions res @ [CallNext], w'))"

text \<open>\<open>md\<close> is the incoming metadata, if any, as a map from keys to values.\<close>

definition extractGRPCLabels :: "(string \<Rightarrow> string list) option \<Rightarrow> string \<Rightarrow> labels" where
  "extractGRPCLabels md fullMethod =
     (let l0 = [(AttrGRPCMethod, fullMethod)]
      in case md of
           None \<Rightarrow> l0
         | Some m \<Rightarrow>
             (case m ''user-agent'' of
                [] \<Rightarrow> l0
              | ua # _ \<Rightarrow> go_store AttrGRPCUserAgent ua l0))"

definition checkAndWait ::
  "interceptor \<Rightarrow> (fault \<Rightarrow> fault_error option) \<Rightarrow> bool \<Rightarrow> injection_point \<Rightarrow> labels \<Rightarrow> world \<Rightarrow> mw_action list \<times> world" where
  "checkAndWait i os early point labels w =
     (let (res, w') = Check i os early \<lparr>er_point = point, er_labels = labels\<rparr> w
      in (check_actions res, w'))"

definition grpc_server ::
  "interceptor \<Rightarrow> (fault \<Rightarrow> fault_error option) \<Rightarrow> bool \<Rightarrow> (string \<Rightarrow> string list) option \<Rightarrow> string \<Rightarrow> world \<Rightarrow>
   mw_action list \<times> world" where
  "grpc_server i os early md fullMethod w =
     (let (as, w') = checkAndWait i os early Ingress (extractGRPCLabels md fullMethod) w
      in (as @ [CallNext], w'))"

definition grpc_client ::
  "interceptor \<Rightarrow> (fault \<Rightarrow> fault_error option) \<Rightarrow> bool \<Rightarrow> string \<Rightarrow> world \<Rightarrow> mw_action list \<times> world" where
  "grpc_client i os early md w =
     (let (as, w') = checkAndWait i os early Egress [(AttrGRPCMethod, md)] w
      in (as @ [CallNext], w'))"


section \<open>What a traced start does to the shared state\<close>

lemma log_op_other [simp]:
  "w_handles (log_op x w) = w_handles w" "w_active (log_op x w) = w_active w"
  "w_wg (log_op x w) = w_wg w" "w_spans (log_op x w) = w_spans w"
  "w_log (log_op x w) = w_log w @ [x]"
  by (simp_all add: log_op_def)

lemma span_labels_other [simp]:
  "w_handles (span_labels s ls w) = w_handles w" "w_active (span_labels s ls w) = w_active w"
  "w_wg (span_labels s ls w) = w_wg w" "w_spans (span_labels s ls w) = w_spans w"
  unfolding span_labels_def by (induction ls arbitrary: w) simp_all

lemma tracer_Start_other [simp]:
  "fst (tracer_Start n a w) = w_spans w"
  "w_handles (snd (tracer_Start n a w)) = w_handles w" "w_active (snd (tracer_Start n a w)) = w_active w"
  "w_wg (snd (tracer_Start n a w)) = w_wg w" "w_spans (snd (tracer_Start n a w)) = w_spans w + 1"
  by (simp_all add: tracer_Start_def)

lemma fault_span_other [simp]:
  "fst (fault_span t p r w) = w_spans w"
  "w_handles (snd (fault_span t p r w)) = w_handles w" "w_active (snd (fault_span t p r w)) = w_active w"
  "w_wg (snd (fault_span t p r w)) = w_wg w"
  by (simp_all add: fault_span_def)

lemma start_under_Inr:
  assumes "start_under os early f s w = (Inr h, w')"
  shows "h = length (w_handles w)" and "fault_Start os f = None"
    and "w_handles w' = w_handles w @
      [\<lparr>hc_cb = Some (RecordSpan s), hc_sent = early, hc_fired = None, hc_tracked = False\<rparr>]"
    and "w_active w' = w_active w" and "w_wg w' = w_wg w"
  using assms
  by (auto simp: start_under_def NewHandle_def SetOnResult_def update_handle_def Send_def Let_def
      split: option.splits if_splits)

lemma start_under_Inl:
  assumes "start_under os early f s w = (Inl e, w')"
  shows "fault_Start os f = Some e" and "w_handles w' = w_handles w"
    and "w_active w' = w_active w" and "w_wg w' = w_wg w" and "last (w_log w') = SpanEndError s"
  using assms
  by (auto simp: start_under_def NewHandle_def Let_def split: option.splits if_splits)

lemma traced_start_eq:
  "traced_start os early req t r f w =
     start_under os early f (w_spans w) (span_labels (w_spans w) (er_labels req) (snd (fault_span t (er_point req) r w)))"
  by (simp add: traced_start_def split_beta Let_def)

lemma traced_start_Inr:
  assumes "traced_start os early req t r f w = (Inr h, w')"
  shows "h = length (w_handles w)" and "fault_Start os f = None"
    and "w_handles w' = w_handles w @
      [\<lparr>hc_cb = Some (RecordSpan (w_spans w)), hc_sent = early, hc_fired = None, hc_tracked = False\<rparr>]"
    and "w_active w' = w_active w" and "w_wg w' = w_wg w"
  using start_under_Inr [OF assms [unfolded traced_start_eq]] by simp_all

lemma traced_start_fresh: "traced_start os early req t r f w = (Inr h, w1) \<Longrightarrow> fresh_start w h w1"
  using traced_start_Inr [of os early req t r f w h w1] by (simp add: fresh_start_def)

section \<open>Outcomes of \<open>StartFault\<close>\<close>

lemma StartFault_handle:
  assumes "StartFault i os early req dec w = (Inr cr, w')" and "ck_handle cr = Some h"
  obtains d f where "dec = Some d" "d_fault d = Some f" "fault_Validate f = None" "os f = None"
    "ck_decision cr = Some (d\<lparr>d_mode := if isInlineFault f then d_mode d else Background\<rparr>)"
    "h = length (w_handles w)"
proof -
  from assms obtain d f where df: "dec = Some d" "d_fault d = Some f" "fault_Validate f = None"
    by (auto simp: StartFault_def empty_result_def split: option.splits)
  let ?md = "if isInlineFault f then d_mode d else Background"
  have md: "(if \<not> isInlineFault f then Background else d_mode d) = ?md" by simp
  show ?thesis
  proof (cases "it_registry i \<and> \<not> isInlineFault f")
    case True
    let ?key = "if d_name d = [] then fault_type f else d_name d"
    let ?start = "traced_start os early req (fault_type f) (d_reason d) f"
    obtain res wr where SJ: "StartOrJoin ?key (d_policy d) ?start w = (res, wr)" by fastforce
    have "StartFault i os early req dec w = startRegistered os early req d f (fault_type f) ?md w"
      using df True by (simp add: StartFault_def)
    then have res: "res = Inr (Some h, False)" "ck_decision cr = Some (d\<lparr>d_mode := ?md\<rparr>)"
      using assms SJ
      by (auto simp: startRegistered_def Let_def empty_result_def split: sum.splits prod.splits if_splits)
    then have "fst (?start w) = Inr h"
      using SJ by (auto simp: StartOrJoin_def reg_enter_def split: sum.splits option.splits prod.splits if_splits)
    then obtain w1 where "?start w = (Inr h, w1)" by (cases "?start w") auto
    from traced_start_Inr(1,2) [OF this] show ?thesis
      using that df res by (auto simp: fault_Start_def)
  next
    case False
    then have "StartFault i os early req dec w = startDirect os early req d f (fault_type f) ?md w"
      using df by (auto simp: StartFault_def Let_def)
    with assms have "traced_start os early req (fault_type f) (d_reason d) f w = (Inr h, w')"
      and "ck_decision cr = Some (d\<lparr>d_mode := ?md\<rparr>)"
      by (auto simp: startDirect_def split: sum.splits prod.splits)
    with traced_start_Inr(1,2) [OF this(1)] show ?thesis
      using that df by (auto simp: fault_Start_def)
  qed
qed

lemma startDirect_handles:
  assumes "startDirect os early req d f t md w = (Inr cr, w')" and "ck_handle cr = Some h"
  shows "h = length (w_handles w)" and "w_handles w' = w_handles w @
     [\<lparr>hc_cb = Some (RecordSpan (w_spans w)), hc_sent = early, hc_fired = None, hc_tracked = False\<rparr>]"
proof -
  from assms have "traced_start os early req t (d_reason d) f w = (Inr h, w')"
    by (auto simp: startDirect_def split: sum.splits prod.splits)
  from traced_start_Inr [OF this]
  show "h = length (w_handles w)" and "w_handles w' = w_handles w @
     [\<lparr>hc_cb = Some (RecordSpan (w_spans w)), hc_sent = early, hc_fired = None, hc_tracked = False\<rparr>]"
    by auto
qed

lemma startRegistered_handles:
  assumes "startRegistered os early req d f t md w = (Inr cr, w')" and "ck_handle cr = Some h"
  defines "key \<equiv> if d_name d = [] then t else d_name d"
  defines "cb \<equiv> if d_policy d = AlwaysStart then WgDone else FreeKey key"
  shows "h = length (w_handles w)" and "w_handles w' = w_handles w @
     [\<lparr>hc_cb = Some cb, hc_sent = early, hc_fired = None, hc_tracked = True\<rparr>]"
    and "w_active w' = (if d_policy d = AlwaysStart then w_active w else (w_active w)(key \<mapsto> h))"
    and "d_policy d \<noteq> AlwaysStart \<Longrightarrow> w_active w key = None"
proof -
  let ?start = "traced_start os early req t (d_reason d) f"
  from assms(1,2) have SJ: "StartOrJoin key (d_policy d) ?start w = (Inr (Some h, False), w')"
    unfolding key_def startRegistered_def Let_def
    by (cases "StartOrJoin (if d_name d = [] then t else d_name d) (d_policy d) ?start w")
      (auto simp: empty_result_def split: sum.splits prod.splits if_splits)
  then obtain p w2 where enter: "reg_enter key (d_policy d) ?start w = (Inr (Some p), w2)"
    and p: "fst p = h" "w' = SetOnResult h (snd p) w2"
    by (auto simp: StartOrJoin_def split: sum.splits option.splits prod.splits)
  then obtain w1 where start: "?start w = (Inr h, w1)"
    by (auto simp: reg_enter_def split: sum.splits prod.splits if_splits)
  note T = traced_start_Inr [OF start]
  show "h = length (w_handles w)" by (rule T(1))
  from reg_enter_Some [OF start enter] T p
  show "w_handles w' = w_handles w @ [\<lparr>hc_cb = Some cb, hc_sent = early, hc_fired = None, hc_tracked = True\<rparr>]"
    and "w_active w' = (if d_policy d = AlwaysStart then w_active w else (w_active w)(key \<mapsto> h))"
    and "d_policy d \<noteq> AlwaysStart \<Longrightarrow> w_active w key = None"
    by (auto simp: SetOnResult_def update_handle_def cb_def)
qed

section \<open>Deduplication\<close>

definition rule_key :: "decision \<Rightarrow> fault \<Rightarrow> string" where
  "rule_key d f = (if d_name d = [] then fault_type f else d_name d)"

text \<open>A decision that goes through the registry under its rule's key.\<close>

definition registrable :: "interceptor \<Rightarrow> decision \<Rightarrow> fault \<Rightarrow> bool" where
  "registrable i d f \<longleftrightarrow> it_registry i \<and> d_fault d = Some f \<and> \<not> isInlineFault f \<and>
     fault_Validate f = None \<and> d_policy d \<noteq> AlwaysStart"

lemma StartFault_registrable:
  "registrable i d f \<Longrightarrow>
   StartFault i os early req (Some d) w = startRegistered os early req d f (fault_type f) Background w"
  by (simp add: StartFault_def registrable_def)

lemma startRegistered_joined:
  assumes "w_active w (rule_key d f) = Some h" and "d_policy d \<noteq> AlwaysStart"
  shows "startRegistered os early req d f (fault_type f) md w = (Inr empty_result, w)"
  using joined_when_active [OF assms] by (simp add: startRegistered_def rule_key_def)

lemma traced_start_ok:
  "fault_Start os f = None \<Longrightarrow> \<exists>h w1. traced_start os early req t r f w = (Inr h, w1)"
  by (auto simp: traced_start_eq start_under_def Let_def NewHandle_def)

lemma startRegistered_free:
  assumes "w_active w (rule_key d f) = None" and "fault_Start os f = None"
  shows "\<exists>cr w'. startRegistered os early req d f (fault_type f) md w = (Inr cr, w') \<and>
           ck_handle cr = Some (length (w_handles w))"
proof -
  obtain h w1 where start: "traced_start os early req (fault_type f) (d_reason d) f w = (Inr h, w1)"
    using traced_start_ok [OF assms(2)] by blast
  with traced_start_Inr(1) [OF start] assms(1) show ?thesis
    by (cases "d_policy d = AlwaysStart")
      (simp_all add: startRegistered_def StartOrJoin_def reg_enter_def Let_def flip: rule_key_def)
qed

lemma Send_new_handle:
  assumes "w_handles w' = hs @ [c]" and "\<not> hc_sent c" and "h = length hs"
  shows "Send h w' = (case hc_cb c of None \<Rightarrow> update_handle h (\<lambda>c. c\<lparr>hc_sent := True, hc_fired := None\<rparr>) w'
      | Some cb \<Rightarrow> update_handle h (\<lambda>c. c\<lparr>hc_sent := True, hc_fired := Some cb\<rparr>) (fire cb w'))"
  using assms by (cases "hc_cb c") (simp_all add: Send_def)

lemma WaitDone_check_actions:
  assumes "WaitDone h \<in> set (check_actions res)"
  shows "\<exists>cr d. res = Inr cr \<and> ck_handle cr = Some h \<and> ck_decision cr = Some d \<and> d_mode d = Inline"
proof (cases res)
  case (Inr cr)
  with assms show ?thesis
    by (cases "ck_handle cr"; cases "ck_decision cr") (simp_all add: check_actions_def split: if_splits)
qed (use assms in \<open>simp add: check_actions_def\<close>)

section \<open>Properties of the interceptor\<close>

text \<open>
  C26. \<open>StartFault\<close> hands out a handle only for the fault of the decision, and only when that
  fault validates and its start succeeded; the decision it returns is the evaluator's with the
  mode forced to background for every fault that is not inline, and the handle is new.
\<close>

theorem StartFault_sound:
  assumes "StartFault i os early req dec w = (Inr cr, w')" and "ck_handle cr = Some h"
  shows "\<exists>d f. dec = Some d \<and> d_fault d = Some f \<and> fault_Validate f = None \<and> os f = None \<and>
     ck_decision cr = Some (d\<lparr>d_mode := if isInlineFault f then d_mode d else Background\<rparr>) \<and>
     h = length (w_handles w)"
  using StartFault_handle [OF assms] by metis

definition cpu_rule :: decision where
  "cpu_rule = \<lparr>d_name = ''burn'', d_fault = Some (NewCPUStressFault 1000 (Fin (1/2))), d_reason = ''test'',
     d_mode = Inline, d_cachebox = CacheBoxNone, d_policy = DeduplicateByRule\<rparr>"

definition full_interceptor :: interceptor where
  "full_interceptor = Interceptor_New (Some (\<lambda>_. Some cpu_rule)) [None, Some (WithRegistry True)]"

definition sample_request :: eval_request where
  "sample_request = \<lparr>er_point = Ingress, er_labels = [(AttrHTTPMethod, ''GET'')]\<rparr>"

lemmas sample_defs = cpu_rule_def full_interceptor_def sample_request_def Interceptor_New_def
  StartFault_def startRegistered_def startDirect_def traced_start_def fault_span_def start_under_def
  tracer_Start_def span_labels_def StartOrJoin_def reg_enter_def fault_Start_def NewHandle_def
  NewFaultRegistry_def NewCPUStressFault_def resource_Validate_def load_ok_def FaultConfig_Validate_def
  wrap64_def SetOnResult_def update_handle_def log_op_def Send_def fire_def empty_result_def

theorem StartFault_sound_witness:
  "\<exists>cr w'. StartFault full_interceptor (\<lambda>_. None) False sample_request (Some cpu_rule) NewFaultRegistry = (Inr cr, w') \<and>
     ck_decision cr = Some (cpu_rule\<lparr>d_mode := Background\<rparr>)"
proof -
  let ?r = "StartFault full_interceptor (\<lambda>_. None) False sample_request (Some cpu_rule) NewFaultRegistry"
  obtain cr w' where r: "?r = (Inr cr, w')" "ck_handle cr = Some 0"
    by (simp add: sample_defs Let_def)
  from StartFault_sound [OF r] r(1) show ?thesis
    by (auto simp: cpu_rule_def NewCPUStressFault_def)
qed

text \<open>
  The span of a fault. On the direct path the callback of \<open>startDirect\<close> is the one that
  fires, so \<open>Send\<close> records the result and ends the span; on the registry path the callback
  the registry stores replaces it, and \<open>Send\<close> leaves the span open.
\<close>

theorem fault_span_after_Send:
  assumes "d_fault d = Some f"
    and "StartFault i os False req (Some d) w = (Inr cr, w')" and "ck_handle cr = Some h"
  shows "w_log (Send h w') =
     w_log w' @ (if it_registry i \<and> \<not> isInlineFault f then [] else [SpanResult (w_spans w)])"
proof (cases "it_registry i \<and> \<not> isInlineFault f")
  case True
  with assms have start: "startRegistered os False req d f (fault_type f) Background w = (Inr cr, w')"
    by (auto simp: StartFault_def empty_result_def split: option.splits)
  note H = startRegistered_handles [OF start assms(3)]
  show ?thesis using True Send_new_handle [OF H(2)] H(1) by (simp add: fire_def)
next
  case False
  with assms obtain md where start: "startDirect os False req d f (fault_type f) md w = (Inr cr, w')"
    by (auto simp: StartFault_def Let_def empty_result_def split: option.splits if_splits)
  note H = startDirect_handles [OF start assms(3)]
  show ?thesis using False Send_new_handle [OF H(2)] H(1) by (auto simp: fire_def)
qed

theorem fault_span_after_Send_witness:
  "\<exists>w'. snd (StartFault full_interceptor (\<lambda>_. None) False sample_request (Some cpu_rule) NewFaultRegistry) = w' \<and>
     w_log (Send 0 w') = w_log w'"
proof -
  let ?r = "StartFault full_interceptor (\<lambda>_. None) False sample_request (Some cpu_rule) NewFaultRegistry"
  obtain cr w' where r: "?r = (Inr cr, w')" "ck_handle cr = Some 0"
    by (simp add: sample_defs Let_def)
  have "d_fault cpu_rule = Some (NewCPUStressFault 1000 (Fin (1/2)))" by (simp add: cpu_rule_def)
  from fault_span_after_Send [OF this r] r(1) show ?thesis
    by (simp add: full_interceptor_def Interceptor_New_def NewCPUStressFault_def)
qed

text \<open>
  C23. Deduplication through the registry. After a rule has started its fault, every decision
  with the same key is answered with the empty result and changes nothing, until the fault
  delivers its result; after that the key is free and the next decision starts again.
\<close>

theorem dedup_until_result:
  assumes "registrable i d f" and "registrable i d' f'" and "rule_key d' f' = rule_key d f"
    and "StartFault i os False req (Some d) w = (Inr cr, w')" and "ck_handle cr = Some h" and "os' f' = None"
  shows "(StartFault i os' early req' (Some d') w' = (Inr empty_result, w')) \<and>
     (\<exists>cr' w''. StartFault i os' early req' (Some d') (Send h w') = (Inr cr', w'') \<and> ck_handle cr' = Some (Suc h))"
proof (intro conjI)
  have pol: "d_policy d \<noteq> AlwaysStart" "d_policy d' \<noteq> AlwaysStart"
    using assms(1,2) by (simp_all add: registrable_def)
  have start: "startRegistered os False req d f (fault_type f) Background w = (Inr cr, w')"
    using assms(4) StartFault_registrable [OF assms(1)] by simp
  note H = startRegistered_handles [OF start assms(5), folded rule_key_def]
  have act: "w_active w' (rule_key d' f') = Some h" using H(3) pol assms(3) by simp
  show "StartFault i os' early req' (Some d') w' = (Inr empty_result, w')"
    using StartFault_registrable [OF assms(2)] startRegistered_joined [OF act pol(2)] by simp
  have "w_active (Send h w') (rule_key d' f') = None" and len: "length (w_handles (Send h w')) = Suc h"
    using Send_new_handle [OF H(2)] H(1,2) pol assms(3) by (simp_all add: fire_def)
  moreover have "fault_Start os' f' = None" using assms(2,6) by (simp add: registrable_def fault_Start_def)
  ultimately show "\<exists>cr' w''. StartFault i os' early req' (Some d') (Send h w') = (Inr cr', w'') \<and> ck_handle cr' = Some (Suc h)"
    using startRegistered_free [of "Send h w'" d' f' os'] StartFault_registrable [OF assms(2)] by simp
qed

theorem dedup_until_result_witness:
  "\<exists>w'. snd (StartFault full_interceptor (\<lambda>_. None) False sample_request (Some cpu_rule) NewFaultRegistry) = w' \<and>
     StartFault full_interceptor (\<lambda>_. None) False sample_request (Some cpu_rule) w' = (Inr empty_result, w')"
proof -
  let ?r = "StartFault full_interceptor (\<lambda>_. None) False sample_request (Some cpu_rule) NewFaultRegistry"
  obtain cr w' where r: "?r = (Inr cr, w')" "ck_handle cr = Some 0"
    by (simp add: sample_defs Let_def)
  have reg: "registrable full_interceptor cpu_rule (NewCPUStressFault 1000 (Fin (1/2)))"
    by (simp add: registrable_def sample_defs)
  from dedup_until_result [OF reg reg refl r, of "\<lambda>_. None"] r(1) show ?thesis by simp
qed

text \<open>
  \<open>MustFault\<close> consults the evaluator first: whenever the evaluator answers with a valid
  inline fault for the hook's name, that fault runs, with its own reason on the span, and the
  fault given to \<open>MustFault\<close> is not looked at.
\<close>

theorem MustFault_evaluator_first:
  assumes "it_eval i \<lparr>er_point = point, er_labels = [(AttrHookName, name)]\<rparr> = Some d"
    and "d_cachebox d = CacheBoxNone" and "d_fault d = Some g" and "isInlineFault g"
    and "fault_Validate g = None" and "os g = None"
  shows "\<exists>w'. (\<forall>f. MustFault i os early point name f w = (Inr (length (w_handles w)), w')) \<and>
     SpanStart (w_spans w) SpanFaultInject
       [(AttrFaultType, fault_type g), (AttrFaultInjectionPoint, point_String point),
        (AttrFaultReason, d_reason d)] \<in> set (w_log w')"
proof -
  let ?req = "\<lparr>er_point = point, er_labels = [(AttrHookName, name)]\<rparr>"
  have fs: "fault_Start os g = None" using assms(5,6) by (simp add: fault_Start_def)
  obtain h w' where start: "traced_start os early ?req (fault_type g) (d_reason d) g w = (Inr h, w')"
    using traced_start_ok [OF fs] by blast
  have chk: "\<exists>cr. Check i os early ?req w = (Inr cr, w') \<and> ck_handle cr = Some (length (w_handles w))"
    using assms start traced_start_Inr(1) [OF start]
    by (simp add: Check_def StartFault_def startDirect_def)
  have "SpanStart (w_spans w) SpanFaultInject
       [(AttrFaultType, fault_type g), (AttrFaultInjectionPoint, point_String point),
        (AttrFaultReason, d_reason d)] \<in> set (w_log w')"
    using start fs
    by (auto simp: traced_start_eq start_under_def fault_span_def tracer_Start_def span_labels_def
        NewHandle_def Let_def SetOnResult_def Send_def split: if_splits)
  with chk show ?thesis by (auto simp: MustFault_def startTraced_def)
qed

definition hang_rule :: decision where
  "hang_rule = \<lparr>d_name = ''h'', d_fault = Some (NewHangFault 5), d_reason = ''rule'',
     d_mode = Inline, d_cachebox = CacheBoxNone, d_policy = AlwaysStart\<rparr>"

theorem MustFault_evaluator_first_witness:
  "\<exists>w'. MustFault (Interceptor_New (Some (\<lambda>_. Some hang_rule)) []) (\<lambda>_. None) False Custom ''x'' (NewErrorFault 503 [])
     NewFaultRegistry = (Inr 0, w')"
  using MustFault_evaluator_first [of "Interceptor_New (Some (\<lambda>_. Some hang_rule)) []" Custom "''x''" hang_rule
      "NewHangFault 5" "\<lambda>_. None" False NewFaultRegistry]
  by (auto simp: Interceptor_New_def hang_rule_def NewHangFault_def Hang_Validate_def NewFaultRegistry_def)

text \<open>
  The ingress middleware always calls the wrapped handler, last and once; before that it
  does at most one thing, and it waits only for an inline fault of an inline decision that the
  evaluator returned for this request's labels.
\<close>

theorem ingress_always_serves:
  "\<exists>pre. fst (IngressMiddleware i os early r w) = pre @ [CallNext] \<and> length pre \<le> 1 \<and> CallNext \<notin> set pre \<and>
     (\<forall>h. WaitDone h \<in> set pre \<longrightarrow>
        (\<exists>d f. it_eval i \<lparr>er_point = Ingress, er_labels = extractHTTPLabels r\<rparr> = Some d \<and>
           d_cachebox d = CacheBoxNone \<and> d_mode d = Inline \<and> d_fault d = Some f \<and> isInlineFault f \<and>
           fault_Validate f = None \<and> h = length (w_handles w)))"
proof -
  let ?req = "\<lparr>er_point = Ingress, er_labels = extractHTTPLabels r\<rparr>"
  obtain res w' where chk: "Check i os early ?req w = (res, w')" by fastforce
  have wait: "\<exists>d f. it_eval i ?req = Some d \<and> d_cachebox d = CacheBoxNone \<and> d_mode d = Inline \<and>
      d_fault d = Some f \<and> isInlineFault f \<and> fault_Validate f = None \<and> h = length (w_handles w)"
    if "WaitDone h \<in> set (check_actions res)" for h
  proof -
    from that obtain cr d' where cr: "res = Inr cr" "ck_handle cr = Some h" "ck_decision cr = Some d'" "d_mode d' = Inline"
      using WaitDone_check_actions by blast
    with chk obtain d where d: "it_eval i ?req = Some d" "d_cachebox d = CacheBoxNone"
      and sf: "StartFault i os early ?req (Some d) w = (Inr cr, w')"
      by (auto simp: Check_def empty_result_def split: option.splits if_splits)
    obtain f where f: "d_fault d = Some f" "fault_Validate f = None" "h = length (w_handles w)"
      and dec: "ck_decision cr = Some (d\<lparr>d_mode := if isInlineFault f then d_mode d else Background\<rparr>)"
      using StartFault_handle [OF sf cr(2)] by (metis option.inject)
    have "isInlineFault f" and "d_mode d = Inline"
      using dec cr(3,4) by (auto split: if_splits)
    with d f show ?thesis by blast
  qed
  have "length (check_actions res) \<le> 1" "CallNext \<notin> set (check_actions res)"
    by (auto simp: check_actions_def split: sum.splits option.splits)
  with wait show ?thesis
    by (intro exI [of _ "check_actions res"]) (simp add: IngressMiddleware_def chk)
qed

theorem ingress_always_serves_witness:
  "\<exists>pre. fst (IngressMiddleware (Interceptor_New (Some (\<lambda>_. Some hang_rule)) []) (\<lambda>_. None) False
      \<lparr>hr_method = ''GET'', hr_path = ''/'', hr_host = ''h'', hr_query = [], hr_user_agent = [], hr_baggage = []\<rparr>
      NewFaultRegistry) = pre @ [CallNext]"
  using ingress_always_serves by blast

text \<open>
  A hook logs exactly one outcome on its span, as its last operation: the check error, the
  injected event when a handle is returned, or the skipped event; and the labels it leaves in
  the caller's map carry the hook's name.
\<close>

theorem Hook_outcome:
  "case Hook i os early et name labels w of ((s, ls, res), w') \<Rightarrow>
     s = w_spans w \<and> map_of ls AttrHookName = Some name \<and>
     (\<exists>attrs. last (w_log w') =
        SpanEvent s (case res of Inl e \<Rightarrow> EventFaultCheckErr
           | Inr cr \<Rightarrow> if ck_handle cr = None then EventFaultSkipped else EventFaultInjected) attrs)"
proof -
  let ?ls = "go_store AttrHookName name (case labels of None \<Rightarrow> [] | Some l \<Rightarrow> l)"
  obtain res w3 where "Check i os early \<lparr>er_point = Custom, er_labels = ?ls\<rparr>
      (span_labels (w_spans w) ?ls (snd (tracer_Start (SpanHookPrefix @ name) [(AttrHookName, name)] w))) = (res, w3)"
    by fastforce
  then show ?thesis
    by (cases res) (simp_all add: Hook_def Let_def split_beta split: option.splits)
qed

text \<open>
  What a rule can match on: the labels of an HTTP request are its method, path, host,
  query and user agent under their attribute names, an absent query or agent reading as the
  empty string, and the workflow of its baggage.
\<close>

theorem extractHTTPLabels_index:
  "go_index (extractHTTPLabels r) AttrHTTPMethod = hr_method r \<and>
   go_index (extractHTTPLabels r) AttrHTTPPath = hr_path r \<and>
   go_index (extractHTTPLabels r) AttrHTTPHost = hr_host r \<and>
   go_index (extractHTTPLabels r) AttrHTTPQuery = hr_query r \<and>
   go_index (extractHTTPLabels r) AttrHTTPUserAgent = hr_user_agent r \<and>
   go_index (extractHTTPLabels r) AttrCacheBoxWorkflow = go_index (hr_baggage r) workflowBaggageKey"
proof -
  note attrs = AttrHTTPMethod_def AttrHTTPPath_def AttrHTTPHost_def AttrHTTPQuery_def AttrHTTPUserAgent_def
    AttrCacheBoxWorkflow_def
  show ?thesis
    by (cases "map_of (hr_baggage r) workflowBaggageKey")
      (simp_all add: extractHTTPLabels_def Let_def go_index_def attrs)
qed

end
