(* ===== verification/Cachebox_Key.thy ===== *)
theory Cachebox_Key
  imports Atropos_Prelude
begin

text \<open>
  Cache key derivation (\<open>internal/cachebox/key.go\<close>): the named strategies, the three
  built-in key functions, query normalisation with its insertion sort, and the FNV-1a
  hash and hexadecimal rendering the body strategy takes from the standard library.
  The lemmas show that the sort is a sort, that normalisation identifies exactly the
  reorderings of a query's parameters, and which requests share a key.
\<close>

unbundle bit_operations_syntax

section \<open>Requests as the key functions see them\<close>

record key_request =
  rq_method :: string
  rq_host :: string
  rq_path :: string
  rq_query :: string

section \<open>Strategies\<close>

text \<open>\<open>type KeyStrategy string\<close>; any other string is a value of the type, too.\<close>

type_synonym key_strategy = string

definition KeyStrategyExact :: key_strategy where
  "KeyStrategyExact = ''exact''"

definition KeyStrategyExactWithHost :: key_strategy where
  "KeyStrategyExactWithHost = ''exact_with_host''"

definition KeyStrategyExactWithBody :: key_strategy where
  "KeyStrategyExactWithBody = ''exact_with_body''"

definition NeedsBody :: "key_strategy \<Rightarrow> bool" where
  "NeedsBody k \<longleftrightarrow> k = KeyStrategyExactWithBody"

section \<open>Splitting, sorting and joining the query\<close>

text \<open>\<open>strings.Split(s, c)\<close> and \<open>strings.Join(parts, c)\<close> for a one-byte separator.\<close>

fun str_split :: "char \<Rightarrow> string \<Rightarrow> string list" where
  "str_split c [] = [[]]"
| "str_split c (x # xs) =
     (if x = c then [] # str_split c xs
      else (case str_split c xs of [] \<Rightarrow> [[x]] | p # ps \<Rightarrow> (x # p) # ps))"

fun str_join :: "char \<Rightarrow> string list \<Rightarrow> string" where
  "str_join c [] = []"
| "str_join c [p] = p"
| "str_join c (p # q # ps) = p @ c # str_join c (q # ps)"

text \<open>
  The inner loop of \<open>sortStrings\<close>, with \<open>j\<close> counting down while the neighbours are out of
  order, and the outer loop, with \<open>i\<close> counting up.
\<close>

fun sift_down :: "'a::linorder list \<Rightarrow> nat \<Rightarrow> 'a list" where
  "sift_down s 0 = s"
| "sift_down s (Suc j) =
     (if s ! j > s ! Suc j then sift_down (s[j := s ! Suc j, Suc j := s ! j]) j else s)"

lemma length_sift_down [simp]: "length (sift_down s j) = length s"
  by (induction s j rule: sift_down.induct) auto

function sort_from :: "'a::linorder list \<Rightarrow> nat \<Rightarrow> 'a list" where
  "sort_from s i = (if i < length s then sort_from (sift_down s i) (Suc i) else s)"
  by pat_completeness auto

termination
  by (relation "measure (\<lambda>(s, i). length s - i)") auto

declare sort_from.simps [simp del]

definition sortStrings :: "string list \<Rightarrow> string list" where
  "sortStrings s = sort_from s 1"

definition normalizeQuery :: "string \<Rightarrow> string" where
  "normalizeQuery raw =
     (if CHR ''&'' \<notin> set raw then raw
      else str_join (CHR ''&'') (sortStrings (str_split (CHR ''&'') raw)))"

definition writeQueryPart :: "string \<Rightarrow> string \<Rightarrow> string" where
  "writeQueryPart b raw = (if raw = [] then b else b @ ''?'' @ normalizeQuery raw)"

section \<open>The body hash\<close>

text \<open>\<open>hash/fnv.New64a\<close>: offset basis and prime of 64-bit FNV-1a.\<close>

fun fnv64a :: "64 word \<Rightarrow> string \<Rightarrow> 64 word" where
  "fnv64a h [] = h"
| "fnv64a h (c # cs) = fnv64a ((h XOR of_nat (of_char c)) * 1099511628211) cs"

definition fnv_sum64 :: "string \<Rightarrow> 64 word" where
  "fnv_sum64 body = fnv64a 14695981039346656037 body"

text \<open>\<open>strconv.FormatUint(n, 16)\<close>.\<close>

definition hex_digit :: "nat \<Rightarrow> char" where
  "hex_digit d = (if d < 10 then char_of (48 + d) else char_of (87 + d))"

fun format_hex :: "nat \<Rightarrow> string" where
  "format_hex n = (if n < 16 then [hex_digit n] else format_hex (n div 16) @ [hex_digit (n mod 16)])"

declare format_hex.simps [simp del]

section \<open>The key functions\<close>

definition exactKey :: "key_request \<Rightarrow> string \<Rightarrow> string" where
  "exactKey r body =
     writeQueryPart (KeyStrategyExact @ '':'' @ rq_method r @ ''|'' @ rq_path r) (rq_query r)"

definition exactWithHostKey :: "key_request \<Rightarrow> string \<Rightarrow> string" where
  "exactWithHostKey r body =
     writeQueryPart
       (KeyStrategyExactWithHost @ '':'' @ rq_method r @ ''|'' @ rq_host r @ ''|'' @ rq_path r)
       (rq_query r)"

definition exactWithBodyKey :: "key_request \<Rightarrow> string \<Rightarrow> string" where
  "exactWithBodyKey r body =
     (let hash = format_hex (unat (fnv_sum64 body))
      in writeQueryPart
           (KeyStrategyExactWithBody @ '':'' @ rq_method r @ ''|'' @ rq_host r @ ''|'' @ rq_path r)
           (rq_query r) @ ''|'' @ hash)"

definition KeyFuncFor :: "key_strategy \<Rightarrow> key_request \<Rightarrow> string \<Rightarrow> string" where
  "KeyFuncFor s =
     (if s = KeyStrategyExact then exactKey
      else if s = KeyStrategyExactWithHost then exactWithHostKey
      else if s = KeyStrategyExactWithBody then exactWithBodyKey
      else exactKey)"


section \<open>The insertion sort sorts\<close>

lemma sift_down_insert:
  "sorted xs \<Longrightarrow>
   \<exists>ys. sift_down (xs @ y # zs) (length xs) = ys @ zs \<and> mset ys = add_mset y (mset xs) \<and> sorted ys"
proof (induction xs arbitrary: zs rule: rev_induct)
  case Nil
  show ?case by (intro exI [of _ "[y]"]) simp
next
  case (snoc x xs)
  show ?case
  proof (cases "x > y")
    case True
    from snoc.prems have "sorted xs" by (simp add: sorted_append)
    then obtain ys where ys: "sift_down (xs @ y # x # zs) (length xs) = ys @ x # zs"
        "mset ys = add_mset y (mset xs)" "sorted ys"
      using snoc.IH [of "x # zs"] by blast
    have "set ys = insert y (set xs)" using ys(2) by (metis set_mset_add_mset_insert set_mset_mset)
    then have "sorted (ys @ [x])" using ys(3) True snoc.prems by (auto simp: sorted_append)
    moreover have "sift_down ((xs @ [x]) @ y # zs) (length (xs @ [x])) = (ys @ [x]) @ zs"
      using True ys(1) by (simp add: nth_append list_update_append)
    ultimately show ?thesis using ys(2) by (intro exI [of _ "ys @ [x]"]) simp
  next
    case False
    have "sift_down ((xs @ [x]) @ y # zs) (length (xs @ [x])) = (xs @ [x, y]) @ zs"
      using False by (simp add: nth_append)
    moreover have "sorted (xs @ [x, y])" using snoc.prems False by (auto simp: sorted_append)
    ultimately show ?thesis by (intro exI [of _ "xs @ [x, y]"]) simp
  qed
qed

lemma sift_down_step:
  assumes "i < length s" and "sorted (take i s)"
  shows "mset (sift_down s i) = mset s" and "sorted (take (Suc i) (sift_down s i))"
proof -
  have s: "s = take i s @ s ! i # drop (Suc i) s" using assms(1) by (rule id_take_nth_drop)
  obtain ys where ys: "sift_down (take i s @ s ! i # drop (Suc i) s) (length (take i s)) = ys @ drop (Suc i) s"
      "mset ys = add_mset (s ! i) (mset (take i s))" "sorted ys"
    using sift_down_insert [OF assms(2)] by blast
  have len: "length (take i s) = i" using assms(1) by simp
  have eq: "sift_down s i = ys @ drop (Suc i) s" using ys(1) s len by simp
  have leny: "length ys = Suc i" using ys(2) assms(1) by (metis len size_add_mset size_mset)
  have "mset (sift_down s i) = add_mset (s ! i) (mset (take i s)) + mset (drop (Suc i) s)"
    using eq ys(2) by simp
  also have "\<dots> = mset (take i s @ s ! i # drop (Suc i) s)" by simp
  finally show "mset (sift_down s i) = mset s" using s by simp
  show "sorted (take (Suc i) (sift_down s i))" using eq leny ys(3) by simp
qed

lemma sort_from_sorts:
  "sorted (take i s) \<Longrightarrow> mset (sort_from s i) = mset s \<and> sorted (sort_from s i)"
proof (induction s i rule: sort_from.induct)
  case (1 s i)
  show ?case
  proof (cases "i < length s")
    case True
    from sift_down_step [OF True "1.prems"] "1.IH" [OF True] True show ?thesis
      by (simp add: sort_from.simps [of s i])
  next
    case False
    with "1.prems" show ?thesis by (simp add: sort_from.simps [of s i])
  qed
qed

lemma sortStrings_sort: "sortStrings s = sort s"
proof -
  have "sorted (take 1 s)" by (cases s) simp_all
  then show ?thesis
    using sort_from_sorts [of 1 s] by (intro properties_for_sort [symmetric]) (simp_all add: sortStrings_def)
qed

section \<open>Splitting and joining are inverse\<close>

lemma str_split_not_Nil [simp]: "str_split c s \<noteq> []"
  by (cases s) (auto split: list.splits)

lemma str_join_Cons: "ps \<noteq> [] \<Longrightarrow> str_join c (p # ps) = p @ c # str_join c ps"
  by (cases ps) simp_all

lemma str_join_cons_head: "str_join c ((x # p) # ps) = x # str_join c (p # ps)"
  by (cases ps) simp_all

lemma str_join_split [simp]: "str_join c (str_split c s) = s"
  by (induction s) (auto simp: str_join_Cons str_join_cons_head split: list.splits)

lemma str_split_no_sep: "p \<in> set (str_split c s) \<Longrightarrow> c \<notin> set p"
  by (induction s arbitrary: p) (fastforce split: list.splits if_splits)+

lemma str_split_single: "c \<notin> set s \<Longrightarrow> str_split c s = [s]"
  by (induction s) auto

lemma str_split_append: "c \<notin> set p \<Longrightarrow> str_split c (p @ c # s) = p # str_split c s"
  by (induction p) auto

lemma str_split_join:
  "ps \<noteq> [] \<Longrightarrow> (\<And>p. p \<in> set ps \<Longrightarrow> c \<notin> set p) \<Longrightarrow> str_split c (str_join c ps) = ps"
proof (induction ps)
  case Nil
  then show ?case by simp
next
  case (Cons p ps)
  then show ?case
    by (cases "ps = []") (auto simp: str_join_Cons str_split_append str_split_single)
qed

section \<open>Normalisation\<close>

lemma normalizeQuery_sort:
  "normalizeQuery raw = str_join (CHR ''&'') (sort (str_split (CHR ''&'') raw))"
  by (simp add: normalizeQuery_def sortStrings_sort str_split_single)

lemma split_normalizeQuery:
  "str_split (CHR ''&'') (normalizeQuery raw) = sort (str_split (CHR ''&'') raw)"
proof -
  have "sort (str_split (CHR ''&'') raw) \<noteq> []"
    by (metis length_0_conv length_sort str_split_not_Nil)
  then show ?thesis
    unfolding normalizeQuery_sort by (intro str_split_join) (auto dest: str_split_no_sep)
qed

lemma normalizeQuery_eq_iff:
  "normalizeQuery a = normalizeQuery b \<longleftrightarrow>
   mset (str_split (CHR ''&'') a) = mset (str_split (CHR ''&'') b)"
proof
  assume "normalizeQuery a = normalizeQuery b"
  then have "sort (str_split (CHR ''&'') a) = sort (str_split (CHR ''&'') b)"
    by (metis split_normalizeQuery)
  then show "mset (str_split (CHR ''&'') a) = mset (str_split (CHR ''&'') b)"
    by (metis mset_sort)
next
  assume "mset (str_split (CHR ''&'') a) = mset (str_split (CHR ''&'') b)"
  then show "normalizeQuery a = normalizeQuery b"
    by (metis normalizeQuery_sort sorted_list_of_multiset_mset)
qed

lemma split_eq_empty:
  "mset (str_split (CHR ''&'') q) = mset (str_split (CHR ''&'') []) \<longleftrightarrow> q = []"
proof
  assume "mset (str_split (CHR ''&'') q) = mset (str_split (CHR ''&'') [])"
  then have "str_split (CHR ''&'') q = [[]]" by simp
  then show "q = []" by (metis str_join.simps(2) str_join_split)
qed simp


section \<open>Which requests share a key\<close>

definition same_query :: "string \<Rightarrow> string \<Rightarrow> bool" where
  "same_query q q' \<longleftrightarrow> mset (str_split (CHR ''&'') q) = mset (str_split (CHR ''&'') q')"

lemma same_query_iff: "same_query q q' \<longleftrightarrow> normalizeQuery q = normalizeQuery q'"
  by (simp add: same_query_def normalizeQuery_eq_iff)

lemma same_query_Nil [simp]: "same_query q [] \<longleftrightarrow> q = []" "same_query [] q \<longleftrightarrow> q = []"
  using split_eq_empty [of q] by (auto simp: same_query_def)

lemma writeQueryPart_append: "writeQueryPart (b @ x) q = b @ writeQueryPart x q"
  by (simp add: writeQueryPart_def)

lemma path_query_eq_iff:
  assumes "CHR ''?'' \<notin> set p" and "CHR ''?'' \<notin> set p'"
  shows "writeQueryPart p q = writeQueryPart p' q' \<longleftrightarrow> p = p' \<and> same_query q q'"
proof (cases "q = []"; cases "q' = []")
  assume "q \<noteq> []" and "q' \<noteq> []"
  with assms show ?thesis by (simp add: writeQueryPart_def append_eq_sep_iff same_query_iff)
qed (use assms in \<open>auto simp: writeQueryPart_def\<close>)

lemma exactKey_append:
  "exactKey r body = ''exact:'' @ rq_method r @ CHR ''|'' # writeQueryPart (rq_path r) (rq_query r)"
  by (simp add: exactKey_def KeyStrategyExact_def writeQueryPart_def)

lemma exactKey_eq_iff:
  assumes "CHR ''|'' \<notin> set (rq_method r)" "CHR ''|'' \<notin> set (rq_method r')"
    and "CHR ''?'' \<notin> set (rq_path r)" "CHR ''?'' \<notin> set (rq_path r')"
  shows "exactKey r b = exactKey r' b' \<longleftrightarrow>
     rq_method r = rq_method r' \<and> rq_path r = rq_path r' \<and> same_query (rq_query r) (rq_query r')"
  using assms by (simp add: exactKey_append append_eq_sep_iff path_query_eq_iff)

section \<open>The hash part of a body key\<close>

fun unhex :: "nat \<Rightarrow> string \<Rightarrow> nat" where
  "unhex a [] = a"
| "unhex a (c # cs) =
     unhex (16 * a + (if of_char c < (58::nat) then of_char c - 48 else of_char c - 87)) cs"

lemma unhex_append: "unhex a (s @ t) = unhex (unhex a s) t"
  by (induction s arbitrary: a) simp_all

lemma of_char_hex_digit:
  "d < 16 \<Longrightarrow> of_char (hex_digit d) = (if d < 10 then 48 + d else 87 + d :: nat)"
  by (simp add: hex_digit_def of_char_of)

lemma unhex_format_hex: "unhex 0 (format_hex n) = n"
proof (induction n rule: format_hex.induct)
  case (1 n)
  then show ?case
    by (cases "n < 16") (simp_all add: format_hex.simps [of n] unhex_append of_char_hex_digit)
qed

lemma format_hex_inject [simp]: "format_hex m = format_hex n \<longleftrightarrow> m = n"
  by (metis unhex_format_hex)

lemma bar_notin_format_hex: "CHR ''|'' \<notin> set (format_hex n)"
proof (induction n rule: format_hex.induct)
  case (1 n)
  have digit: "hex_digit d \<noteq> CHR ''|''" if "d < 16" for d
  proof
    assume "hex_digit d = CHR ''|''"
    then have "(of_char (hex_digit d) :: nat) = 124" by simp
    with that show False by (simp add: of_char_hex_digit split: if_splits)
  qed
  from 1 digit [of n] digit [of "n mod 16"] show ?case
    by (cases "n < 16") (auto simp: format_hex.simps [of n])
qed

lemma append_eq_last_sep_iff:
  assumes "c \<notin> set h" and "c \<notin> set h'"
  shows "x @ c # h = x' @ c # h' \<longleftrightarrow> x = x' \<and> h = h'"
  using assms append_eq_sep_iff [of c "rev h" "rev h'" "rev x" "rev x'"]
  by (metis append.assoc append_Cons append_Nil rev.simps(2) rev_append rev_is_rev_conv rev_rev_ident set_rev)

lemma exactWithBodyKey_append:
  "exactWithBodyKey r body =
     (''exact_with_body:'' @ rq_method r @ CHR ''|'' # rq_host r @ CHR ''|'' #
        writeQueryPart (rq_path r) (rq_query r)) @ CHR ''|'' # format_hex (unat (fnv_sum64 body))"
  by (simp add: exactWithBodyKey_def KeyStrategyExactWithBody_def writeQueryPart_def Let_def)

lemma exactWithBodyKey_eq_iff:
  assumes "CHR ''|'' \<notin> set (rq_method r)" "CHR ''|'' \<notin> set (rq_method r')"
    and "CHR ''|'' \<notin> set (rq_host r)" "CHR ''|'' \<notin> set (rq_host r')"
    and "CHR ''?'' \<notin> set (rq_path r)" "CHR ''?'' \<notin> set (rq_path r')"
  shows "exactWithBodyKey r b = exactWithBodyKey r' b' \<longleftrightarrow>
     rq_method r = rq_method r' \<and> rq_host r = rq_host r' \<and> rq_path r = rq_path r' \<and>
     same_query (rq_query r) (rq_query r') \<and> fnv_sum64 b = fnv_sum64 b'"
  unfolding exactWithBodyKey_append
  using assms by (subst append_eq_last_sep_iff)
    (auto simp: bar_notin_format_hex append_eq_sep_iff path_query_eq_iff word_unat_eq_iff)

lemma exactWithHostKey_append:
  "exactWithHostKey r body =
     ''exact_with_host:'' @ rq_method r @ CHR ''|'' # rq_host r @ CHR ''|'' #
        writeQueryPart (rq_path r) (rq_query r)"
  by (simp add: exactWithHostKey_def KeyStrategyExactWithHost_def writeQueryPart_def)

section \<open>Properties of the keys\<close>

text \<open>
  C37. Query normalisation is canonical: the parameters of the normalised query are those of the
  query, sorted, and two queries normalise alike exactly when one is a reordering of the other's
  parameters.
\<close>

theorem normalizeQuery_canonical:
  "str_split (CHR ''&'') (normalizeQuery q) = sort (str_split (CHR ''&'') q) \<and>
   (normalizeQuery q = normalizeQuery q' \<longleftrightarrow> mset (str_split (CHR ''&'') q) = mset (str_split (CHR ''&'') q'))"
  using split_normalizeQuery normalizeQuery_eq_iff by blast

text \<open>
  C36. What the keys identify. For methods and hosts without a bar and decoded paths without a
  question mark, two requests share an exact key exactly when method, path and the parameters
  of the query agree, and a body key exactly when, besides, host and body hash agree.
\<close>

theorem keys_identify:
  assumes "CHR ''|'' \<notin> set (rq_method r)" "CHR ''|'' \<notin> set (rq_method r')"
    and "CHR ''|'' \<notin> set (rq_host r)" "CHR ''|'' \<notin> set (rq_host r')"
    and "CHR ''?'' \<notin> set (rq_path r)" "CHR ''?'' \<notin> set (rq_path r')"
  shows "(KeyFuncFor KeyStrategyExact r b = KeyFuncFor KeyStrategyExact r' b' \<longleftrightarrow>
      rq_method r = rq_method r' \<and> rq_path r = rq_path r' \<and> same_query (rq_query r) (rq_query r')) \<and>
    (KeyFuncFor KeyStrategyExactWithBody r b = KeyFuncFor KeyStrategyExactWithBody r' b' \<longleftrightarrow>
      rq_method r = rq_method r' \<and> rq_host r = rq_host r' \<and> rq_path r = rq_path r' \<and>
      same_query (rq_query r) (rq_query r') \<and> fnv_sum64 b = fnv_sum64 b')"
  using exactKey_eq_iff [of r r' b b'] exactWithBodyKey_eq_iff [of r r' b b'] assms
  by (simp add: KeyFuncFor_def KeyStrategyExact_def KeyStrategyExactWithBody_def KeyStrategyExactWithHost_def)

theorem keys_identify_witness:
  "KeyFuncFor KeyStrategyExact \<lparr>rq_method = ''GET'', rq_host = ''a'', rq_path = ''/p'', rq_query = ''x=1&y=2''\<rparr> [] =
   KeyFuncFor KeyStrategyExact \<lparr>rq_method = ''GET'', rq_host = ''b'', rq_path = ''/p'', rq_query = ''y=2&x=1''\<rparr> []"
  by (subst keys_identify [THEN conjunct1]) (simp_all add: same_query_def)

text \<open>
  A decoded path may contain a question mark (an escaped one in the URL). Then the key
  does not tell the path from the query: the request for the path \<open>/p?q\<close> without a query has
  the key of the request for \<open>/p\<close> with the query \<open>q\<close>.
\<close>

theorem exactKey_collision:
  "rq_query r = [] \<Longrightarrow> rq_path r = rq_path r' @ ''?'' @ normalizeQuery (rq_query r') \<Longrightarrow> rq_query r' \<noteq> [] \<Longrightarrow>
   rq_method r = rq_method r' \<Longrightarrow> exactKey r b = exactKey r' b' \<and> rq_path r \<noteq> rq_path r'"
  by (simp add: exactKey_append writeQueryPart_def)

theorem exactKey_collision_witness:
  "exactKey \<lparr>rq_method = ''GET'', rq_host = [], rq_path = ''/p?q'', rq_query = []\<rparr> [] =
   exactKey \<lparr>rq_method = ''GET'', rq_host = [], rq_path = ''/p'', rq_query = ''q''\<rparr> []"
  using exactKey_collision [of "\<lparr>rq_method = ''GET'', rq_host = [], rq_path = ''/p?q'', rq_query = []\<rparr>"
      "\<lparr>rq_method = ''GET'', rq_host = [], rq_path = ''/p'', rq_query = ''q''\<rparr>"]
  by (simp add: normalizeQuery_def)

end
