(* ===== verification/Cachebox_Store.thy ===== *)
theory Cachebox_Store
  imports Atropos_Prelude
begin

text \<open>
  The cache store (\<open>internal/cachebox/store.go\<close>, \<open>internal/cachebox/memstore.go\<close>): cached
  entries, the \<open>Store\<close> contract as a locale, and \<open>MemStore\<close> as the code has it, a map from
  keys to list elements beside a recency list. The invariant ties the two structures and the
  byte counter together; the refinement lemmas show that the operations are those of a
  plain recency list, \<open>abs_get\<close>, \<open>abs_put\<close> and deletion.
\<close>

section \<open>Entries\<close>

type_synonym header = "(string \<times> string list) list"

record entry =
  e_key :: string
  e_status :: int
  e_header :: "header option"
  e_body :: string
  e_latency :: int
  e_recorded :: int
  e_hits :: int

text \<open>\<open>(*Entry).Size\<close>; a nil header ranges over nothing.\<close>

definition header_size :: "header \<Rightarrow> nat" where
  "header_size h = sum_list (map (\<lambda>(k, vs). length k + sum_list (map length vs)) h)"

definition entry_size :: "entry \<Rightarrow> int" where
  "entry_size e =
     int (length (e_body e) + length (e_key e) +
          (case e_header e of None \<Rightarrow> 0 | Some h \<Rightarrow> header_size h))"

section \<open>The in-memory store\<close>

text \<open>
  \<open>ms_entries\<close> is the map to list elements, elements being identified by numbers taken
  from \<open>ms_next\<close>; \<open>ms_lru\<close> is the list, front first, each element with its \<open>listNode\<close>.
\<close>

record memstore =
  ms_max :: int
  ms_ttl :: int
  ms_entries :: "string \<rightharpoonup> nat"
  ms_lru :: "(nat \<times> string \<times> entry) list"
  ms_next :: nat
  ms_hits :: int
  ms_misses :: int
  ms_evictions :: int
  ms_bytes :: int

definition NewMemStore :: "int \<Rightarrow> int \<Rightarrow> memstore" where
  "NewMemStore cap ttl =
     \<lparr>ms_max = cap, ms_ttl = ttl, ms_entries = Map.empty, ms_lru = [], ms_next = 0,
      ms_hits = 0, ms_misses = 0, ms_evictions = 0, ms_bytes = 0\<rparr>"

text \<open>The operations of \<open>container/list\<close> the store uses, on elements named by number.\<close>

definition list_remove :: "nat \<Rightarrow> (nat \<times> 'v) list \<Rightarrow> (nat \<times> 'v) list" where
  "list_remove el l = filter (\<lambda>p. fst p \<noteq> el) l"

definition move_to_front :: "nat \<Rightarrow> (nat \<times> 'v) list \<Rightarrow> (nat \<times> 'v) list" where
  "move_to_front el l =
     (case map_of l el of None \<Rightarrow> l | Some v \<Rightarrow> (el, v) # list_remove el l)"

definition set_value :: "nat \<Rightarrow> 'v \<Rightarrow> (nat \<times> 'v) list \<Rightarrow> (nat \<times> 'v) list" where
  "set_value el v l = map (\<lambda>p. if fst p = el then (el, v) else p) l"

definition removeLocked :: "nat \<Rightarrow> memstore \<Rightarrow> memstore" where
  "removeLocked el s =
     (case map_of (ms_lru s) el of
        None \<Rightarrow> s
      | Some (k, e) \<Rightarrow>
          s\<lparr>ms_entries := (ms_entries s)(k := None),
            ms_lru := list_remove el (ms_lru s),
            ms_bytes := ms_bytes s - entry_size e\<rparr>)"

definition expired :: "int \<Rightarrow> int \<Rightarrow> entry \<Rightarrow> bool" where
  "expired ttl now e \<longleftrightarrow> 0 < ttl \<and> ttl < time_sub now (e_recorded e)"

definition bump_hits :: "entry \<Rightarrow> entry" where
  "bump_hits e = e\<lparr>e_hits := e_hits e + 1\<rparr>"

definition mem_get :: "int \<Rightarrow> string \<Rightarrow> memstore \<Rightarrow> entry option \<times> memstore" where
  "mem_get now key s =
     (case ms_entries s key of
        None \<Rightarrow> (None, s\<lparr>ms_misses := ms_misses s + 1\<rparr>)
      | Some el \<Rightarrow>
          (case map_of (ms_lru s) el of
             None \<Rightarrow> (None, s)
           | Some (k, e) \<Rightarrow>
               if expired (ms_ttl s) now e
               then (let s' = removeLocked el s in (None, s'\<lparr>ms_misses := ms_misses s' + 1\<rparr>))
               else (Some (bump_hits e),
                     s\<lparr>ms_lru := set_value el (k, bump_hits e) (move_to_front el (ms_lru s)),
                       ms_hits := ms_hits s + 1\<rparr>)))"

lemma map_of_last: "l \<noteq> [] \<Longrightarrow> map_of l (fst (last l)) \<noteq> None"
  by (simp add: map_of_eq_None_iff)

lemma length_removeLocked_last:
  "ms_lru s \<noteq> [] \<Longrightarrow>
   length (ms_lru (removeLocked (fst (last (ms_lru s))) s)) < length (ms_lru s)"
  using map_of_last [of "ms_lru s"]
    length_filter_less [of "last (ms_lru s)" "ms_lru s" "\<lambda>p. fst p \<noteq> fst (last (ms_lru s))"]
  by (auto simp: removeLocked_def list_remove_def)

text \<open>The eviction loop of \<open>Put\<close>: while the cap is exceeded, the back element goes.\<close>

function evict_loop :: "memstore \<Rightarrow> memstore" where
  "evict_loop s =
     (if 0 < ms_max s \<and> ms_max s < int (length (ms_lru s))
      then (let s' = removeLocked (fst (last (ms_lru s))) s
            in evict_loop (s'\<lparr>ms_evictions := ms_evictions s' + 1\<rparr>))
      else s)"
  by pat_completeness auto

termination
proof (relation "measure (\<lambda>s. length (ms_lru s))")
  fix s s' :: memstore
  assume "0 < ms_max s \<and> ms_max s < int (length (ms_lru s))"
    and s': "s' = removeLocked (fst (last (ms_lru s))) s"
  then have "ms_lru s \<noteq> []" by auto
  from length_removeLocked_last [OF this] s'
  show "(s'\<lparr>ms_evictions := ms_evictions s' + 1\<rparr>, s) \<in> measure (\<lambda>s. length (ms_lru s))"
    by simp
qed simp

declare evict_loop.simps [simp del]

definition mem_put :: "string \<Rightarrow> entry option \<Rightarrow> memstore \<Rightarrow> memstore" where
  "mem_put key entry s =
     (case entry of
        None \<Rightarrow> s
      | Some e \<Rightarrow>
          (case ms_entries s key of
             Some el \<Rightarrow>
               (case map_of (ms_lru s) el of
                  None \<Rightarrow> s
                | Some (k, old) \<Rightarrow>
                    s\<lparr>ms_lru := move_to_front el (set_value el (k, e) (ms_lru s)),
                      ms_bytes := ms_bytes s - entry_size old + entry_size e\<rparr>)
           | None \<Rightarrow>
               evict_loop
                 (s\<lparr>ms_lru := (ms_next s, key, e) # ms_lru s,
                    ms_entries := (ms_entries s)(key \<mapsto> ms_next s),
                    ms_next := Suc (ms_next s),
                    ms_bytes := ms_bytes s + entry_size e\<rparr>)))"

definition mem_delete :: "string \<Rightarrow> memstore \<Rightarrow> memstore" where
  "mem_delete key s =
     (case ms_entries s key of None \<Rightarrow> s | Some el \<Rightarrow> removeLocked el s)"

definition mem_len :: "memstore \<Rightarrow> int" where
  "mem_len s = int (length (ms_lru s))"

definition mem_clear :: "memstore \<Rightarrow> memstore" where
  "mem_clear s = s\<lparr>ms_entries := Map.empty, ms_lru := [], ms_bytes := 0\<rparr>"

record store_stats =
  st_entries :: int
  st_hits :: int
  st_misses :: int
  st_bytes :: int
  st_evictions :: int

definition mem_stats :: "memstore \<Rightarrow> store_stats" where
  "mem_stats s =
     \<lparr>st_entries = int (length (ms_lru s)), st_hits = ms_hits s, st_misses = ms_misses s,
      st_bytes = ms_bytes s, st_evictions = ms_evictions s\<rparr>"

section \<open>The recency list it implements\<close>

type_synonym recency = "(string \<times> entry) list"

definition abs_delete :: "string \<Rightarrow> recency \<Rightarrow> recency" where
  "abs_delete k l = filter (\<lambda>p. fst p \<noteq> k) l"

definition abs_get :: "int \<Rightarrow> int \<Rightarrow> string \<Rightarrow> recency \<Rightarrow> entry option \<times> recency" where
  "abs_get ttl now k l =
     (case map_of l k of
        None \<Rightarrow> (None, l)
      | Some e \<Rightarrow>
          if expired ttl now e then (None, abs_delete k l)
          else (Some (bump_hits e), (k, bump_hits e) # abs_delete k l))"

definition abs_put :: "int \<Rightarrow> string \<Rightarrow> entry \<Rightarrow> recency \<Rightarrow> recency" where
  "abs_put cap k e l =
     (let l' = (k, e) # abs_delete k l in if 0 < cap then take (nat cap) l' else l')"

definition mem_abs :: "memstore \<Rightarrow> recency" where
  "mem_abs s = map snd (ms_lru s)"

section \<open>The invariant\<close>

definition linked :: "(string \<rightharpoonup> nat) \<Rightarrow> (nat \<times> string \<times> entry) list \<Rightarrow> bool" where
  "linked m l \<longleftrightarrow> (\<forall>k i. m k = Some i \<longleftrightarrow> (\<exists>e. (i, k, e) \<in> set l))"

definition store_core :: "memstore \<Rightarrow> bool" where
  "store_core s \<longleftrightarrow>
     distinct (map fst (ms_lru s)) \<and> distinct (map fst (mem_abs s)) \<and>
     (\<forall>p \<in> set (ms_lru s). fst p < ms_next s) \<and>
     linked (ms_entries s) (ms_lru s) \<and>
     ms_bytes s = sum_list (map (entry_size \<circ> snd) (mem_abs s))"

definition mem_inv :: "memstore \<Rightarrow> bool" where
  "mem_inv s \<longleftrightarrow> store_core s \<and> (0 < ms_max s \<longrightarrow> int (length (ms_lru s)) \<le> ms_max s)"


lemma sum_list_filter_key:
  fixes g :: "'k \<times> 'v \<Rightarrow> int"
  assumes "distinct (map fst l)" and "map_of l k = Some v"
  shows "sum_list (map g (filter (\<lambda>p. fst p \<noteq> k) l)) = sum_list (map g l) - g (k, v)"
  using assms
proof (induction l)
  case (Cons p l)
  show ?case
  proof (cases "fst p = k")
    case True
    with Cons.prems have "filter (\<lambda>p. fst p \<noteq> k) l = l"
      by (intro filter_neq_id) (metis list.simps(9) distinct.simps(2) set_map)
    with True Cons.prems show ?thesis by (cases p) auto
  next
    case False
    with Cons show ?thesis by (cases p) auto
  qed
qed simp

lemma store_core_mapD:
  assumes "store_core s" and "map_of (ms_lru s) el = Some (k, e)"
  shows "map_of (mem_abs s) k = Some e" and "ms_entries s k = Some el"
    and "(el, k, e) \<in> set (ms_lru s)"
proof -
  show mem: "(el, k, e) \<in> set (ms_lru s)" using assms(2) by (rule map_of_SomeD)
  then have "(k, e) \<in> set (mem_abs s)" by (force simp: mem_abs_def)
  with assms(1) show "map_of (mem_abs s) k = Some e" by (simp add: store_core_def)
  from mem assms(1) show "ms_entries s k = Some el" by (auto simp: store_core_def linked_def)
qed

lemma store_core_entries:
  assumes "store_core s"
  shows "ms_entries s k = None \<Longrightarrow> map_of (mem_abs s) k = None"
    and "ms_entries s k = Some el \<Longrightarrow> \<exists>e. map_of (ms_lru s) el = Some (k, e)"
proof -
  assume "ms_entries s k = None"
  with assms have "\<nexists>i e. (i, k, e) \<in> set (ms_lru s)"
    unfolding store_core_def linked_def by (metis option.distinct(1))
  then show "map_of (mem_abs s) k = None"
    by (force simp: mem_abs_def map_of_eq_None_iff)
next
  assume "ms_entries s k = Some el"
  with assms obtain e where "(el, k, e) \<in> set (ms_lru s)" by (auto simp: store_core_def linked_def)
  with assms show "\<exists>e. map_of (ms_lru s) el = Some (k, e)" by (auto simp: store_core_def)
qed

lemma same_element_iff:
  assumes "store_core s" and "(el, k, e) \<in> set (ms_lru s)" and "p \<in> set (ms_lru s)"
  shows "fst p = el \<longleftrightarrow> fst (snd p) = k"
proof
  assume "fst p = el"
  with assms have "p = (el, k, e)"
    by (metis (no_types, lifting) distinct_map fst_conv inj_on_contraD store_core_def)
  then show "fst (snd p) = k" by simp
next
  assume "fst (snd p) = k"
  moreover obtain i k' e' where "p = (i, k', e')" by (cases p)
  ultimately show "fst p = el"
    using assms by (auto simp: store_core_def linked_def) (metis option.inject)
qed

lemma mem_abs_remove:
  assumes "store_core s" and "(el, k, e) \<in> set (ms_lru s)"
  shows "map snd (list_remove el (ms_lru s)) = abs_delete k (mem_abs s)"
proof -
  have "list_remove el (ms_lru s) = filter (\<lambda>p. fst (snd p) \<noteq> k) (ms_lru s)"
    unfolding list_remove_def
    by (rule filter_cong [OF refl]) (use same_element_iff [OF assms] in blast)
  then show ?thesis
    by (simp add: mem_abs_def abs_delete_def filter_map o_def)
qed

lemma linked_remove:
  assumes "store_core s" and "(el, k, e) \<in> set (ms_lru s)"
  shows "linked ((ms_entries s)(k := None)) (list_remove el (ms_lru s))"
  unfolding linked_def
proof (intro allI)
  fix k' i
  have same: "(i, k', e') \<in> set (ms_lru s) \<Longrightarrow> (i = el) = (k' = k)" for e'
    using same_element_iff [OF assms, of "(i, k', e')"] by simp
  have "ms_entries s k' = Some i \<longleftrightarrow> (\<exists>e. (i, k', e) \<in> set (ms_lru s))"
    using assms(1) by (auto simp: store_core_def linked_def)
  then show "((ms_entries s)(k := None)) k' = Some i \<longleftrightarrow>
      (\<exists>e. (i, k', e) \<in> set (list_remove el (ms_lru s)))"
    using same by (auto simp: list_remove_def)
qed

lemma removeLocked_correct:
  assumes core: "store_core s" and el: "map_of (ms_lru s) el = Some (k, e)"
  shows "store_core (removeLocked el s)"
    and "mem_abs (removeLocked el s) = abs_delete k (mem_abs s)"
proof -
  note mem = store_core_mapD(3) [OF core el]
  show abs: "mem_abs (removeLocked el s) = abs_delete k (mem_abs s)"
    using el mem_abs_remove [OF core mem] by (simp add: removeLocked_def mem_abs_def)
  have "sum_list (map (entry_size \<circ> snd) (abs_delete k (mem_abs s))) =
        sum_list (map (entry_size \<circ> snd) (mem_abs s)) - entry_size e"
    using sum_list_filter_key [of "mem_abs s" k e "entry_size \<circ> snd"] core
      store_core_mapD(1) [OF core el]
    by (simp add: abs_delete_def store_core_def)
  moreover have "distinct (map fst (abs_delete k (mem_abs s)))"
    using core by (simp add: store_core_def abs_delete_def distinct_map_filter)
  moreover have "distinct (map fst (list_remove el (ms_lru s)))"
    using core by (simp add: store_core_def list_remove_def distinct_map_filter)
  ultimately show "store_core (removeLocked el s)"
    using core el abs linked_remove [OF core mem]
    by (auto simp: store_core_def removeLocked_def list_remove_def)
qed

lemma removeLocked_other [simp]:
  "ms_max (removeLocked el s) = ms_max s" "ms_ttl (removeLocked el s) = ms_ttl s"
  "ms_next (removeLocked el s) = ms_next s"
  by (auto simp: removeLocked_def split: option.splits)


section \<open>Every operation keeps the invariant and refines its abstract counterpart\<close>

lemma length_mem_abs: "length (mem_abs s) = length (ms_lru s)"
  by (simp add: mem_abs_def)

lemma counters_irrelevant [simp]:
  "store_core (s\<lparr>ms_hits := n\<rparr>) = store_core s" "mem_abs (s\<lparr>ms_hits := n\<rparr>) = mem_abs s"
  "store_core (s\<lparr>ms_misses := n\<rparr>) = store_core s" "mem_abs (s\<lparr>ms_misses := n\<rparr>) = mem_abs s"
  "store_core (s\<lparr>ms_evictions := n\<rparr>) = store_core s" "mem_abs (s\<lparr>ms_evictions := n\<rparr>) = mem_abs s"
  by (simp_all add: store_core_def mem_abs_def)

lemma set_value_removed [simp]: "set_value el v (list_remove el l) = list_remove el l"
  by (auto simp: set_value_def list_remove_def intro: map_idI)

lemma set_value_Cons [simp]:
  "set_value el v (p # l) = (if fst p = el then (el, v) else p) # set_value el v l"
  by (simp add: set_value_def)

lemma list_remove_set_value [simp]: "list_remove el (set_value el v l) = list_remove el l"
  by (induction l) (auto simp: set_value_def list_remove_def)

lemma map_of_set_value: "map_of l el = Some v' \<Longrightarrow> map_of (set_value el v l) el = Some v"
  by (induction l) (auto simp: set_value_def split: if_splits)

lemma front_correct:
  fixes e' :: entry
  assumes core: "store_core s" and el: "map_of (ms_lru s) el = Some (k, e)"
  defines "s' \<equiv> s\<lparr>ms_lru := (el, k, e') # list_remove el (ms_lru s),
                  ms_bytes := ms_bytes s - entry_size e + entry_size e'\<rparr>"
  shows "store_core s'" and "mem_abs s' = (k, e') # abs_delete k (mem_abs s)"
    and "length (ms_lru s') = length (ms_lru s)"
proof -
  note mem = store_core_mapD(3) [OF core el]
  let ?r = "removeLocked el s"
  have r: "store_core ?r" "mem_abs ?r = abs_delete k (mem_abs s)"
    using removeLocked_correct [OF core el] by simp_all
  have rr: "ms_lru ?r = list_remove el (ms_lru s)" "ms_entries ?r = (ms_entries s)(k := None)"
      "ms_bytes ?r = ms_bytes s - entry_size e" "ms_next ?r = ms_next s"
    using el by (simp_all add: removeLocked_def)
  show abs: "mem_abs s' = (k, e') # abs_delete k (mem_abs s)"
    using r(2) rr(1) by (simp add: s'_def mem_abs_def)
  have ent: "ms_entries s k = Some el" by (rule store_core_mapD(2) [OF core el])
  have link: "linked (ms_entries s) ((el, k, e') # list_remove el (ms_lru s))"
    unfolding linked_def
  proof (intro allI)
    fix k' i
    have "((ms_entries s)(k := None)) k' = Some i \<longleftrightarrow>
        (\<exists>e. (i, k', e) \<in> set (list_remove el (ms_lru s)))"
      using linked_remove [OF core mem] by (auto simp: linked_def)
    then show "ms_entries s k' = Some i \<longleftrightarrow>
        (\<exists>x. (i, k', x) \<in> set ((el, k, e') # list_remove el (ms_lru s)))"
      using ent by (auto split: if_splits)
  qed
  have "el < ms_next s" using core mem by (auto simp: store_core_def)
  moreover have "el \<notin> set (map fst (list_remove el (ms_lru s)))" by (auto simp: list_remove_def)
  moreover have "k \<notin> set (map fst (abs_delete k (mem_abs s)))" by (auto simp: abs_delete_def)
  ultimately show core': "store_core s'"
    using r rr link abs by (simp add: store_core_def s'_def)
  have "set (map fst (ms_lru s')) = set (map fst (ms_lru s))"
    using mem by (force simp: s'_def list_remove_def)
  then show "length (ms_lru s') = length (ms_lru s)"
    using core core' by (metis distinct_card length_map store_core_def)
qed

lemma entry_size_bump [simp]: "entry_size (bump_hits e) = entry_size e"
  by (simp add: entry_size_def bump_hits_def)

lemma mem_get_correct:
  assumes inv: "mem_inv s"
  shows "mem_inv (snd (mem_get now k s))"
    and "fst (mem_get now k s) = fst (abs_get (ms_ttl s) now k (mem_abs s))"
    and "mem_abs (snd (mem_get now k s)) = snd (abs_get (ms_ttl s) now k (mem_abs s))"
proof -
  from inv have core: "store_core s" by (simp add: mem_inv_def)
  have "mem_inv (snd (mem_get now k s)) \<and>
      fst (mem_get now k s) = fst (abs_get (ms_ttl s) now k (mem_abs s)) \<and>
      mem_abs (snd (mem_get now k s)) = snd (abs_get (ms_ttl s) now k (mem_abs s))"
  proof (cases "ms_entries s k")
    case None
    with store_core_entries(1) [OF core None] inv show ?thesis
      by (simp add: mem_get_def abs_get_def mem_inv_def)
  next
    case (Some el)
    from store_core_entries(2) [OF core Some] obtain e where el: "map_of (ms_lru s) el = Some (k, e)"
      by blast
    note ab = store_core_mapD(1) [OF core el]
    show ?thesis
    proof (cases "expired (ms_ttl s) now e")
      case True
      have "length (ms_lru (removeLocked el s)) \<le> length (ms_lru s)"
        using el by (simp add: removeLocked_def list_remove_def)
      with True Some el ab removeLocked_correct [OF core el] inv show ?thesis
        by (auto simp add: mem_get_def abs_get_def mem_inv_def Let_def)
    next
      case False
      let ?f = "s\<lparr>ms_lru := (el, k, bump_hits e) # list_remove el (ms_lru s),
          ms_bytes := ms_bytes s - entry_size e + entry_size (bump_hits e)\<rparr>"
      have get: "mem_get now k s = (Some (bump_hits e), ?f\<lparr>ms_hits := ms_hits s + 1\<rparr>)"
        using False Some el by (simp add: mem_get_def move_to_front_def)
      have "store_core ?f" "mem_abs ?f = (k, bump_hits e) # abs_delete k (mem_abs s)"
          "length (ms_lru ?f) = length (ms_lru s)"
        using front_correct [OF core el, of "bump_hits e"] by simp_all
      then show ?thesis
        unfolding get using False ab inv by (simp add: abs_get_def mem_inv_def)
    qed
  qed
  then show "mem_inv (snd (mem_get now k s))"
    and "fst (mem_get now k s) = fst (abs_get (ms_ttl s) now k (mem_abs s))"
    and "mem_abs (snd (mem_get now k s)) = snd (abs_get (ms_ttl s) now k (mem_abs s))"
    by simp_all
qed

lemma last_of_core:
  assumes "store_core s" and "ms_lru s \<noteq> []"
  obtains el k e where "last (ms_lru s) = (el, k, e)" "map_of (ms_lru s) el = Some (k, e)"
    "abs_delete k (mem_abs s) = butlast (mem_abs s)"
proof -
  obtain el k e where l: "last (ms_lru s) = (el, k, e)" by (cases "last (ms_lru s)")
  with assms have "(el, k, e) \<in> set (ms_lru s)" by (metis last_in_set)
  with assms(1) have m: "map_of (ms_lru s) el = Some (k, e)" by (simp add: store_core_def)
  have split: "mem_abs s = butlast (mem_abs s) @ [(k, e)]"
    using assms(2) l by (metis append_butlast_last_id last_map map_is_Nil_conv mem_abs_def snd_conv)
  moreover have "distinct (map fst (mem_abs s))" using assms(1) by (simp add: store_core_def)
  ultimately have "distinct (map fst (butlast (mem_abs s) @ [(k, e)]))" by simp
  then have "k \<notin> fst ` set (butlast (mem_abs s))" by simp
  then have "abs_delete k (butlast (mem_abs s)) = butlast (mem_abs s)"
    unfolding abs_delete_def by (rule filter_neq_id)
  then have "abs_delete k (butlast (mem_abs s) @ [(k, e)]) = butlast (mem_abs s)"
    by (simp add: abs_delete_def)
  with split have "abs_delete k (mem_abs s) = butlast (mem_abs s)" by simp
  with l m that show thesis by blast
qed


lemma evict_loop_correct:
  "store_core s \<Longrightarrow>
   store_core (evict_loop s) \<and> ms_max (evict_loop s) = ms_max s \<and> ms_ttl (evict_loop s) = ms_ttl s \<and>
   mem_abs (evict_loop s) = (if 0 < ms_max s then take (nat (ms_max s)) (mem_abs s) else mem_abs s)"
proof (induction s rule: evict_loop.induct)
  case (1 s)
  show ?case
  proof (cases "0 < ms_max s \<and> ms_max s < int (length (ms_lru s))")
    case True
    then have ne: "ms_lru s \<noteq> []" by auto
    obtain el k e where l: "last (ms_lru s) = (el, k, e)" and m: "map_of (ms_lru s) el = Some (k, e)"
      and del: "abs_delete k (mem_abs s) = butlast (mem_abs s)"
      using last_of_core [OF "1.prems" ne] by blast
    let ?r = "removeLocked el s"
    have r: "store_core ?r" "mem_abs ?r = butlast (mem_abs s)"
      using removeLocked_correct [OF "1.prems" m] del by simp_all
    have IH: "store_core (evict_loop (?r\<lparr>ms_evictions := ms_evictions ?r + 1\<rparr>)) \<and>
        ms_max (evict_loop (?r\<lparr>ms_evictions := ms_evictions ?r + 1\<rparr>)) = ms_max s \<and>
        ms_ttl (evict_loop (?r\<lparr>ms_evictions := ms_evictions ?r + 1\<rparr>)) = ms_ttl s \<and>
        mem_abs (evict_loop (?r\<lparr>ms_evictions := ms_evictions ?r + 1\<rparr>)) =
          take (nat (ms_max s)) (butlast (mem_abs s))"
      using "1.IH" [OF True refl] r True by (simp add: l)
    have "nat (ms_max s) < length (mem_abs s)" using True by (simp add: length_mem_abs nat_less_iff)
    with IH True l show ?thesis
      by (simp add: evict_loop.simps [of s] Let_def take_butlast)
  next
    case False
    with "1.prems" show ?thesis
      by (auto simp: evict_loop.simps [of s] length_mem_abs)
  qed
qed

lemma insert_core:
  fixes e :: entry
  assumes core: "store_core s" and new: "ms_entries s k = None"
  defines "s' \<equiv> s\<lparr>ms_lru := (ms_next s, k, e) # ms_lru s, ms_entries := (ms_entries s)(k \<mapsto> ms_next s),
                  ms_next := Suc (ms_next s), ms_bytes := ms_bytes s + entry_size e\<rparr>"
  shows "store_core s'" and "mem_abs s' = (k, e) # abs_delete k (mem_abs s)"
proof -
  have notin: "k \<notin> fst ` set (mem_abs s)"
    using store_core_entries(1) [OF core new] by (simp add: map_of_eq_None_iff)
  then have id: "abs_delete k (mem_abs s) = mem_abs s"
    unfolding abs_delete_def by (rule filter_neq_id)
  show abs: "mem_abs s' = (k, e) # abs_delete k (mem_abs s)"
    using id by (simp add: s'_def mem_abs_def)
  have "ms_next s \<notin> set (map fst (ms_lru s))" using core by (force simp: store_core_def)
  moreover have "linked (ms_entries s') (ms_lru s')"
    using core notin by (auto simp: s'_def store_core_def linked_def mem_abs_def image_iff)
  ultimately show "store_core s'"
    using core notin by (auto simp: store_core_def s'_def mem_abs_def)
qed

lemma mem_put_correct:
  assumes inv: "mem_inv s"
  shows "mem_inv (mem_put k (Some e) s)"
    and "mem_abs (mem_put k (Some e) s) = abs_put (ms_max s) k e (mem_abs s)"
    and "ms_max (mem_put k (Some e) s) = ms_max s \<and> ms_ttl (mem_put k (Some e) s) = ms_ttl s"
proof -
  from inv have core: "store_core s" by (simp add: mem_inv_def)
  have "mem_inv (mem_put k (Some e) s) \<and>
      mem_abs (mem_put k (Some e) s) = abs_put (ms_max s) k e (mem_abs s) \<and>
      ms_max (mem_put k (Some e) s) = ms_max s \<and> ms_ttl (mem_put k (Some e) s) = ms_ttl s"
  proof (cases "ms_entries s k")
    case None
    let ?s = "s\<lparr>ms_lru := (ms_next s, k, e) # ms_lru s, ms_entries := (ms_entries s)(k \<mapsto> ms_next s),
                  ms_next := Suc (ms_next s), ms_bytes := ms_bytes s + entry_size e\<rparr>"
    have "store_core ?s" "mem_abs ?s = (k, e) # abs_delete k (mem_abs s)"
      using insert_core [OF core None, of e] by simp_all
    with evict_loop_correct [of ?s] None show ?thesis
      by (auto simp: mem_put_def abs_put_def mem_inv_def Let_def length_mem_abs [symmetric])
  next
    case (Some el)
    from store_core_entries(2) [OF core Some] obtain old where el: "map_of (ms_lru s) el = Some (k, old)"
      by blast
    let ?s = "s\<lparr>ms_lru := (el, k, e) # list_remove el (ms_lru s),
                ms_bytes := ms_bytes s - entry_size old + entry_size e\<rparr>"
    have put: "mem_put k (Some e) s = ?s"
      using Some el by (simp add: mem_put_def move_to_front_def map_of_set_value)
    have f: "store_core ?s" "mem_abs ?s = (k, e) # abs_delete k (mem_abs s)"
        "length (ms_lru ?s) = length (ms_lru s)"
      using front_correct [OF core el, of e] by simp_all
    have "take (nat (ms_max s)) (mem_abs ?s) = mem_abs ?s" if "0 < ms_max s"
    proof (rule take_all)
      have "int (length (ms_lru s)) \<le> ms_max s" using inv that by (simp add: mem_inv_def)
      with f(3) show "length (mem_abs ?s) \<le> nat (ms_max s)" by (simp add: length_mem_abs)
    qed
    with f inv show ?thesis by (simp add: put abs_put_def mem_inv_def Let_def)
  qed
  then show "mem_inv (mem_put k (Some e) s)"
    and "mem_abs (mem_put k (Some e) s) = abs_put (ms_max s) k e (mem_abs s)"
    and "ms_max (mem_put k (Some e) s) = ms_max s \<and> ms_ttl (mem_put k (Some e) s) = ms_ttl s"
    by simp_all
qed

lemma mem_delete_correct:
  assumes inv: "mem_inv s"
  shows "mem_inv (mem_delete k s)" and "mem_abs (mem_delete k s) = abs_delete k (mem_abs s)"
proof -
  from inv have core: "store_core s" by (simp add: mem_inv_def)
  have "mem_inv (mem_delete k s) \<and> mem_abs (mem_delete k s) = abs_delete k (mem_abs s)"
  proof (cases "ms_entries s k")
    case None
    then have "k \<notin> fst ` set (mem_abs s)"
      using store_core_entries(1) [OF core None] by (simp add: map_of_eq_None_iff)
    then have "abs_delete k (mem_abs s) = mem_abs s"
      unfolding abs_delete_def by (rule filter_neq_id)
    with None inv show ?thesis by (simp add: mem_delete_def)
  next
    case (Some el)
    from store_core_entries(2) [OF core Some] obtain e where el: "map_of (ms_lru s) el = Some (k, e)"
      by blast
    have "length (ms_lru (removeLocked el s)) \<le> length (ms_lru s)"
      using el by (simp add: removeLocked_def list_remove_def)
    with Some removeLocked_correct [OF core el] inv show ?thesis
      by (auto simp: mem_delete_def mem_inv_def)
  qed
  then show "mem_inv (mem_delete k s)" and "mem_abs (mem_delete k s) = abs_delete k (mem_abs s)"
    by simp_all
qed

lemma mem_clear_correct:
  "mem_inv (mem_clear s)" "mem_abs (mem_clear s) = []"
  by (simp_all add: mem_clear_def mem_inv_def store_core_def linked_def mem_abs_def)

lemma NewMemStore_correct:
  "mem_inv (NewMemStore cap ttl)" "mem_abs (NewMemStore cap ttl) = []"
  by (simp_all add: NewMemStore_def mem_inv_def store_core_def linked_def mem_abs_def)

lemma mem_put_None [simp]: "mem_put k None s = s"
  by (simp add: mem_put_def)


section \<open>The Store contract\<close>

text \<open>
  What the coordinator, the recorder and the seeding code rely on when they hold a
  \<open>Store\<close>: \<open>peek\<close> is the content of the store, \<open>live\<close> says that an entry
  has not expired. \<open>Put\<close> may evict other entries, never the one it stores.
\<close>

locale cache_store =
  fixes get :: "int \<Rightarrow> string \<Rightarrow> 's \<Rightarrow> entry option \<times> 's"
    and put :: "string \<Rightarrow> entry option \<Rightarrow> 's \<Rightarrow> 's"
    and del :: "string \<Rightarrow> 's \<Rightarrow> 's"
    and clear :: "'s \<Rightarrow> 's"
    and invar :: "'s \<Rightarrow> bool"
    and peek :: "'s \<Rightarrow> string \<Rightarrow> entry option"
    and live :: "'s \<Rightarrow> int \<Rightarrow> entry \<Rightarrow> bool"
  assumes put_invar: "invar s \<Longrightarrow> invar (put k x s)"
    and get_invar: "invar s \<Longrightarrow> invar (snd (get now k s))"
    and del_invar: "invar s \<Longrightarrow> invar (del k s)"
    and clear_invar: "invar s \<Longrightarrow> invar (clear s)"
    and put_nil: "put k None s = s"
    and put_peek: "invar s \<Longrightarrow> peek (put k (Some e) s) k = Some e"
    and put_other: "invar s \<Longrightarrow> k' \<noteq> k \<Longrightarrow> peek (put k (Some e) s) k' = Some e' \<Longrightarrow> peek s k' = Some e'"
    and put_live: "invar s \<Longrightarrow> live (put k x s) = live s"
    and get_result: "invar s \<Longrightarrow> fst (get now k s) =
        (case peek s k of None \<Rightarrow> None | Some e \<Rightarrow> if live s now e then Some (bump_hits e) else None)"
    and del_peek: "invar s \<Longrightarrow> peek (del k s) k' = (if k' = k then None else peek s k')"
    and clear_peek: "invar s \<Longrightarrow> peek (clear s) k = None"
begin

definition put_all :: "(string \<times> entry) list \<Rightarrow> 's \<Rightarrow> 's" where
  "put_all es s = fold (\<lambda>(k, e). put k (Some e)) es s"

lemma put_all_simps [simp]:
  "put_all [] s = s" "put_all ((k, e) # es) s = put_all es (put k (Some e) s)"
  "put_all (es @ [(k, e)]) s = put k (Some e) (put_all es s)"
  by (simp_all add: put_all_def)

lemma put_all_invar: "invar s \<Longrightarrow> invar (put_all es s)"
  by (induction es arbitrary: s) (auto simp: put_invar)

lemma put_all_live: "invar s \<Longrightarrow> live (put_all es s) = live s"
  by (induction es arbitrary: s) (auto simp: put_live put_invar)

lemma put_all_sound:
  "invar s \<Longrightarrow> peek (put_all es s) k = Some e \<Longrightarrow> (k, e) \<in> set es \<or> peek s k = Some e"
proof (induction es arbitrary: s)
  case (Cons x es)
  obtain k' e' where x: "x = (k', e')" by (cases x)
  from Cons.IH [of "put k' (Some e') s"] Cons.prems x
  have "(k, e) \<in> set es \<or> peek (put k' (Some e') s) k = Some e" by (simp add: put_invar)
  with Cons.prems(1) x show ?case
    by (cases "k = k'") (auto simp: put_peek dest: put_other)
qed simp

lemma put_then_get:
  "invar s \<Longrightarrow> live s now e \<Longrightarrow> fst (get now k (put k (Some e) s)) = Some (bump_hits e)"
  by (simp add: get_result put_invar put_peek put_live)

lemma last_put_wins:
  "invar s \<Longrightarrow> live s now e \<Longrightarrow>
   fst (get now k (put_all (es @ [(k, e)]) s)) = Some (bump_hits e)"
  by (simp add: put_then_get put_all_invar put_all_live)

lemma del_then_get: "invar s \<Longrightarrow> fst (get now k (del k s)) = None"
  by (simp add: get_result del_invar del_peek)

lemma clear_then_get: "invar s \<Longrightarrow> fst (get now k (clear s)) = None"
  by (simp add: get_result clear_invar clear_peek)

lemma get_served_was_put:
  "invar s \<Longrightarrow> fst (get now k (put_all es s)) = Some e \<Longrightarrow>
   \<exists>e'. e = bump_hits e' \<and> ((k, e') \<in> set es \<or> peek s k = Some e')"
  using put_all_sound [of s es k]
  by (auto simp: get_result put_all_invar split: option.splits if_splits)

end

definition mem_peek :: "memstore \<Rightarrow> string \<Rightarrow> entry option" where
  "mem_peek s k = map_of (mem_abs s) k"

definition mem_live :: "memstore \<Rightarrow> int \<Rightarrow> entry \<Rightarrow> bool" where
  "mem_live s now e \<longleftrightarrow> \<not> expired (ms_ttl s) now e"

lemma map_of_abs_delete: "map_of (abs_delete k l) k' = (if k' = k then None else map_of l k')"
  by (induction l) (auto simp: abs_delete_def)

lemma map_of_take_SomeD:
  "distinct (map fst l) \<Longrightarrow> map_of (take n l) k = Some v \<Longrightarrow> map_of l k = Some v"
  by (metis in_set_takeD map_of_SomeD map_of_eq_Some_iff)

lemma abs_put_peek: "map_of (abs_put cap k e l) k = Some e"
  by (cases "nat cap") (auto simp: abs_put_def Let_def)

lemma abs_put_other:
  assumes "distinct (map fst l)" and "k' \<noteq> k" and "map_of (abs_put cap k e l) k' = Some e'"
  shows "map_of l k' = Some e'"
proof -
  let ?l = "(k, e) # abs_delete k l"
  have "distinct (map fst ?l)"
    using assms(1) by (auto simp: abs_delete_def distinct_map_filter)
  moreover have "map_of (take n ?l) k' = Some e' \<Longrightarrow> map_of ?l k' = Some e'" for n
    using calculation by (rule map_of_take_SomeD)
  ultimately have "map_of ?l k' = Some e'"
    using assms(3) by (auto simp: abs_put_def Let_def split: if_splits)
  with assms(2) show ?thesis by (simp add: map_of_abs_delete)
qed

lemma mem_inv_distinct: "mem_inv s \<Longrightarrow> distinct (map fst (mem_abs s))"
  by (simp add: mem_inv_def store_core_def)

interpretation mem: cache_store mem_get mem_put mem_delete mem_clear mem_inv mem_peek mem_live
proof unfold_locales
  fix s :: memstore and k k' now x e e'
  assume inv: "mem_inv s"
  show "mem_inv (mem_put k x s)" using mem_put_correct(1) [OF inv] inv by (cases x) simp_all
  show "mem_inv (snd (mem_get now k s))" by (rule mem_get_correct(1) [OF inv])
  show "mem_inv (mem_delete k s)" by (rule mem_delete_correct(1) [OF inv])
  show "mem_inv (mem_clear s)" by (rule mem_clear_correct)
  show "mem_peek (mem_put k (Some e) s) k = Some e"
    by (simp add: mem_peek_def mem_put_correct(2) [OF inv] abs_put_peek)
  show "mem_live (mem_put k x s) = mem_live s"
    using mem_put_correct(3) [OF inv] by (cases x) (simp_all add: mem_live_def fun_eq_iff)
  show "fst (mem_get now k s) =
      (case mem_peek s k of None \<Rightarrow> None
       | Some e \<Rightarrow> if mem_live s now e then Some (bump_hits e) else None)"
    by (auto simp: mem_get_correct(2) [OF inv] abs_get_def mem_peek_def mem_live_def split: option.splits)
  show "mem_peek (mem_delete k s) k' = (if k' = k then None else mem_peek s k')"
    by (simp add: mem_peek_def mem_delete_correct(2) [OF inv] map_of_abs_delete)
  show "mem_peek (mem_clear s) k = None"
    by (simp add: mem_peek_def mem_clear_correct)
  show "mem_peek s k' = Some e'" if "k' \<noteq> k" "mem_peek (mem_put k (Some e) s) k' = Some e'"
    using that abs_put_other [OF mem_inv_distinct [OF inv]]
    by (simp add: mem_peek_def mem_put_correct(2) [OF inv])
qed simp

section \<open>Runs of the store\<close>

datatype store_op = OGet int string | OPut string "entry option" | ODelete string | OClear

fun mem_run :: "store_op list \<Rightarrow> memstore \<Rightarrow> entry option list \<times> memstore" where
  "mem_run [] s = ([], s)"
| "mem_run (OGet now k # ops) s =
     (let (r, s') = mem_get now k s; (rs, s'') = mem_run ops s' in (r # rs, s''))"
| "mem_run (OPut k x # ops) s = mem_run ops (mem_put k x s)"
| "mem_run (ODelete k # ops) s = mem_run ops (mem_delete k s)"
| "mem_run (OClear # ops) s = mem_run ops (mem_clear s)"

fun abs_run :: "int \<Rightarrow> int \<Rightarrow> store_op list \<Rightarrow> recency \<Rightarrow> entry option list \<times> recency" where
  "abs_run cap ttl [] l = ([], l)"
| "abs_run cap ttl (OGet now k # ops) l =
     (let (r, l') = abs_get ttl now k l; (rs, l'') = abs_run cap ttl ops l' in (r # rs, l''))"
| "abs_run cap ttl (OPut k x # ops) l =
     abs_run cap ttl ops (case x of None \<Rightarrow> l | Some e \<Rightarrow> abs_put cap k e l)"
| "abs_run cap ttl (ODelete k # ops) l = abs_run cap ttl ops (abs_delete k l)"
| "abs_run cap ttl (OClear # ops) l = abs_run cap ttl ops []"

lemma mem_ops_config [simp]:
  "ms_max (snd (mem_get now k s)) = ms_max s" "ms_ttl (snd (mem_get now k s)) = ms_ttl s"
  "ms_max (mem_delete k s) = ms_max s" "ms_ttl (mem_delete k s) = ms_ttl s"
  "ms_max (mem_clear s) = ms_max s" "ms_ttl (mem_clear s) = ms_ttl s"
  by (auto simp: mem_get_def mem_delete_def mem_clear_def Let_def split: option.splits)

lemma mem_put_config:
  "mem_inv s \<Longrightarrow> ms_max (mem_put k x s) = ms_max s \<and> ms_ttl (mem_put k x s) = ms_ttl s"
  using mem_put_correct(3) by (cases x) simp_all

lemma mem_run_refines:
  "mem_inv s \<Longrightarrow>
   mem_inv (snd (mem_run ops s)) \<and> ms_max (snd (mem_run ops s)) = ms_max s \<and>
   fst (mem_run ops s) = fst (abs_run (ms_max s) (ms_ttl s) ops (mem_abs s)) \<and>
   mem_abs (snd (mem_run ops s)) = snd (abs_run (ms_max s) (ms_ttl s) ops (mem_abs s))"
proof (induction ops s rule: mem_run.induct)
  case (2 now k ops s)
  obtain r s' where g: "mem_get now k s = (r, s')" by (cases "mem_get now k s")
  have "mem_inv s'" and "ms_max s' = ms_max s" "ms_ttl s' = ms_ttl s"
    using mem_get_correct(1) [OF "2.prems", of now k] mem_ops_config(1,2) [of now k s] g by simp_all
  moreover have "abs_get (ms_ttl s) now k (mem_abs s) = (r, mem_abs s')"
    using mem_get_correct(2,3) [OF "2.prems", of now k] g by (simp add: prod_eq_iff)
  ultimately show ?case
    using "2.IH" [OF g [symmetric] refl] g by (auto simp: split_beta Let_def)
next
  case (3 k x ops s)
  have "mem_abs (mem_put k x s) = (case x of None \<Rightarrow> mem_abs s | Some e \<Rightarrow> abs_put (ms_max s) k e (mem_abs s))"
    using mem_put_correct(2) [OF "3.prems"] by (cases x) simp_all
  with 3 mem_put_config [OF "3.prems", of k x] mem.put_invar [OF "3.prems"] show ?case
    by (simp cong: option.case_cong)
qed (simp_all add: mem_delete_correct mem_clear_correct)

section \<open>Properties of the store\<close>

text \<open>
  C5. Refinement: from a new store, any sequence of operations answers every lookup as the
  recency list does, and leaves the store's list equal to it.
\<close>

theorem store_refines_recency:
  "fst (mem_run ops (NewMemStore cap ttl)) = fst (abs_run cap ttl ops []) \<and>
   mem_abs (snd (mem_run ops (NewMemStore cap ttl))) = snd (abs_run cap ttl ops [])"
  using mem_run_refines [OF NewMemStore_correct(1), of ops cap ttl] NewMemStore_correct(2) [of cap ttl]
  by (simp add: NewMemStore_def)

text \<open>
  C34. After any sequence of operations on a new store: the number of entries respects the cap,
  no key occurs twice, the map and the list agree, and the byte count is the sum of the sizes
  of the entries present.
\<close>

theorem store_accounting:
  "let s = snd (mem_run ops (NewMemStore cap ttl))
   in (cap \<le> 0 \<or> mem_len s \<le> cap) \<and> distinct (map fst (mem_abs s)) \<and> linked (ms_entries s) (ms_lru s) \<and>
      st_bytes (mem_stats s) = sum_list (map (entry_size \<circ> snd) (mem_abs s)) \<and> st_entries (mem_stats s) = mem_len s"
proof -
  let ?s = "snd (mem_run ops (NewMemStore cap ttl))"
  from mem_run_refines [OF NewMemStore_correct(1), of ops cap ttl]
  have "mem_inv ?s" "ms_max ?s = cap" by (simp_all add: NewMemStore_def)
  then show ?thesis by (auto simp: mem_inv_def store_core_def mem_len_def mem_stats_def Let_def)
qed

text \<open>
  A stored entry is served. Whatever was put before, the entry put last under a key is what
  a lookup returns while it has not expired, with its hit counted; the cap never evicts it at
  its own insertion.
\<close>

theorem last_put_served:
  assumes "mem_inv s" and "\<not> expired (ms_ttl s) now e"
  shows "fst (mem_get now k (mem_put k (Some e) (mem.put_all es s))) = Some (bump_hits e)"
proof -
  have "mem_live s now e" using assms(2) by (simp add: mem_live_def)
  from mem.last_put_wins [OF assms(1) this, of k es] show ?thesis by simp
qed

theorem last_put_served_witness:
  "\<exists>e. fst (mem_get 3 ''k'' (mem_put ''k'' (Some e) (mem.put_all [(''a'', e), (''b'', e)] (NewMemStore 1 10)))) = Some (bump_hits e)"
proof -
  let ?e = "\<lparr>e_key = ''k'', e_status = 200, e_header = None, e_body = [], e_latency = 1, e_recorded = 0, e_hits = 0\<rparr>"
  have "\<not> expired (ms_ttl (NewMemStore 1 10)) 3 ?e" by (simp add: expired_def NewMemStore_def time_sub_def)
  from last_put_served [OF NewMemStore_correct(1) this] show ?thesis by blast
qed

text \<open>
  Nothing is invented: an entry a lookup returns, after any puts on a store, was put under
  that key or was there before.
\<close>

theorem served_was_put:
  assumes "mem_inv s" and "fst (mem_get now k (mem.put_all es s)) = Some e"
  shows "\<exists>e'. e = bump_hits e' \<and> ((k, e') \<in> set es \<or> map_of (mem_abs s) k = Some e')"
  using mem.get_served_was_put [OF assms] by (simp add: mem_peek_def)

theorem served_was_put_witness:
  "\<exists>e e'. fst (mem_get 3 ''k'' (mem.put_all [(''k'', e')] (NewMemStore 1 0))) = Some e \<and> e = bump_hits e'"
proof -
  let ?e = "\<lparr>e_key = ''k'', e_status = 200, e_header = None, e_body = [], e_latency = 1, e_recorded = 0, e_hits = 0\<rparr>"
  have "fst (mem_get 3 ''k'' (mem.put_all [(''k'', ?e)] (NewMemStore 1 0))) = Some (bump_hits ?e)"
    using mem.put_then_get [OF NewMemStore_correct(1) [of 1 0], of 3 ?e "''k''"]
    by (simp add: mem_live_def expired_def NewMemStore_def)
  with served_was_put [OF NewMemStore_correct(1) this] show ?thesis by blast
qed

end
