(* ===== verification/Cachebox_Recorder.thy ===== *)
theory Cachebox_Recorder
  imports Cachebox_Key Cachebox_Store
begin

text \<open>
  The asynchronous recorder (\<open>internal/cachebox/recorder.go\<close>). \<open>Record\<close> runs on request
  goroutines, \<open>drain\<close> on a goroutine of its own and \<open>Stop\<close> on a third, so the component
  is a step relation \<open>rec_step\<close> over the shared state: one rule per atomic access to the
  channel, the \<open>stopped\<close> flag or the drain's current record. \<open>rc_accepted\<close> and \<open>rc_done\<close>
  are bookkeeping of the specification (which records the channel took, which the drain
  finished); the code has no such fields and no rule's guard reads them.
\<close>

section \<open>Pending insertions\<close>

record cache_record =
  cr_request :: key_request
  cr_request_body :: string
  cr_status :: int
  cr_header :: "header option"
  cr_body :: string
  cr_latency :: int
  cr_timestamp :: int

type_synonym key_func = "key_request \<Rightarrow> string \<Rightarrow> string"

definition record_key :: "key_func \<Rightarrow> cache_record \<Rightarrow> string" where
  "record_key keyFn r = keyFn (cr_request r) (cr_request_body r)"

definition record_entry :: "key_func \<Rightarrow> cache_record \<Rightarrow> entry" where
  "record_entry keyFn r =
     \<lparr>e_key = record_key keyFn r, e_status = cr_status r, e_header = cr_header r,
      e_body = cr_body r, e_latency = cr_latency r, e_recorded = cr_timestamp r, e_hits = 0\<rparr>"

definition record_kv :: "key_func \<Rightarrow> cache_record \<Rightarrow> string \<times> entry" where
  "record_kv keyFn r = (record_key keyFn r, record_entry keyFn r)"

section \<open>The recorder's state\<close>

text \<open>
  \<open>rc_ch\<close> is the buffer of the channel, \<open>rc_hand\<close> the record the drain goroutine is
  working on, \<open>rc_inflight\<close> the arguments of \<open>Record\<close> calls that have read \<open>stopped\<close> as
  false and have not yet reached the \<open>select\<close>.
\<close>

record 's recorder =
  rc_store :: 's
  rc_ch :: "cache_record list"
  rc_cap :: nat
  rc_hand :: "cache_record option"
  rc_inflight :: "cache_record list"
  rc_stopped :: bool
  rc_closed :: bool
  rc_exited :: bool
  rc_recorded :: int
  rc_dropped :: int
  rc_has_push :: bool
  rc_pushed :: "(string \<times> entry) list"
  rc_panic :: bool
  rc_accepted :: "cache_record list"
  rc_done :: "cache_record list"

definition NewRecorder :: "'s \<Rightarrow> bool \<Rightarrow> int \<Rightarrow> 's recorder" where
  "NewRecorder store has_push bufSize =
     (let n = (if bufSize \<le> 0 then 1024 else bufSize)
      in \<lparr>rc_store = store, rc_ch = [], rc_cap = nat n, rc_hand = None, rc_inflight = [],
          rc_stopped = False, rc_closed = False, rc_exited = False, rc_recorded = 0,
          rc_dropped = 0, rc_has_push = has_push, rc_pushed = [], rc_panic = False,
          rc_accepted = [], rc_done = []\<rparr>)"

text \<open>
  The \<open>select\<close> of \<open>Record\<close>: a send on a closed channel panics, a full buffer takes the
  default branch.
\<close>

definition select_send :: "cache_record \<Rightarrow> 's recorder \<Rightarrow> bool \<times> 's recorder" where
  "select_send r s =
     (if rc_closed s then (False, s\<lparr>rc_panic := True\<rparr>)
      else if length (rc_ch s) < rc_cap s
      then (True, s\<lparr>rc_ch := rc_ch s @ [r], rc_accepted := rc_accepted s @ [r]\<rparr>)
      else (False, s\<lparr>rc_dropped := rc_dropped s + 1\<rparr>))"

text \<open>A \<open>Record\<close> call that no other goroutine interrupts.\<close>

definition Record :: "cache_record \<Rightarrow> 's recorder \<Rightarrow> bool \<times> 's recorder" where
  "Record r s = (if rc_stopped s then (False, s) else select_send r s)"

text \<open>One round of the drain loop: receive, build the entry, put it, count it, push it.\<close>

definition drain_receive :: "'s recorder \<Rightarrow> 's recorder" where
  "drain_receive s =
     (case rc_ch s of
        [] \<Rightarrow> (if rc_closed s then s\<lparr>rc_exited := True\<rparr> else s)
      | r # rest \<Rightarrow> s\<lparr>rc_ch := rest, rc_hand := Some r\<rparr>)"

definition drain_process ::
  "(string \<Rightarrow> entry option \<Rightarrow> 's \<Rightarrow> 's) \<Rightarrow> key_func \<Rightarrow> 's recorder \<Rightarrow> 's recorder" where
  "drain_process put keyFn s =
     (case rc_hand s of
        None \<Rightarrow> s
      | Some r \<Rightarrow>
          (let key = record_key keyFn r; entry = record_entry keyFn r
           in s\<lparr>rc_hand := None,
                rc_store := put key (Some entry) (rc_store s),
                rc_recorded := rc_recorded s + 1,
                rc_pushed := (if rc_has_push s then rc_pushed s @ [(key, entry)] else rc_pushed s),
                rc_done := rc_done s @ [r]\<rparr>))"

text \<open>The drain loop left alone until the buffer is empty.\<close>

fun drain_all ::
  "(string \<Rightarrow> entry option \<Rightarrow> 's \<Rightarrow> 's) \<Rightarrow> key_func \<Rightarrow> nat \<Rightarrow> 's recorder \<Rightarrow> 's recorder" where
  "drain_all put keyFn 0 s = s"
| "drain_all put keyFn (Suc n) s = drain_all put keyFn n (drain_process put keyFn (drain_receive s))"

definition stop_cas :: "'s recorder \<Rightarrow> bool \<times> 's recorder" where
  "stop_cas s = (if rc_stopped s then (False, s) else (True, s\<lparr>rc_stopped := True\<rparr>))"

record recorder_stats =
  rs_recorded :: int
  rs_dropped :: int
  rs_pending :: int

definition recorder_Stats :: "'s recorder \<Rightarrow> recorder_stats" where
  "recorder_Stats s =
     \<lparr>rs_recorded = rc_recorded s, rs_dropped = rc_dropped s, rs_pending = int (length (rc_ch s))\<rparr>"

section \<open>Steps\<close>

text \<open>
  The flag \<open>quiet\<close> selects the runs of a caller that stops the recorder only when no
  \<open>Record\<close> call is between its two accesses; with \<open>quiet\<close> false every interleaving of
  the code is a run.
\<close>

inductive rec_step ::
  "(string \<Rightarrow> entry option \<Rightarrow> 's \<Rightarrow> 's) \<Rightarrow> key_func \<Rightarrow> bool \<Rightarrow> 's recorder \<Rightarrow> 's recorder \<Rightarrow> bool"
  for put :: "string \<Rightarrow> entry option \<Rightarrow> 's \<Rightarrow> 's" and keyFn :: key_func and quiet :: bool
where
  record_check: "\<not> rc_stopped s \<Longrightarrow>
     rec_step put keyFn quiet s (s\<lparr>rc_inflight := r # rc_inflight s\<rparr>)"
| record_select: "r \<in> set (rc_inflight s) \<Longrightarrow>
     rec_step put keyFn quiet s
       ((snd (select_send r s))\<lparr>rc_inflight := remove1 r (rc_inflight s)\<rparr>)"
| receive: "rc_hand s = None \<Longrightarrow> \<not> rc_exited s \<Longrightarrow>
     rec_step put keyFn quiet s (drain_receive s)"
| process_rec: "rc_hand s \<noteq> None \<Longrightarrow>
     rec_step put keyFn quiet s (drain_process put keyFn s)"
| stop_begin: "\<not> rc_stopped s \<Longrightarrow> (quiet \<Longrightarrow> rc_inflight s = []) \<Longrightarrow>
     rec_step put keyFn quiet s (snd (stop_cas s))"
| stop_close: "rc_stopped s \<Longrightarrow> \<not> rc_closed s \<Longrightarrow>
     rec_step put keyFn quiet s (s\<lparr>rc_closed := True\<rparr>)"

inductive rec_reach ::
  "(string \<Rightarrow> entry option \<Rightarrow> 's \<Rightarrow> 's) \<Rightarrow> key_func \<Rightarrow> bool \<Rightarrow> 's recorder \<Rightarrow> 's recorder \<Rightarrow> bool"
  for put :: "string \<Rightarrow> entry option \<Rightarrow> 's \<Rightarrow> 's" and keyFn :: key_func and quiet :: bool
    and s0 :: "'s recorder"
where
  reach_init: "rec_reach put keyFn quiet s0 s0"
| reach_step: "rec_reach put keyFn quiet s0 s \<Longrightarrow> rec_step put keyFn quiet s t \<Longrightarrow>
     rec_reach put keyFn quiet s0 t"

section \<open>The invariant\<close>

definition put_records ::
  "(string \<Rightarrow> entry option \<Rightarrow> 's \<Rightarrow> 's) \<Rightarrow> key_func \<Rightarrow> cache_record list \<Rightarrow> 's \<Rightarrow> 's" where
  "put_records put keyFn rs s = fold (\<lambda>r. put (record_key keyFn r) (Some (record_entry keyFn r))) rs s"

definition hand_list :: "'a option \<Rightarrow> 'a list" where
  "hand_list x = (case x of None \<Rightarrow> [] | Some a \<Rightarrow> [a])"

lemma hand_list_simps [simp]: "hand_list None = []" "hand_list (Some a) = [a]"
  by (simp_all add: hand_list_def)

definition rec_inv ::
  "(string \<Rightarrow> entry option \<Rightarrow> 's \<Rightarrow> 's) \<Rightarrow> key_func \<Rightarrow> 's \<Rightarrow> 's recorder \<Rightarrow> bool" where
  "rec_inv put keyFn st0 s \<longleftrightarrow>
     rc_accepted s = rc_done s @ hand_list (rc_hand s) @ rc_ch s \<and>
     rc_recorded s = int (length (rc_done s)) \<and>
     rc_store s = put_records put keyFn (rc_done s) st0 \<and>
     rc_pushed s = (if rc_has_push s then map (record_kv keyFn) (rc_done s) else []) \<and>
     length (rc_ch s) \<le> rc_cap s \<and>
     (rc_closed s \<longrightarrow> rc_stopped s) \<and>
     (rc_exited s \<longrightarrow> rc_closed s \<and> rc_hand s = None \<and> rc_ch s = [])"

lemma put_records_snoc [simp]:
  "put_records put keyFn (rs @ [r]) s =
   put (record_key keyFn r) (Some (record_entry keyFn r)) (put_records put keyFn rs s)"
  by (simp add: put_records_def)

lemma put_records_Nil [simp]: "put_records put keyFn [] s = s"
  by (simp add: put_records_def)

lemma rec_inv_new: "rec_inv put keyFn st (NewRecorder st hp n)"
  by (simp add: rec_inv_def NewRecorder_def Let_def)

lemma rec_inv_select:
  "rec_inv put keyFn st0 s \<Longrightarrow> rec_inv put keyFn st0 (snd (select_send r s))"
  by (auto simp: rec_inv_def select_send_def)

lemma rec_inv_receive:
  "rec_inv put keyFn st0 s \<Longrightarrow> rc_hand s = None \<Longrightarrow> rec_inv put keyFn st0 (drain_receive s)"
  by (auto simp: rec_inv_def drain_receive_def split: list.splits)

lemma rec_inv_process:
  "rec_inv put keyFn st0 s \<Longrightarrow> rec_inv put keyFn st0 (drain_process put keyFn s)"
  by (auto simp: rec_inv_def drain_process_def record_kv_def Let_def split: option.splits)

lemma rec_inv_inflight [simp]:
  "rec_inv put keyFn st0 (s\<lparr>rc_inflight := x\<rparr>) = rec_inv put keyFn st0 s"
  by (simp add: rec_inv_def)

lemma rec_inv_step:
  "rec_step put keyFn quiet s t \<Longrightarrow> rec_inv put keyFn st0 s \<Longrightarrow> rec_inv put keyFn st0 t"
proof (induction rule: rec_step.induct)
  case (record_select r s)
  then show ?case by (simp add: rec_inv_select)
next
  case (receive s)
  then show ?case by (simp add: rec_inv_receive)
next
  case (process_rec s)
  then show ?case by (simp add: rec_inv_process)
qed (auto simp: rec_inv_def stop_cas_def)

lemma rec_inv_reach:
  "rec_reach put keyFn quiet s0 s \<Longrightarrow> rec_inv put keyFn st0 s0 \<Longrightarrow> rec_inv put keyFn st0 s"
  by (induction rule: rec_reach.induct) (auto dest: rec_inv_step)

section \<open>Panics\<close>

text \<open>With quiet callers, no call is under way once \<open>Stop\<close> has begun, so nobody sends on
  the closed channel.\<close>

definition quiet_inv :: "'s recorder \<Rightarrow> bool" where
  "quiet_inv s \<longleftrightarrow> (rc_stopped s \<longrightarrow> rc_inflight s = []) \<and> (rc_closed s \<longrightarrow> rc_stopped s) \<and> \<not> rc_panic s"

lemma quiet_inv_step: "rec_step put keyFn True s t \<Longrightarrow> quiet_inv s \<Longrightarrow> quiet_inv t"
  by (induction rule: rec_step.induct)
    (auto simp: quiet_inv_def select_send_def drain_receive_def drain_process_def stop_cas_def Let_def
       split: list.splits option.splits)

lemma quiet_inv_reach: "rec_reach put keyFn True s0 s \<Longrightarrow> quiet_inv s0 \<Longrightarrow> quiet_inv s"
  by (induction rule: rec_reach.induct) (auto dest: quiet_inv_step)

lemma panic_trace:
  fixes st :: 's and hp :: bool and n :: int
  defines "s0 \<equiv> NewRecorder st hp n"
  shows "rec_reach put keyFn False s0
     (s0\<lparr>rc_stopped := True, rc_closed := True, rc_panic := True\<rparr>)"
proof -
  obtain r :: cache_record where True by blast
  let ?a = "s0\<lparr>rc_inflight := [r]\<rparr>"
  let ?b = "?a\<lparr>rc_stopped := True\<rparr>"
  let ?c = "?b\<lparr>rc_closed := True\<rparr>"
  have flags: "\<not> rc_stopped s0" "rc_inflight s0 = []" "\<not> rc_closed s0"
    by (simp_all add: s0_def NewRecorder_def Let_def)
  have "rec_step put keyFn False s0 ?a"
    using rec_step.record_check [OF flags(1), of put keyFn False r] flags by simp
  moreover have "rec_step put keyFn False ?a ?b"
    using rec_step.stop_begin [of ?a False put keyFn] flags by (simp add: stop_cas_def)
  moreover have "rec_step put keyFn False ?b ?c"
    using rec_step.stop_close [of ?b put keyFn False] flags by simp
  moreover have "rec_step put keyFn False ?c
      ((snd (select_send r ?c))\<lparr>rc_inflight := remove1 r (rc_inflight ?c)\<rparr>)"
    by (rule rec_step.record_select) simp
  ultimately have "rec_reach put keyFn False s0
      ((snd (select_send r ?c))\<lparr>rc_inflight := remove1 r (rc_inflight ?c)\<rparr>)"
    by (meson rec_reach.intros)
  moreover have "(snd (select_send r ?c))\<lparr>rc_inflight := remove1 r (rc_inflight ?c)\<rparr> =
      s0\<lparr>rc_stopped := True, rc_closed := True, rc_panic := True\<rparr>"
    using flags by (simp add: select_send_def)
  ultimately show ?thesis by simp
qed

section \<open>Properties of the recorder\<close>

text \<open>
  C3. Nothing accepted is lost, duplicated or reordered. In every interleaving of \<open>Record\<close>,
  \<open>drain\<close> and \<open>Stop\<close>, the records accepted are, in order, those drained, the one in hand and
  those buffered; the store is the initial one after inserting the drained records in that
  order; the recorded count is their number; and the buffer never exceeds its capacity.
\<close>

theorem recorder_conserves:
  assumes "rec_reach put keyFn False (NewRecorder st hp n) s"
  shows "rc_accepted s = rc_done s @ hand_list (rc_hand s) @ rc_ch s \<and>
     rc_store s = put_records put keyFn (rc_done s) st \<and> rc_recorded s = int (length (rc_done s)) \<and>
     length (rc_ch s) \<le> rc_cap s"
  using rec_inv_reach [OF assms rec_inv_new] by (simp add: rec_inv_def)

theorem recorder_conserves_witness:
  "\<exists>s. rec_reach mem_put exactKey False (NewRecorder (NewMemStore 1 0) False 0) s \<and> rc_panic s \<and> rc_accepted s = rc_done s"
  using panic_trace [of mem_put exactKey "NewMemStore 1 0" False 0]
    recorder_conserves [OF panic_trace [of mem_put exactKey "NewMemStore 1 0" False 0]]
  by (intro exI conjI) (assumption, simp_all add: NewRecorder_def)

text \<open>
  A graceful stop. Once the drain goroutine has exited, every record the channel accepted is
  in the store, in order, each counted once and, with a push hook, pushed once.
\<close>

theorem recorder_drained:
  assumes "rec_reach put keyFn False (NewRecorder st hp n) s" and "rc_exited s"
  shows "rc_store s = put_records put keyFn (rc_accepted s) st \<and>
     rs_recorded (recorder_Stats s) = int (length (rc_accepted s)) \<and> rs_pending (recorder_Stats s) = 0 \<and>
     (rc_has_push s \<longrightarrow> rc_pushed s = map (record_kv keyFn) (rc_accepted s))"
  using rec_inv_reach [OF assms(1) rec_inv_new] assms(2)
  by (simp add: rec_inv_def recorder_Stats_def)

lemma drained_trace:
  fixes st :: 's and n :: int and r :: cache_record
  defines "s0 \<equiv> NewRecorder st True n"
  shows "\<exists>s. rec_reach put keyFn False s0 s \<and> rc_exited s \<and> rc_accepted s = [r]"
proof -
  let ?a = "s0\<lparr>rc_inflight := [r]\<rparr>"
  let ?b = "s0\<lparr>rc_ch := [r], rc_accepted := [r], rc_inflight := []\<rparr>"
  let ?c = "?b\<lparr>rc_ch := [], rc_hand := Some r\<rparr>"
  let ?d = "drain_process put keyFn ?c"
  let ?e = "?d\<lparr>rc_stopped := True\<rparr>"
  let ?f = "?e\<lparr>rc_closed := True\<rparr>"
  have flags: "\<not> rc_stopped s0" "rc_inflight s0 = []" "\<not> rc_closed s0" "rc_ch s0 = []" "rc_accepted s0 = []"
    "0 < rc_cap s0" "rc_hand s0 = None" "\<not> rc_exited s0"
    by (simp_all add: s0_def NewRecorder_def Let_def)
  have "rec_step put keyFn False s0 ?a"
    using rec_step.record_check [OF flags(1), of put keyFn False r] flags by simp
  moreover have "rec_step put keyFn False ?a ?b"
    using rec_step.record_select [of r ?a put keyFn False] flags by (simp add: select_send_def)
  moreover have "rec_step put keyFn False ?b ?c"
    using rec_step.receive [of ?b put keyFn False] flags by (simp add: drain_receive_def)
  moreover have "rec_step put keyFn False ?c ?d"
    by (rule rec_step.process_rec) simp
  moreover have "rec_step put keyFn False ?d ?e"
    using rec_step.stop_begin [of ?d False put keyFn] flags by (simp add: stop_cas_def drain_process_def Let_def)
  moreover have "rec_step put keyFn False ?e ?f"
    using rec_step.stop_close [of ?e put keyFn False] flags by (simp add: drain_process_def Let_def)
  moreover have "rec_step put keyFn False ?f (?f\<lparr>rc_exited := True\<rparr>)"
    using rec_step.receive [of ?f put keyFn False] flags by (simp add: drain_receive_def drain_process_def Let_def)
  ultimately have "rec_reach put keyFn False s0 (?f\<lparr>rc_exited := True\<rparr>)"
    by (meson rec_reach.intros)
  then show ?thesis by (intro exI conjI) (assumption, simp_all add: drain_process_def Let_def)
qed

theorem recorder_drained_witness:
  "\<exists>s r. rec_reach mem_put exactKey False (NewRecorder (NewMemStore 1 0) True 0) s \<and>
     rc_store s = mem_put (record_key exactKey r) (Some (record_entry exactKey r)) (NewMemStore 1 0)"
proof -
  obtain r :: cache_record where True by blast
  obtain s where s: "rec_reach mem_put exactKey False (NewRecorder (NewMemStore 1 0) True 0) s" "rc_exited s" "rc_accepted s = [r]"
    using drained_trace [of mem_put exactKey "NewMemStore 1 0" 0 r] by blast
  from recorder_drained [OF s(1,2)] s show ?thesis
    by (intro exI [of _ s] exI [of _ r]) (simp add: put_records_def)
qed

text \<open>
  The stop race. When \<open>Stop\<close> runs only while no \<open>Record\<close> call is under way, no send reaches
  the closed channel; without that discipline, which the code does not enforce, a call that read
  the flag before \<open>Stop\<close> set it panics: such a run exists for every recorder.
\<close>

theorem recorder_stop_race:
  "(\<forall>s. rec_reach put keyFn True (NewRecorder st hp n) s \<longrightarrow> \<not> rc_panic s) \<and>
   (\<exists>s. rec_reach put keyFn False (NewRecorder st hp n) s \<and> rc_panic s)"
proof
  have "quiet_inv (NewRecorder st hp n)" by (simp add: quiet_inv_def NewRecorder_def Let_def)
  then show "\<forall>s. rec_reach put keyFn True (NewRecorder st hp n) s \<longrightarrow> \<not> rc_panic s"
    using quiet_inv_reach quiet_inv_def by blast
  show "\<exists>s. rec_reach put keyFn False (NewRecorder st hp n) s \<and> rc_panic s"
    using panic_trace by (intro exI conjI) (assumption, simp)
qed

theorem recorder_stop_race_witness:
  "\<not> rc_panic (NewRecorder (NewMemStore 1 0) True 4)"
  using recorder_stop_race [of mem_put exactKey "NewMemStore 1 0" True 4] reach_init by blast

end
