(* ===== verification/Cachebox_Delay.thy ===== *)
theory Cachebox_Delay
  imports Cachebox_Store
begin

text \<open>
  Replay delays (\<open>internal/cachebox/delay.go\<close>) and the wire form of entries
  (\<open>internal/cachebox/wire.go\<close>). The Box-Muller draw of the distribution source goes through
  \<open>math.Log\<close>, \<open>math.Cos\<close> and \<open>math.Exp\<close> on a random number; it is the parameter \<open>draw\<close>,
  the microseconds that computation yields for given \<open>mu\<close> and \<open>sigma\<close>. What the code does
  with the result, its guards and the conversion, is modelled.
\<close>

section \<open>Delay sources\<close>

text \<open>A distribution source has its fit and its generator, of which the seed is kept.\<close>

datatype delay_source = ObservedDelay | DistributionDelay float64 float64 int

definition NewDistributionDelaySource :: "float64 \<Rightarrow> float64 \<Rightarrow> int \<Rightarrow> delay_source" where
  "NewDistributionDelaySource mu sigma seed = DistributionDelay mu sigma seed"

text \<open>\<open>ObservedDelaySource.Sample\<close>; a nil entry yields 0.\<close>

definition observed_sample :: "entry option \<Rightarrow> int" where
  "observed_sample e = (case e of None \<Rightarrow> 0 | Some e \<Rightarrow> e_latency e)"

definition distribution_sample ::
  "(float64 \<Rightarrow> float64 \<Rightarrow> float64) \<Rightarrow> int \<Rightarrow> float64 \<Rightarrow> float64 \<Rightarrow> entry option \<Rightarrow> int" where
  "distribution_sample draw ovf mu sigma e =
     (if sigma = Fin 0 then observed_sample e
      else (let us = draw mu sigma
            in if flt_less us (Fin 0) \<or> us = NaN \<or> us = PosInf \<or> us = NegInf
               then observed_sample e
               else wrap64 (float_to_int64 ovf us * Microsecond)))"

definition delay_sample ::
  "(float64 \<Rightarrow> float64 \<Rightarrow> float64) \<Rightarrow> int \<Rightarrow> delay_source \<Rightarrow> entry option \<Rightarrow> int" where
  "delay_sample draw ovf d e =
     (case d of
        ObservedDelay \<Rightarrow> observed_sample e
      | DistributionDelay mu sigma seed \<Rightarrow> distribution_sample draw ovf mu sigma e)"

text \<open>\<open>SetParams\<close> replaces the fit of a distribution source.\<close>

fun set_params :: "float64 \<Rightarrow> float64 \<Rightarrow> delay_source \<Rightarrow> delay_source" where
  "set_params mu sigma (DistributionDelay _ _ seed) = DistributionDelay mu sigma seed"
| "set_params mu sigma ObservedDelay = ObservedDelay"

section \<open>Wire entries\<close>

record wire_entry =
  we_key :: string
  we_status :: int
  we_header :: "header option"
  we_body :: string
  we_latency_us :: int
  we_recorded :: int

definition EntryToWire :: "entry \<Rightarrow> wire_entry" where
  "EntryToWire e =
     \<lparr>we_key = e_key e, we_status = e_status e, we_header = e_header e, we_body = e_body e,
      we_latency_us = e_latency e sdiv Microsecond, we_recorded = e_recorded e\<rparr>"

definition WireToEntry :: "wire_entry \<Rightarrow> entry" where
  "WireToEntry w =
     \<lparr>e_key = we_key w, e_status = we_status w, e_header = we_header w, e_body = we_body w,
      e_latency = wrap64 (we_latency_us w * Microsecond), e_recorded = we_recorded w, e_hits = 0\<rparr>"

text \<open>\<open>Seed\<close> inserts a decoded batch, each entry under its own key.\<close>

definition seed_entries :: "(string \<Rightarrow> entry option \<Rightarrow> 's \<Rightarrow> 's) \<Rightarrow> wire_entry list \<Rightarrow> 's \<Rightarrow> int \<times> 's" where
  "seed_entries put ws s =
     (int (length ws),
      fold (\<lambda>w. let entry = WireToEntry w in put (e_key entry) (Some entry)) ws s)"

section \<open>Microseconds and back\<close>

lemma sdiv_mult_bound:
  assumes "0 < (b::int)"
  shows "\<bar>(a sdiv b) * b\<bar> \<le> \<bar>a\<bar>" and "\<bar>a - (a sdiv b) * b\<bar> < b"
proof -
  define q where "q = \<bar>a\<bar> div b * b"
  have eq: "(a sdiv b) * b = sgn a * q"
    using assms by (simp add: signed_divide_int_def q_def)
  have q: "q \<le> \<bar>a\<bar>" "0 \<le> q" "\<bar>a\<bar> - q < b"
    using assms pos_mod_sign [OF assms, of "\<bar>a\<bar>"] pos_mod_bound [OF assms, of "\<bar>a\<bar>"]
    by (simp_all add: q_def minus_mod_eq_div_mult [symmetric] zmod_le_nonneg_dividend)
  from q show "\<bar>(a sdiv b) * b\<bar> \<le> \<bar>a\<bar>"
    unfolding eq by (simp add: abs_mult abs_sgn_eq)
  have "a - sgn a * q = sgn a * (\<bar>a\<bar> - q)" 
    by (simp add: right_diff_distrib sgn_mult_abs)
  with q assms show "\<bar>a - (a sdiv b) * b\<bar> < b"
    unfolding eq by (simp add: abs_mult abs_sgn_eq)
qed

lemma i64_abs_le: "i64 a \<Longrightarrow> \<bar>b\<bar> \<le> \<bar>a\<bar> \<Longrightarrow> a \<noteq> - (2 ^ 63) \<Longrightarrow> i64 b"
  by (auto simp: i64_def)

lemma latency_micros:
  assumes "i64 t"
  shows "wrap64 ((t sdiv Microsecond) * Microsecond) = (t sdiv Microsecond) * Microsecond"
proof (rule wrap64_id)
  show "i64 ((t sdiv Microsecond) * Microsecond)"
  proof (cases "t = - (2 ^ 63)")
    case True
    then show ?thesis by (simp add: Microsecond_def i64_def signed_divide_int_def)
  next
    case False
    with assms show ?thesis
      using sdiv_mult_bound(1) [of Microsecond t] by (auto simp: Microsecond_def intro: i64_abs_le)
  qed
qed

lemma sdiv_mult_cancel: "0 < (b::int) \<Longrightarrow> (a * b) sdiv b = a"
  by (simp add: signed_divide_int_def sgn_mult abs_mult sgn_mult_abs)

section \<open>Properties of wire entries and delays\<close>

text \<open>
  The wire round trip keeps an entry but for its latency, which is truncated to whole
  microseconds, and its hit count, which starts again at zero; the latency changes by less than
  a microsecond.
\<close>

theorem wire_round_trip:
  assumes "i64 (e_latency e)"
  shows "WireToEntry (EntryToWire e) = e\<lparr>e_latency := (e_latency e sdiv Microsecond) * Microsecond, e_hits := 0\<rparr> \<and>
     \<bar>e_latency e - e_latency (WireToEntry (EntryToWire e))\<bar> < Microsecond"
  using latency_micros [OF assms] sdiv_mult_bound(2) [of Microsecond "e_latency e"]
  by (simp add: WireToEntry_def EntryToWire_def Microsecond_def)

theorem wire_round_trip_witness:
  "\<exists>e. e_latency e = 1999 \<and> e_latency (WireToEntry (EntryToWire e)) = 1000"
proof -
  let ?e = "\<lparr>e_key = ''k'', e_status = 200, e_header = None, e_body = [], e_latency = 1999, e_recorded = 0, e_hits = 7\<rparr>"
  have "i64 (e_latency ?e)" by (simp add: i64_def)
  from wire_round_trip [OF this] have "e_latency (WireToEntry (EntryToWire ?e)) = 1000"
    by (simp add: Microsecond_def signed_divide_int_def)
  then show ?thesis by (intro exI [of _ ?e]) simp
qed

text \<open>
  Conversely an entry received from the wire is sent back as it came, as long as its latency
  fits a duration.
\<close>

theorem wire_entry_stable:
  assumes "i64 (we_latency_us w * Microsecond)"
  shows "EntryToWire (WireToEntry w) = w"
  using sdiv_mult_cancel [of Microsecond "we_latency_us w"] assms
  by (simp add: EntryToWire_def WireToEntry_def wrap64_id Microsecond_def)

theorem wire_entry_stable_witness:
  "\<exists>w. we_latency_us w = 1500 \<and> EntryToWire (WireToEntry w) = w"
proof -
  let ?w = "\<lparr>we_key = ''k'', we_status = 200, we_header = None, we_body = [], we_latency_us = 1500, we_recorded = 0\<rparr>"
  have "i64 (we_latency_us ?w * Microsecond)" by (simp add: i64_def Microsecond_def)
  from wire_entry_stable [OF this] show ?thesis by (intro exI [of _ ?w]) simp
qed

text \<open>
  The distribution sampler. With a spread, a drawn number of microseconds that is finite,
  not negative and below 2^63 nanoseconds is the delay, truncated; the guards let through larger
  finite draws, whose product wraps around, so that the delay is negative.
\<close>

theorem distribution_sample_range:
  assumes "sigma \<noteq> Fin 0" and "draw mu sigma = Fin q" and "0 \<le> q"
  shows "(\<lfloor>q\<rfloor> * Microsecond < 2 ^ 63 \<longrightarrow> distribution_sample draw ovf mu sigma e = \<lfloor>q\<rfloor> * Microsecond) \<and>
     (\<lfloor>q\<rfloor> = 9223372036854776 \<longrightarrow> distribution_sample draw ovf mu sigma e < 0)"
proof -
  have fl: "0 \<le> \<lfloor>q\<rfloor>" using assms(3) by simp
  have trunc: "rat_trunc q = \<lfloor>q\<rfloor>" using assms(3) by (simp add: rat_trunc_def)
  have "distribution_sample draw ovf mu sigma e = wrap64 (\<lfloor>q\<rfloor> * Microsecond)" if "\<lfloor>q\<rfloor> < 2 ^ 63"
    using assms trunc fl that by (simp add: distribution_sample_def float_to_int64_def i64_nonneg)
  note eq = this
  have "distribution_sample draw ovf mu sigma e = \<lfloor>q\<rfloor> * Microsecond" if lt: "\<lfloor>q\<rfloor> * Microsecond < 2 ^ 63"
  proof -
    have "\<lfloor>q\<rfloor> < 2 ^ 63" using lt fl unfolding Microsecond_def by linarith
    moreover have "i64 (\<lfloor>q\<rfloor> * Microsecond)" using lt fl by (intro i64_nonneg) (simp_all add: Microsecond_def)
    ultimately show ?thesis using eq by (simp only: wrap64_id)
  qed
  moreover have "distribution_sample draw ovf mu sigma e < 0" if "\<lfloor>q\<rfloor> = 9223372036854776"
    using eq unfolding that by (simp add: Microsecond_def wrap64_def)
  ultimately show ?thesis by blast
qed

theorem distribution_sample_range_witness:
  "distribution_sample (\<lambda>_ _. Fin (7/2)) 0 (Fin 1) (Fin 1) None = 3000 \<and>
   distribution_sample (\<lambda>_ _. Fin 9223372036854776) 0 (Fin 1) (Fin 1) None < 0"
  using distribution_sample_range [of "Fin 1" "\<lambda>_ _. Fin (7/2)" "Fin 1" "7/2" 0 None]
    distribution_sample_range [of "Fin 1" "\<lambda>_ _. Fin 9223372036854776" "Fin 1" 9223372036854776 0 None]
  by (simp add: Microsecond_def floor_divide_of_int_eq [of 7 2, simplified])

end
