(* ===== verification/Cachebox_Dispatch.thy ===== *)
theory Cachebox_Dispatch
  imports Interceptor Cachebox_Recorder Cachebox_Delay
begin

text \<open>
  The cache-box coordinator (\<open>internal/cachebox/cachebox.go\<close>) and the egress path that uses it
  (\<open>handleCacheBox\<close>, \<open>cacheBoxPassthrough\<close> and \<open>cacheBoxServe\<close> of
  \<open>internal/interceptor/cachebox.go\<close>, \<open>EgressTransport\<close> of \<open>internal/interceptor/middleware.go\<close>).
  A body is the stream a reader yields: its bytes, and whether reading past them fails instead of
  ending. The base transport is a function from the forwarded request to its answer.
\<close>

section \<open>Streams, requests and responses\<close>

record body =
  bd_content :: string
  bd_fails :: bool

text \<open>
  Reading through \<open>io.LimitReader(b, n)\<close> to its end (\<open>io.CopyN\<close>, \<open>io.ReadAll\<close>): the bytes,
  whether the reader failed before the limit, and what is left in the stream.
\<close>

definition read_limited :: "int \<Rightarrow> body \<Rightarrow> string \<times> bool \<times> body" where
  "read_limited n b =
     (take (nat n) (bd_content b), int (length (bd_content b)) < n \<and> bd_fails b,
      b\<lparr>bd_content := drop (nat n) (bd_content b)\<rparr>)"

text \<open>\<open>io.MultiReader(bytes.NewReader(p), b)\<close>.\<close>

definition multi_reader :: "string \<Rightarrow> body \<Rightarrow> body" where
  "multi_reader p b = b\<lparr>bd_content := p @ bd_content b\<rparr>"

definition bytes_body :: "string \<Rightarrow> body" where
  "bytes_body p = \<lparr>bd_content = p, bd_fails = False\<rparr>"

record egress_request = http_request +
  hr_body :: "body option"

definition key_view :: "egress_request \<Rightarrow> key_request" where
  "key_view r = \<lparr>rq_method = hr_method r, rq_host = hr_host r, rq_path = hr_path r, rq_query = hr_query r\<rparr>"

record http_response =
  rp_status_line :: string
  rp_status :: int
  rp_header :: "header option"
  rp_body :: body
  rp_length :: int

definition header_set :: "string \<Rightarrow> string \<Rightarrow> header \<Rightarrow> header" where
  "header_set k v h = (k, [v]) # filter (\<lambda>p. fst p \<noteq> k) h"

section \<open>The coordinator\<close>

text \<open>
  The store is the one the recorder writes to, \<open>rc_store\<close> of \<open>cb_recorder\<close>; a configuration with
  a recorder of its own, which may write elsewhere, is not modelled.
\<close>

definition DefaultMaxBodyBytes :: int where
  "DefaultMaxBodyBytes = 1048576"

record cachebox_config =
  cf_store :: "memstore option"
  cf_strategy :: key_strategy
  cf_keyfunc :: "key_func option"
  cf_delay :: "delay_source option"
  cf_max_body :: int
  cf_otel :: int
  cf_push :: bool
  cf_buf :: int

record cachebox =
  cb_recorder :: "memstore recorder"
  cb_keyFn :: key_func
  cb_strategy :: key_strategy
  cb_max_body :: int
  cb_otel :: int
  cb_delay :: delay_source

definition CacheBox_New :: "cachebox_config \<Rightarrow> cachebox" where
  "CacheBox_New cfg =
     (let store = (case cf_store cfg of None \<Rightarrow> NewMemStore 10000 0 | Some s \<Rightarrow> s);
          strategy = (if cf_strategy cfg = [] then KeyStrategyExact else cf_strategy cfg);
          delay = (case cf_delay cfg of None \<Rightarrow> ObservedDelay | Some d \<Rightarrow> d);
          max_body = (if cf_max_body cfg = 0 then DefaultMaxBodyBytes else cf_max_body cfg);
          keyFn = (case cf_keyfunc cfg of None \<Rightarrow> KeyFuncFor strategy | Some f \<Rightarrow> f)
      in \<lparr>cb_recorder = NewRecorder store (cf_push cfg) (cf_buf cfg), cb_keyFn = keyFn,
          cb_strategy = strategy, cb_max_body = max_body, cb_otel = cf_otel cfg, cb_delay = delay\<rparr>)"

text \<open>Methods that tolerate a nil receiver take an option.\<close>

definition DeriveKey :: "cachebox option \<Rightarrow> key_request \<Rightarrow> string \<Rightarrow> string" where
  "DeriveKey cb r body = (case cb of None \<Rightarrow> [] | Some c \<Rightarrow> cb_keyFn c r body)"

definition Lookup :: "int \<Rightarrow> string \<Rightarrow> cachebox option \<Rightarrow> entry option \<times> cachebox option" where
  "Lookup now key cb =
     (case cb of
        None \<Rightarrow> (None, None)
      | Some c \<Rightarrow>
          (let (e, st) = mem_get now key (rc_store (cb_recorder c))
           in (e, Some (c\<lparr>cb_recorder := (cb_recorder c)\<lparr>rc_store := st\<rparr>\<rparr>))))"

definition CacheBox_Record :: "cache_record \<Rightarrow> cachebox option \<Rightarrow> cachebox option" where
  "CacheBox_Record r cb = map_option (\<lambda>c. c\<lparr>cb_recorder := snd (Record r (cb_recorder c))\<rparr>) cb"

definition SampleDelay :: "(float64 \<Rightarrow> float64 \<Rightarrow> float64) \<Rightarrow> int \<Rightarrow> cachebox \<Rightarrow> entry \<Rightarrow> int" where
  "SampleDelay draw ovf cb e = delay_sample draw ovf (cb_delay cb) (Some e)"

definition SetDelaySource :: "delay_source option \<Rightarrow> cachebox \<Rightarrow> cachebox" where
  "SetDelaySource d cb = (case d of None \<Rightarrow> cb | Some d \<Rightarrow> cb\<lparr>cb_delay := d\<rparr>)"

definition NeedsRequestBody :: "cachebox option \<Rightarrow> bool" where
  "NeedsRequestBody cb = (case cb of None \<Rightarrow> False | Some c \<Rightarrow> NeedsBody (cb_strategy c))"

definition CacheBox_Stats :: "cachebox \<Rightarrow> store_stats \<times> recorder_stats" where
  "CacheBox_Stats cb = (mem_stats (rc_store (cb_recorder cb)), recorder_Stats (cb_recorder cb))"

text \<open>
  \<open>BufferRequestBody\<close>: the captured bytes (a nil slice is empty), whether it failed, and the
  body it leaves on the request.
\<close>

definition BufferRequestBody :: "int \<Rightarrow> body option \<Rightarrow> string \<times> bool \<times> body option" where
  "BufferRequestBody cap b =
     (case b of
        None \<Rightarrow> ([], False, None)
      | Some b \<Rightarrow>
          (let (p, failed, rest) = read_limited (wrap64 (cap + 1)) b
           in if failed then ([], True, Some rest)
              else if int (length p) > cap then ([], False, Some (multi_reader p rest))
              else (p, False, Some (bytes_body p))))"

section \<open>Dispatch\<close>

text \<open>
  What one call finds in its environment: the clock at the lookup, the latency it measures and
  the time stamp it takes, whether the request's context ends during the delay, the draw of a
  delay distribution, \<open>http.StatusText\<close>, and the rendering of a read error.
\<close>

record box_env =
  be_now :: int
  be_observed :: int
  be_timestamp :: int
  be_cancelled :: bool
  be_draw :: "float64 \<Rightarrow> float64 \<Rightarrow> float64"
  be_ovf :: int
  be_status_text :: "int \<Rightarrow> string"
  be_err_text :: string

text \<open>\<open>bw_sent\<close> are the requests handed to the base transport, \<open>bw_slept\<close> the delays waited for.\<close>

record box_world =
  bw_box :: cachebox
  bw_world :: world
  bw_sent :: "egress_request list"
  bw_slept :: "int list"

datatype http_error = BaseError string | ReadBodyError | ContextError

datatype http_result = HErr http_error | HNil | HResp http_response | HPanic

type_synonym round_tripper = "egress_request \<Rightarrow> string + http_response option"

definition headerCacheKey :: string where "headerCacheKey = ''X-Atropos-Cache-Key''"
definition headerCacheMode :: string where "headerCacheMode = ''X-Atropos-Cache-Mode''"
definition headerCacheLatencyUs :: string where "headerCacheLatencyUs = ''X-Atropos-Cache-Latency-Us''"
definition SpanCacheBoxCheck :: string where "SpanCacheBoxCheck = ''atropos.cachebox.check''"
definition AttrCacheBoxMode :: string where "AttrCacheBoxMode = ''atropos.cachebox.mode''"
definition AttrCacheBoxInjection :: string where "AttrCacheBoxInjection = ''atropos.cachebox.injection_point''"
definition AttrCacheBoxReason :: string where "AttrCacheBoxReason = ''atropos.cachebox.reason''"
definition AttrCacheBoxKey :: string where "AttrCacheBoxKey = ''atropos.cachebox.key''"
definition AttrCacheBoxHit :: string where "AttrCacheBoxHit = ''atropos.cachebox.hit''"
definition AttrCacheBoxLatencyUs :: string where "AttrCacheBoxLatencyUs = ''atropos.cachebox.latency_us''"
definition AttrCacheBoxResponseSize :: string where "AttrCacheBoxResponseSize = ''atropos.cachebox.response_size''"
definition AttrCacheBoxResponseBody :: string where "AttrCacheBoxResponseBody = ''atropos.cachebox.response_body''"
definition EventCacheBoxRecord :: string where "EventCacheBoxRecord = ''atropos.cachebox.record''"
definition EventCacheBoxReplay :: string where "EventCacheBoxReplay = ''atropos.cachebox.replay''"
definition EventCacheBoxMiss :: string where "EventCacheBoxMiss = ''atropos.cachebox.miss''"
definition EventCacheBoxOversize :: string where "EventCacheBoxOversize = ''atropos.cachebox.oversize''"
definition EventCacheBoxError :: string where "EventCacheBoxError = ''atropos.cachebox.error''"

text \<open>\<open>d.Microseconds()\<close> as a decimal numeral.\<close>

definition micros_text :: "int \<Rightarrow> string" where
  "micros_text d = format_int (d sdiv 1000)"

definition box_log :: "span_op \<Rightarrow> box_world \<Rightarrow> box_world" where
  "box_log x st = st\<lparr>bw_world := log_op x (bw_world st)\<rparr>"

text \<open>The largest capacity \<open>make([]byte, 0, n)\<close> accepts on a 64-bit platform.\<close>

definition max_alloc :: int where
  "max_alloc = 2 ^ 48"

definition cacheBoxServe ::
  "box_env \<Rightarrow> entry \<Rightarrow> string \<Rightarrow> cachebox_action \<Rightarrow> int \<Rightarrow> nat \<Rightarrow> box_world \<Rightarrow> http_response \<times> box_world" where
  "cacheBoxServe env e key action delay s st =
     (let h0 = (case e_header e of None \<Rightarrow> [] | Some h \<Rightarrow> h);
          h1 = header_set headerCacheKey key h0;
          h2 = header_set headerCacheMode (action_String action) h1;
          h3 = header_set headerCacheLatencyUs
                 (if delay > 0 then micros_text delay else micros_text (e_latency e)) h2
      in (\<lparr>rp_status_line = be_status_text env (e_status e), rp_status = e_status e,
           rp_header = Some h3, rp_body = bytes_body (e_body e), rp_length = int (length (e_body e))\<rparr>,
          box_log (SpanEvent s EventCacheBoxReplay
            [(AttrCacheBoxHit, ''true''), (AttrCacheBoxResponseSize, format_int (int (length (e_body e)))),
             (AttrCacheBoxLatencyUs, micros_text (e_latency e))]) st))"

definition cacheBoxPassthrough ::
  "box_env \<Rightarrow> egress_request \<Rightarrow> round_tripper \<Rightarrow> string \<Rightarrow> string \<Rightarrow> nat \<Rightarrow> box_world \<Rightarrow> http_result \<times> box_world" where
  "cacheBoxPassthrough env r base key reqBody s st0 =
     (let st = st0\<lparr>bw_sent := bw_sent st0 @ [r]\<rparr>; maxBytes = cb_max_body (bw_box st0)
      in case base r of
           Inl e \<Rightarrow> (HErr (BaseError e), st)
         | Inr None \<Rightarrow> (HNil, st)
         | Inr (Some resp) \<Rightarrow>
             (if wrap64 (maxBytes + 1) < 0 \<or> wrap64 (maxBytes + 1) > max_alloc then (HPanic, st)
              else
                (let (p, failed, rest) = read_limited (wrap64 (maxBytes + 1)) (rp_body resp)
                 in if failed then (HErr ReadBodyError, st)
                    else if int (length p) > maxBytes then
                      (HResp (resp\<lparr>rp_body := multi_reader p rest\<rparr>),
                       box_log (SpanEvent s EventCacheBoxOversize
                         [(AttrCacheBoxResponseSize, format_int (int (length p)))]) st)
                    else
                      (let rec = \<lparr>cr_request = key_view r, cr_request_body = reqBody,
                                  cr_status = rp_status resp, cr_header = rp_header resp, cr_body = p,
                                  cr_latency = be_observed env, cr_timestamp = be_timestamp env\<rparr>;
                           box = the (CacheBox_Record rec (Some (bw_box st)));
                           st1 = box_log (SpanEvent s EventCacheBoxRecord
                                   [(AttrCacheBoxLatencyUs, micros_text (be_observed env)),
                                    (AttrCacheBoxResponseSize, format_int (int (length p)))]) (st\<lparr>bw_box := box\<rparr>)
                       in case rp_header resp of
                            None \<Rightarrow> (HPanic, st1)
                          | Some h \<Rightarrow>
                              (let h' = header_set headerCacheLatencyUs (micros_text (be_observed env))
                                          (header_set headerCacheKey key h);
                                   limit = cb_otel box;
                                   st2 = (if limit > 0 \<and> int (length p) \<le> limit
                                          then box_log (SpanAttrs s [(AttrCacheBoxResponseBody, p)]) st1 else st1)
                               in (HResp (resp\<lparr>rp_body := bytes_body p, rp_header := Some h'\<rparr>), st2))))))"

text \<open>The body of the handler between the start of the span and its deferred end.\<close>

definition lookup_state :: "int \<Rightarrow> string \<Rightarrow> box_world \<Rightarrow> entry option \<times> box_world" where
  "lookup_state now key st =
     (case Lookup now key (Some (bw_box st)) of (e, cb) \<Rightarrow> (e, st\<lparr>bw_box := the cb\<rparr>))"

definition box_action ::
  "box_env \<Rightarrow> egress_request \<Rightarrow> round_tripper \<Rightarrow> cachebox_action \<Rightarrow> string \<Rightarrow> string \<Rightarrow> nat \<Rightarrow> box_world \<Rightarrow>
   http_result \<times> box_world" where
  "box_action env r base action key reqBody s st =
     (let miss = (\<lambda>st'. cacheBoxPassthrough env r base key reqBody s
                    (box_log (SpanEvent s EventCacheBoxMiss [(AttrCacheBoxKey, key)]) st'))
      in case action of
           CacheBoxPassthrough \<Rightarrow> cacheBoxPassthrough env r base key reqBody s st
         | CacheBoxReplay \<Rightarrow>
             (case lookup_state (be_now env) key st of
                (Some e, st') \<Rightarrow> (let (resp, st'') = cacheBoxServe env e key action 0 s st' in (HResp resp, st''))
              | (None, st') \<Rightarrow> miss st')
         | CacheBoxReplayDelay \<Rightarrow>
             (case lookup_state (be_now env) key st of
                (Some e, st') \<Rightarrow>
                  (let delay = SampleDelay (be_draw env) (be_ovf env) (bw_box st') e
                   in if delay > 0 \<and> be_cancelled env then (HErr ContextError, st')
                      else (let st1 = (if delay > 0 then st'\<lparr>bw_slept := bw_slept st' @ [delay]\<rparr> else st');
                                (resp, st'') = cacheBoxServe env e key action delay s st1
                            in (HResp resp, st'')))
              | (None, st') \<Rightarrow> miss st')
         | _ \<Rightarrow>
             (let st' = st\<lparr>bw_sent := bw_sent st @ [r]\<rparr>
              in case base r of
                   Inl e \<Rightarrow> (HErr (BaseError e), st')
                 | Inr None \<Rightarrow> (HNil, st')
                 | Inr (Some resp) \<Rightarrow> (HResp resp, st')))"

definition handleCacheBox ::
  "box_env \<Rightarrow> egress_request \<Rightarrow> round_tripper \<Rightarrow> eval_request \<Rightarrow> decision \<Rightarrow> box_world \<Rightarrow> http_result \<times> box_world" where
  "handleCacheBox env r base req d st =
     (let (s, w1) = tracer_Start SpanCacheBoxCheck
            [(AttrCacheBoxMode, action_String (d_cachebox d)),
             (AttrCacheBoxInjection, point_String (er_point req)),
             (AttrCacheBoxReason, d_reason d)] (bw_world st);
          st1 = st\<lparr>bw_world := span_labels s (er_labels req) w1\<rparr>;
          (reqBody, failed, b) =
            (if NeedsRequestBody (Some (bw_box st)) then BufferRequestBody (cb_max_body (bw_box st)) (hr_body r)
             else ([], False, hr_body r));
          st2 = (if failed then box_log (SpanEvent s EventCacheBoxError [(''error'', be_err_text env)]) st1 else st1);
          r' = r\<lparr>hr_body := b\<rparr>;
          key = DeriveKey (Some (bw_box st)) (key_view r') reqBody;
          st3 = box_log (SpanAttrs s [(AttrCacheBoxKey, key)]) st2;
          (res, st4) = box_action env r' base (d_cachebox d) key reqBody s st3
      in (res, box_log (SpanEnd s) st4))"

definition EgressTransport ::
  "interceptor \<Rightarrow> (fault \<Rightarrow> fault_error option) \<Rightarrow> bool \<Rightarrow> box_env \<Rightarrow> round_tripper \<Rightarrow> egress_request \<Rightarrow> box_world \<Rightarrow>
   (mw_action list \<times> http_result) \<times> box_world" where
  "EgressTransport i os early env base r st =
     (let req = \<lparr>er_point = Egress, er_labels = extractHTTPLabels (http_request.truncate r)\<rparr>;
          forward = (\<lambda>as st. ((as @ [CallNext],
              (case base r of Inl e \<Rightarrow> HErr (BaseError e) | Inr None \<Rightarrow> HNil | Inr (Some resp) \<Rightarrow> HResp resp)),
              st\<lparr>bw_sent := bw_sent st @ [r]\<rparr>))
      in case it_eval i req of
           None \<Rightarrow> forward [] st
         | Some d \<Rightarrow>
             (if d_cachebox d \<noteq> CacheBoxNone \<and> it_cachebox i
              then (let (res, st') = handleCacheBox env r base req d st in (([], res), st'))
              else if d_fault d \<noteq> None
              then (let (res, w') = StartFault i os early req (Some d) (bw_world st)
                    in forward (check_actions res) (st\<lparr>bw_world := w'\<rparr>))
              else forward [] st))"


section \<open>Streams\<close>

lemma multi_reader_read [simp]:
  "read_limited n b = (p, failed, rest) \<Longrightarrow> multi_reader p rest = b"
  by (auto simp: read_limited_def multi_reader_def)

lemma read_limited_fits:
  assumes "read_limited (cap + 1) b = (p, failed, rest)" and "\<not> failed" and "int (length p) \<le> cap" and "0 \<le> cap"
  shows "p = bd_content b" and "bytes_body p = b"
proof -
  from assms have "length (bd_content b) \<le> nat cap"
    by (auto simp: read_limited_def min_def split: if_splits)
  with assms show "p = bd_content b" and "bytes_body p = b"
    by (auto simp: read_limited_def bytes_body_def intro!: body.equality)
qed

lemma read_limited_over:
  assumes "read_limited (cap + 1) b = (p, failed, rest)" and "0 \<le> cap"
  shows "cap < int (length p) \<longleftrightarrow> cap < int (length (bd_content b))"
    and "failed \<longleftrightarrow> bd_fails b \<and> int (length (bd_content b)) \<le> cap"
  using assms by (auto simp: read_limited_def)

definition small_cap :: "int \<Rightarrow> bool" where
  "small_cap m \<longleftrightarrow> 0 \<le> m \<and> m < max_alloc"

lemma wrap_cap: "0 \<le> cap \<Longrightarrow> cap < 2 ^ 63 - 1 \<Longrightarrow> wrap64 (cap + 1) = cap + 1"
  by (rule wrap64_id) (simp add: i64_def)

lemma small_capD:
  "small_cap m \<Longrightarrow> wrap64 (m + 1) = m + 1" "small_cap m \<Longrightarrow> 0 \<le> m" "small_cap m \<Longrightarrow> m + 1 \<le> max_alloc"
  by (auto simp: small_cap_def max_alloc_def intro!: wrap_cap)

section \<open>The pieces of a call\<close>

definition captured_body :: "cachebox \<Rightarrow> egress_request \<Rightarrow> string \<times> bool \<times> body option" where
  "captured_body cb r =
     (if NeedsRequestBody (Some cb) then BufferRequestBody (cb_max_body cb) (hr_body r) else ([], False, hr_body r))"

definition forwarded :: "cachebox \<Rightarrow> egress_request \<Rightarrow> egress_request" where
  "forwarded cb r = r\<lparr>hr_body := snd (snd (captured_body cb r))\<rparr>"

definition box_key :: "cachebox \<Rightarrow> egress_request \<Rightarrow> string" where
  "box_key cb r = cb_keyFn cb (key_view r) (fst (captured_body cb r))"

lemma key_view_body [simp]: "key_view (r\<lparr>hr_body := b\<rparr>) = key_view r"
  by (simp add: key_view_def)

lemma box_log_fields [simp]:
  "bw_box (box_log x st) = bw_box st" "bw_sent (box_log x st) = bw_sent st" "bw_slept (box_log x st) = bw_slept st"
  by (simp_all add: box_log_def)

text \<open>Around \<open>box_action\<close> only spans are touched.\<close>

lemma handleCacheBox_action:
  "\<exists>st3 s. bw_box st3 = bw_box st \<and> bw_sent st3 = bw_sent st \<and> bw_slept st3 = bw_slept st \<and>
     (let (res, st4) = box_action env (forwarded (bw_box st) r) base (d_cachebox d)
            (box_key (bw_box st) r) (fst (captured_body (bw_box st) r)) s st3
      in handleCacheBox env r base req d st = (res, box_log (SpanEnd s) st4))"
proof -
  obtain p failed b where cap: "captured_body (bw_box st) r = (p, failed, b)" by (cases "captured_body (bw_box st) r") auto
  let ?w = "tracer_Start SpanCacheBoxCheck
            [(AttrCacheBoxMode, action_String (d_cachebox d)),
             (AttrCacheBoxInjection, point_String (er_point req)),
             (AttrCacheBoxReason, d_reason d)] (bw_world st)"
  let ?s = "fst ?w"
  let ?st1 = "st\<lparr>bw_world := span_labels ?s (er_labels req) (snd ?w)\<rparr>"
  let ?st2 = "if failed then box_log (SpanEvent ?s EventCacheBoxError [(''error'', be_err_text env)]) ?st1 else ?st1"
  let ?st3 = "box_log (SpanAttrs ?s [(AttrCacheBoxKey, box_key (bw_box st) r)]) ?st2"
  have "bw_box ?st3 = bw_box st \<and> bw_sent ?st3 = bw_sent st \<and> bw_slept ?st3 = bw_slept st" by simp
  moreover have "(let (res, st4) = box_action env (forwarded (bw_box st) r) base (d_cachebox d)
            (box_key (bw_box st) r) (fst (captured_body (bw_box st) r)) ?s ?st3
      in handleCacheBox env r base req d st = (res, box_log (SpanEnd ?s) st4))"
    using cap
    by (simp add: handleCacheBox_def captured_body_def forwarded_def box_key_def DeriveKey_def Let_def split_beta)
  ultimately show ?thesis by blast
qed

lemma handleCacheBoxE:
  assumes "handleCacheBox env r base req d st = (res, st')"
  obtains s st3 st4 where "bw_box st3 = bw_box st" "bw_sent st3 = bw_sent st" "bw_slept st3 = bw_slept st"
    "box_action env (forwarded (bw_box st) r) base (d_cachebox d)
       (box_key (bw_box st) r) (fst (captured_body (bw_box st) r)) s st3 = (res, st4)"
    "st' = box_log (SpanEnd s) st4"
proof -
  obtain st3 s where *: "bw_box st3 = bw_box st" "bw_sent st3 = bw_sent st" "bw_slept st3 = bw_slept st"
    and act: "let (res, st4) = box_action env (forwarded (bw_box st) r) base (d_cachebox d)
            (box_key (bw_box st) r) (fst (captured_body (bw_box st) r)) s st3
      in handleCacheBox env r base req d st = (res, box_log (SpanEnd s) st4)"
    using handleCacheBox_action [of st env r base d req] by blast
  obtain res' st4 where "box_action env (forwarded (bw_box st) r) base (d_cachebox d)
       (box_key (bw_box st) r) (fst (captured_body (bw_box st) r)) s st3 = (res', st4)" by fastforce
  with act assms that [OF *] show ?thesis by simp
qed

text \<open>The outcomes of the forwarding path.\<close>

lemma passthrough_sent [simp]:
  "bw_sent (snd (cacheBoxPassthrough env r base key b s st)) = bw_sent st @ [r]"
  "bw_slept (snd (cacheBoxPassthrough env r base key b s st)) = bw_slept st"
  by (simp_all add: cacheBoxPassthrough_def Let_def split_beta split: sum.splits option.splits)

definition pass_record :: "box_env \<Rightarrow> egress_request \<Rightarrow> string \<Rightarrow> http_response \<Rightarrow> cache_record" where
  "pass_record env r b resp =
     \<lparr>cr_request = key_view r, cr_request_body = b, cr_status = rp_status resp, cr_header = rp_header resp,
      cr_body = bd_content (rp_body resp), cr_latency = be_observed env, cr_timestamp = be_timestamp env\<rparr>"

definition tagged :: "string \<Rightarrow> int \<Rightarrow> header \<Rightarrow> header" where
  "tagged key us h = header_set headerCacheLatencyUs (micros_text us) (header_set headerCacheKey key h)"

lemma passthrough_recorded:
  assumes base: "base r = Inr (Some resp)" and cap: "small_cap (cb_max_body (bw_box st))"
    and len: "int (length (bd_content (rp_body resp))) \<le> cb_max_body (bw_box st)" and ok: "\<not> bd_fails (rp_body resp)"
    and hdr: "rp_header resp = Some h"
  shows "fst (cacheBoxPassthrough env r base key b s st) =
       HResp (resp\<lparr>rp_header := Some (tagged key (be_observed env) h)\<rparr>)"
    and "bw_box (snd (cacheBoxPassthrough env r base key b s st)) =
       (bw_box st)\<lparr>cb_recorder := snd (Record (pass_record env r b resp) (cb_recorder (bw_box st)))\<rparr>"
proof -
  let ?m = "cb_max_body (bw_box st)"
  obtain p failed rest where rd: "read_limited (?m + 1) (rp_body resp) = (p, failed, rest)" by (metis prod_cases3)
  note S = small_capD [OF cap]
  have over: "\<not> failed" "int (length p) \<le> ?m"
    using read_limited_over [OF rd S(2)] len ok by auto
  have fit: "p = bd_content (rp_body resp)" "bytes_body p = rp_body resp"
    using read_limited_fits [OF rd over S(2)] by auto
  have same: "resp\<lparr>rp_body := rp_body resp\<rparr> = resp" by simp
  have pos: "\<not> ?m + 1 < 0" "\<not> max_alloc < ?m + 1" using S(2,3) by simp_all
  have bb: "bytes_body (bd_content (rp_body resp)) = rp_body resp" using fit by simp
  show "fst (cacheBoxPassthrough env r base key b s st) =
       HResp (resp\<lparr>rp_header := Some (tagged key (be_observed env) h)\<rparr>)"
    and "bw_box (snd (cacheBoxPassthrough env r base key b s st)) =
       (bw_box st)\<lparr>cb_recorder := snd (Record (pass_record env r b resp) (cb_recorder (bw_box st)))\<rparr>"
    using base rd over S(1) pos hdr fit(1) len
    by (simp_all add: cacheBoxPassthrough_def Let_def bb CacheBox_Record_def pass_record_def tagged_def)
qed

lemma passthrough_HResp:
  assumes "cacheBoxPassthrough env r base key b s st = (HResp resp', st')" and cap: "small_cap (cb_max_body (bw_box st))"
  obtains resp where "base r = Inr (Some resp)" "rp_body resp' = rp_body resp" "rp_status resp' = rp_status resp"
    "rp_status_line resp' = rp_status_line resp" "rp_length resp' = rp_length resp"
    "rp_header resp' = rp_header resp \<or> (\<exists>h. rp_header resp = Some h \<and> rp_header resp' = Some (tagged key (be_observed env) h))"
proof -
  from assms(1) obtain resp where base: "base r = Inr (Some resp)"
    by (auto simp: cacheBoxPassthrough_def Let_def split: sum.splits option.splits)
  let ?m = "cb_max_body (bw_box st)"
  obtain p failed rest where rd: "read_limited (?m + 1) (rp_body resp) = (p, failed, rest)" by (metis prod_cases3)
  note S = small_capD [OF cap]
  have pos: "\<not> ?m + 1 < 0" "\<not> max_alloc < ?m + 1" using S(2,3) by simp_all
  have nf: "\<not> failed" using assms(1) base rd S(1) pos by (auto simp: cacheBoxPassthrough_def Let_def)
  show ?thesis
  proof (cases "?m < int (length p)")
    case True
    then have "resp' = resp"
      using assms(1) base rd S(1) pos nf multi_reader_read [OF rd]
      by (simp add: cacheBoxPassthrough_def Let_def)
    with that base show ?thesis by blast
  next
    case False
    then have le: "int (length p) \<le> ?m" by simp
    note F = read_limited_fits [OF rd nf le S(2)]
    from assms(1) base rd S(1) pos nf le obtain h where "rp_header resp = Some h"
      "resp' = resp\<lparr>rp_body := bytes_body p, rp_header := Some (tagged key (be_observed env) h)\<rparr>"
      by (auto simp: cacheBoxPassthrough_def Let_def tagged_def split: option.splits)
    with that base F(2) show ?thesis by simp
  qed
qed

section \<open>Recording and draining\<close>

definition box_store :: "cachebox \<Rightarrow> memstore" where
  "box_store cb = rc_store (cb_recorder cb)"

definition box_ready :: "cachebox \<Rightarrow> bool" where
  "box_ready cb \<longleftrightarrow> mem_inv (box_store cb) \<and> rc_ch (cb_recorder cb) = [] \<and> rc_hand (cb_recorder cb) = None \<and>
     \<not> rc_stopped (cb_recorder cb) \<and> \<not> rc_closed (cb_recorder cb) \<and> 0 < rc_cap (cb_recorder cb)"

text \<open>The drain goroutine has worked off the buffer.\<close>

definition box_settle :: "cachebox \<Rightarrow> cachebox" where
  "box_settle cb = cb\<lparr>cb_recorder :=
     drain_all mem_put (cb_keyFn cb) (length (rc_ch (cb_recorder cb))) (cb_recorder cb)\<rparr>"

definition box_settled :: "box_world \<Rightarrow> box_world" where
  "box_settled st = st\<lparr>bw_box := box_settle (bw_box st)\<rparr>"

lemma box_settle_other [simp]:
  "cb_keyFn (box_settle cb) = cb_keyFn cb" "cb_strategy (box_settle cb) = cb_strategy cb"
  "cb_max_body (box_settle cb) = cb_max_body cb" "cb_delay (box_settle cb) = cb_delay cb"
  by (simp_all add: box_settle_def)

lemma box_New_ready: "box_ready (CacheBox_New (cfg\<lparr>cf_store := None\<rparr>))"
  by (simp add: box_ready_def box_store_def CacheBox_New_def NewRecorder_def Let_def NewMemStore_correct)

lemma record_settle:
  assumes "box_ready cb"
  shows "box_store (box_settle (cb\<lparr>cb_recorder := snd (Record rec (cb_recorder cb))\<rparr>)) =
     mem_put (record_key (cb_keyFn cb) rec) (Some (record_entry (cb_keyFn cb) rec)) (box_store cb)"
  using assms
  by (simp add: box_ready_def box_store_def box_settle_def Record_def select_send_def drain_receive_def
      drain_process_def Let_def)

definition box_entry :: "box_env \<Rightarrow> cachebox \<Rightarrow> egress_request \<Rightarrow> http_response \<Rightarrow> entry" where
  "box_entry env cb r resp = record_entry (cb_keyFn cb) (pass_record env r (fst (captured_body cb r)) resp)"

lemma box_entry_simps [simp]:
  "e_key (box_entry env cb r resp) = box_key cb r" "e_status (box_entry env cb r resp) = rp_status resp"
  "e_header (box_entry env cb r resp) = rp_header resp" "e_body (box_entry env cb r resp) = bd_content (rp_body resp)"
  "e_latency (box_entry env cb r resp) = be_observed env" "e_recorded (box_entry env cb r resp) = be_timestamp env"
  by (simp_all add: box_entry_def record_entry_def record_key_def pass_record_def box_key_def)

lemma pass_record_forwarded [simp]: "pass_record env (forwarded cb r) b resp = pass_record env r b resp"
  by (simp add: pass_record_def forwarded_def)

lemma passthrough_settled:
  assumes ready: "box_ready (bw_box st)" and pass: "d_cachebox d = CacheBoxPassthrough"
    and base: "base (forwarded (bw_box st) r) = Inr (Some resp)" and cap: "small_cap (cb_max_body (bw_box st))"
    and len: "int (length (bd_content (rp_body resp))) \<le> cb_max_body (bw_box st)" and ok: "\<not> bd_fails (rp_body resp)"
    and hdr: "rp_header resp = Some h" and run: "handleCacheBox env r base req d st = (res, st')"
  shows "res = HResp (resp\<lparr>rp_header := Some (tagged (box_key (bw_box st) r) (be_observed env) h)\<rparr>)"
    and "box_store (bw_box (box_settled st')) =
       mem_put (box_key (bw_box st) r) (Some (box_entry env (bw_box st) r resp)) (box_store (bw_box st))"
    and "cb_keyFn (bw_box (box_settled st')) = cb_keyFn (bw_box st)"
    and "cb_strategy (bw_box (box_settled st')) = cb_strategy (bw_box st)"
    and "cb_max_body (bw_box (box_settled st')) = cb_max_body (bw_box st)"
proof -
  let ?k = "box_key (bw_box st) r" and ?b = "fst (captured_body (bw_box st) r)"
  obtain s st3 st4 where st3: "bw_box st3 = bw_box st" "bw_sent st3 = bw_sent st" "bw_slept st3 = bw_slept st"
    and act: "box_action env (forwarded (bw_box st) r) base (d_cachebox d) ?k ?b s st3 = (res, st4)"
    and st': "st' = box_log (SpanEnd s) st4"
    by (rule handleCacheBoxE [OF run])
  have P: "cacheBoxPassthrough env (forwarded (bw_box st) r) base ?k ?b s st3 = (res, st4)"
    using act pass by (simp add: box_action_def)
  note R = passthrough_recorded [of base "forwarded (bw_box st) r" resp st3 h env ?k ?b s, unfolded st3 P, OF base cap len ok hdr]
  show "res = HResp (resp\<lparr>rp_header := Some (tagged ?k (be_observed env) h)\<rparr>)" using R(1) by simp
  have box: "bw_box (box_settled st') =
      box_settle ((bw_box st)\<lparr>cb_recorder := snd (Record (pass_record env r ?b resp) (cb_recorder (bw_box st)))\<rparr>)"
    using R(2) st' by (simp add: box_settled_def)
  show "box_store (bw_box (box_settled st')) =
       mem_put ?k (Some (box_entry env (bw_box st) r resp)) (box_store (bw_box st))"
    unfolding box record_settle [OF ready]
    by (simp add: box_entry_def record_key_def pass_record_def box_key_def)
  show "cb_keyFn (bw_box (box_settled st')) = cb_keyFn (bw_box st)"
    "cb_strategy (bw_box (box_settled st')) = cb_strategy (bw_box st)"
    "cb_max_body (bw_box (box_settled st')) = cb_max_body (bw_box st)"
    unfolding box by simp_all
qed

lemma lookup_state_eq:
  "lookup_state now key st =
     (fst (mem_get now key (box_store (bw_box st))),
      st\<lparr>bw_box := (bw_box st)\<lparr>cb_recorder := (cb_recorder (bw_box st))\<lparr>rc_store :=
        snd (mem_get now key (box_store (bw_box st)))\<rparr>\<rparr>\<rparr>)"
  by (simp add: lookup_state_def Lookup_def box_store_def split_beta Let_def)

lemma serve_fields [simp]:
  "rp_status (fst (cacheBoxServe env e key a delay s st)) = e_status e"
  "rp_body (fst (cacheBoxServe env e key a delay s st)) = bytes_body (e_body e)"
  "bw_sent (snd (cacheBoxServe env e key a delay s st)) = bw_sent st"
  "bw_slept (snd (cacheBoxServe env e key a delay s st)) = bw_slept st"
  by (simp_all add: cacheBoxServe_def Let_def)

text \<open>A lookup that hits answers the request without forwarding it.\<close>

lemma replay_hit:
  assumes hit: "fst (mem_get (be_now env) (box_key (bw_box st) r) (box_store (bw_box st))) = Some e"
    and act: "d_cachebox d = CacheBoxReplay" and run: "handleCacheBox env r base req d st = (res, st')"
  shows "bw_sent st' = bw_sent st \<and> bw_slept st' = bw_slept st \<and>
     (\<exists>resp. res = HResp resp \<and> rp_status resp = e_status e \<and> rp_body resp = bytes_body (e_body e))"
proof -
  obtain s st3 st4 where st3: "bw_box st3 = bw_box st" "bw_sent st3 = bw_sent st" "bw_slept st3 = bw_slept st"
    and a: "box_action env (forwarded (bw_box st) r) base (d_cachebox d) (box_key (bw_box st) r)
              (fst (captured_body (bw_box st) r)) s st3 = (res, st4)"
    and st': "st' = box_log (SpanEnd s) st4"
    by (rule handleCacheBoxE [OF run])
  obtain st5 where look: "lookup_state (be_now env) (box_key (bw_box st) r) st3 = (Some e, st5)"
      "bw_sent st5 = bw_sent st" "bw_slept st5 = bw_slept st"
    using hit st3 by (simp add: lookup_state_eq)
  obtain resp st6 where serve: "cacheBoxServe env e (box_key (bw_box st) r) CacheBoxReplay 0 s st5 = (resp, st6)" by fastforce
  from a act look serve have "res = HResp resp" "st4 = st6" by (simp_all add: box_action_def)
  with serve_fields [of env e "box_key (bw_box st) r" CacheBoxReplay 0 s st5] serve look st' show ?thesis by simp
qed

lemma box_key_cong:
  "cb_keyFn cb = cb_keyFn cb' \<Longrightarrow> cb_strategy cb = cb_strategy cb' \<Longrightarrow> cb_max_body cb = cb_max_body cb' \<Longrightarrow>
   box_key cb = box_key cb'"
  by (simp add: fun_eq_iff box_key_def captured_body_def NeedsRequestBody_def)

section \<open>Properties of the egress path\<close>

text \<open>
  \<open>BufferRequestBody\<close> leaves the request's body as it was, whether it captured it or found
  it too large, unless the reader fails within the limit; the capture is the whole body or, for
  a body over the limit, nothing. When the reader fails, what was read is lost: the request
  keeps a body with no bytes left.
\<close>

theorem BufferRequestBody_stream:
  assumes "0 \<le> cap" and "cap < 2 ^ 63 - 1" and "BufferRequestBody cap (Some b) = (p, failed, b')"
  shows "(failed \<longleftrightarrow> bd_fails b \<and> int (length (bd_content b)) \<le> cap) \<and>
     (\<not> failed \<longrightarrow> b' = Some b) \<and>
     (failed \<longrightarrow> p = [] \<and> b' = Some \<lparr>bd_content = [], bd_fails = True\<rparr>) \<and>
     (p = (if bd_fails b \<or> cap < int (length (bd_content b)) then [] else bd_content b))"
proof (intro conjI)
  obtain q f rest where rd: "read_limited (cap + 1) b = (q, f, rest)" by (metis prod_cases3)
  note O = read_limited_over [OF rd assms(1)]
  have buf: "(p, failed, b') = (if f then ([], True, Some rest)
      else if int (length q) > cap then ([], False, Some (multi_reader q rest)) else (q, False, Some (bytes_body q)))"
    using assms(3) rd by (simp add: BufferRequestBody_def wrap_cap [OF assms(1,2)])
  show "failed \<longleftrightarrow> bd_fails b \<and> int (length (bd_content b)) \<le> cap"
    using buf O(2) by (auto split: if_splits)
  show "\<not> failed \<longrightarrow> b' = Some b"
    using buf read_limited_fits(2) [OF rd _ _ assms(1)] multi_reader_read [OF rd] by (auto split: if_splits)
  show "failed \<longrightarrow> p = [] \<and> b' = Some \<lparr>bd_content = [], bd_fails = True\<rparr>"
    using buf rd O(2) by (auto simp: read_limited_def split: if_splits)
  show "p = (if bd_fails b \<or> cap < int (length (bd_content b)) then [] else bd_content b)"
    using buf read_limited_fits(1) [OF rd _ _ assms(1)] O by (auto split: if_splits)
qed

theorem BufferRequestBody_stream_witness:
  "\<exists>p failed b'. BufferRequestBody 4 (Some (bytes_body ''abcde'')) = (p, failed, b') \<and> \<not> failed \<and> p = [] \<and>
     b' = Some (bytes_body ''abcde'')"
proof -
  obtain p failed b' where b: "BufferRequestBody 4 (Some (bytes_body ''abcde'')) = (p, failed, b')" by (metis prod_cases3)
  from BufferRequestBody_stream [OF _ _ b] b show ?thesis by (auto simp: bytes_body_def)
qed

text \<open>
  One egress call through the cache box forwards at most one request downstream, and that
  one is the caller's request with the body \<open>BufferRequestBody\<close> leaves on it.
\<close>

theorem forwards_at_most_once:
  "bw_sent (snd (handleCacheBox env r base req d st)) = bw_sent st \<or>
   bw_sent (snd (handleCacheBox env r base req d st)) = bw_sent st @ [forwarded (bw_box st) r]"
proof -
  obtain res st' where run: "handleCacheBox env r base req d st = (res, st')" by fastforce
  obtain s st3 st4 where st3: "bw_box st3 = bw_box st" "bw_sent st3 = bw_sent st" "bw_slept st3 = bw_slept st"
    and a: "box_action env (forwarded (bw_box st) r) base (d_cachebox d) (box_key (bw_box st) r)
              (fst (captured_body (bw_box st) r)) s st3 = (res, st4)"
    and st': "st' = box_log (SpanEnd s) st4"
    by (rule handleCacheBoxE [OF run])
  have "bw_sent (snd (box_action env r' base act key b s st3)) \<in> {bw_sent st3, bw_sent st3 @ [r']}" for r' act key b
    by (auto simp: box_action_def Let_def split_beta lookup_state_eq split: cachebox_action.splits option.splits sum.splits)
  from this [of "forwarded (bw_box st) r" "d_cachebox d" "box_key (bw_box st) r" "fst (captured_body (bw_box st) r)"]
  show ?thesis using a st3 st' run by auto
qed

text \<open>
  C1. Record, then replay. A request that goes through the cache box in passthrough mode and
  gets a response that fits the limit is answered with that response, tagged; once the recorder
  has drained, every request with the same key, replayed while the entry is fresh, is answered
  with the recorded status and body, and nothing is forwarded, whatever the transport would do.
\<close>

theorem record_then_replay:
  assumes "box_ready (bw_box st)" and "small_cap (cb_max_body (bw_box st))"
    and "d_cachebox d1 = CacheBoxPassthrough" and "base1 (forwarded (bw_box st) r1) = Inr (Some resp)"
    and "int (length (bd_content (rp_body resp))) \<le> cb_max_body (bw_box st)" and "\<not> bd_fails (rp_body resp)"
    and "rp_header resp = Some h" and "handleCacheBox env1 r1 base1 req1 d1 st = (res1, st1)"
    and "d_cachebox d2 = CacheBoxReplay" and "box_key (bw_box st) r2 = box_key (bw_box st) r1"
    and "mem_live (box_store (bw_box st)) (be_now env2) (box_entry env1 (bw_box st) r1 resp)"
    and "handleCacheBox env2 r2 base2 req2 d2 (box_settled st1) = (res2, st2)"
  shows "(res1 = HResp (resp\<lparr>rp_header := Some (tagged (box_key (bw_box st) r1) (be_observed env1) h)\<rparr>)) \<and>
     (\<exists>resp2. res2 = HResp resp2 \<and> rp_status resp2 = rp_status resp \<and> rp_body resp2 = rp_body resp) \<and>
     (bw_sent st2 = bw_sent (box_settled st1))"
proof (intro conjI)
  note P = passthrough_settled [OF assms(1,3,4,2,5,6,7,8)]
  show "res1 = HResp (resp\<lparr>rp_header := Some (tagged (box_key (bw_box st) r1) (be_observed env1) h)\<rparr>)" by (rule P(1))
  let ?e = "box_entry env1 (bw_box st) r1 resp"
  have key: "box_key (bw_box (box_settled st1)) r2 = box_key (bw_box st) r1"
    using box_key_cong [OF P(3,4,5)] assms(10) by simp
  have "fst (mem_get (be_now env2) (box_key (bw_box st) r1) (box_store (bw_box (box_settled st1)))) = Some (bump_hits ?e)"
    unfolding P(2) using assms(1,11) by (intro mem.put_then_get) (simp_all add: box_ready_def)
  then have hit: "fst (mem_get (be_now env2) (box_key (bw_box (box_settled st1)) r2) (box_store (bw_box (box_settled st1)))) = Some (bump_hits ?e)"
    unfolding key .
  have "bytes_body (bd_content (rp_body resp)) = rp_body resp"
    using assms(6) by (simp add: bytes_body_def)
  with replay_hit [OF hit assms(9,12)]
  show "\<exists>resp2. res2 = HResp resp2 \<and> rp_status resp2 = rp_status resp \<and> rp_body resp2 = rp_body resp"
    and "bw_sent st2 = bw_sent (box_settled st1)"
    by (auto simp: bump_hits_def)
qed

definition sample_cfg :: cachebox_config where
  "sample_cfg = \<lparr>cf_store = None, cf_strategy = [], cf_keyfunc = None, cf_delay = None, cf_max_body = 16,
     cf_otel = 0, cf_push = False, cf_buf = 0\<rparr>"

definition sample_env :: box_env where
  "sample_env = \<lparr>be_now = 5, be_observed = 2000, be_timestamp = 1, be_cancelled = False, be_draw = (\<lambda>_ _. NaN),
     be_ovf = 0, be_status_text = (\<lambda>_. ''OK''), be_err_text = []\<rparr>"

definition sample_get :: "string \<Rightarrow> egress_request" where
  "sample_get q = \<lparr>hr_method = ''GET'', hr_path = ''/x'', hr_host = ''svc'', hr_query = q, hr_user_agent = [],
     hr_baggage = [], hr_body = None\<rparr>"

definition sample_response :: http_response where
  "sample_response = \<lparr>rp_status_line = ''200 OK'', rp_status = 200, rp_header = Some [], rp_body = bytes_body ''hi'', rp_length = 2\<rparr>"

definition sample_decision :: "cachebox_action \<Rightarrow> decision" where
  "sample_decision a = \<lparr>d_name = ''box'', d_fault = None, d_reason = [], d_mode = Inline, d_cachebox = a, d_policy = DeduplicateByRule\<rparr>"

definition sample_world :: box_world where
  "sample_world = \<lparr>bw_box = CacheBox_New sample_cfg, bw_world = NewFaultRegistry, bw_sent = [], bw_slept = []\<rparr>"

lemma sample_world_ready: "box_ready (bw_box sample_world)" "small_cap (cb_max_body (bw_box sample_world))"
  using box_New_ready [of sample_cfg]
  by (simp_all add: sample_world_def sample_cfg_def CacheBox_New_def small_cap_def max_alloc_def Let_def)

lemma sample_keys: "box_key (bw_box sample_world) (sample_get ''b=2&a=1'') = box_key (bw_box sample_world) (sample_get ''a=1&b=2'')"
  by (simp add: box_key_def sample_world_def CacheBox_New_def sample_cfg_def Let_def KeyFuncFor_def KeyStrategyExact_def
      exactKey_append key_view_def sample_get_def path_query_eq_iff same_query_def)

theorem record_then_replay_witness:
  "\<exists>resp2. fst (handleCacheBox sample_env (sample_get ''b=2&a=1'') (\<lambda>_. Inl ''down'') sample_request (sample_decision CacheBoxReplay)
      (box_settled (snd (handleCacheBox sample_env (sample_get ''a=1&b=2'') (\<lambda>_. Inr (Some sample_response)) sample_request
         (sample_decision CacheBoxPassthrough) sample_world)))) = HResp resp2 \<and> rp_status resp2 = 200"
proof -
  obtain res1 st1 where run1: "handleCacheBox sample_env (sample_get ''a=1&b=2'') (\<lambda>_. Inr (Some sample_response)) sample_request
      (sample_decision CacheBoxPassthrough) sample_world = (res1, st1)" by fastforce
  obtain res2 st2 where run2: "handleCacheBox sample_env (sample_get ''b=2&a=1'') (\<lambda>_. Inl ''down'') sample_request
      (sample_decision CacheBoxReplay) (box_settled st1) = (res2, st2)" by fastforce
  have live: "mem_live (box_store (bw_box sample_world)) (be_now sample_env)
      (box_entry sample_env (bw_box sample_world) (sample_get ''a=1&b=2'') sample_response)"
    by (simp add: mem_live_def expired_def box_store_def sample_world_def CacheBox_New_def sample_cfg_def NewRecorder_def
        NewMemStore_def Let_def)
  have small: "int (length (bd_content (rp_body sample_response))) \<le> cb_max_body (bw_box sample_world)"
    by (simp add: sample_response_def bytes_body_def sample_world_def CacheBox_New_def sample_cfg_def Let_def)
  note R = record_then_replay [of sample_world "sample_decision CacheBoxPassthrough" "\<lambda>_. Inr (Some sample_response)"
      "sample_get ''a=1&b=2''" sample_response "[]" sample_env sample_request res1 st1 "sample_decision CacheBoxReplay"
      "sample_get ''b=2&a=1''" sample_env "\<lambda>_. Inl ''down''" sample_request res2 st2]
  from R [OF sample_world_ready _ _ small _ _ run1 _ sample_keys live run2] run1 run2
  show ?thesis
    by (auto simp: sample_decision_def sample_response_def bytes_body_def)
qed

text \<open>
  Under the body strategy every request whose body exceeds the limit gets the key of an empty
  body: two such requests to the same resource share a key although their bodies differ, and
  with \<open>record_then_replay\<close> the second is answered with the response to the first.
\<close>

theorem oversize_bodies_share_key:
  assumes "cb_strategy cb = KeyStrategyExactWithBody" and "small_cap (cb_max_body cb)"
    and "cb_max_body cb < int (length (bd_content b))" and "cb_max_body cb < int (length (bd_content b'))"
  shows "(box_key cb (r\<lparr>hr_body := Some b\<rparr>) = box_key cb (r\<lparr>hr_body := Some b'\<rparr>)) \<and>
     (box_key cb (r\<lparr>hr_body := Some b\<rparr>) = box_key cb (r\<lparr>hr_body := None\<rparr>))"
proof (intro conjI)
  note S = small_capD [OF assms(2)]
  have big: "fst (captured_body cb (r\<lparr>hr_body := Some x\<rparr>)) = []" if "cb_max_body cb < int (length (bd_content x))" for x
  proof -
    obtain q f rest where rd: "read_limited (cb_max_body cb + 1) x = (q, f, rest)" by (metis prod_cases3)
    with read_limited_over [OF rd S(2)] that show ?thesis
      by (auto simp: captured_body_def BufferRequestBody_def S(1))
  qed
  show "box_key cb (r\<lparr>hr_body := Some b\<rparr>) = box_key cb (r\<lparr>hr_body := Some b'\<rparr>)"
    and "box_key cb (r\<lparr>hr_body := Some b\<rparr>) = box_key cb (r\<lparr>hr_body := None\<rparr>)"
    using big [OF assms(3)] big [OF assms(4)]
    by (simp_all add: box_key_def) (simp add: captured_body_def BufferRequestBody_def)
qed

theorem oversize_bodies_share_key_witness:
  "\<exists>cb. cb = CacheBox_New (sample_cfg\<lparr>cf_strategy := KeyStrategyExactWithBody, cf_max_body := 1\<rparr>) \<and>
     box_key cb ((sample_get [])\<lparr>hr_body := Some (bytes_body ''ab'')\<rparr>) = box_key cb ((sample_get [])\<lparr>hr_body := Some (bytes_body ''zz'')\<rparr>)"
proof -
  let ?cb = "CacheBox_New (sample_cfg\<lparr>cf_strategy := KeyStrategyExactWithBody, cf_max_body := 1\<rparr>)"
  have "cb_strategy ?cb = KeyStrategyExactWithBody" "cb_max_body ?cb = 1"
    by (simp_all add: CacheBox_New_def sample_cfg_def KeyStrategyExactWithBody_def Let_def)
  with oversize_bodies_share_key [of ?cb "bytes_body ''ab''" "bytes_body ''zz''" "sample_get []"]
  show ?thesis by (simp add: small_cap_def max_alloc_def bytes_body_def)
qed

text \<open>
  Replay with delay. When the entry is found and fresh, the call sleeps exactly the sampled
  delay when it is positive and then serves the entry, or returns the context's error when the
  context ends first; in neither case is anything forwarded.
\<close>

theorem replay_delay_outcome:
  assumes "d_cachebox d = CacheBoxReplayDelay"
    and "fst (mem_get (be_now env) (box_key (bw_box st) r) (box_store (bw_box st))) = Some e"
  shows "case handleCacheBox env r base req d st of (res, st') \<Rightarrow>
     bw_sent st' = bw_sent st \<and>
     (let delay = SampleDelay (be_draw env) (be_ovf env) (bw_box st) e
      in if delay > 0 \<and> be_cancelled env then res = HErr ContextError \<and> bw_slept st' = bw_slept st
         else (\<exists>resp. res = HResp resp \<and> rp_status resp = e_status e \<and> rp_body resp = bytes_body (e_body e)) \<and>
              bw_slept st' = bw_slept st @ (if delay > 0 then [delay] else []))"
proof -
  obtain res st' where run: "handleCacheBox env r base req d st = (res, st')" by fastforce
  let ?k = "box_key (bw_box st) r"
  let ?delay = "SampleDelay (be_draw env) (be_ovf env) (bw_box st) e"
  obtain s st3 st4 where st3: "bw_box st3 = bw_box st" "bw_sent st3 = bw_sent st" "bw_slept st3 = bw_slept st"
    and a: "box_action env (forwarded (bw_box st) r) base (d_cachebox d) ?k
              (fst (captured_body (bw_box st) r)) s st3 = (res, st4)"
    and st': "st' = box_log (SpanEnd s) st4"
    by (rule handleCacheBoxE [OF run])
  obtain st5 where look: "lookup_state (be_now env) ?k st3 = (Some e, st5)"
      "bw_sent st5 = bw_sent st" "bw_slept st5 = bw_slept st" "cb_delay (bw_box st5) = cb_delay (bw_box st)"
    using assms(2) st3 by (simp add: lookup_state_eq)
  have delay: "SampleDelay (be_draw env) (be_ovf env) (bw_box st5) e = ?delay" using look(4) by (simp add: SampleDelay_def)
  show ?thesis
  proof (cases "?delay > 0 \<and> be_cancelled env")
    case True
    then have "res = HErr ContextError" "st4 = st5" using a assms(1) look(1) delay by (simp_all add: box_action_def)
    with run st' look True show ?thesis by (simp add: Let_def)
  next
    case False
    define st6 where "st6 = (if ?delay > 0 then st5\<lparr>bw_slept := bw_slept st5 @ [?delay]\<rparr> else st5)"
    obtain resp st7 where serve: "cacheBoxServe env e ?k CacheBoxReplayDelay ?delay s st6 = (resp, st7)" by fastforce
    have "res = HResp resp" "st4 = st7"
      using a assms(1) look(1) delay False serve by (auto simp: box_action_def Let_def st6_def split: if_splits)
    note F = serve_fields [of env e ?k CacheBoxReplayDelay ?delay s st6, unfolded serve fst_conv snd_conv]
    have "bw_sent st6 = bw_sent st" "bw_slept st6 = bw_slept st @ (if ?delay > 0 then [?delay] else [])"
      using look by (simp_all add: st6_def)
    with F \<open>res = HResp resp\<close> \<open>st4 = st7\<close> run st' False show ?thesis by (auto simp: Let_def)
  qed
qed

theorem replay_delay_outcome_witness:
  "\<exists>st e. fst (mem_get (be_now sample_env) (box_key (bw_box st) (sample_get [])) (box_store (bw_box st))) = Some e \<and>
     bw_slept (snd (handleCacheBox sample_env (sample_get []) (\<lambda>_. Inr None) sample_request (sample_decision CacheBoxReplayDelay) st)) = [2000]"
proof -
  let ?k = "box_key (bw_box sample_world) (sample_get [])"
  let ?e = "\<lparr>e_key = ?k, e_status = 200, e_header = None, e_body = [], e_latency = 2000, e_recorded = 1, e_hits = 0\<rparr>"
  let ?cb = "(bw_box sample_world)\<lparr>cb_recorder := (cb_recorder (bw_box sample_world))\<lparr>rc_store :=
      mem_put ?k (Some ?e) (box_store (bw_box sample_world))\<rparr>\<rparr>"
  let ?st = "sample_world\<lparr>bw_box := ?cb\<rparr>"
  have key: "box_key ?cb (sample_get []) = ?k" by (rule fun_cong [OF box_key_cong]) simp_all
  have hit: "fst (mem_get 5 ?k (mem_put ?k (Some ?e) (box_store (bw_box sample_world)))) = Some (bump_hits ?e)"
    by (rule mem.put_then_get)
      (use sample_world_ready in \<open>simp_all add: box_ready_def mem_live_def expired_def box_store_def sample_world_def
         CacheBox_New_def sample_cfg_def NewRecorder_def NewMemStore_def Let_def\<close>)
  have "fst (mem_get (be_now sample_env) (box_key (bw_box ?st) (sample_get [])) (box_store (bw_box ?st))) = Some (bump_hits ?e)"
    using key hit by (simp add: sample_env_def box_store_def)
  moreover from replay_delay_outcome [OF _ this, of "sample_decision CacheBoxReplayDelay" "\<lambda>_. Inr None" sample_request]
  have "bw_slept (snd (handleCacheBox sample_env (sample_get []) (\<lambda>_. Inr None) sample_request (sample_decision CacheBoxReplayDelay) ?st)) = [2000]"
    by (auto simp: sample_decision_def sample_env_def Let_def SampleDelay_def delay_sample_def observed_sample_def bump_hits_def
        sample_world_def CacheBox_New_def sample_cfg_def split: prod.splits)
  ultimately show ?thesis by blast
qed

end
