(* ===== verification/Go_Stdlib.thy ===== *)
theory Go_Stdlib
  imports Atropos_Prelude "HOL-Library.Log_Nat"
begin

text \<open>
  What the control plane uses of Go's standard library, written out: rounding to \<open>float64\<close>,
  \<open>strconv.ParseInt\<close> and \<open>ParseFloat\<close>, \<open>time.ParseDuration\<close>, and \<open>json.Unmarshal\<close> of a parsed document
  into the fields of a struct. The text of a document is not parsed here: a value of type
  \<open>json\<close> is what it denotes, and bytes that are no JSON text are an absent value.
\<close>

section \<open>Fallible steps\<close>

text \<open>
  A Go call that returns a value and an error is a sum, \<open>Inl\<close> the error. \<open>and_then\<close> is
  the \<open>if err != nil\<close> that follows the call, \<open>or_error\<close> wraps a library call whose error the
  code only annotates.
\<close>

definition and_then :: "'e + 'a \<Rightarrow> ('a \<Rightarrow> 'e + 'b) \<Rightarrow> 'e + 'b" where
  "and_then m f = (case m of Inl e \<Rightarrow> Inl e | Inr a \<Rightarrow> f a)"

definition or_error :: "'e \<Rightarrow> 'a option \<Rightarrow> 'e + 'a" where
  "or_error e m = (case m of None \<Rightarrow> Inl e | Some a \<Rightarrow> Inr a)"

named_theorems fallible \<open>results of fallible steps\<close>

lemma and_then_simps [simp]: "and_then (Inl e) f = Inl e" "and_then (Inr a) f = f a"
  by (simp_all add: and_then_def)

lemma or_error_simps [simp]: "or_error e None = Inl e" "or_error e (Some a) = Inr a"
  by (simp_all add: or_error_def)

lemma and_then_Inr [fallible]: "and_then m f = Inr b \<longleftrightarrow> (\<exists>a. m = Inr a \<and> f a = Inr b)"
  by (cases m) auto

lemma or_error_Inr [fallible]: "or_error e m = Inr a \<longleftrightarrow> m = Some a"
  by (cases m) auto

lemma and_then_cong [fundef_cong]:
  "m = m' \<Longrightarrow> (\<And>a. m' = Inr a \<Longrightarrow> f a = g a) \<Longrightarrow> and_then m f = and_then m' g"
  by (cases m') auto

section \<open>Rounding to float64\<close>

text \<open>Powers of two with an integer exponent, and the exponent of a positive rational.\<close>

definition pow2 :: "int \<Rightarrow> rat" where
  "pow2 k = (if 0 \<le> k then 2 ^ nat k else 1 / 2 ^ nat (- k))"

definition rat_exponent :: "rat \<Rightarrow> int" where
  "rat_exponent a =
     (let (n, d) = quotient_of a; k = int (floorlog 2 (nat n)) - int (floorlog 2 (nat d))
      in if a < pow2 k then k - 1 else k)"

text \<open>Round to the nearest integer, ties to the even one.\<close>

definition round_even :: "rat \<Rightarrow> int" where
  "round_even x =
     (let f = \<lfloor>x\<rfloor>; r = x - of_int f
      in if r < 1 / 2 then f else if 1 / 2 < r then f + 1 else if even f then f else f + 1)"

text \<open>
  IEEE 754 rounding to binary64: 53 significant bits, least exponent -1074; a value that
  rounds to 2^1024 or more is an infinity.
\<close>

definition round64 :: "rat \<Rightarrow> float64" where
  "round64 q =
     (if q = 0 then Fin 0
      else (let a = \<bar>q\<bar>;
                e = max (rat_exponent a - 52) (- 1074);
                m = of_int (round_even (a / pow2 e)) * pow2 e
            in if pow2 1024 \<le> m then (if 0 < q then PosInf else NegInf)
               else Fin (if 0 < q then m else - m)))"

text \<open>The value of a finite float; the computations below never leave the finite range.\<close>

definition flt_val :: "float64 \<Rightarrow> rat" where
  "flt_val f = (case f of Fin q \<Rightarrow> q | _ \<Rightarrow> 0)"

section \<open>Numerals\<close>

definition is_digit :: "char \<Rightarrow> bool" where
  "is_digit c \<longleftrightarrow> 48 \<le> (of_char c :: int) \<and> (of_char c :: int) \<le> 57"

definition digit_val :: "char \<Rightarrow> int" where
  "digit_val c = of_char c - 48"

definition digits_val :: "int \<Rightarrow> string \<Rightarrow> int" where
  "digits_val x ds = foldl (\<lambda>x c. x * 10 + digit_val c) x ds"

text \<open>
  \<open>strconv.ParseInt(s, 10, 64)\<close> on the text of a JSON number; a fraction or an exponent is a
  syntax error.
\<close>

definition ParseInt :: "string \<Rightarrow> int option" where
  "ParseInt s =
     (let (neg, ds) = (case s of c # r \<Rightarrow> if c = CHR ''-'' then (True, r) else (False, s) | [] \<Rightarrow> (False, s));
          v = (if neg then - digits_val 0 ds else digits_val 0 ds)
      in if ds \<noteq> [] \<and> list_all is_digit ds \<and> i64 v then Some v else None)"

text \<open>\<open>strconv.ParseUint(s, 10, 64)\<close> takes no sign.\<close>

definition ParseUint :: "string \<Rightarrow> int option" where
  "ParseUint s =
     (let v = digits_val 0 s in if s \<noteq> [] \<and> list_all is_digit s \<and> v < 2 ^ 64 then Some v else None)"

text \<open>
  \<open>strconv.ParseFloat(s, 64)\<close> on the text of a JSON number: sign, digits, fraction, exponent.
  The exponent's value stops growing at 10000 and above; an infinite result is a range error.
\<close>

definition exponent_val :: "string \<Rightarrow> int" where
  "exponent_val s =
     (let (neg, ds) = (case s of c # r \<Rightarrow> if c = CHR ''-'' then (True, r)
                                        else if c = CHR ''+'' then (False, r) else (False, s)
                       | [] \<Rightarrow> (False, s));
          e = foldl (\<lambda>e c. if e < 10000 then e * 10 + digit_val c else e) 0 ds
      in if neg then - e else e)"

definition pow10 :: "int \<Rightarrow> rat" where
  "pow10 k = (if 0 \<le> k then 10 ^ nat k else 1 / 10 ^ nat (- k))"

definition number_val :: "string \<Rightarrow> rat" where
  "number_val s =
     (let (neg, s) = (case s of c # r \<Rightarrow> if c = CHR ''-'' then (True, r) else (False, s) | [] \<Rightarrow> (False, s));
          whole = takeWhile is_digit s; r1 = dropWhile is_digit s;
          (frac, r2) = (case r1 of c # r \<Rightarrow> if c = CHR ''.'' then (takeWhile is_digit r, dropWhile is_digit r)
                                          else ([], r1)
                        | [] \<Rightarrow> ([], r1));
          e = (case r2 of c # r \<Rightarrow> exponent_val r | [] \<Rightarrow> 0);
          v = of_int (digits_val 0 (whole @ frac)) * pow10 (e - int (length frac))
      in if neg then - v else v)"

definition ParseFloat :: "string \<Rightarrow> float64 option" where
  "ParseFloat s = (case round64 (number_val s) of Fin q \<Rightarrow> Some (Fin q) | _ \<Rightarrow> None)"

section \<open>Durations\<close>

text \<open>\<open>time.ParseDuration\<close>; the intermediate values are those of its \<open>uint64\<close> variables.\<close>

fun leadingInt :: "int \<Rightarrow> string \<Rightarrow> (int \<times> string) option" where
  "leadingInt x [] = Some (x, [])"
| "leadingInt x (c # s) =
     (if \<not> is_digit c then Some (x, c # s)
      else if x > 2 ^ 63 div 10 then None
      else (let y = x * 10 + digit_val c in if y > 2 ^ 63 then None else leadingInt y s))"

text \<open>The digits after the point: value, scale, rest; digits past an overflow are dropped.\<close>

fun leadingFraction :: "int \<Rightarrow> int \<Rightarrow> bool \<Rightarrow> string \<Rightarrow> int \<times> int \<times> string" where
  "leadingFraction x scale overflow [] = (x, scale, [])"
| "leadingFraction x scale overflow (c # s) =
     (if \<not> is_digit c then (x, scale, c # s)
      else if overflow then leadingFraction x scale True s
      else if x > (2 ^ 63 - 1) div 10 then leadingFraction x scale True s
      else (let y = x * 10 + digit_val c
            in if y > 2 ^ 63 then leadingFraction x scale True s
               else leadingFraction y (scale * 10) False s))"

definition duration_unit :: "string \<Rightarrow> int option" where
  "duration_unit u = map_of
     [(''ns'', 1), (''us'', Microsecond), ([CHR 0xC2, CHR 0xB5, CHR ''s''], Microsecond),
      ([CHR 0xCE, CHR 0xBC, CHR ''s''], Microsecond), (''ms'', Millisecond), (''s'', Second),
      (''m'', 60 * Second), (''h'', 3600 * Second)] u"

text \<open>\<open>uint64(float64(f) * (float64(unit) / scale))\<close>\<close>

definition fraction_ns :: "int \<Rightarrow> int \<Rightarrow> int \<Rightarrow> int" where
  "fraction_ns f unit scale =
     \<lfloor>flt_val (round64 (flt_val (round64 (of_int f)) *
                 flt_val (round64 (of_int unit / of_int scale))))\<rfloor>"

definition unit_char :: "char \<Rightarrow> bool" where
  "unit_char c \<longleftrightarrow> \<not> (c = CHR ''.'' \<or> is_digit c)"

text \<open>One number with its unit: its nanoseconds and the rest of the string.\<close>

definition duration_segment :: "string \<Rightarrow> (int \<times> string) option" where
  "duration_segment s =
     (if s = [] \<or> unit_char (hd s) then None
      else case leadingInt 0 s of
        None \<Rightarrow> None
      | Some (v, s1) \<Rightarrow>
          (let pre = (length s1 \<noteq> length s);
               dot = (s1 \<noteq> [] \<and> hd s1 = CHR ''.'');
               (f, scale, s2) = (if dot then leadingFraction 0 1 False (tl s1) else (0, 1, s1));
               post = (dot \<and> length s2 \<noteq> length (tl s1));
               u = takeWhile unit_char s2
           in if \<not> pre \<and> \<not> post then None
              else if u = [] then None
              else case duration_unit u of
                None \<Rightarrow> None
              | Some un \<Rightarrow>
                  if v > 2 ^ 63 div un then None
                  else (let v1 = v * un;
                            v2 = (if f > 0 then v1 + fraction_ns f un scale else v1)
                        in if v2 > 2 ^ 63 then None else Some (v2, dropWhile unit_char s2))))"

lemma leadingInt_length: "leadingInt x s = Some (y, r) \<Longrightarrow> length r \<le> length s"
  by (induction x s rule: leadingInt.induct) (auto simp: Let_def split: if_splits)

lemma leadingFraction_length: "leadingFraction x k b s = (y, l, r) \<Longrightarrow> length r \<le> length s"
  by (induction x k b s rule: leadingFraction.induct) (auto simp: Let_def split: if_splits)

lemma dropWhile_shorter: "takeWhile P s \<noteq> [] \<Longrightarrow> length (dropWhile P s) < length s"
  by (metis length_append length_greater_0_conv less_add_same_cancel2 takeWhile_dropWhile_id)

lemma duration_segment_length:
  assumes "duration_segment s = Some (v, r)" shows "length r < length s"
proof -
  obtain v0 s1 where l1: "leadingInt 0 s = Some (v0, s1)"
    using assms by (auto simp: duration_segment_def split: if_splits option.splits)
  define dot where "dot = (s1 \<noteq> [] \<and> hd s1 = CHR ''.'')"
  obtain f scale s2 where l2: "(if dot then leadingFraction 0 1 False (tl s1) else (0, 1, s1)) = (f, scale, s2)"
    by (metis prod_cases3)
  have "length s1 \<le> length s" by (rule leadingInt_length [OF l1])
  moreover have "length s2 \<le> length s1"
    using l2 leadingFraction_length [of 0 1 False "tl s1" f scale s2] by (auto split: if_splits)
  moreover have "takeWhile unit_char s2 \<noteq> [] \<and> r = dropWhile unit_char s2"
    using assms by (auto simp: duration_segment_def l1 l2 [unfolded dot_def] Let_def
        split: if_splits option.splits)
  ultimately show ?thesis using dropWhile_shorter [of unit_char s2] by auto
qed

function duration_loop :: "int \<Rightarrow> string \<Rightarrow> int option" where
  "duration_loop d s =
     (if s = [] then Some d
      else case duration_segment s of
        None \<Rightarrow> None
      | Some (v, r) \<Rightarrow> (let d' = (d + v) mod 2 ^ 64 in if d' > 2 ^ 63 then None else duration_loop d' r))"
  by pat_completeness auto
termination by (relation "measure (length \<circ> snd)") (auto simp: duration_segment_length)

declare duration_loop.simps [simp del]

definition duration_sign :: "string \<Rightarrow> bool \<times> string" where
  "duration_sign s =
     (case s of [] \<Rightarrow> (False, [])
      | c # r \<Rightarrow> if c = CHR ''-'' \<or> c = CHR ''+'' then (c = CHR ''-'', r) else (False, s))"

definition ParseDuration :: "string \<Rightarrow> int option" where
  "ParseDuration orig =
     (let (neg, s) = duration_sign orig
      in if s = ''0'' then Some 0
         else if s = [] then None
         else case duration_loop 0 s of
           None \<Rightarrow> None
         | Some d \<Rightarrow> if neg then Some (- d) else if d > 2 ^ 63 - 1 then None else Some d)"

section \<open>JSON documents\<close>

text \<open>
  A parsed JSON text. Numbers keep their text, which the decoder parses by the type of the
  field; an object keeps its members in the order of the text, repeated keys included.
\<close>

datatype json =
    JNull | JBool bool | JNum string | JStr string | JArr "json list" | JObj "(string \<times> json) list"

text \<open>
  \<open>json.Unmarshal\<close> matches a key with a field name up to simple case folding. The field names
  of this program are ASCII: folding takes a lower-case letter to its capital, and the
  two other characters that fold into ASCII are U+017F (to \<open>S\<close>) and U+212A (to \<open>K\<close>).
\<close>

definition to_upper :: "char \<Rightarrow> char" where
  "to_upper c = (if CHR ''a'' \<le> c \<and> c \<le> CHR ''z'' then char_of (of_char c - 32 :: nat) else c)"

fun fold_name :: "string \<Rightarrow> string" where
  "fold_name (a # b # c # s) =
     (if a = CHR 0xC5 \<and> b = CHR 0xBF then CHR ''S'' # fold_name (c # s)
      else if a = CHR 0xE2 \<and> b = CHR 0x84 \<and> c = CHR 0xAA then CHR ''K'' # fold_name s
      else to_upper a # fold_name (b # c # s))"
| "fold_name [a, b] = (if a = CHR 0xC5 \<and> b = CHR 0xBF then ''S'' else [to_upper a, to_upper b])"
| "fold_name [a] = [to_upper a]"
| "fold_name [] = []"

text \<open>The values a document gives a struct field, in order; \<open>None\<close> when it is no object.\<close>

definition field_values :: "json \<Rightarrow> string \<Rightarrow> json list option" where
  "field_values doc name =
     (case doc of
        JObj ms \<Rightarrow> Some (map snd (filter (\<lambda>m. fold_name (fst m) = fold_name name) ms))
      | JNull \<Rightarrow> Some []
      | _ \<Rightarrow> None)"

text \<open>
  Assigning values to a field in turn, the last one staying: \<open>null\<close> leaves the field as it is,
  and one value of the wrong type makes the whole \<open>Unmarshal\<close> return an error.
\<close>

fun assign :: "(json \<Rightarrow> 'a option) \<Rightarrow> json list \<Rightarrow> 'a \<Rightarrow> 'a option" where
  "assign conv [] a = Some a"
| "assign conv (v # vs) a =
     (if v = JNull then assign conv vs a
      else case conv v of None \<Rightarrow> None | Some b \<Rightarrow> assign conv vs b)"

definition json_field :: "(json \<Rightarrow> 'a option) \<Rightarrow> 'a \<Rightarrow> string \<Rightarrow> json \<Rightarrow> 'a option" where
  "json_field conv zero name doc =
     (case field_values doc name of None \<Rightarrow> None | Some vs \<Rightarrow> assign conv vs zero)"

definition str_conv :: "json \<Rightarrow> string option" where
  "str_conv v = (case v of JStr s \<Rightarrow> Some s | _ \<Rightarrow> None)"

definition int_conv :: "json \<Rightarrow> int option" where
  "int_conv v = (case v of JNum s \<Rightarrow> ParseInt s | _ \<Rightarrow> None)"

definition uint_conv :: "json \<Rightarrow> int option" where
  "uint_conv v = (case v of JNum s \<Rightarrow> ParseUint s | _ \<Rightarrow> None)"

definition float_conv :: "json \<Rightarrow> float64 option" where
  "float_conv v = (case v of JNum s \<Rightarrow> ParseFloat s | _ \<Rightarrow> None)"

definition bool_conv :: "json \<Rightarrow> bool option" where
  "bool_conv v = (case v of JBool b \<Rightarrow> Some b | _ \<Rightarrow> None)"

definition str_field :: "string \<Rightarrow> json \<Rightarrow> string option" where
  "str_field = json_field str_conv []"

definition int_field :: "string \<Rightarrow> json \<Rightarrow> int option" where
  "int_field = json_field int_conv 0"

definition uint_field :: "string \<Rightarrow> json \<Rightarrow> int option" where
  "uint_field = json_field uint_conv 0"

definition float_field :: "string \<Rightarrow> json \<Rightarrow> float64 option" where
  "float_field = json_field float_conv (Fin 0)"

definition bool_field :: "string \<Rightarrow> json \<Rightarrow> bool option" where
  "bool_field = json_field bool_conv False"

text \<open>A \<open>json.RawMessage\<close> keeps the last value as it is, \<open>null\<close> included; without one it is nil.\<close>

definition raw_field :: "string \<Rightarrow> json \<Rightarrow> json option option" where
  "raw_field name doc =
     map_option (\<lambda>vs. if vs = [] then None else Some (last vs)) (field_values doc name)"

section \<open>What the duration parser accepts\<close>

lemma duration_loop_range:
  "duration_loop d s = Some d' \<Longrightarrow> 0 \<le> d \<Longrightarrow> d \<le> 2 ^ 63 \<Longrightarrow> 0 \<le> d' \<and> d' \<le> 2 ^ 63"
proof (induction d s rule: duration_loop.induct)
  case (1 d s)
  show ?case
  proof (cases "s = []")
    case False
    then obtain v r where seg: "duration_segment s = Some (v, r)"
      and le: "\<not> (d + v) mod 2 ^ 64 > 2 ^ 63" and loop: "duration_loop ((d + v) mod 2 ^ 64) r = Some d'"
      using "1.prems"(1) by (subst (asm) duration_loop.simps) (auto simp: Let_def split: option.splits if_splits)
    show ?thesis by (rule "1.IH" [OF False seg _ refl le loop]) (use le in auto)
  qed (use 1 in \<open>simp add: duration_loop.simps\<close>)
qed

lemma ParseDuration_i64: assumes "ParseDuration s = Some d" shows "i64 d"
proof -
  obtain neg r where sign: "duration_sign s = (neg, r)" by (metis surj_pair)
  show ?thesis
  proof (cases "r = ''0''")
    case False
    then obtain d0 where "duration_loop 0 r = Some d0" and "d = (if neg then - d0 else d0)"
      and "neg \<or> d0 \<le> 2 ^ 63 - 1"
      using assms by (auto simp: ParseDuration_def sign split: if_splits option.splits)
    with duration_loop_range [of 0 r d0] show ?thesis by (auto simp: i64_def)
  qed (use assms in \<open>simp add: ParseDuration_def sign i64_def\<close>)
qed

lemma digit_val_bounds: "is_digit c \<Longrightarrow> 0 \<le> digit_val c \<and> digit_val c \<le> 9"
  by (simp add: is_digit_def digit_val_def)

lemma is_digit_char_of: "n < 10 \<Longrightarrow> is_digit (char_of (48 + n)) \<and> digit_val (char_of (48 + n)) = int n"
proof -
  assume "n < 10"
  then have "of_char (char_of (48 + n)) = 48 + n" by (simp add: of_char_of)
  then have "(of_char (char_of (48 + n)) :: int) = 48 + int n" by (metis of_nat_of_char of_nat_add of_nat_numeral)
  with \<open>n < 10\<close> show ?thesis by (simp add: is_digit_def digit_val_def)
qed

lemma digits_val_append: "digits_val x (ds @ ds') = digits_val (digits_val x ds) ds'"
  by (simp add: digits_val_def)

lemma digits_val_mono: "list_all is_digit ds \<Longrightarrow> 0 \<le> x \<Longrightarrow> x \<le> digits_val x ds"
proof (induction ds arbitrary: x)
  case (Cons c ds)
  then have "x \<le> x * 10 + digit_val c" using digit_val_bounds [of c] by simp
  also have "\<dots> \<le> digits_val (x * 10 + digit_val c) ds"
    using Cons digit_val_bounds [of c] by (intro Cons.IH) auto
  finally show ?case by (simp add: digits_val_def)
qed (simp add: digits_val_def)

text \<open>Digits up to the first other character are read exactly, or rejected above 2^63.\<close>

lemma leadingInt_digits:
  assumes "list_all is_digit ds" and "rest = [] \<or> \<not> is_digit (hd rest)" and "0 \<le> x" and "x \<le> 2 ^ 63"
  shows "leadingInt x (ds @ rest) = (if digits_val x ds \<le> 2 ^ 63 then Some (digits_val x ds, rest) else None)"
  using assms
proof (induction ds arbitrary: x)
  case Nil
  then show ?case by (cases rest) (auto simp: digits_val_def)
next
  case (Cons c ds)
  let ?y = "x * 10 + digit_val c"
  have y: "0 \<le> ?y" "?y \<le> digits_val ?y ds" "digits_val x (c # ds) = digits_val ?y ds"
    using Cons.prems digit_val_bounds [of c] digits_val_mono [of ds ?y] by (auto simp: digits_val_def)
  show ?case
  proof (cases "?y \<le> 2 ^ 63")
    case True
    then have "\<not> x > 2 ^ 63 div 10" using Cons.prems digit_val_bounds [of c] by simp
    with True Cons.IH [of ?y] Cons.prems y show ?thesis by simp
  next
    case False
    with Cons.prems y show ?thesis by (auto simp: Let_def)
  qed
qed

lemma format_dec_digits: "list_all is_digit (format_dec n) \<and> digits_val 0 (format_dec n) = int n \<and> format_dec n \<noteq> []"
proof (induction n rule: format_dec.induct)
  case (1 n)
  show ?case
  proof (cases "n < 10")
    case True
    then show ?thesis using is_digit_char_of [of n] by (simp add: format_dec.simps digits_val_def)
  next
    case False
    then have f: "format_dec n = format_dec (n div 10) @ [char_of (48 + n mod 10)]"
      by (subst format_dec.simps) simp
    have "int n = int (n div 10) * 10 + int (n mod 10)" by presburger
    with 1 False is_digit_char_of [of "n mod 10"] show ?thesis
      by (simp add: f digits_val_append) (simp add: digits_val_def)
  qed
qed

definition duration_units :: "string list" where
  "duration_units = [''ns'', ''us'', [CHR 0xC2, CHR 0xB5, CHR ''s''], [CHR 0xCE, CHR 0xBC, CHR ''s''],
                     ''ms'', ''s'', ''m'', ''h'']"

lemma duration_units_facts:
  assumes "u \<in> set duration_units"
  shows "takeWhile unit_char u = u" and "dropWhile unit_char u = []" and "u \<noteq> []" and "unit_char (hd u)"
    and "\<exists>un. duration_unit u = Some un \<and> 0 < un"
proof -
  have "\<forall>u \<in> set duration_units. takeWhile unit_char u = u \<and> dropWhile unit_char u = [] \<and> u \<noteq> [] \<and> unit_char (hd u)"
    by (simp add: duration_units_def unit_char_def is_digit_def)
  with assms show "takeWhile unit_char u = u" "dropWhile unit_char u = []" "u \<noteq> []" "unit_char (hd u)" by blast+
  have "\<forall>u \<in> set duration_units. \<exists>un. duration_unit u = Some un \<and> 0 < un"
    by (simp add: duration_units_def duration_unit_def Microsecond_def Millisecond_def Second_def)
  with assms show "\<exists>un. duration_unit u = Some un \<and> 0 < un" by blast
qed

lemma int_le_div_iff: "0 < (b::int) \<Longrightarrow> a \<le> c div b \<longleftrightarrow> a * b \<le> c"
proof
  assume b: "0 < b"
  have q: "c div b * b \<le> c" using b pos_mod_sign [of b c] by (simp add: div_mult_mod_eq [symmetric] minus_mod_eq_div_mult [symmetric])
  show "a * b \<le> c" if "a \<le> c div b" using that b q mult_right_mono [of a "c div b" b] by linarith
  show "a \<le> c div b" if "a * b \<le> c" using zdiv_mono1 [OF that b] b by simp
qed

lemma ParseDuration_whole:
  assumes u: "u \<in> set duration_units" and un: "duration_unit u = Some un"
  shows "ParseDuration (format_dec n @ u) = (if int n * un < 2 ^ 63 then Some (int n * un) else None)"
proof -
  note uf = duration_units_facts [OF u]
  have un0: "0 < un" using uf(5) un by auto
  obtain c ds where f: "format_dec n = c # ds" and c: "is_digit c"
    using format_dec_digits [of n] by (cases "format_dec n") auto
  have hd: "\<not> unit_char c" and nosign: "c \<noteq> CHR ''-''" "c \<noteq> CHR ''+''" and nodot: "hd u \<noteq> CHR ''.''"
    using c uf(4) by (auto simp: unit_char_def is_digit_def)
  have li: "leadingInt 0 (format_dec n @ u) = (if int n \<le> 2 ^ 63 then Some (int n, u) else None)"
    using leadingInt_digits [of "format_dec n" u 0] format_dec_digits [of n] uf(3,4)
    by (simp add: unit_char_def)
  have le: "int n * un \<le> 2 ^ 63 \<longleftrightarrow> int n \<le> 2 ^ 63 div un"
    using int_le_div_iff [OF un0, of "int n" "2 ^ 63"] by simp
  have nle: "int n \<le> 2 ^ 63" if "int n * un \<le> 2 ^ 63"
    using un0 mult_left_mono [of 1 un "int n"] that by linarith
  have s: "format_dec n @ u \<noteq> []" "hd (format_dec n @ u) = c" "length u \<noteq> length (format_dec n @ u)"
    using f by simp_all
  have small: "duration_segment (format_dec n @ u) =
      (if int n \<le> 2 ^ 63 div un then Some (int n * un, []) else None)" if "int n \<le> 2 ^ 63"
    using hd nodot uf un le that
    by (simp only: duration_segment_def s li if_True if_False simp_thms option.case prod.case Let_def) auto
  have seg: "duration_segment (format_dec n @ u) = (if int n * un \<le> 2 ^ 63 then Some (int n * un, []) else None)"
  proof (cases "int n \<le> 2 ^ 63")
    case True
    with small le show ?thesis by simp
  next
    case False
    then have "\<not> int n * un \<le> 2 ^ 63" using nle by blast
    moreover have "duration_segment (format_dec n @ u) = None"
      using hd s li False by (simp add: duration_segment_def)
    ultimately show ?thesis by simp
  qed
  have "duration_loop 0 (format_dec n @ u) = (if int n * un \<le> 2 ^ 63 then Some (int n * un) else None)"
    using un0 s(1) by (subst duration_loop.simps) (simp only: seg if_False, simp add: Let_def duration_loop.simps [of _ "[]"])
  moreover have "duration_sign (format_dec n @ u) = (False, format_dec n @ u)"
    using nosign by (simp add: duration_sign_def f)
  moreover have "format_dec n @ u \<noteq> ''0''" "format_dec n @ u \<noteq> []"
    using f uf(3) by (auto simp: append_eq_Cons_conv)
  ultimately show ?thesis by (auto simp: ParseDuration_def)
qed

lemma ParseInt_format: assumes "i64 i" shows "ParseInt (format_int i) = Some i"
proof -
  note fd = format_dec_digits [of "nat (- i)"] format_dec_digits [of "nat i"]
  show ?thesis
  proof (cases "i < 0")
    case True
    with fd assms show ?thesis by (simp add: ParseInt_def format_int_def)
  next
    case False
    obtain c ds where c: "format_dec (nat i) = c # ds" using fd(2) by (cases "format_dec (nat i)") auto
    have "is_digit c" using fd(2) c by simp
    then have "c \<noteq> CHR ''-''" by (auto simp: is_digit_def)
    then have "(case format_dec (nat i) of [] \<Rightarrow> (False, format_dec (nat i))
        | c # r \<Rightarrow> if c = CHR ''-'' then (True, r) else (False, format_dec (nat i))) = (False, format_dec (nat i))"
      by (simp add: c)
    with False fd(2) assms show ?thesis by (simp add: ParseInt_def format_int_def)
  qed
qed

end
