(* ===== verification/Float_Arith.thy ===== *)
theory Float_Arith
  imports Go_Stdlib
begin

text \<open>
  Arithmetic on \<open>float64\<close>, as the resource faults use it for their ramps and sizes: the
  correctness of \<open>round64\<close> (it is monotone, keeps what is representable, and its results
  are representable), the operations of the language, and the conversions from and to integers.
\<close>

section \<open>Powers of two\<close>

lemma pow2_powi: "pow2 k = 2 powi k"
  by (simp add: pow2_def power_int_def power_one_over inverse_eq_divide)

lemma pow2_pos [simp]: "0 < pow2 k" and pow2_nonneg [simp]: "0 \<le> pow2 k" and pow2_nonzero [simp]: "pow2 k \<noteq> 0"
  by (simp_all add: pow2_powi)

lemma pow2_add: "pow2 (a + b) = pow2 a * pow2 b"
  by (simp add: pow2_powi power_int_add)

lemma pow2_diff: "pow2 (a - b) = pow2 a / pow2 b"
  by (simp add: pow2_powi power_int_diff)

lemma pow2_le_iff [simp]: "pow2 a \<le> pow2 b \<longleftrightarrow> a \<le> b"
proof
  show "a \<le> b" if "pow2 a \<le> pow2 b"
  proof (rule ccontr)
    assume "\<not> a \<le> b"
    then have "pow2 b < pow2 a" unfolding pow2_powi by (intro power_int_strict_increasing) simp_all
    with that show False by simp
  qed
qed (simp add: pow2_powi power_int_increasing)

lemma pow2_less_iff [simp]: "pow2 a < pow2 b \<longleftrightarrow> a < b"
  by (simp flip: not_le)

lemma pow2_nat: "0 \<le> k \<Longrightarrow> pow2 k = of_int (2 ^ nat k)"
  by (simp add: pow2_def)

lemma pow2_int: "pow2 (int n) = of_nat (2 ^ n)"
  by (simp add: pow2_def)

lemma nat_bounds:
  assumes "0 < n"
  shows "pow2 (int (floorlog 2 (nat n)) - 1) \<le> of_int n" and "of_int n < pow2 (int (floorlog 2 (nat n)))"
proof -
  let ?f = "floorlog 2 (nat n)"
  have b: "2 ^ (?f - 1) \<le> nat n" "nat n < 2 ^ ?f"
    using floorlog_bounds [of "nat n" 2] assms by auto
  have f: "1 \<le> ?f" using assms by (simp add: floorlog_def)
  have n: "(of_int n :: rat) = of_nat (nat n)" using assms by (simp add: of_nat_nat)
  have e: "int ?f - 1 = int (?f - 1)" using f by simp
  show "pow2 (int ?f - 1) \<le> of_int n"
    unfolding n e pow2_int by (rule of_nat_mono [OF b(1)])
  show "of_int n < pow2 (int ?f)"
    unfolding n pow2_int by (rule of_nat_less_iff [THEN iffD2, OF b(2)])
qed

lemma rat_exponent_bounds:
  assumes "0 < a" shows "pow2 (rat_exponent a) \<le> a" and "a < pow2 (rat_exponent a + 1)"
proof -
  obtain n d where q: "quotient_of a = (n, d)" by fastforce
  have d: "0 < d" using quotient_of_denom_pos [OF q] .
  have a: "a = of_int n / of_int d" using quotient_of_div [OF q] .
  have n: "0 < n" using assms d a by (simp add: zero_less_divide_iff)
  let ?f = "int (floorlog 2 (nat n))" and ?g = "int (floorlog 2 (nat d))"
  note N = nat_bounds [OF n] and D = nat_bounds [OF d]
  have up: "a < pow2 (?f - ?g + 1)"
  proof -
    have "a * pow2 (?g - 1) \<le> a * of_int d" using D(1) assms by (intro mult_left_mono) auto
    also have "\<dots> = of_int n" using a d by simp
    also have "\<dots> < pow2 ?f" by (rule N(2))
    finally have "a < pow2 ?f / pow2 (?g - 1)" by (simp add: pos_less_divide_eq)
    also have "pow2 ?f / pow2 (?g - 1) = pow2 (?f - ?g + 1)" by (simp flip: pow2_diff add: algebra_simps)
    finally show ?thesis .
  qed
  have low: "pow2 (?f - ?g - 1) \<le> a"
  proof -
    have "pow2 (?f - 1) \<le> of_int n" by (rule N(1))
    also have "\<dots> = a * of_int d" using a d by simp
    also have "\<dots> \<le> a * pow2 ?g" using D(2) assms by (intro mult_left_mono) auto
    finally have "pow2 (?f - 1) / pow2 ?g \<le> a" by (simp add: pos_divide_le_eq)
    then show ?thesis by (simp flip: pow2_diff add: algebra_simps)
  qed
  show "pow2 (rat_exponent a) \<le> a" and "a < pow2 (rat_exponent a + 1)"
    using up low by (auto simp: rat_exponent_def q Let_def algebra_simps)
qed

section \<open>Rounding to an integer\<close>

lemma round_even_near: "\<bar>of_int (round_even x) - x\<bar> \<le> 1 / 2"
proof -
  have "of_int \<lfloor>x\<rfloor> \<le> x" "x < of_int \<lfloor>x\<rfloor> + 1" using floor_correct [of x] by simp_all
  then show ?thesis by (auto simp: round_even_def Let_def abs_le_iff field_simps)
qed

lemma round_even_int [simp]: "round_even (of_int i) = i"
  by (simp add: round_even_def)

lemma round_even_mono: assumes "x \<le> y" shows "round_even x \<le> round_even y"
proof (cases "\<lfloor>x\<rfloor> = \<lfloor>y\<rfloor>")
  case True
  with assms show ?thesis by (auto simp: round_even_def Let_def)
next
  case False
  then have "\<lfloor>x\<rfloor> + 1 \<le> \<lfloor>y\<rfloor>" using floor_mono [OF assms] by simp
  moreover have "round_even x \<le> \<lfloor>x\<rfloor> + 1" "\<lfloor>y\<rfloor> \<le> round_even y" by (auto simp: round_even_def Let_def)
  ultimately show ?thesis by simp
qed

lemma round_even_ge: "of_int i \<le> x \<Longrightarrow> i \<le> round_even x"
  using round_even_mono [of "of_int i" x] by simp

lemma round_even_le: "x \<le> of_int i \<Longrightarrow> round_even x \<le> i"
  using round_even_mono [of x "of_int i"] by simp
section \<open>Rounding a positive value\<close>

definition ulp_exponent :: "rat \<Rightarrow> int" where
  "ulp_exponent a = max (rat_exponent a - 52) (- 1074)"

definition round_pos :: "rat \<Rightarrow> rat" where
  "round_pos a = of_int (round_even (a / pow2 (ulp_exponent a))) * pow2 (ulp_exponent a)"

lemma round64_pos: "round64 q =
    (if q = 0 then Fin 0
     else if pow2 1024 \<le> round_pos \<bar>q\<bar> then (if 0 < q then PosInf else NegInf)
     else Fin (if 0 < q then round_pos \<bar>q\<bar> else - round_pos \<bar>q\<bar>))"
  by (simp add: round64_def round_pos_def ulp_exponent_def Let_def)

lemma rat_exponent_mono: assumes "0 < a" and "a \<le> b" shows "rat_exponent a \<le> rat_exponent b"
proof (rule ccontr)
  assume "\<not> ?thesis"
  then have "pow2 (rat_exponent b + 1) \<le> pow2 (rat_exponent a)" by simp
  also have "\<dots> \<le> b" using rat_exponent_bounds(1) [OF assms(1)] assms(2) by simp
  also have "b < pow2 (rat_exponent b + 1)" using assms by (intro rat_exponent_bounds) simp
  finally show False by simp
qed

lemma rat_exponent_less: assumes "0 < a" and "a < pow2 k" shows "rat_exponent a < k"
  using rat_exponent_bounds(1) [OF assms(1)] assms(2) by (metis le_less_trans pow2_less_iff)

lemma round_pos_nonneg: "0 \<le> a \<Longrightarrow> 0 \<le> round_pos a"
  using round_even_ge [of 0 "a / pow2 (ulp_exponent a)"] by (simp add: round_pos_def)

text \<open>A value with at most 53 significant bits is kept.\<close>

lemma round_pos_exact:
  assumes "0 < m" and "m \<le> 2 ^ 53" and "- 1074 \<le> e" and a: "a = of_int m * pow2 e"
  shows "round_pos a = a"
proof -
  have keep: "round_pos a = a" if "ulp_exponent a \<le> e'" and "a = of_int m' * pow2 e'" for m' e'
  proof -
    let ?u = "ulp_exponent a"
    have "pow2 e' = pow2 (e' - ?u) * pow2 ?u" by (simp flip: pow2_add)
    then have "a = (of_int m' * pow2 (e' - ?u)) * pow2 ?u" using that(2) by simp
    then have "a / pow2 ?u = of_int m' * pow2 (e' - ?u)"
      by (metis nonzero_mult_div_cancel_right pow2_nonzero)
    also have "\<dots> = of_int (m' * 2 ^ nat (e' - ?u))" using that(1) by (simp add: pow2_nat)
    finally have i: "a / pow2 ?u = of_int (m' * 2 ^ nat (e' - ?u))" .
    have "round_pos a = a / pow2 ?u * pow2 ?u" unfolding round_pos_def i round_even_int by (rule refl)
    then show ?thesis by simp
  qed
  have pos: "0 < a" using assms by simp
  show ?thesis
  proof (cases "m = 2 ^ 53")
    case False
    have "a < of_int (2 ^ 53) * pow2 e"
      unfolding a using False assms(2) by (intro mult_strict_right_mono) (simp_all del: of_int_power of_int_numeral)
    also have "\<dots> = pow2 (53 + e)" using pow2_nat [of 53] by (simp add: pow2_add)
    finally have "rat_exponent a < 53 + e" by (rule rat_exponent_less [OF pos])
    then show ?thesis using keep [of e m] assms by (simp add: ulp_exponent_def)
  next
    case True
    then have a': "a = pow2 (53 + e)" using a pow2_nat [of 53] by (simp add: pow2_add)
    then have "a < pow2 (53 + e + 1)" by simp
    then have "rat_exponent a < 53 + e + 1" by (rule rat_exponent_less [OF pos])
    moreover have "a = of_int (2 ^ 52) * pow2 (e + 1)"
      using a' pow2_add [of 52 "e + 1"] pow2_nat [of 52] by (simp add: algebra_simps)
    ultimately show ?thesis using keep [of "e + 1" "2 ^ 52"] assms(3) by (simp add: ulp_exponent_def)
  qed
qed

lemma significand_bounds:
  assumes "0 < a"
  shows "a / pow2 (ulp_exponent a) < 2 ^ 53" and "- 1074 < ulp_exponent a \<Longrightarrow> 2 ^ 52 \<le> a / pow2 (ulp_exponent a)"
proof -
  let ?u = "ulp_exponent a"
  note B = rat_exponent_bounds [OF assms]
  have "a < pow2 (53 + ?u)" using B(2) by (rule less_le_trans) (simp add: ulp_exponent_def)
  also have "\<dots> = 2 ^ 53 * pow2 ?u" using pow2_nat [of 53] by (simp add: pow2_add)
  finally show "a / pow2 ?u < 2 ^ 53" by (simp add: pos_divide_less_eq)
  show "2 ^ 52 \<le> a / pow2 ?u" if "- 1074 < ?u"
  proof -
    have "?u = rat_exponent a - 52" using that by (auto simp: ulp_exponent_def max_def split: if_splits)
    then have "2 ^ 52 * pow2 ?u = pow2 (rat_exponent a)"
      using pow2_nat [of 52] pow2_add [of 52 "?u"] by (simp add: algebra_simps)
    with B(1) have "2 ^ 52 * pow2 ?u \<le> a" by simp
    then show ?thesis by (simp add: pos_le_divide_eq)
  qed
qed

lemma round_pos_mono: assumes "0 < a" and "a \<le> b" shows "round_pos a \<le> round_pos b"
proof -
  let ?u = "ulp_exponent a" and ?v = "ulp_exponent b"
  have b: "0 < b" using assms by simp
  have le: "?u \<le> ?v" using rat_exponent_mono [OF assms] by (simp add: ulp_exponent_def)
  show ?thesis
  proof (cases "?u = ?v")
    case True
    have "round_even (a / pow2 ?v) \<le> round_even (b / pow2 ?v)"
      using assms(2) by (intro round_even_mono divide_right_mono) simp_all
    then show ?thesis unfolding round_pos_def True by (intro mult_right_mono) simp_all
  next
    case False
    with le have lt: "?u < ?v" by simp
    then have v: "- 1074 < ?v" by (auto simp: ulp_exponent_def)
    have "a / pow2 ?u \<le> of_int (2 ^ 53)" using significand_bounds(1) [OF assms(1)] by simp
    then have "round_even (a / pow2 ?u) \<le> 2 ^ 53" by (rule round_even_le)
    then have "of_int (round_even (a / pow2 ?u)) \<le> (of_int (2 ^ 53) :: rat)" by (simp only: of_int_le_iff)
    then have "round_pos a \<le> of_int (2 ^ 53) * pow2 ?u"
      unfolding round_pos_def by (rule mult_right_mono) simp
    also have "\<dots> = pow2 (53 + ?u)" using pow2_nat [of 53] by (simp add: pow2_add)
    also have "\<dots> \<le> pow2 (52 + ?v)" using lt by simp
    also have "\<dots> = of_int (2 ^ 52) * pow2 ?v" using pow2_nat [of 52] by (simp add: pow2_add)
    also have "\<dots> \<le> round_pos b"
    proof -
      have "of_int (2 ^ 52) \<le> b / pow2 ?v" using significand_bounds(2) [OF b v] by simp
      then have "2 ^ 52 \<le> round_even (b / pow2 ?v)" by (rule round_even_ge)
      then have "of_int (2 ^ 52) \<le> (of_int (round_even (b / pow2 ?v)) :: rat)" by (simp only: of_int_le_iff)
      then show ?thesis unfolding round_pos_def by (rule mult_right_mono) simp
    qed
    finally show ?thesis .
  qed
qed

lemma round_pos_idem: assumes "0 < a" shows "round_pos a = 0 \<or> round_pos (round_pos a) = round_pos a"
proof -
  let ?u = "ulp_exponent a"
  let ?m = "round_even (a / pow2 ?u)"
  have "a / pow2 ?u \<le> of_int (2 ^ 53)" using significand_bounds(1) [OF assms] by simp
  then have "?m \<le> 2 ^ 53" by (rule round_even_le)
  moreover have "0 \<le> ?m" using assms by (intro round_even_ge) simp
  moreover have "- 1074 \<le> ?u" by (simp add: ulp_exponent_def)
  ultimately show ?thesis
    using round_pos_exact [of ?m ?u "round_pos a"] by (cases "?m = 0") (simp_all add: round_pos_def)
qed

section \<open>Rounding to float64\<close>

definition float_rat :: "rat \<Rightarrow> bool" where
  "float_rat q \<longleftrightarrow> round64 q = Fin q"

lemma round64_0 [simp]: "round64 0 = Fin 0"
  by (simp add: round64_def)

lemma float_rat_0 [simp]: "float_rat 0"
  by (simp add: float_rat_def)

lemma round_pos_float: "0 < q \<Longrightarrow> float_rat q \<longleftrightarrow> round_pos q = q \<and> q < pow2 1024"
  by (auto simp: float_rat_def round64_pos not_le split: if_splits)

text \<open>Rounding a value up to a representable one stays below it, and never turns negative.\<close>

lemma round64_le:
  assumes "0 \<le> q" and "q \<le> r" and "float_rat r"
  shows "\<exists>v. round64 q = Fin v \<and> 0 \<le> v \<and> v \<le> r"
proof (cases "q = 0")
  case False
  then have q: "0 < q" and r: "0 < r" using assms by auto
  have r2: "round_pos r = r" "r < pow2 1024" using round_pos_float [OF r] assms(3) by simp_all
  have "round_pos q \<le> r" using round_pos_mono [OF q assms(2)] r2 by simp
  then show ?thesis using q r2 round_pos_nonneg [of q] by (simp add: round64_pos)
qed (use assms in simp)

lemma round64_mono:
  assumes "0 \<le> p" and "p \<le> q" and "round64 q = Fin w"
  shows "\<exists>v. round64 p = Fin v \<and> 0 \<le> v \<and> v \<le> w"
proof (cases "p = 0")
  case True
  with assms show ?thesis using round_pos_nonneg [of q] by (auto simp: round64_pos split: if_splits)
next
  case False
  then have p: "0 < p" and q: "0 < q" using assms by auto
  have "round_pos p \<le> round_pos q" by (rule round_pos_mono [OF p assms(2)])
  then show ?thesis using p q assms(3) round_pos_nonneg [of p] by (auto simp: round64_pos split: if_splits)
qed

lemma round64_float: assumes "round64 q = Fin v" shows "float_rat v"
proof -
  have "float_rat v" if "0 < q" and "round64 q = Fin v" for q v
  proof (cases "round_pos q = 0")
    case False
    then have "0 < round_pos q" using round_pos_nonneg [of q] that(1) by simp
    with False that round_pos_idem [of q] show ?thesis
      by (auto simp: round_pos_float round64_pos not_le split: if_splits)
  qed (use that in \<open>simp add: round64_pos split: if_splits\<close>)
  note pos = this
  have neg: "float_rat (- v)" if "float_rat v" for v
    using that by (auto simp: float_rat_def round64_pos split: if_splits)
  show ?thesis
  proof (cases "q < 0")
    case True
    then have "round64 (- q) = Fin (- v)" using assms by (auto simp: round64_pos split: if_splits)
    then show ?thesis using pos [of "- q" "- v"] neg [of "- v"] True by simp
  next
    case False
    with assms pos [of q v] show ?thesis by (cases "q = 0") auto
  qed
qed

lemma float_rat_int: assumes "0 \<le> i" and "i \<le> 2 ^ 53" shows "float_rat (of_int i)"
proof (cases "i = 0")
  case False
  with assms have i: "0 < i" by simp
  have "round_pos (of_int i) = of_int i" using round_pos_exact [of i 0 "of_int i"] i assms(2) by (simp add: pow2_def)
  moreover have "(of_int i :: rat) < pow2 1024"
  proof -
    have "(of_int i :: rat) \<le> of_int (2 ^ 53)" using assms(2) by (simp only: of_int_le_iff)
    also have "\<dots> = pow2 53" using pow2_nat [of 53] by simp
    also have "\<dots> < pow2 1024" by simp
    finally show ?thesis .
  qed
  ultimately show ?thesis using round_pos_float [of "of_int i"] i by simp
qed simp

lemma float_rat_pow2: assumes "- 1074 \<le> k" and "k < 1024" shows "float_rat (pow2 k)"
  using round_pos_exact [of 1 k "pow2 k"] assms by (simp add: round_pos_float)

lemma float_rat_1 [simp]: "float_rat 1"
  using float_rat_int [of 1] by simp
text \<open>The error of rounding a value below 1 is at most half a unit in the last place.\<close>

lemma round64_unit_error:
  assumes "0 \<le> x" and "x \<le> 1" and "round64 x = Fin v" shows "\<bar>v - x\<bar> \<le> pow2 (- 54)"
proof (cases "x = 0 \<or> x = 1")
  case True
  with assms show ?thesis using float_rat_1 by (auto simp: float_rat_def)
next
  case False
  then have x: "0 < x" "x < pow2 0" using assms by (simp_all add: pow2_def)
  let ?u = "ulp_exponent x"
  have "rat_exponent x < 0" by (rule rat_exponent_less [OF x])
  then have u: "?u \<le> - 53" by (simp add: ulp_exponent_def)
  have v: "v = round_pos x" using assms(3) x by (simp add: round64_pos split: if_splits)
  have "v - x = (of_int (round_even (x / pow2 ?u)) - x / pow2 ?u) * pow2 ?u"
    unfolding v round_pos_def left_diff_distrib by simp
  then have "\<bar>v - x\<bar> = \<bar>of_int (round_even (x / pow2 ?u)) - x / pow2 ?u\<bar> * pow2 ?u" by (simp add: abs_mult)
  also have "\<dots> \<le> 1 / 2 * pow2 ?u" using round_even_near by (rule mult_right_mono) simp
  also have "\<dots> \<le> 1 / 2 * pow2 (- 53)" using u by simp
  also have "\<dots> = pow2 (- 54)" by (simp add: pow2_def)
  finally show ?thesis .
qed

text \<open>Rounding stays between the neighbouring integers.\<close>

lemma round64_between:
  assumes "0 \<le> x" and "x \<le> of_int n" and "n \<le> 2 ^ 53"
  shows "\<exists>v. round64 x = Fin v \<and> of_int \<lfloor>x\<rfloor> \<le> v \<and> v \<le> of_int \<lceil>x\<rceil>"
proof -
  have n: "\<lceil>x\<rceil> \<le> n" "\<lfloor>x\<rfloor> \<le> n" using ceiling_mono [OF assms(2)] floor_mono [OF assms(2)] by simp_all
  have c: "0 \<le> \<lceil>x\<rceil>" "\<lceil>x\<rceil> \<le> 2 ^ 53" "0 \<le> \<lfloor>x\<rfloor>" "\<lfloor>x\<rfloor> \<le> 2 ^ 53"
    using assms(1) order_trans [OF n(1) assms(3)] order_trans [OF n(2) assms(3)] by simp_all
  obtain v where v: "round64 x = Fin v" "0 \<le> v" "v \<le> of_int \<lceil>x\<rceil>"
    using round64_le [OF assms(1) le_of_int_ceiling float_rat_int [OF c(1,2)]] by blast
  have "float_rat (of_int \<lfloor>x\<rfloor>)" using c(3,4) by (rule float_rat_int)
  moreover have "0 \<le> (of_int \<lfloor>x\<rfloor> :: rat)" using c(3) by simp
  ultimately have "of_int \<lfloor>x\<rfloor> \<le> v"
    using round64_mono [OF _ of_int_floor_le v(1)] by (auto simp: float_rat_def)
  with v show ?thesis by blast
qed

section \<open>Arithmetic\<close>

text \<open>
  The operations of the language on \<open>float64\<close>. Signed zeros are not told apart, so a quotient by
  zero takes the sign of the dividend; the code never divides by zero.
\<close>

definition flt_sgn :: "float64 \<Rightarrow> rat" where
  "flt_sgn x = (case x of Fin q \<Rightarrow> sgn q | PosInf \<Rightarrow> 1 | NegInf \<Rightarrow> - 1 | NaN \<Rightarrow> 0)"

definition flt_inf :: "rat \<Rightarrow> float64" where
  "flt_inf s = (if 0 < s then PosInf else if s < 0 then NegInf else NaN)"

definition flt_mul :: "float64 \<Rightarrow> float64 \<Rightarrow> float64" where
  "flt_mul x y =
     (case (x, y) of
        (Fin a, Fin b) \<Rightarrow> round64 (a * b)
      | _ \<Rightarrow> flt_inf (flt_sgn x * flt_sgn y))"

definition flt_div :: "float64 \<Rightarrow> float64 \<Rightarrow> float64" where
  "flt_div x y =
     (case (x, y) of
        (Fin a, Fin b) \<Rightarrow> if b = 0 then flt_inf (sgn a) else round64 (a / b)
      | (NaN, _) \<Rightarrow> NaN
      | (_, NaN) \<Rightarrow> NaN
      | (Fin a, _) \<Rightarrow> Fin 0
      | (_, Fin b) \<Rightarrow> flt_inf (flt_sgn x * (if b = 0 then 1 else sgn b))
      | _ \<Rightarrow> NaN)"

definition flt_sub :: "float64 \<Rightarrow> float64 \<Rightarrow> float64" where
  "flt_sub x y =
     (case (x, y) of
        (Fin a, Fin b) \<Rightarrow> round64 (a - b)
      | (NaN, _) \<Rightarrow> NaN
      | (_, NaN) \<Rightarrow> NaN
      | (Fin a, _) \<Rightarrow> flt_inf (- flt_sgn y)
      | (_, Fin b) \<Rightarrow> x
      | _ \<Rightarrow> if x = y then NaN else x)"

definition flt_add :: "float64 \<Rightarrow> float64 \<Rightarrow> float64" where
  "flt_add x y =
     (case (x, y) of
        (Fin a, Fin b) \<Rightarrow> round64 (a + b)
      | (NaN, _) \<Rightarrow> NaN
      | (_, NaN) \<Rightarrow> NaN
      | (Fin a, _) \<Rightarrow> y
      | (_, Fin b) \<Rightarrow> x
      | _ \<Rightarrow> if x = y then x else NaN)"

definition flt_of_int :: "int \<Rightarrow> float64" where
  "flt_of_int i = round64 (of_int i)"

text \<open>\<open>math.Ceil\<close> and \<open>math.Round\<close>, which rounds halves away from zero; both are exact.\<close>

definition flt_ceil :: "float64 \<Rightarrow> float64" where
  "flt_ceil x = (case x of Fin q \<Rightarrow> Fin (of_int \<lceil>q\<rceil>) | _ \<Rightarrow> x)"

definition flt_round :: "float64 \<Rightarrow> float64" where
  "flt_round x =
     (case x of Fin q \<Rightarrow> Fin (of_int (if 0 \<le> q then \<lfloor>q + 1 / 2\<rfloor> else \<lceil>q - 1 / 2\<rceil>)) | _ \<Rightarrow> x)"

text \<open>\<open>uint64(f)\<close>, implementation-defined outside the range.\<close>

definition float_to_uint64 :: "64 word \<Rightarrow> float64 \<Rightarrow> 64 word" where
  "float_to_uint64 ovf f =
     (case f of
        Fin q \<Rightarrow> (if 0 \<le> rat_trunc q \<and> rat_trunc q < 2 ^ 64 then word_of_int (rat_trunc q) else ovf)
      | _ \<Rightarrow> ovf)"

lemma flt_mul_unit:
  assumes "float_rat a" and "0 \<le> a" and "0 \<le> b" and "b \<le> 1"
  shows "\<exists>v. flt_mul (Fin a) (Fin b) = Fin v \<and> float_rat v \<and> 0 \<le> v \<and> v \<le> a"
proof -
  have "a * b \<le> a" using assms mult_left_le [of b a] by simp
  moreover have "0 \<le> a * b" using assms by simp
  ultimately obtain v where v: "round64 (a * b) = Fin v" "0 \<le> v" "v \<le> a"
    using round64_le [of "a * b" a] assms(1) by blast
  with round64_float [OF v(1)] show ?thesis by (simp add: flt_mul_def)
qed

lemma flt_mul_mono:
  assumes "0 \<le> a" and "0 \<le> b" and "b \<le> c" and "flt_mul (Fin a) (Fin c) = Fin w"
  shows "\<exists>v. flt_mul (Fin a) (Fin b) = Fin v \<and> 0 \<le> v \<and> v \<le> w"
  using round64_mono [of "a * b" "a * c" w] assms by (simp add: flt_mul_def mult_left_mono)

lemma flt_mul_1 [simp]: "float_rat a \<Longrightarrow> flt_mul (Fin a) (Fin 1) = Fin a"
  by (simp add: flt_mul_def float_rat_def)

lemma flt_mul_0 [simp]: "flt_mul (Fin a) (Fin 0) = Fin 0"
  by (simp add: flt_mul_def)

text \<open>Durations as floats.\<close>

lemma flt_of_int_range:
  assumes "0 \<le> i" and "i < 2 ^ 64"
  shows "\<exists>v. flt_of_int i = Fin v \<and> float_rat v \<and> 0 \<le> v \<and> v \<le> 2 ^ 64 \<and> (0 < i \<longrightarrow> 1 \<le> v)"
proof -
  have "(of_int i :: rat) \<le> of_int (2 ^ 64)" using assms by (simp only: of_int_le_iff)
  then have up: "(of_int i :: rat) \<le> pow2 64" using pow2_nat [of 64] by simp
  obtain v where v: "round64 (of_int i) = Fin v" "0 \<le> v" "v \<le> pow2 64"
    using round64_le [OF _ up float_rat_pow2] assms(1) by auto
  have "1 \<le> v" if "0 < i"
  proof -
    have "(1::rat) \<le> of_int i" using that by simp
    from round64_mono [OF _ this v(1)] show ?thesis using float_rat_1 by (auto simp: float_rat_def)
  qed
  with v round64_float [OF v(1)] pow2_nat [of 64] show ?thesis by (simp add: flt_of_int_def)
qed

lemma flt_of_int_mono:
  assumes "0 \<le> i" and "i \<le> j" and "flt_of_int j = Fin w" shows "\<exists>v. flt_of_int i = Fin v \<and> 0 \<le> v \<and> v \<le> w"
  using round64_mono [of "of_int i" "of_int j" w] assms by (simp add: flt_of_int_def)

lemma flt_of_int_small: assumes "0 \<le> i" and "i \<le> 2 ^ 53" shows "flt_of_int i = Fin (of_int i)"
  using float_rat_int [OF assms] by (simp add: flt_of_int_def float_rat_def)

text \<open>The quotient of a part of a duration by the whole lies between 0 and 1 and grows with the part.\<close>

lemma flt_ratio_mono:
  assumes "0 \<le> e" and "e \<le> e'" and "e' \<le> u" and "0 < u" and "u < 2 ^ 63"
  shows "\<exists>p q. flt_div (flt_of_int e) (flt_of_int u) = Fin p \<and> flt_div (flt_of_int e') (flt_of_int u) = Fin q \<and>
     0 \<le> p \<and> p \<le> q \<and> q \<le> 1"
proof -
  obtain w where w: "flt_of_int u = Fin w" "1 \<le> w" using flt_of_int_range [of u] assms(4,5) by auto
  obtain b where b: "flt_of_int e' = Fin b" "0 \<le> b" "b \<le> w" using flt_of_int_mono [of e' u w] w assms by auto
  obtain a where a: "flt_of_int e = Fin a" "0 \<le> a" "a \<le> b" using flt_of_int_mono [of e e' b] b assms by auto
  have 1: "b / w \<le> 1" "0 \<le> b / w" using b w by simp_all
  obtain q where q: "round64 (b / w) = Fin q" "q \<le> 1" using round64_le [OF 1(2,1) float_rat_1] by auto
  have "a / w \<le> b / w" "0 \<le> a / w" using a w by (simp_all add: divide_right_mono)
  then obtain p where "round64 (a / w) = Fin p" "0 \<le> p" "p \<le> q" using round64_mono [OF _ _ q(1)] by blast
  with q a b w show ?thesis by (auto simp: flt_div_def)
qed

lemma flt_ratio_same: assumes "0 < u" and "u < 2 ^ 63" shows "flt_div (flt_of_int u) (flt_of_int u) = Fin 1"
proof -
  obtain w where "flt_of_int u = Fin w" "1 \<le> w" using flt_of_int_range [of u] assms by auto
  then show ?thesis using float_rat_1 by (simp add: flt_div_def float_rat_def)
qed

lemma flt_of_int_0 [simp]: "flt_of_int 0 = Fin 0"
  by (simp add: flt_of_int_def)

lemma rat_trunc_bounds: assumes "0 \<le> v" and "v \<le> of_int n" shows "0 \<le> rat_trunc v" and "rat_trunc v \<le> n"
  using assms by (simp_all add: rat_trunc_def floor_le_iff)

lemma float_to_int64_bounds:
  assumes "0 \<le> v" and "v \<le> of_int n" and "n < 2 ^ 63"
  shows "float_to_int64 ovf (Fin v) = rat_trunc v" and "0 \<le> float_to_int64 ovf (Fin v)" and "float_to_int64 ovf (Fin v) \<le> n"
  using rat_trunc_bounds [OF assms(1,2)] assms(3) by (simp_all add: float_to_int64_def i64_def)

lemma rat_trunc_int [simp]: "rat_trunc (of_int i) = i"
  by (simp add: rat_trunc_def)

end
