(* ===== verification/Token_Bucket.thy ===== *)
theory Token_Bucket
  imports Atropos_Prelude
begin

text \<open>
  The token bucket that throttles the disk and the I/O fault; \<open>internal/fault/resource/disk/stress.go\<close>
  and \<open>internal/fault/resource/io/stress.go\<close> hold the same code. Instants are nanoseconds; the
  bucket's lock makes each of its operations atomic. \<open>rate_limiter\<close> is what the workers of the
  faults need of a limiter: the tokens it hands out are bounded by what flows in.
\<close>

section \<open>The bucket\<close>

definition RefillInterval :: int where
  "RefillInterval = 10 * Millisecond"

record token_bucket =
  tb_tokens :: int
  tb_rate :: int
  tb_capacity :: int
  tb_minCap :: int
  tb_lastTick :: int

definition bucketCapacity :: "int \<Rightarrow> int \<Rightarrow> int" where
  "bucketCapacity rate minCap =
     (let perTick = wrap64 (rate * RefillInterval) sdiv Second;
          perTick = (if perTick < 1 then 1 else perTick);
          cap = wrap64 (perTick * 2)
      in if cap < minCap then minCap else cap)"

definition newTokenBucket :: "int \<Rightarrow> int \<Rightarrow> int \<Rightarrow> token_bucket" where
  "newTokenBucket now rate minCapacity =
     (let cap = bucketCapacity rate minCapacity
      in \<lparr>tb_tokens = cap, tb_rate = rate, tb_capacity = cap, tb_minCap = minCapacity, tb_lastTick = now\<rparr>)"

definition refill :: "int \<Rightarrow> token_bucket \<Rightarrow> token_bucket" where
  "refill now tb =
     (let elapsed = time_sub now (tb_lastTick tb)
      in if elapsed \<le> 0 then tb
         else (let added = wrap64 (tb_rate tb * elapsed) sdiv Second;
                   tokens = wrap64 (tb_tokens tb + added)
               in tb\<lparr>tb_lastTick := now, tb_tokens := if tokens > tb_capacity tb then tb_capacity tb else tokens\<rparr>))"

text \<open>One round of \<open>acquire\<close> under the lock.\<close>

definition try_acquire :: "int \<Rightarrow> int \<Rightarrow> token_bucket \<Rightarrow> bool \<times> token_bucket" where
  "try_acquire now n tb =
     (let tb' = refill now tb
      in if tb_tokens tb' \<ge> n then (True, tb'\<lparr>tb_tokens := tb_tokens tb' - n\<rparr>) else (False, tb'))"

text \<open>
  \<open>acquire\<close> on a schedule: for every round, whether the context is done when it is looked at,
  and the instant of the round. \<open>Waiting\<close> means that the schedule ends before the loop does.
\<close>

datatype acquired = Granted | Cancelled | Waiting

fun acquire :: "int \<Rightarrow> (bool \<times> int) list \<Rightarrow> token_bucket \<Rightarrow> acquired \<times> token_bucket" where
  "acquire n [] tb = (Waiting, tb)"
| "acquire n ((stop, now) # rounds) tb =
     (if stop then (Cancelled, tb)
      else case try_acquire now n tb of
             (True, tb') \<Rightarrow> (Granted, tb')
           | (False, tb') \<Rightarrow> acquire n rounds tb')"

definition setRate :: "int \<Rightarrow> token_bucket \<Rightarrow> token_bucket" where
  "setRate newRate tb =
     (let cap = bucketCapacity newRate (tb_minCap tb)
      in tb\<lparr>tb_rate := newRate, tb_capacity := cap,
            tb_tokens := if tb_tokens tb > cap then cap else tb_tokens tb\<rparr>)"

section \<open>Rate limiters\<close>

locale rate_limiter =
  fixes take :: "int \<Rightarrow> int \<Rightarrow> 's \<Rightarrow> bool \<times> 's"
    and level :: "'s \<Rightarrow> int" and clock :: "'s \<Rightarrow> int" and rate :: "'s \<Rightarrow> int"
    and good :: "'s \<Rightarrow> bool" and admissible :: "'s \<Rightarrow> int \<Rightarrow> int \<Rightarrow> bool"
  assumes take_good: "good s \<Longrightarrow> admissible s now n \<Longrightarrow> good (snd (take now n s))"
    and take_rate: "rate (snd (take now n s)) = rate s"
    and take_level: "good s \<Longrightarrow> admissible s now n \<Longrightarrow>
        level (snd (take now n s)) * Second \<le>
          level s * Second + rate s * (clock (snd (take now n s)) - clock s) -
          (if fst (take now n s) then n * Second else 0)"
    and level_nonneg: "good s \<Longrightarrow> 0 \<le> level s"
begin

text \<open>A sequence of requests, each at its instant, and the total that is granted.\<close>

fun granted :: "(int \<times> int) list \<Rightarrow> 's \<Rightarrow> int \<times> 's" where
  "granted [] s = (0, s)"
| "granted ((now, n) # rs) s =
     (let (ok, s') = take now n s; (total, s'') = granted rs s' in ((if ok then n else 0) + total, s''))"

fun all_admissible :: "(int \<times> int) list \<Rightarrow> 's \<Rightarrow> bool" where
  "all_admissible [] s = True"
| "all_admissible ((now, n) # rs) s = (admissible s now n \<and> all_admissible rs (snd (take now n s)))"

lemma granted_good: "good s \<Longrightarrow> all_admissible rs s \<Longrightarrow> good (snd (granted rs s))"
  by (induction rs arbitrary: s) (auto simp: split_beta Let_def take_good)

lemma granted_rate: "rate (snd (granted rs s)) = rate s"
  by (induction rs arbitrary: s) (auto simp: split_beta Let_def take_rate)

lemma granted_level:
  "good s \<Longrightarrow> all_admissible rs s \<Longrightarrow>
   fst (granted rs s) * Second + level (snd (granted rs s)) * Second \<le>
     level s * Second + rate s * (clock (snd (granted rs s)) - clock s)"
proof (induction rs s rule: granted.induct)
  case (2 now n rs s)
  obtain ok s' where t: "take now n s = (ok, s')" by fastforce
  obtain total s'' where g: "granted rs s' = (total, s'')" by fastforce
  have adm: "admissible s now n" "all_admissible rs s'" using 2(3) t by simp_all
  have "good s'" using take_good [OF 2(2) adm(1)] t by simp
  from 2(1) [OF t [symmetric] refl this adm(2)] g
  have ih: "total * Second + level s'' * Second \<le> level s' * Second + rate s' * (clock s'' - clock s')"
    by simp
  have "rate s' = rate s" using take_rate [of now n s] t by simp
  moreover have "level s' * Second \<le> level s * Second + rate s * (clock s' - clock s) - (if ok then n * Second else 0)"
    using take_level [OF 2(2) adm(1)] t by simp
  ultimately show ?case using t g ih by (auto simp: algebra_simps)
qed simp

lemma throughput:
  assumes "good s" and "all_admissible rs s"
  shows "fst (granted rs s) * Second \<le> level s * Second + rate s * (clock (snd (granted rs s)) - clock s)"
proof -
  have "0 \<le> level (snd (granted rs s)) * Second"
    using level_nonneg [OF granted_good [OF assms]] by (simp add: Second_def)
  with granted_level [OF assms] show ?thesis by linarith
qed

end

section \<open>The bucket as a limiter\<close>

definition bucket_good :: "token_bucket \<Rightarrow> bool" where
  "bucket_good tb \<longleftrightarrow> 0 \<le> tb_tokens tb \<and> tb_tokens tb \<le> tb_capacity tb \<and> tb_capacity tb < 2 ^ 62 \<and> 0 \<le> tb_rate tb"

definition bucket_admissible :: "token_bucket \<Rightarrow> int \<Rightarrow> int \<Rightarrow> bool" where
  "bucket_admissible tb now n \<longleftrightarrow>
     0 \<le> n \<and> now - tb_lastTick tb < 2 ^ 63 \<and> tb_rate tb * (now - tb_lastTick tb) < 2 ^ 62"

lemma refill_stale: "now \<le> tb_lastTick tb \<Longrightarrow> refill now tb = tb"
  by (simp add: refill_def time_sub_def)

lemma refill_exact:
  assumes "bucket_good tb" and "tb_lastTick tb < now" and "bucket_admissible tb now n"
  shows "refill now tb = tb\<lparr>tb_lastTick := now,
     tb_tokens := min (tb_capacity tb) (tb_tokens tb + tb_rate tb * (now - tb_lastTick tb) div Second)\<rparr>"
proof -
  let ?d = "now - tb_lastTick tb"
  have d: "time_sub now (tb_lastTick tb) = ?d"
    using assms(2,3) by (simp add: time_sub_def bucket_admissible_def)
  have p: "0 \<le> tb_rate tb * ?d" "tb_rate tb * ?d < 2 ^ 62"
    using assms by (auto simp: bucket_good_def bucket_admissible_def)
  have w: "wrap64 (tb_rate tb * ?d) = tb_rate tb * ?d" using p by (intro wrap64_id i64_nonneg) auto
  have q: "(tb_rate tb * ?d) sdiv Second = (tb_rate tb * ?d) div Second"
    by (rule sdiv_nonneg) (use p in \<open>simp_all add: Second_def\<close>)
  have le: "(tb_rate tb * ?d) div Second \<le> tb_rate tb * ?d"
    using p(1) by (simp add: Second_def int_div_less_self zdiv_mono2 [of _ 1 1000000000, simplified])
  have nn: "0 \<le> (tb_rate tb * ?d) div Second"
    using p(1) by (simp add: Second_def pos_imp_zdiv_nonneg_iff)
  have s: "wrap64 (tb_tokens tb + (tb_rate tb * ?d) div Second) = tb_tokens tb + (tb_rate tb * ?d) div Second"
    using assms(1) p le nn by (intro wrap64_id i64_nonneg) (auto simp: bucket_good_def)
  show ?thesis using assms(2) by (simp add: refill_def Let_def d w q s min_def)
qed

lemma refill_good:
  assumes "bucket_good tb" and "bucket_admissible tb now n"
  shows "bucket_good (refill now tb)" and "tb_rate (refill now tb) = tb_rate tb"
    and "tb_tokens (refill now tb) * Second \<le>
      tb_tokens tb * Second + tb_rate tb * (tb_lastTick (refill now tb) - tb_lastTick tb)"
proof -
  have "bucket_good (refill now tb) \<and> tb_rate (refill now tb) = tb_rate tb \<and>
    tb_tokens (refill now tb) * Second \<le>
      tb_tokens tb * Second + tb_rate tb * (tb_lastTick (refill now tb) - tb_lastTick tb)"
  proof (cases "now \<le> tb_lastTick tb")
    case True
    with assms show ?thesis by (simp add: refill_stale)
  next
    case False
    let ?x = "tb_rate tb * (now - tb_lastTick tb)"
    note R = refill_exact [OF assms(1) _ assms(2)]
    have x: "0 \<le> ?x" using assms(1) False by (simp add: bucket_good_def)
    have nn: "0 \<le> ?x div Second" using x by (simp add: Second_def pos_imp_zdiv_nonneg_iff)
    have flow: "?x div Second * Second \<le> ?x" by (simp add: Second_def minus_mod_eq_div_mult [symmetric])
    have "min (tb_capacity tb) (tb_tokens tb + ?x div Second) * Second \<le> (tb_tokens tb + ?x div Second) * Second"
      by (intro mult_right_mono) (simp_all add: Second_def)
    also have "\<dots> = tb_tokens tb * Second + ?x div Second * Second" by (simp add: distrib_right)
    finally have "min (tb_capacity tb) (tb_tokens tb + ?x div Second) * Second \<le> tb_tokens tb * Second + ?x"
      using flow by linarith
    with R False assms(1) nn show ?thesis by (simp add: bucket_good_def)
  qed
  then show "bucket_good (refill now tb)" "tb_rate (refill now tb) = tb_rate tb"
    "tb_tokens (refill now tb) * Second \<le>
      tb_tokens tb * Second + tb_rate tb * (tb_lastTick (refill now tb) - tb_lastTick tb)"
    by blast+
qed

lemma refill_rate [simp]:
  "tb_rate (refill now tb) = tb_rate tb" "tb_capacity (refill now tb) = tb_capacity tb" "tb_minCap (refill now tb) = tb_minCap tb"
  by (simp_all add: refill_def Let_def)

interpretation bucket: rate_limiter try_acquire tb_tokens tb_lastTick tb_rate bucket_good bucket_admissible
proof unfold_locales
  fix s :: token_bucket and now n :: int
  show "tb_rate (snd (try_acquire now n s)) = tb_rate s"
    by (simp add: try_acquire_def Let_def)
  assume s: "bucket_good s"
  show "0 \<le> tb_tokens s" using s by (simp add: bucket_good_def)
  assume a: "bucket_admissible s now n"
  note R = refill_good [OF s a]
  have n: "0 \<le> n" using a by (simp add: bucket_admissible_def)
  show "bucket_good (snd (try_acquire now n s))"
    using R(1) n by (simp add: try_acquire_def Let_def bucket_good_def)
  show "tb_tokens (snd (try_acquire now n s)) * Second \<le>
      tb_tokens s * Second + tb_rate s * (tb_lastTick (snd (try_acquire now n s)) - tb_lastTick s) -
      (if fst (try_acquire now n s) then n * Second else 0)"
    using R(3) by (simp add: try_acquire_def Let_def left_diff_distrib)
qed

section \<open>Polling\<close>

fun paced :: "(int \<Rightarrow> bool) \<Rightarrow> int \<Rightarrow> int list \<Rightarrow> bool" where
  "paced P t [] = True"
| "paced P t (now # ts) = (P (now - t) \<and> paced P now ts)"

text \<open>The gap between two looks at the bucket brings at least one token, without overflow.\<close>

definition filling :: "int \<Rightarrow> int \<Rightarrow> bool" where
  "filling r d \<longleftrightarrow> 0 < d \<and> d < 2 ^ 63 \<and> Second \<le> r * d \<and> r * d < 2 ^ 62"

text \<open>The gap is too short for the rate: the division truncates what would flow in to nothing.\<close>

definition starving :: "int \<Rightarrow> int \<Rightarrow> bool" where
  "starving r d \<longleftrightarrow> 0 < d \<and> d < 2 ^ 63 \<and> r * d < Second"

lemma acquire_fills:
  "bucket_good tb \<Longrightarrow> 0 \<le> n \<Longrightarrow> n \<le> tb_capacity tb \<Longrightarrow> paced (filling (tb_rate tb)) (tb_lastTick tb) ts \<Longrightarrow>
   n - tb_tokens tb \<le> int (length ts) \<Longrightarrow> ts \<noteq> [] \<Longrightarrow>
   fst (acquire n (map (Pair False) ts) tb) = Granted"
proof (induction ts arbitrary: tb)
  case (Cons now ts)
  let ?d = "now - tb_lastTick tb" and ?r = "tb_rate tb"
  have f: "filling ?r ?d" and rest: "paced (filling ?r) now ts" using Cons.prems(4) by simp_all
  then have d: "tb_lastTick tb < now" "bucket_admissible tb now n" "1 \<le> (?r * ?d) div Second"
    using Cons.prems(2) by (auto simp: filling_def bucket_admissible_def Second_def)
  let ?tb = "refill now tb"
  note R = refill_exact [OF Cons.prems(1) d(1,2)]
  show ?case
  proof (cases "n \<le> tb_tokens ?tb")
    case True
    then show ?thesis by (simp add: try_acquire_def Let_def)
  next
    case False
    then have more: "tb_tokens tb + 1 \<le> tb_tokens ?tb" "tb_lastTick ?tb = now"
      using R d(3) Cons.prems(3) by (auto simp: min_def split: if_splits)
    with False Cons.prems(5) have len: "n - tb_tokens ?tb \<le> int (length ts)" "ts \<noteq> []"
      by (auto simp: not_le)
    have "fst (acquire n (map (Pair False) ts) ?tb) = Granted"
      using Cons.IH [of ?tb] refill_good(1) [OF Cons.prems(1) d(2)] Cons.prems(2,3) rest more(2) len by simp
    with False show ?thesis by (simp add: try_acquire_def Let_def)
  qed
qed simp

lemma refill_starving:
  assumes "bucket_good tb" and "starving (tb_rate tb) (now - tb_lastTick tb)"
  shows "refill now tb = tb\<lparr>tb_lastTick := now\<rparr>"
proof -
  let ?x = "tb_rate tb * (now - tb_lastTick tb)"
  have x: "0 \<le> ?x" "?x < Second" "tb_lastTick tb < now" "now - tb_lastTick tb < 2 ^ 63"
    using assms by (auto simp: starving_def bucket_good_def)
  then have "bucket_admissible tb now 0" by (simp add: bucket_admissible_def Second_def)
  from refill_exact [OF assms(1) x(3) this] x(1,2) assms(1) show ?thesis
    by (simp add: bucket_good_def min_def)
qed

lemma acquire_starves:
  "bucket_good tb \<Longrightarrow> tb_tokens tb < n \<Longrightarrow> paced (starving (tb_rate tb)) (tb_lastTick tb) ts \<Longrightarrow>
   fst (acquire n (map (Pair False) ts) tb) = Waiting"
proof (induction ts arbitrary: tb)
  case (Cons now ts)
  note R = refill_starving [of tb now]
  have "bucket_good (tb\<lparr>tb_lastTick := now\<rparr>)" using Cons.prems(1) by (simp add: bucket_good_def)
  from Cons.IH [OF this] Cons.prems R show ?case by (simp add: try_acquire_def Let_def)
qed simp

lemma bucketCapacity_ge: "minCap \<le> bucketCapacity rate minCap"
  by (simp add: bucketCapacity_def Let_def)

lemma bucketCapacity_bound:
  assumes "0 \<le> rate" and "rate * RefillInterval < 2 ^ 63"
  shows "bucketCapacity rate minCap \<le> max minCap (2 * rate * RefillInterval div Second + 2)"
    and "0 < bucketCapacity rate minCap"
proof -
  let ?x = "rate * RefillInterval"
  have x: "0 \<le> ?x" using assms(1) by (simp add: RefillInterval_def Millisecond_def)
  have w: "wrap64 ?x sdiv Second = ?x div Second"
    using x assms(2) by (simp add: wrap64_id i64_nonneg sdiv_nonneg Second_def)
  have "?x div Second \<le> 2 ^ 63 div Second"
    by (rule zdiv_mono1) (use assms(2) in \<open>simp_all add: Second_def\<close>)
  then have q: "0 \<le> ?x div Second" "?x div Second < 2 ^ 40"
    using x by (simp_all add: Second_def pos_imp_zdiv_nonneg_iff)
  let ?p = "if ?x div Second < 1 then 1 else ?x div Second"
  have p: "1 \<le> ?p" "?p < 2 ^ 41" "?p \<le> ?x div Second + 1" using q by auto
  have "wrap64 (?p * 2) = ?p * 2" using p by (intro wrap64_id i64_nonneg) auto
  then have cap: "bucketCapacity rate minCap = max minCap (?p * 2)"
    unfolding bucketCapacity_def Let_def w by (simp add: max_def)
  have "2 * (?x div Second) \<le> 2 * rate * RefillInterval div Second"
    by (simp add: Second_def RefillInterval_def Millisecond_def)
  with p cap show "bucketCapacity rate minCap \<le> max minCap (2 * rate * RefillInterval div Second + 2)"
    by (simp add: max_def)
  from p cap show "0 < bucketCapacity rate minCap" by simp
qed

section \<open>Properties of the bucket\<close>

lemma paced_mono: "(\<And>d. P d \<Longrightarrow> Q d) \<Longrightarrow> paced P t ts \<Longrightarrow> paced Q t ts"
  by (induction ts arbitrary: t) auto

text \<open>
  Throughput. Whatever requests reach the bucket, and when, the tokens it grants are at
  most those it held plus its rate times the time that has passed on its clock, in exact
  arithmetic: truncation and the capacity only take away.
\<close>

theorem bucket_throughput:
  assumes "bucket_good tb" and "bucket.all_admissible rs tb"
  shows "fst (bucket.granted rs tb) * Second \<le>
     tb_tokens tb * Second + tb_rate tb * (tb_lastTick (snd (bucket.granted rs tb)) - tb_lastTick tb)"
  by (rule bucket.throughput [OF assms])

theorem bucket_throughput_witness:
  "fst (bucket.granted [(Second, 5), (2 * Second, 5)] (newTokenBucket 0 5 1)) * Second \<le>
     2 * Second + 5 * (tb_lastTick (snd (bucket.granted [(Second, 5), (2 * Second, 5)] (newTokenBucket 0 5 1))))"
proof -
  let ?tb = "newTokenBucket 0 5 1"
  have new: "?tb = \<lparr>tb_tokens = 2, tb_rate = 5, tb_capacity = 2, tb_minCap = 1, tb_lastTick = 0\<rparr>"
    by (simp add: newTokenBucket_def bucketCapacity_def RefillInterval_def Millisecond_def Second_def Let_def wrap64_def
        sdiv_nonneg)
  have adm: "bucket.all_admissible [(Second, 5), (2 * Second, 5)] ?tb"
    by (simp add: new bucket_admissible_def try_acquire_def refill_def time_sub_def Second_def Let_def wrap64_def sdiv_nonneg)
  have good: "bucket_good ?tb" by (simp add: new bucket_good_def)
  from bucket_throughput [OF good adm] show ?thesis by (simp add: new)
qed

text \<open>
  Progress. A request that fits the capacity is granted after at most as many rounds as
  tokens are missing, when the context stays open and every gap between rounds brings at least
  one token.
\<close>

theorem acquire_progress:
  assumes "bucket_good tb" and "0 \<le> n" and "n \<le> tb_capacity tb"
    and "paced (filling (tb_rate tb)) (tb_lastTick tb) ts" and "ts \<noteq> []" and "n - tb_tokens tb \<le> int (length ts)"
  shows "fst (acquire n (map (Pair False) ts) tb) = Granted"
  by (rule acquire_fills [OF assms(1-4,6,5)])

theorem acquire_progress_witness:
  "fst (acquire 3 [(False, Second)] (newTokenBucket 0 100 3)) = Granted"
proof -
  have new: "newTokenBucket 0 100 3 = \<lparr>tb_tokens = 3, tb_rate = 100, tb_capacity = 3, tb_minCap = 3, tb_lastTick = 0\<rparr>"
    by (simp add: newTokenBucket_def bucketCapacity_def RefillInterval_def Millisecond_def Second_def Let_def wrap64_def
        sdiv_nonneg)
  then show ?thesis
    using acquire_progress [of "newTokenBucket 0 100 3" 3 "[Second]"]
    by (simp add: bucket_good_def filling_def Second_def)
qed

text \<open>
  Starvation. Below 100 bytes per second the bucket, looked at every refill interval,
  never gains a token: each look moves the clock forward and truncates the inflow to nothing.
  Once the tokens are below the request, \<open>acquire\<close> waits for any number of rounds.
\<close>

theorem slow_bucket_starves:
  assumes "bucket_good tb" and "tb_rate tb < 100" and "tb_tokens tb < n"
    and "paced (\<lambda>d. 0 < d \<and> d \<le> RefillInterval) (tb_lastTick tb) ts"
  shows "fst (acquire n (map (Pair False) ts) tb) = Waiting"
proof (rule acquire_starves [OF assms(1,3)])
  show "paced (starving (tb_rate tb)) (tb_lastTick tb) ts"
  proof (rule paced_mono [OF _ assms(4)])
    fix d assume d: "0 < d \<and> d \<le> RefillInterval"
    have "tb_rate tb * d \<le> 99 * d" using assms(2) d by (intro mult_right_mono) auto
    also have "\<dots> \<le> 99 * RefillInterval" using d by simp
    also have "\<dots> < Second" by (simp add: RefillInterval_def Millisecond_def Second_def)
    finally show "starving (tb_rate tb) d" using d by (simp add: starving_def RefillInterval_def Millisecond_def)
  qed
qed

theorem slow_bucket_starves_witness:
  "fst (acquire 4096 [(False, 10000000), (False, 20000000)]
     \<lparr>tb_tokens = 0, tb_rate = 99, tb_capacity = 4096, tb_minCap = 4096, tb_lastTick = 0\<rparr>) = Waiting"
  using slow_bucket_starves [of "\<lparr>tb_tokens = 0, tb_rate = 99, tb_capacity = 4096, tb_minCap = 4096, tb_lastTick = 0\<rparr>" 4096
      "[10000000, 20000000]"]
  by (simp add: bucket_good_def RefillInterval_def Millisecond_def)

text \<open>
  A new bucket, and one whose rate the ramp controller has changed, keeps its tokens between
  zero and a capacity that admits the largest single request.
\<close>

theorem bucket_rate_change:
  assumes "0 \<le> rate" and "rate * RefillInterval < 2 ^ 63" and "minCap < 2 ^ 62" and "bucket_good tb"
    and "tb_minCap tb = minCap" and "rate < 2 ^ 61"
  shows "bucket_good (newTokenBucket now rate minCap) \<and> minCap \<le> tb_capacity (newTokenBucket now rate minCap) \<and>
     bucket_good (setRate rate tb) \<and> minCap \<le> tb_capacity (setRate rate tb)"
proof -
  note B = bucketCapacity_bound [OF assms(1,2), of minCap] and G = bucketCapacity_ge [of minCap rate]
  have "2 * rate * RefillInterval div Second + 2 < 2 ^ 62"
    using assms(1,6) by (simp add: RefillInterval_def Millisecond_def Second_def)
  with B(1) assms(3) have "bucketCapacity rate minCap < 2 ^ 62" by (simp add: max_def split: if_splits)
  with B(2) G assms(1,4,5) show ?thesis
    by (simp add: bucket_good_def newTokenBucket_def setRate_def Let_def)
qed

theorem bucket_rate_change_witness:
  "bucket_good (setRate 1000 (newTokenBucket 0 1000 64))"
proof -
  have small: "(0::int) \<le> 1000" "1000 * RefillInterval < 2 ^ 63" "(64::int) < 2 ^ 62" "(1000::int) < 2 ^ 61"
    by (simp_all add: RefillInterval_def Millisecond_def)
  have new: "newTokenBucket 0 1000 64 = \<lparr>tb_tokens = 64, tb_rate = 1000, tb_capacity = 64, tb_minCap = 64, tb_lastTick = 0\<rparr>"
    by (simp add: newTokenBucket_def bucketCapacity_def RefillInterval_def Millisecond_def Second_def Let_def wrap64_def
        sdiv_nonneg)
  have "bucket_good (newTokenBucket 0 1000 64)" "tb_minCap (newTokenBucket 0 1000 64) = 64"
    by (simp_all add: new bucket_good_def)
  from bucket_rate_change [OF small(1-3) this small(4)] show ?thesis by blast
qed

end
