(* ===== verification/Resource_Stress.thy ===== *)
theory Resource_Stress
  imports Token_Bucket Fault_Kinds
begin

text \<open>
  The workers of the resource faults: the write worker of \<open>internal/fault/resource/disk/stress.go\<close>,
  the read worker of \<open>internal/fault/resource/io/stress.go\<close>, the phase events the CPU, disk and I/O
  faults emit, the error a stopped fault reports, and the size computations of
  \<open>internal/fault/resource/memory/stress.go\<close>. What the operating system and the clock do in a round
  of a worker is the round's record.
\<close>

section \<open>The disk writer\<close>

text \<open>
  One round: whether the context is done, whether the tokens are granted, whether \<open>Seek\<close> and
  \<open>Write\<close> succeed, and how many bytes a failing \<open>Write\<close> has written. A \<open>Write\<close> without an
  error writes the whole chunk.
\<close>

record write_round =
  wr_done :: bool
  wr_acquired :: bool
  wr_seek_ok :: bool
  wr_write_ok :: bool
  wr_partial :: int

text \<open>\<open>dr_offset\<close> and \<open>dr_length\<close> are the file's own offset and length.\<close>

record disk_run =
  dr_fileSize :: int
  dr_written :: int
  dr_ops :: int
  dr_offset :: int
  dr_length :: int

definition new_file :: disk_run where
  "new_file = \<lparr>dr_fileSize = 0, dr_written = 0, dr_ops = 0, dr_offset = 0, dr_length = 0\<rparr>"

definition file_write :: "int \<Rightarrow> disk_run \<Rightarrow> disk_run" where
  "file_write k s = s\<lparr>dr_offset := dr_offset s + k, dr_length := max (dr_length s) (dr_offset s + k)\<rparr>"

fun writeWorker :: "int \<Rightarrow> int \<Rightarrow> write_round list \<Rightarrow> disk_run \<Rightarrow> disk_run" where
  "writeWorker maxDisk chunkSize [] s = s"
| "writeWorker maxDisk chunkSize (r # rounds) s =
     (if wr_done r then s
      else if \<not> wr_acquired r then s
      else
        (let over = (wrap64 (dr_fileSize s + chunkSize) > maxDisk)
         in if over \<and> \<not> wr_seek_ok r then s
            else
              (let s1 = (if over then s\<lparr>dr_fileSize := 0, dr_offset := 0\<rparr> else s)
               in if \<not> wr_write_ok r then file_write (wr_partial r) s1
                  else
                    (let s2 = file_write chunkSize s1
                     in writeWorker maxDisk chunkSize rounds
                          (s2\<lparr>dr_fileSize := wrap64 (dr_fileSize s2 + chunkSize),
                             dr_written := wrap64 (dr_written s2 + chunkSize),
                             dr_ops := wrap64 (dr_ops s2 + 1)\<rparr>)))))"

definition partial_ok :: "int \<Rightarrow> write_round \<Rightarrow> bool" where
  "partial_ok chunkSize r \<longleftrightarrow> 0 \<le> wr_partial r \<and> wr_partial r \<le> chunkSize"

definition disk_inv :: "int \<Rightarrow> disk_run \<Rightarrow> bool" where
  "disk_inv maxDisk s \<longleftrightarrow>
     dr_fileSize s = dr_offset s \<and> 0 \<le> dr_offset s \<and> dr_offset s \<le> maxDisk \<and> 0 \<le> dr_length s \<and> dr_length s \<le> maxDisk"

lemma writeWorker_length:
  assumes "0 < chunk" and "chunk < 2 ^ 62" and "maxDisk < 2 ^ 62"
  defines "peak \<equiv> max maxDisk chunk"
  shows "disk_inv peak s \<Longrightarrow> \<forall>r \<in> set rounds. partial_ok chunk r \<Longrightarrow>
     0 \<le> dr_length (writeWorker maxDisk chunk rounds s) \<and> dr_length (writeWorker maxDisk chunk rounds s) \<le> peak"
proof (induction rounds arbitrary: s)
  case (Cons r rounds)
  let ?over = "wrap64 (dr_fileSize s + chunk) > maxDisk"
  have w: "wrap64 (dr_fileSize s + chunk) = dr_fileSize s + chunk"
    using assms(1-3) Cons.prems(1) unfolding peak_def by (intro wrap64_id) (auto simp: disk_inv_def i64_def)
  define s1 where "s1 = (if ?over then s\<lparr>dr_fileSize := 0, dr_offset := 0\<rparr> else s)"
  have s1: "disk_inv peak s1" "dr_offset s1 + chunk \<le> peak"
    using Cons.prems(1) w assms(1-3) by (auto simp: s1_def disk_inv_def peak_def)
  have part: "0 \<le> wr_partial r" "wr_partial r \<le> chunk" using Cons.prems(2) by (simp_all add: partial_ok_def)
  define s2 where "s2 = file_write chunk s1"
  define s3 where "s3 = s2\<lparr>dr_fileSize := wrap64 (dr_fileSize s2 + chunk), dr_written := wrap64 (dr_written s2 + chunk),
      dr_ops := wrap64 (dr_ops s2 + 1)\<rparr>"
  have w2: "wrap64 (dr_fileSize s2 + chunk) = dr_fileSize s2 + chunk"
    using assms(1-3) s1 unfolding peak_def by (intro wrap64_id) (auto simp: disk_inv_def i64_def s2_def file_write_def)
  have s3: "disk_inv peak s3"
    using s1 assms(1-3) w2 by (auto simp: s3_def s2_def file_write_def disk_inv_def)
  have fail: "0 \<le> dr_length (file_write (wr_partial r) s1) \<and> dr_length (file_write (wr_partial r) s1) \<le> peak"
    using s1 part by (auto simp: file_write_def disk_inv_def)
  have ih: "0 \<le> dr_length (writeWorker maxDisk chunk rounds s3) \<and> dr_length (writeWorker maxDisk chunk rounds s3) \<le> peak"
    using Cons.IH [OF s3] Cons.prems(2) by simp
  have "writeWorker maxDisk chunk (r # rounds) s =
      (if wr_done r \<or> \<not> wr_acquired r \<or> (?over \<and> \<not> wr_seek_ok r) then s
       else if \<not> wr_write_ok r then file_write (wr_partial r) s1 else writeWorker maxDisk chunk rounds s3)"
    by (simp add: s1_def s2_def s3_def Let_def)
  with fail ih Cons.prems(1) show ?case by (auto simp: disk_inv_def)
qed (simp add: disk_inv_def)

section \<open>The I/O reader\<close>

record read_round =
  rr_done :: bool
  rr_acquired :: bool
  rr_open_ok :: bool
  rr_read :: int

text \<open>\<open>rd_opened\<close> lists the indices of the files opened, in order.\<close>

record read_run =
  rd_idx :: nat
  rd_total :: int
  rd_ops :: int
  rd_opened :: "nat list"

fun read_loop :: "nat \<Rightarrow> read_round list \<Rightarrow> read_run \<Rightarrow> read_run" where
  "read_loop n [] s = s"
| "read_loop n (r # rounds) s =
     (if rr_done r then s
      else if \<not> rr_acquired r then s
      else if \<not> rr_open_ok r then s
      else read_loop n rounds
             (s\<lparr>rd_total := wrap64 (rd_total s + rr_read r), rd_ops := wrap64 (rd_ops s + 1),
                rd_idx := (rd_idx s + 1) mod n, rd_opened := rd_opened s @ [rd_idx s]\<rparr>))"

definition readWorker :: "nat \<Rightarrow> nat \<Rightarrow> read_round list \<Rightarrow> read_run" where
  "readWorker n workerID rounds =
     read_loop n rounds \<lparr>rd_idx = workerID mod n, rd_total = 0, rd_ops = 0, rd_opened = []\<rparr>"

lemma read_loop_opened:
  assumes "0 < n"
  shows "rd_idx s = (w + length (rd_opened s)) mod n \<Longrightarrow>
     (\<forall>j < length (rd_opened s). rd_opened s ! j = (w + j) mod n) \<Longrightarrow>
     \<forall>j < length (rd_opened (read_loop n rounds s)). rd_opened (read_loop n rounds s) ! j = (w + j) mod n"
proof (induction rounds arbitrary: s)
  case (Cons r rounds)
  let ?s = "s\<lparr>rd_total := wrap64 (rd_total s + rr_read r), rd_ops := wrap64 (rd_ops s + 1),
                rd_idx := (rd_idx s + 1) mod n, rd_opened := rd_opened s @ [rd_idx s]\<rparr>"
  have "rd_idx ?s = (w + length (rd_opened ?s)) mod n"
    using Cons.prems(1) by (simp add: mod_Suc_eq)
  moreover have "\<forall>j < length (rd_opened ?s). rd_opened ?s ! j = (w + j) mod n"
    using Cons.prems by (auto simp: nth_append less_Suc_eq)
  ultimately show ?case using Cons.IH [of ?s] Cons.prems by simp
qed simp

section \<open>Phase events\<close>

datatype phase_event = RampUpStart | RampUpComplete | SustainStart | RampDownStart | RampDownComplete

text \<open>
  \<open>emitPhaseEvents\<close>, the same in the three faults: each \<open>select\<close> either sees its timer fire
  (True) or the context done.
\<close>

definition emitPhaseEvents :: "fault_config \<Rightarrow> bool \<Rightarrow> bool \<Rightarrow> bool \<Rightarrow> phase_event list" where
  "emitPhaseEvents c up sustain down =
     (let rampDownStart = wrap64 (fc_duration c - fc_ramp_down c);
          tail_events =
            SustainStart #
            (if fc_ramp_down c > 0
             then (let sustainDuration = wrap64 (rampDownStart - fc_ramp_up c)
                   in if sustainDuration > 0 \<and> \<not> sustain then []
                      else RampDownStart # (if down then [RampDownComplete] else []))
             else [])
      in if fc_ramp_up c > 0
         then RampUpStart # (if up then RampUpComplete # tail_events else [])
         else tail_events)"

text \<open>The error of the result: only a stop from outside, not the fault's own timeout.\<close>

definition stress_err :: "ctx_error option \<Rightarrow> ctx_error option \<Rightarrow> ctx_error option" where
  "stress_err ctx throttle = (if ctx \<noteq> None \<and> throttle = Some Canceled then ctx else None)"

section \<open>Memory targets\<close>

text \<open>
  \<open>targetTotal\<close>, the product of the target load and the available memory converted to
  \<open>uint64\<close>, is a parameter; the rest of the computation is integer arithmetic.
\<close>

definition memory_target :: "64 word \<Rightarrow> 64 word \<Rightarrow> 64 word" where
  "memory_target targetTotal currentUsage =
     (if targetTotal > currentUsage then targetTotal - currentUsage else 0)"

definition memory_chunks :: "64 word \<Rightarrow> int \<Rightarrow> int" where
  "memory_chunks targetBytes chunkSize =
     (let q = sint targetBytes sdiv chunkSize
      in if q < 1 \<and> targetBytes > 0 then 1 else q)"

section \<open>Properties\<close>

text \<open>
  The disk fault's file never grows beyond the configured maximum or one chunk, whichever is larger,
  over any rounds of the writer.
\<close>

theorem disk_usage_bounded:
  assumes "0 < chunk" and "chunk < 2 ^ 62" and "maxDisk < 2 ^ 62" and "\<forall>r \<in> set rounds. partial_ok chunk r"
  shows "0 \<le> dr_length (writeWorker maxDisk chunk rounds new_file) \<and>
     dr_length (writeWorker maxDisk chunk rounds new_file) \<le> max maxDisk chunk"
  by (rule writeWorker_length [OF assms(1-3) _ assms(4)]) (use assms(1) in \<open>simp add: new_file_def disk_inv_def\<close>)

definition good_round :: write_round where
  "good_round = \<lparr>wr_done = False, wr_acquired = True, wr_seek_ok = True, wr_write_ok = True, wr_partial = 0\<rparr>"

theorem disk_usage_bounded_witness:
  "dr_length (writeWorker 10 4 [good_round, good_round, good_round, good_round] new_file) \<le> 10"
  using disk_usage_bounded [of 4 10 "[good_round, good_round, good_round, good_round]"]
  by (simp add: partial_ok_def good_round_def)

text \<open>
  When the chunk is larger than the configured maximum, which validation accepts, the first
  write already leaves a file of the size of the chunk.
\<close>

theorem disk_usage_exceeded:
  assumes "maxDisk < chunk" and "chunk < 2 ^ 63" and "0 \<le> maxDisk" and "wr_done r = False" and "wr_acquired r"
    and "wr_seek_ok r" and "wr_write_ok r"
  shows "dr_length (writeWorker maxDisk chunk [r] new_file) = chunk \<and> maxDisk < chunk"
proof -
  have "wrap64 chunk = chunk" using assms(1-3) by (intro wrap64_id i64_nonneg) auto
  with assms show ?thesis by (simp add: new_file_def file_write_def Let_def)
qed

theorem disk_usage_exceeded_witness:
  "fault_Validate (NewDiskStressFault 1 1 10 4096 []) = None \<and>
   dr_length (writeWorker 10 4096 [good_round] new_file) = 4096"
proof
  show "fault_Validate (NewDiskStressFault 1 1 10 4096 []) = None"
    by (simp add: NewDiskStressFault_def disk_Validate_def FaultConfig_Validate_def wrap64_def)
  have "wr_done good_round = False" "wr_acquired good_round" "wr_seek_ok good_round" "wr_write_ok good_round"
    by (simp_all add: good_round_def)
  from disk_usage_exceeded [OF _ _ _ this, of 10 4096]
  show "dr_length (writeWorker 10 4096 [good_round] new_file) = 4096" by simp
qed

text \<open>
  The readers go round robin: worker \<open>w\<close> opens the files \<open>w\<close>, \<open>w+1\<close>, ... modulo their
  number, in that order, whatever its rounds bring.
\<close>

theorem readers_round_robin:
  assumes "0 < n" and "j < length (rd_opened (readWorker n w rounds))"
  shows "rd_opened (readWorker n w rounds) ! j = (w + j) mod n"
  using read_loop_opened [OF assms(1), of "\<lparr>rd_idx = w mod n, rd_total = 0, rd_ops = 0, rd_opened = []\<rparr>" w rounds] assms(2)
  by (simp add: readWorker_def)

theorem readers_round_robin_witness:
  "\<exists>r. rd_opened (readWorker 3 2 [r, r]) ! 1 = 0"
proof -
  let ?r = "\<lparr>rr_done = False, rr_acquired = True, rr_open_ok = True, rr_read = 7\<rparr>"
  have "1 < length (rd_opened (readWorker 3 2 [?r, ?r]))" by (simp add: readWorker_def)
  from readers_round_robin [OF _ this] show ?thesis by (intro exI [of _ ?r]) simp
qed

text \<open>
  The phase events of a stopped fault are a prefix of those of an undisturbed one, which
  are, in order, those of the ramps the configuration has around the sustained phase.
\<close>

theorem phase_events_prefix:
  "prefix (emitPhaseEvents c up sustain down) (emitPhaseEvents c True True True) \<and>
   emitPhaseEvents c True True True =
     (if fc_ramp_up c > 0 then [RampUpStart, RampUpComplete] else []) @ [SustainStart] @
     (if fc_ramp_down c > 0 then [RampDownStart, RampDownComplete] else [])"
  by (auto simp: emitPhaseEvents_def Let_def)

text \<open>
  The chunks of the memory fault never take more than the target, unless the target is
  smaller than one chunk; then it is a single chunk.
\<close>

theorem memory_chunks_bounded:
  assumes "0 < chunkSize" and "uint targetBytes < 2 ^ 63"
  shows "(chunkSize \<le> uint targetBytes \<longrightarrow> memory_chunks targetBytes chunkSize * chunkSize \<le> uint targetBytes \<and>
        uint targetBytes < (memory_chunks targetBytes chunkSize + 1) * chunkSize) \<and>
     (uint targetBytes < chunkSize \<longrightarrow> memory_chunks targetBytes chunkSize = (if targetBytes = 0 then 0 else 1))"
proof -
  have s: "sint targetBytes = uint targetBytes"
  proof -
    have "- (2 ^ 63) \<le> uint targetBytes" by (rule order_trans [of _ 0]) simp_all
    with assms(2) show ?thesis by (simp add: sint_uint signed_take_bit_int_eq_self_iff)
  qed
  have q: "sint targetBytes sdiv chunkSize = uint targetBytes div chunkSize"
    unfolding s by (rule sdiv_nonneg) (use assms(1) in simp_all)
  have pos: "targetBytes > 0 \<longleftrightarrow> targetBytes \<noteq> 0" by (simp add: word_gt_0)
  show ?thesis
  proof (intro conjI impI)
    assume big: "chunkSize \<le> uint targetBytes"
    then have "1 \<le> uint targetBytes div chunkSize" using assms(1) by (simp add: pos_imp_zdiv_pos_iff int_one_le_iff_zero_less)
    then have m: "memory_chunks targetBytes chunkSize = uint targetBytes div chunkSize"
      by (simp add: memory_chunks_def q Let_def)
    show "memory_chunks targetBytes chunkSize * chunkSize \<le> uint targetBytes"
      unfolding m using assms(1) by (simp add: minus_mod_eq_div_mult [symmetric])
    have "uint targetBytes mod chunkSize < chunkSize" using assms(1) by simp
    then show "uint targetBytes < (memory_chunks targetBytes chunkSize + 1) * chunkSize"
      unfolding m distrib_right using div_mult_mod_eq [of "uint targetBytes" chunkSize] by linarith
  next
    assume "uint targetBytes < chunkSize"
    then have "uint targetBytes div chunkSize = 0" by (simp add: div_pos_pos_trivial)
    then show "memory_chunks targetBytes chunkSize = (if targetBytes = 0 then 0 else 1)"
      by (simp add: memory_chunks_def q Let_def pos)
  qed
qed

theorem memory_chunks_bounded_witness:
  "memory_chunks 2500000 1000000 * 1000000 \<le> 2500000"
  using memory_chunks_bounded [of 1000000 2500000] by simp

end
