(* ===== verification/Resource_Ramp.thy ===== *)
theory Resource_Ramp
  imports Float_Arith Resource_Stress
begin

text \<open>
  The timeline of the resource faults: \<open>rampLoop\<close> of \<open>internal/fault/resource/disk/stress.go\<close> and of
  \<open>internal/fault/resource/io/stress.go\<close>, the same code, which sets the rate of the token bucket, and
  the bucket under the workers and the ramp together. The locale \<open>adjustable_limiter\<close> extends
  \<open>rate_limiter\<close> by changes of the rate.
\<close>

section \<open>The timeline\<close>

text \<open>
  The rate, or the load, at a time after the start: linear up, constant, linear down. The
  computation is that of the code, in \<open>float64\<close>.
\<close>

definition ramp_level :: "float64 \<Rightarrow> int \<Rightarrow> int \<Rightarrow> int \<Rightarrow> int \<Rightarrow> float64" where
  "ramp_level target totalDuration rampUp rampDown elapsed =
     (let rampDownStart = wrap64 (totalDuration - rampDown)
      in if rampUp > 0 \<and> elapsed < rampUp
         then flt_mul target (flt_div (flt_of_int elapsed) (flt_of_int rampUp))
         else if rampDown > 0 \<and> elapsed \<ge> rampDownStart
         then (let progress = flt_div (flt_of_int (wrap64 (elapsed - rampDownStart))) (flt_of_int rampDown);
                   progress = (if flt_less (Fin 1) progress then Fin 1 else progress)
               in flt_mul target (flt_sub (Fin 1) progress))
         else target)"

text \<open>One tick of \<open>rampLoop\<close>; \<open>ovf\<close> is what \<open>int64\<close> yields outside its range.\<close>

definition effective_rate :: "int \<Rightarrow> int \<Rightarrow> int \<Rightarrow> int \<Rightarrow> int \<Rightarrow> int \<Rightarrow> int" where
  "effective_rate ovf targetRate totalDuration rampUp rampDown elapsed =
     (let effectiveRate =
            float_to_int64 ovf (ramp_level (flt_of_int targetRate) totalDuration rampUp rampDown elapsed)
      in if effectiveRate < 1 then 1 else effectiveRate)"

text \<open>
  \<open>rampLoop\<close> alone with the bucket: for every tick, whether the context is done instead, and the
  time since the start.
\<close>

fun ramp_ticks :: "(int \<Rightarrow> int) \<Rightarrow> (bool \<times> int) list \<Rightarrow> token_bucket \<Rightarrow> token_bucket" where
  "ramp_ticks rate [] tb = tb"
| "ramp_ticks rate ((stop, elapsed) # ticks) tb =
     (if stop then tb else ramp_ticks rate ticks (setRate (rate elapsed) tb))"

definition rampLoop :: "int \<Rightarrow> int \<Rightarrow> int \<Rightarrow> int \<Rightarrow> int \<Rightarrow> (bool \<times> int) list \<Rightarrow> token_bucket \<Rightarrow> token_bucket" where
  "rampLoop ovf targetRate totalDuration rampUp rampDown ticks tb =
     (if rampUp = 0 \<and> rampDown = 0 then tb
      else ramp_ticks (effective_rate ovf targetRate totalDuration rampUp rampDown) ticks tb)"

section \<open>The shape of the timeline\<close>

text \<open>The configuration's ramps, as validation leaves them.\<close>

definition ramps_ok :: "int \<Rightarrow> int \<Rightarrow> int \<Rightarrow> bool" where
  "ramps_ok dur up down \<longleftrightarrow> 0 \<le> up \<and> 0 \<le> down \<and> up + down < dur \<and> dur < 2 ^ 63"

lemma ramps_ok_wrap: "ramps_ok dur up down \<Longrightarrow> wrap64 (dur - down) = dur - down"
  by (intro wrap64_id) (auto simp: ramps_ok_def i64_def)

text \<open>The share of the target at a time: before the rounding of the product.\<close>

definition ramp_share :: "int \<Rightarrow> int \<Rightarrow> int \<Rightarrow> int \<Rightarrow> float64" where
  "ramp_share dur up down e =
     (if 0 < up \<and> e < up then flt_div (flt_of_int e) (flt_of_int up)
      else if 0 < down \<and> dur - down \<le> e
      then flt_sub (Fin 1) (if e - (dur - down) \<le> down then flt_div (flt_of_int (e - (dur - down))) (flt_of_int down) else Fin 1)
      else Fin 1)"

lemma progress_capped:
  assumes "0 \<le> x" and "x < 2 ^ 63" and "0 < u" and "u < 2 ^ 63"
  shows "(if flt_less (Fin 1) (flt_div (flt_of_int x) (flt_of_int u)) then Fin 1
          else flt_div (flt_of_int x) (flt_of_int u)) =
         (if x \<le> u then flt_div (flt_of_int x) (flt_of_int u) else Fin 1)"
proof (cases "x \<le> u")
  case True
  obtain p where "flt_div (flt_of_int x) (flt_of_int u) = Fin p" "p \<le> 1"
    using flt_ratio_mono [of x x u] True assms by auto
  with True show ?thesis by simp
next
  case False
  obtain a where a: "flt_of_int x = Fin a" "0 \<le> a" "a \<le> 2 ^ 64" using flt_of_int_range [of x] assms by auto
  obtain w where w: "flt_of_int u = Fin w" "1 \<le> w" using flt_of_int_range [of u] assms by auto
  have "w \<le> a" using flt_of_int_mono [of u x a] False assms a w by auto
  then have "1 \<le> a / w" using w by simp
  moreover have "a / w \<le> pow2 64"
  proof -
    have "a / w \<le> a / 1" using a w by (intro divide_left_mono) simp_all
    also have "\<dots> \<le> pow2 64" using a pow2_nat [of 64] by simp
    finally show ?thesis .
  qed
  ultimately obtain v where v: "round64 (a / w) = Fin v"
    using round64_le [of "a / w" "pow2 64"] float_rat_pow2 [of 64] by auto
  have "1 \<le> v" using round64_mono [OF _ \<open>1 \<le> a / w\<close> v] float_rat_1 by (auto simp: float_rat_def)
  with v a w False show ?thesis by (simp add: flt_div_def)
qed

lemma ramp_level_share:
  assumes "ramps_ok dur up down" and "0 \<le> e" and "e < 2 ^ 63" and "float_rat t"
  shows "ramp_level (Fin t) dur up down e = flt_mul (Fin t) (ramp_share dur up down e)"
proof -
  have w: "wrap64 (dur - down) = dur - down" by (rule ramps_ok_wrap [OF assms(1)])
  have "ramp_level (Fin t) dur up down e = flt_mul (Fin t) (ramp_share dur up down e)"
    if d: "0 < down" "dur - down \<le> e" "\<not> (0 < up \<and> e < up)"
  proof -
    have e: "0 \<le> e - (dur - down)" "e - (dur - down) < 2 ^ 63"
      using d assms by (auto simp: ramps_ok_def)
    then have "wrap64 (e - (dur - down)) = e - (dur - down)" by (intro wrap64_id i64_nonneg)
    moreover have "down < 2 ^ 63" using assms(1) by (simp add: ramps_ok_def)
    ultimately show ?thesis
      using d by (simp only: ramp_level_def w Let_def ramp_share_def progress_capped [OF e d(1)] if_True if_False simp_thms)
  qed
  then show ?thesis using assms(4) by (auto simp: ramp_level_def ramp_share_def w Let_def)
qed

text \<open>The shares lie between 0 and 1; they rise to the end of the ramp and fall after it.\<close>

lemma one_minus:
  assumes "0 \<le> p" and "p \<le> q" and "q \<le> 1"
  shows "\<exists>x y. flt_sub (Fin 1) (Fin p) = Fin x \<and> flt_sub (Fin 1) (Fin q) = Fin y \<and> 0 \<le> y \<and> y \<le> x \<and> x \<le> 1"
proof -
  have 0: "0 \<le> 1 - p" "1 - p \<le> 1" using assms by auto
  obtain x where x: "round64 (1 - p) = Fin x" "x \<le> 1" using round64_le [OF 0 float_rat_1] by auto
  have "0 \<le> 1 - q" "1 - q \<le> 1 - p" using assms by auto
  then obtain y where "round64 (1 - q) = Fin y" "0 \<le> y" "y \<le> x" using round64_mono [OF _ _ x(1)] by blast
  with x show ?thesis by (simp add: flt_sub_def)
qed

lemma ramp_share_unit:
  assumes "ramps_ok dur up down" and "0 \<le> e" shows "\<exists>x. ramp_share dur up down e = Fin x \<and> 0 \<le> x \<and> x \<le> 1"
proof -
  have u: "up < 2 ^ 63" "down < 2 ^ 63" using assms(1) by (auto simp: ramps_ok_def)
  note up = flt_ratio_mono [of e e up, OF _ _ _ _ u(1)]
  note down = flt_ratio_mono [of "e - (dur - down)" "e - (dur - down)" down, OF _ _ _ _ u(2)]
  show ?thesis
  proof (cases "0 < up \<and> e < up")
    case True
    with up assms(2) show ?thesis by (auto simp: ramp_share_def)
  next
    case False
    show ?thesis
    proof (cases "0 < down \<and> dur - down \<le> e")
      case in_down: True
      let ?r = "if e - (dur - down) \<le> down then flt_div (flt_of_int (e - (dur - down))) (flt_of_int down) else Fin 1"
      have "\<exists>p. ?r = Fin p \<and> 0 \<le> p \<and> p \<le> 1" using in_down down by auto
      then obtain p where p: "?r = Fin p" "0 \<le> p" "p \<le> 1" by blast
      have "ramp_share dur up down e = flt_sub (Fin 1) ?r" using in_down False by (auto simp: ramp_share_def)
      with one_minus [OF p(2) order_refl p(3)] p(1) show ?thesis by auto
    qed (use False in \<open>auto simp: ramp_share_def\<close>)
  qed
qed

lemma ramp_share_rises:
  assumes "ramps_ok dur up down" and "0 \<le> e" and "e \<le> e'" and "e' < dur - down \<or> down = 0"
  shows "\<exists>x y. ramp_share dur up down e = Fin x \<and> ramp_share dur up down e' = Fin y \<and> x \<le> y"
proof (cases "0 < up \<and> e' < up")
  case True
  moreover have "up < 2 ^ 63" using assms(1) by (auto simp: ramps_ok_def)
  ultimately show ?thesis
    using flt_ratio_mono [of e e' up] assms by (auto simp: ramp_share_def)
next
  case False
  then have "ramp_share dur up down e' = Fin 1" using assms(4) by (auto simp: ramp_share_def)
  with ramp_share_unit [OF assms(1,2)] show ?thesis by auto
qed

lemma ramp_share_falls:
  assumes "ramps_ok dur up down" and "up \<le> e" and "e \<le> e'"
  shows "\<exists>x y. ramp_share dur up down e = Fin x \<and> ramp_share dur up down e' = Fin y \<and> y \<le> x"
proof (cases "0 < down \<and> dur - down \<le> e")
  case False
  then have "ramp_share dur up down e = Fin 1" using assms(2) by (auto simp: ramp_share_def)
  moreover have "0 \<le> e'" using assms by (auto simp: ramps_ok_def)
  ultimately show ?thesis using ramp_share_unit [OF assms(1), of e'] by auto
next
  case True
  have d: "down < 2 ^ 63" using assms(1) by (auto simp: ramps_ok_def)
  let ?s = "dur - down"
  let ?r = "\<lambda>x. if x - ?s \<le> down then flt_div (flt_of_int (x - ?s)) (flt_of_int down) else Fin 1"
  have "\<exists>p q. ?r e = Fin p \<and> ?r e' = Fin q \<and> 0 \<le> p \<and> p \<le> q \<and> q \<le> 1"
  proof (cases "e' - ?s \<le> down")
    case True
    with flt_ratio_mono [of "e - ?s" "e' - ?s" down] \<open>0 < down \<and> ?s \<le> e\<close> assms(3) d show ?thesis by auto
  next
    case False
    with flt_ratio_mono [of "e - ?s" "e - ?s" down] \<open>0 < down \<and> ?s \<le> e\<close> d show ?thesis by auto
  qed
  then obtain p q where pq: "?r e = Fin p" "?r e' = Fin q" "0 \<le> p" "p \<le> q" "q \<le> 1" by blast
  have "ramp_share dur up down e = flt_sub (Fin 1) (?r e)" "ramp_share dur up down e' = flt_sub (Fin 1) (?r e')"
    using True assms(2,3) by (auto simp: ramp_share_def)
  with one_minus [OF pq(3-5)] pq(1,2) show ?thesis by auto
qed

section \<open>Limiters whose rate changes\<close>

datatype limiter_op = Take int int | Adjust int

locale adjustable_limiter = rate_limiter +
  fixes adjust :: "int \<Rightarrow> 'a \<Rightarrow> 'a" and settable :: "int \<Rightarrow> 'a \<Rightarrow> bool"
  assumes adjust_good: "good s \<Longrightarrow> settable r s \<Longrightarrow> good (adjust r s)"
    and adjust_rate: "rate (adjust r s) = r"
    and adjust_level: "level (adjust r s) \<le> level s"
    and adjust_clock: "clock (adjust r s) = clock s"
    and take_clock: "clock s \<le> clock (snd (take now n s))"
begin

text \<open>Requests and changes of the rate in any order, and the total that is granted.\<close>

fun served :: "limiter_op list \<Rightarrow> 'a \<Rightarrow> int \<times> 'a" where
  "served [] s = (0, s)"
| "served (Take now n # ops) s =
     (let (ok, s') = take now n s; (total, s'') = served ops s' in ((if ok then n else 0) + total, s''))"
| "served (Adjust r # ops) s = served ops (adjust r s)"

fun served_ok :: "limiter_op list \<Rightarrow> 'a \<Rightarrow> bool" where
  "served_ok [] s = True"
| "served_ok (Take now n # ops) s = (admissible s now n \<and> served_ok ops (snd (take now n s)))"
| "served_ok (Adjust r # ops) s = (settable r s \<and> served_ok ops (adjust r s))"

fun rates_within :: "int \<Rightarrow> limiter_op list \<Rightarrow> bool" where
  "rates_within m [] = True"
| "rates_within m (Take now n # ops) = rates_within m ops"
| "rates_within m (Adjust r # ops) = (r \<le> m \<and> rates_within m ops)"

lemma served_good: "good s \<Longrightarrow> served_ok ops s \<Longrightarrow> good (snd (served ops s))"
proof (induction ops arbitrary: s)
  case (Cons op ops)
  then show ?case by (cases op) (auto simp: split_beta Let_def take_good adjust_good)
qed simp

lemma served_level:
  "good s \<Longrightarrow> served_ok ops s \<Longrightarrow> rate s \<le> m \<Longrightarrow> rates_within m ops \<Longrightarrow>
   fst (served ops s) * Second + level (snd (served ops s)) * Second \<le>
     level s * Second + m * (clock (snd (served ops s)) - clock s)"
proof (induction ops s rule: served.induct)
  case (2 now n ops s)
  obtain ok s' where t: "take now n s = (ok, s')" by fastforce
  obtain total s'' where g: "served ops s' = (total, s'')" by fastforce
  have adm: "admissible s now n" "served_ok ops s'" using 2(3) t by simp_all
  have "good s'" and r: "rate s' = rate s"
    using take_good [OF 2(2) adm(1)] take_rate [of now n s] t by simp_all
  with 2(1) [OF t [symmetric] refl _ adm(2)] 2(4,5) g
  have ih: "total * Second + level s'' * Second \<le> level s' * Second + m * (clock s'' - clock s')"
    by simp
  have "rate s * (clock s' - clock s) \<le> m * (clock s' - clock s)"
    using 2(4) take_clock [of s now n] t by (intro mult_right_mono) simp_all
  with take_level [OF 2(2) adm(1)] t
  have "level s' * Second \<le> level s * Second + m * (clock s' - clock s) - (if ok then n * Second else 0)"
    by simp
  with t g ih show ?case by (auto simp: algebra_simps)
next
  case (3 r ops s)
  have "good (adjust r s)" using 3 by (simp add: adjust_good)
  with 3 have "fst (served ops (adjust r s)) * Second + level (snd (served ops (adjust r s))) * Second \<le>
      level (adjust r s) * Second + m * (clock (snd (served ops (adjust r s))) - clock s)"
    by (simp add: adjust_rate adjust_clock)
  moreover have "level (adjust r s) * Second \<le> level s * Second"
    using adjust_level [of r s] by (intro mult_right_mono) (simp_all add: Second_def)
  ultimately show ?case by simp
qed simp

lemma served_throughput:
  assumes "good s" and "served_ok ops s" and "rate s \<le> m" and "rates_within m ops"
  shows "fst (served ops s) * Second \<le> level s * Second + m * (clock (snd (served ops s)) - clock s)"
proof -
  have "0 \<le> level (snd (served ops s)) * Second"
    using level_nonneg [OF served_good [OF assms(1,2)]] by (simp add: Second_def)
  with served_level [OF assms] show ?thesis by linarith
qed

end

definition bucket_settable :: "int \<Rightarrow> token_bucket \<Rightarrow> bool" where
  "bucket_settable r tb \<longleftrightarrow> 0 \<le> r \<and> r * RefillInterval < 2 ^ 62 \<and> tb_minCap tb < 2 ^ 62"

lemma bucketCapacity_range:
  assumes "0 \<le> r" and "r * RefillInterval < 2 ^ 62" and "m < 2 ^ 62"
  shows "0 < bucketCapacity r m" and "bucketCapacity r m < 2 ^ 62"
proof -
  have o: "r * RefillInterval < 2 ^ 63" using assms(2) by simp
  show "0 < bucketCapacity r m" by (rule bucketCapacity_bound(2) [OF assms(1) o])
  have "2 * r * RefillInterval div Second \<le> 2 ^ 63 div Second"
    using assms(2) by (intro zdiv_mono1) (simp_all add: Second_def mult.commute)
  also have "\<dots> < 2 ^ 61" by (simp add: Second_def)
  finally show "bucketCapacity r m < 2 ^ 62" using bucketCapacity_bound(1) [OF assms(1) o, of m] assms(3) by simp
qed

lemma setRate_good:
  assumes "bucket_good tb" and "bucket_settable r tb" shows "bucket_good (setRate r tb)"
  using bucketCapacity_range [of r "tb_minCap tb"] assms
  by (auto simp: bucket_good_def bucket_settable_def setRate_def Let_def)

interpretation throttle: adjustable_limiter try_acquire tb_tokens tb_lastTick tb_rate bucket_good bucket_admissible
  setRate bucket_settable
proof unfold_locales
  fix s :: token_bucket and r now n :: int
  show "bucket_good (setRate r s)" if "bucket_good s" "bucket_settable r s" using that by (rule setRate_good)
  show "tb_rate (setRate r s) = r" "tb_tokens (setRate r s) \<le> tb_tokens s" "tb_lastTick (setRate r s) = tb_lastTick s"
    by (simp_all add: setRate_def Let_def)
  show "tb_lastTick s \<le> tb_lastTick (snd (try_acquire now n s))"
    by (auto simp: try_acquire_def refill_def time_sub_def Let_def min_def)
qed

section \<open>The bucket of a fault\<close>

text \<open>
  What reaches the bucket of a running fault, in the order of its lock: a round of a worker's
  \<open>acquire\<close> for \<open>n\<close> bytes at an instant, or a tick of the ramp at a time since the start.
\<close>

datatype throttle_event = Worker int | Ramp int

primrec throttle_op :: "(int \<Rightarrow> int) \<Rightarrow> int \<Rightarrow> throttle_event \<Rightarrow> limiter_op" where
  "throttle_op rate n (Worker now) = Take now n"
| "throttle_op rate n (Ramp elapsed) = Adjust (rate elapsed)"

text \<open>The clock does not run backwards, and the gaps are short enough for the multiplication.\<close>

fun gaps_ok :: "int \<Rightarrow> int \<Rightarrow> throttle_event list \<Rightarrow> bool" where
  "gaps_ok m t [] = True"
| "gaps_ok m t (Worker now # ops) = (t \<le> now \<and> m * (now - t) < 2 ^ 62 \<and> gaps_ok m now ops)"
| "gaps_ok m t (Ramp elapsed # ops) = (0 \<le> elapsed \<and> elapsed < 2 ^ 63 \<and> gaps_ok m t ops)"

lemma try_acquire_clock:
  assumes "tb_lastTick tb \<le> now"
  shows "tb_lastTick (snd (try_acquire now n tb)) = now" and "tb_minCap (snd (try_acquire now n tb)) = tb_minCap tb"
  using assms by (auto simp: try_acquire_def refill_def time_sub_def Let_def min_def)

lemma throttle_ok:
  assumes "1 \<le> m" and "m * RefillInterval < 2 ^ 62" and "0 \<le> n"
    and rate: "\<And>e. 0 \<le> e \<Longrightarrow> e < 2 ^ 63 \<Longrightarrow> 1 \<le> rate e \<and> rate e \<le> m"
  shows "bucket_good tb \<Longrightarrow> 0 \<le> tb_rate tb \<Longrightarrow> tb_rate tb \<le> m \<Longrightarrow> tb_minCap tb < 2 ^ 62 \<Longrightarrow> gaps_ok m (tb_lastTick tb) ops \<Longrightarrow>
     throttle.served_ok (map (throttle_op rate n) ops) tb \<and> throttle.rates_within m (map (throttle_op rate n) ops)"
proof (induction ops arbitrary: tb)
  case (Cons op ops)
  show ?case
  proof (cases op)
    case (Worker now)
    let ?d = "now - tb_lastTick tb" and ?tb = "snd (try_acquire now n tb)"
    have g: "0 \<le> ?d" "m * ?d < 2 ^ 62" "gaps_ok m now ops" using Cons.prems(5) Worker by simp_all
    have "tb_rate tb * ?d \<le> m * ?d" and "1 * ?d \<le> m * ?d"
      using Cons.prems(3) g(1) assms(1) by (simp_all add: mult_right_mono del: mult_1)
    with g(2) assms(3) have adm: "bucket_admissible tb now n" by (simp add: bucket_admissible_def)
    have "bucket_good ?tb" using bucket.take_good [OF Cons.prems(1) adm] .
    moreover have "tb_rate ?tb = tb_rate tb" by (rule bucket.take_rate)
    ultimately show ?thesis
      using Cons.IH [of ?tb] Cons.prems try_acquire_clock [of tb now n] g adm Worker by simp
  next
    case (Ramp e)
    then have e: "0 \<le> e" "e < 2 ^ 63" "gaps_ok m (tb_lastTick tb) ops" using Cons.prems(5) by simp_all
    note r = rate [OF e(1,2)]
    have "rate e * RefillInterval \<le> m * RefillInterval"
      using r by (intro mult_right_mono) (simp_all add: RefillInterval_def Millisecond_def)
    with r assms(2) Cons.prems(4) have set: "bucket_settable (rate e) tb" by (simp add: bucket_settable_def)
    let ?tb = "setRate (rate e) tb"
    have "bucket_good ?tb" by (rule setRate_good [OF Cons.prems(1) set])
    moreover have "tb_rate ?tb = rate e" "tb_minCap ?tb = tb_minCap tb" "tb_lastTick ?tb = tb_lastTick tb"
      by (simp_all add: setRate_def Let_def)
    ultimately show ?thesis using Cons.IH [of ?tb] Cons.prems r e set Ramp by simp
  qed
qed simp

lemma effective_rate_level:
  assumes "ramps_ok dur up down" and "1 \<le> target" and "target \<le> 2 ^ 53" and "0 \<le> e" and "e < 2 ^ 63"
    and "ramp_level (Fin (of_int target)) dur up down e = Fin v" and "0 \<le> v" and "v \<le> of_int target"
  shows "effective_rate ovf target dur up down e = max 1 \<lfloor>v\<rfloor>"
proof -
  have "flt_of_int target = Fin (of_int target)" using assms by (intro flt_of_int_small) auto
  with assms(6) float_to_int64_bounds [OF assms(7,8)] assms(3,7) show ?thesis
    by (auto simp: effective_rate_def Let_def rat_trunc_def)
qed

lemma ramp_level_bounds:
  assumes "ramps_ok dur up down" and "0 \<le> e" and "e < 2 ^ 63" and "float_rat t" and "0 \<le> t"
  shows "\<exists>v. ramp_level (Fin t) dur up down e = Fin v \<and> float_rat v \<and> 0 \<le> v \<and> v \<le> t"
  using ramp_share_unit [OF assms(1,2)] flt_mul_unit [OF assms(4,5)] ramp_level_share [OF assms(1-4)] by auto

lemma effective_rate_bounds:
  assumes "ramps_ok dur up down" and "1 \<le> target" and "target \<le> 2 ^ 53" and "0 \<le> e" and "e < 2 ^ 63"
  shows "1 \<le> effective_rate ovf target dur up down e" and "effective_rate ovf target dur up down e \<le> target"
proof -
  obtain v where v: "ramp_level (Fin (of_int target)) dur up down e = Fin v" "0 \<le> v" "v \<le> of_int target"
    using ramp_level_bounds [OF assms(1,4,5) float_rat_int [of target]] assms(2,3) by auto
  have "\<lfloor>v\<rfloor> \<le> target" using v(3) by (simp add: floor_le_iff)
  with effective_rate_level [OF assms v] assms(2)
  show "1 \<le> effective_rate ovf target dur up down e" "effective_rate ovf target dur up down e \<le> target" by simp_all
qed

lemma valid_ramps:
  assumes "FaultConfig_Validate c = None" and "i64 (fc_duration c)" and "i64 (fc_ramp_up c)" and "i64 (fc_ramp_down c)"
    and "fc_ramp_up c + fc_ramp_down c < 2 ^ 63"
  shows "ramps_ok (fc_duration c) (fc_ramp_up c) (fc_ramp_down c)"
proof -
  have "0 \<le> fc_ramp_up c" "0 \<le> fc_ramp_down c" "wrap64 (fc_ramp_up c + fc_ramp_down c) < fc_duration c"
    using assms(1) by (simp_all add: FaultConfig_Validate_def split: if_splits)
  with assms show ?thesis by (simp add: ramps_ok_def wrap64_id i64_nonneg) (simp add: i64_def)
qed

section \<open>Phase events\<close>

text \<open>
  The events of \<open>emitPhaseEvents\<close> with their attributes: the target, a load or a rate, and the
  lengths of the ramps in milliseconds. As in \<open>Resource_Stress\<close>, each flag says that its
  timer fires before the context is done.
\<close>

datatype attr_value = FloatAttr float64 | IntAttr int

type_synonym resource_event = "phase_event \<times> (string \<times> attr_value) list"

definition Milliseconds :: "int \<Rightarrow> int" where
  "Milliseconds d = d sdiv Millisecond"

definition phase_events :: "string \<times> attr_value \<Rightarrow> fault_config \<Rightarrow> bool \<Rightarrow> bool \<Rightarrow> bool \<Rightarrow> resource_event list" where
  "phase_events target c up sustain down =
     map (\<lambda>ev. (ev,
       case ev of
         RampUpStart \<Rightarrow> [target, (''atropos.resource.ramp_up_ms'', IntAttr (Milliseconds (fc_ramp_up c)))]
       | SustainStart \<Rightarrow> [target]
       | RampDownStart \<Rightarrow> [(''atropos.resource.ramp_down_ms'', IntAttr (Milliseconds (fc_ramp_down c)))]
       | _ \<Rightarrow> []))
     (emitPhaseEvents c up sustain down)"

text \<open>The emitter runs only when there is an event hook and a ramp.\<close>

definition phase_tracking :: "bool \<Rightarrow> fault_config \<Rightarrow> bool" where
  "phase_tracking emit c \<longleftrightarrow> emit \<and> (fc_ramp_up c > 0 \<or> fc_ramp_down c > 0)"

section \<open>Properties\<close>

text \<open>
  C35. Whatever the ramps, the durations and the rounding of \<open>float64\<close>: the level of a valid timeline
  never decreases until its ramp-down starts and never increases once its ramp-up is over. It
  is the target in between, and nothing after the end of a timeline with a ramp-down.
\<close>

theorem ramp_unimodal:
  assumes "ramps_ok dur up down" and "float_rat t" and "0 \<le> t" and "0 \<le> e" and "e \<le> e'" and "e' < 2 ^ 63"
  shows "(e' < dur - down \<or> down = 0 \<longrightarrow>
          flt_leq (ramp_level (Fin t) dur up down e) (ramp_level (Fin t) dur up down e')) \<and>
     (up \<le> e \<longrightarrow> flt_leq (ramp_level (Fin t) dur up down e') (ramp_level (Fin t) dur up down e)) \<and>
     (up \<le> e \<and> (e < dur - down \<or> down = 0) \<longrightarrow> ramp_level (Fin t) dur up down e = Fin t) \<and>
     (0 < down \<and> dur \<le> e \<longrightarrow> ramp_level (Fin t) dur up down e = Fin 0)"
proof -
  let ?L = "ramp_level (Fin t) dur up down" and ?s = "ramp_share dur up down"
  have e: "e < 2 ^ 63" "0 \<le> e'" using assms by auto
  have L: "?L e = flt_mul (Fin t) (?s e)" "?L e' = flt_mul (Fin t) (?s e')"
    using ramp_level_share assms e by simp_all
  obtain x where x: "?s e = Fin x" "0 \<le> x" "x \<le> 1" using ramp_share_unit [OF assms(1,4)] by blast
  obtain y where y: "?s e' = Fin y" "0 \<le> y" "y \<le> 1" using ramp_share_unit [OF assms(1) e(2)] by blast
  have le: "flt_leq (flt_mul (Fin t) (Fin a)) (flt_mul (Fin t) (Fin b))" if ab: "0 \<le> a" "a \<le> b" "b \<le> 1" for a b
  proof -
    obtain w where w: "flt_mul (Fin t) (Fin b) = Fin w" using flt_mul_unit [OF assms(2,3) _ ab(3)] ab by auto
    from flt_mul_mono [OF assms(3) ab(1,2) w] w show ?thesis by auto
  qed
  have "flt_leq (?L e) (?L e')" if "e' < dur - down \<or> down = 0"
    using ramp_share_rises [OF assms(1,4,5) that] L x y le by auto
  moreover have "flt_leq (?L e') (?L e)" if "up \<le> e"
    using ramp_share_falls [OF assms(1) that assms(5)] L x y le by auto
  moreover have "?L e = Fin t" if "up \<le> e" "e < dur - down \<or> down = 0"
    using that L(1) assms(2) by (auto simp: ramp_share_def)
  moreover have "?L e = Fin 0" if "0 < down" "dur \<le> e"
  proof -
    have d: "down < 2 ^ 63" "0 \<le> up" "up < dur" using assms(1) that by (auto simp: ramps_ok_def)
    have "flt_sub (Fin 1) (Fin 1) = Fin 0" by (simp add: flt_sub_def)
    then have "?s e = Fin 0" using that d flt_ratio_same [of down] by (auto simp: ramp_share_def)
    then show ?thesis using L(1) by simp
  qed
  ultimately show ?thesis by blast
qed

theorem ramp_unimodal_witness:
  "ramp_level (Fin 1) 100 10 20 50 = Fin 1 \<and> ramp_level (Fin 1) 100 10 20 200 = Fin 0 \<and>
   flt_leq (ramp_level (Fin 1) 100 10 20 3) (ramp_level (Fin 1) 100 10 20 7)"
proof -
  have ok: "ramps_ok 100 10 20" by (simp add: ramps_ok_def)
  from ramp_unimodal [OF ok float_rat_1, of 50 50] ramp_unimodal [OF ok float_rat_1, of 200 200]
    ramp_unimodal [OF ok float_rat_1, of 3 7]
  show ?thesis by simp
qed

text \<open>
  The rate the ramp sets is a whole number from 1 to the target; it is the target itself
  between the ramps.
\<close>

theorem ramp_rate_range:
  assumes "FaultConfig_Validate c = None" and "i64 (fc_duration c)" and "i64 (fc_ramp_up c)" and "i64 (fc_ramp_down c)"
    and "fc_ramp_up c + fc_ramp_down c < 2 ^ 63" and "1 \<le> target" and "target \<le> 2 ^ 53" and "0 \<le> e" and "e < 2 ^ 63"
  shows "1 \<le> effective_rate ovf target (fc_duration c) (fc_ramp_up c) (fc_ramp_down c) e \<and>
     effective_rate ovf target (fc_duration c) (fc_ramp_up c) (fc_ramp_down c) e \<le> target \<and>
     (fc_ramp_up c \<le> e \<and> (e < fc_duration c - fc_ramp_down c \<or> fc_ramp_down c = 0) \<longrightarrow>
        effective_rate ovf target (fc_duration c) (fc_ramp_up c) (fc_ramp_down c) e = target)"
proof -
  note ok = valid_ramps [OF assms(1-5)]
  let ?L = "ramp_level (Fin (of_int target)) (fc_duration c) (fc_ramp_up c) (fc_ramp_down c) e"
  have f: "float_rat (of_int target)" using assms by (intro float_rat_int) auto
  have "?L = Fin (of_int target)" if "fc_ramp_up c \<le> e" "e < fc_duration c - fc_ramp_down c \<or> fc_ramp_down c = 0"
    using that ramp_level_share [OF ok assms(8,9) f] f by (auto simp: ramp_share_def)
  with effective_rate_bounds [OF ok assms(6-9)] effective_rate_level [OF ok assms(6-9)] assms(6) show ?thesis by auto
qed

definition sample_ramps :: fault_config where
  "sample_ramps = \<lparr>fc_duration = 100 * Second, fc_ramp_up = 10 * Second, fc_ramp_down = 20 * Second\<rparr>"

lemma sample_ramps_ok:
  "FaultConfig_Validate sample_ramps = None" "i64 (fc_duration sample_ramps)" "i64 (fc_ramp_up sample_ramps)"
  "i64 (fc_ramp_down sample_ramps)" "fc_ramp_up sample_ramps + fc_ramp_down sample_ramps < 2 ^ 63"
  by (simp_all add: sample_ramps_def FaultConfig_Validate_def Second_def i64_def wrap64_def)

theorem ramp_rate_range_witness:
  "effective_rate 0 102400 (100 * Second) (10 * Second) (20 * Second) (50 * Second) = 102400"
  using ramp_rate_range [OF sample_ramps_ok, of 102400 "50 * Second" 0] by (simp add: sample_ramps_def Second_def)

text \<open>
  Throughput under a ramp. However the workers' requests and the ticks of the ramp interleave,
  the bytes a fault is granted are at most the bucket's first filling plus the target rate times the
  time that has passed, and the bucket stays well-formed.
\<close>

theorem ramp_throughput:
  assumes "FaultConfig_Validate c = None" and "i64 (fc_duration c)" and "i64 (fc_ramp_up c)" and "i64 (fc_ramp_down c)"
    and "fc_ramp_up c + fc_ramp_down c < 2 ^ 63" and "1 \<le> target" and "target * RefillInterval < 2 ^ 62"
    and "0 \<le> chunk" and "chunk < 2 ^ 62" and "gaps_ok target start ops"
  shows "let rate = effective_rate ovf target (fc_duration c) (fc_ramp_up c) (fc_ramp_down c);
       (granted, tb) = throttle.served (map (throttle_op rate chunk) ops) (newTokenBucket start target chunk)
     in granted * Second \<le> bucketCapacity target chunk * Second + target * (tb_lastTick tb - start) \<and> bucket_good tb"
proof -
  let ?rate = "effective_rate ovf target (fc_duration c) (fc_ramp_up c) (fc_ramp_down c)"
  let ?tb = "newTokenBucket start target chunk" and ?ops = "map (throttle_op ?rate chunk) ops"
  note ok = valid_ramps [OF assms(1-5)]
  have "target \<le> target * RefillInterval" using assms(6) by (simp add: RefillInterval_def Millisecond_def)
  moreover have "2 ^ 62 div RefillInterval < 2 ^ 53" by (simp add: RefillInterval_def Millisecond_def)
  moreover have "target \<le> 2 ^ 62 div RefillInterval"
    using assms(7) by (simp add: int_le_div_iff RefillInterval_def Millisecond_def)
  ultimately have t: "target \<le> 2 ^ 53" by simp
  have good: "bucket_good ?tb"
    using bucketCapacity_range [of target chunk] assms by (simp add: newTokenBucket_def Let_def bucket_good_def)
  have f: "tb_rate ?tb = target" "tb_minCap ?tb = chunk" "tb_lastTick ?tb = start" "tb_tokens ?tb = bucketCapacity target chunk"
    by (simp_all add: newTokenBucket_def Let_def)
  have rate: "1 \<le> ?rate e \<and> ?rate e \<le> target" if "0 \<le> e" "e < 2 ^ 63" for e
    using effective_rate_bounds [OF ok assms(6) t that] by simp
  have ops: "throttle.served_ok ?ops ?tb" "throttle.rates_within target ?ops"
    using throttle_ok [OF assms(6,7,8) rate good] f assms by simp_all
  from throttle.served_throughput [OF good ops(1) _ ops(2)] throttle.served_good [OF good ops(1)] f
  show ?thesis by (simp add: Let_def split_beta)
qed

theorem ramp_throughput_witness:
  "bucket_good (snd (throttle.served
     (map (throttle_op (effective_rate 0 102400 (100 * Second) (10 * Second) (20 * Second)) 4096)
        [Worker 5, Ramp (10 * Millisecond), Worker (20 * Millisecond)]) (newTokenBucket 0 102400 4096)))"
proof -
  have "gaps_ok 102400 0 [Worker 5, Ramp (10 * Millisecond), Worker (20 * Millisecond)]"
    by (simp add: Millisecond_def)
  from ramp_throughput [OF sample_ramps_ok _ _ _ _ this, of 4096 0] show ?thesis
    by (simp add: sample_ramps_def Let_def split_beta RefillInterval_def Millisecond_def)
qed

end
