(* ===== verification/Go_Text.thy ===== *)
theory Go_Text
  imports Atropos_Prelude
begin

text \<open>
  What the code uses of Go's library to read text: the lines of a \<open>bufio.Scanner\<close>,
  \<open>strings.TrimSpace\<close> and \<open>strings.Fields\<close>, on the bytes of a string.
\<close>

section \<open>Lines\<close>

text \<open>
  \<open>bufio.Scanner\<close> with a buffer of at most \<open>limit\<close> bytes: lines end at a line feed and lose one carriage
  return; the rest of the stream is a last line unless it is empty; a line that does not fit
  into the buffer with its line feed ends the scan with an error.
\<close>

definition drop_cr :: "string \<Rightarrow> string" where
  "drop_cr l = (if l \<noteq> [] \<and> last l = char_of (13 :: nat) then butlast l else l)"

definition lf :: char where
  "lf = char_of (10 :: nat)"

function scan_lines :: "nat \<Rightarrow> string \<Rightarrow> string list \<times> bool" where
  "scan_lines limit s =
     (if s = [] then ([], False)
      else (let l = takeWhile (\<lambda>c. c \<noteq> lf) s; r = dropWhile (\<lambda>c. c \<noteq> lf) s in
        if limit \<le> length l then ([], True)
        else if r = [] then ([drop_cr l], False)
        else (let (ls, err) = scan_lines limit (tl r) in (drop_cr l # ls, err))))"
  by pat_completeness auto
termination
proof (relation "measure (length \<circ> snd)")
  fix limit :: nat and s l r assume "r = dropWhile (\<lambda>c. c \<noteq> lf) s" "r \<noteq> []"
  have "length (tl r) < length r" using \<open>r \<noteq> []\<close> by simp
  also have "length r \<le> length s" unfolding \<open>r = _\<close> by (rule length_dropWhile_le)
  finally show "((limit, tl r), limit, s) \<in> measure (length \<circ> snd)" by simp
qed simp

declare scan_lines.simps [simp del]

section \<open>Trimming white space\<close>

text \<open>\<open>strings.TrimSpace\<close>: the characters with the White Space property, in UTF-8.\<close>

definition spaces :: "string list" where
  "spaces =
     [[CHR 0x09], [CHR 0x0A], [CHR 0x0B], [CHR 0x0C], [CHR 0x0D], '' '',
      [CHR 0xC2, CHR 0x85], [CHR 0xC2, CHR 0xA0], [CHR 0xE1, CHR 0x9A, CHR 0x80],
      [CHR 0xE2, CHR 0x80, CHR 0x80], [CHR 0xE2, CHR 0x80, CHR 0x81], [CHR 0xE2, CHR 0x80, CHR 0x82],
      [CHR 0xE2, CHR 0x80, CHR 0x83], [CHR 0xE2, CHR 0x80, CHR 0x84], [CHR 0xE2, CHR 0x80, CHR 0x85],
      [CHR 0xE2, CHR 0x80, CHR 0x86], [CHR 0xE2, CHR 0x80, CHR 0x87], [CHR 0xE2, CHR 0x80, CHR 0x88],
      [CHR 0xE2, CHR 0x80, CHR 0x89], [CHR 0xE2, CHR 0x80, CHR 0x8A], [CHR 0xE2, CHR 0x80, CHR 0xA8],
      [CHR 0xE2, CHR 0x80, CHR 0xA9], [CHR 0xE2, CHR 0x80, CHR 0xAF], [CHR 0xE2, CHR 0x81, CHR 0x9F],
      [CHR 0xE3, CHR 0x80, CHR 0x80]]"

function trim_left :: "string list \<Rightarrow> string \<Rightarrow> string" where
  "trim_left ws s =
     (case find (\<lambda>w. w \<noteq> [] \<and> prefix w s) ws of None \<Rightarrow> s | Some w \<Rightarrow> trim_left ws (drop (length w) s))"
  by pat_completeness auto
termination
  by (relation "measure (length \<circ> snd)") (auto simp: find_Some_iff prefix_def)

declare trim_left.simps [simp del]

definition TrimSpace :: "string \<Rightarrow> string" where
  "TrimSpace s = rev (trim_left (map rev spaces) (rev (trim_left spaces s)))"

text \<open>\<open>strings.Fields\<close>: the words between white space.\<close>

fun span_word :: "string \<Rightarrow> string \<times> string" where
  "span_word [] = ([], [])"
| "span_word (c # s) =
     (if list_ex (\<lambda>w. prefix w (c # s)) spaces then ([], c # s)
      else (let (a, b) = span_word s in (c # a, b)))"

lemma span_word_length: "length (fst (span_word s)) + length (snd (span_word s)) = length s"
  by (induction s) (auto simp: split_beta Let_def)

lemma trim_left_length: "length (trim_left ws s) \<le> length s"
proof (induction ws s rule: trim_left.induct)
  case (1 ws s)
  show ?case
  proof (cases "find (\<lambda>w. w \<noteq> [] \<and> prefix w s) ws")
    case None
    then show ?thesis by (simp add: trim_left.simps [of ws s])
  next
    case (Some w)
    with 1 have "length (trim_left ws (drop (length w) s)) \<le> length (drop (length w) s)" by blast
    with Some show ?thesis by (simp add: trim_left.simps [of ws s])
  qed
qed

function Fields :: "string \<Rightarrow> string list" where
  "Fields s =
     (let (word, rest) = span_word (trim_left spaces s)
      in if word = [] then [] else word # Fields rest)"
  by pat_completeness auto
termination
proof (relation "measure length")
  fix s word rest x assume a: "x = span_word (trim_left spaces s)" "(word, rest) = x" "word \<noteq> []"
  then have "span_word (trim_left spaces s) = (word, rest)" by simp
  then have "length word + length rest = length (trim_left spaces s)"
    using span_word_length [of "trim_left spaces s"] by simp
  moreover have "length (trim_left spaces s) \<le> length s" by (rule trim_left_length)
  moreover have "0 < length word" using a(3) by simp
  ultimately have "length rest < length s" by linarith
  then show "(rest, s) \<in> measure length" by simp
qed simp

declare Fields.simps [simp del]

end
