(* ===== verification/Cpu_Stress.thy ===== *)
theory Cpu_Stress
  imports Resource_Ramp Go_Text
begin

text \<open>
  The CPU fault: \<open>internal/fault/resource/cpu/detect.go\<close>, which reads the CPU quota of the container, and
  \<open>internal/fault/resource/cpu/stress.go\<close>, which spreads the load over workers that burn and sleep.
  The contents of the system's files, \<open>strconv.ParseFloat\<close> (the argument \<open>parse\<close>), the number
  of CPUs and the clock are inputs.
\<close>

section \<open>Available CPUs\<close>

definition roundCPU :: "float64 \<Rightarrow> float64" where
  "roundCPU v = flt_div (flt_round (flt_mul v (Fin 100))) (Fin 100)"

definition detectCgroupV2 :: "(string \<Rightarrow> float64 option) \<Rightarrow> string option \<Rightarrow> float64" where
  "detectCgroupV2 parse cpu_max =
     (case cpu_max of
        None \<Rightarrow> Fin 0
      | Some d \<Rightarrow>
          (case Fields (TrimSpace d) of
             [a, b] \<Rightarrow>
               if a = ''max'' then Fin 0
               else (case parse a of
                       None \<Rightarrow> Fin 0
                     | Some quota \<Rightarrow>
                         (case parse b of
                            None \<Rightarrow> Fin 0
                          | Some period \<Rightarrow> if period = Fin 0 then Fin 0 else roundCPU (flt_div quota period)))
           | _ \<Rightarrow> Fin 0))"

definition detectCgroupV1 :: "(string \<Rightarrow> float64 option) \<Rightarrow> string option \<Rightarrow> string option \<Rightarrow> float64" where
  "detectCgroupV1 parse quota_us period_us =
     (case quota_us of
        None \<Rightarrow> Fin 0
      | Some quotaData \<Rightarrow>
          (case period_us of
             None \<Rightarrow> Fin 0
           | Some periodData \<Rightarrow>
               (case parse (TrimSpace quotaData) of
                  None \<Rightarrow> Fin 0
                | Some quota \<Rightarrow>
                    if flt_leq quota (Fin 0) then Fin 0
                    else (case parse (TrimSpace periodData) of
                            None \<Rightarrow> Fin 0
                          | Some period \<Rightarrow> if period = Fin 0 then Fin 0 else roundCPU (flt_div quota period)))))"

definition AvailableCPUs ::
    "(string \<Rightarrow> float64 option) \<Rightarrow> string option \<Rightarrow> string option \<Rightarrow> string option \<Rightarrow> int \<Rightarrow> float64" where
  "AvailableCPUs parse cpu_max quota_us period_us numCPU =
     (let cpus = detectCgroupV2 parse cpu_max
      in if flt_less (Fin 0) cpus then cpus
         else (let cpus = detectCgroupV1 parse quota_us period_us
               in if flt_less (Fin 0) cpus then cpus else flt_of_int numCPU))"

section \<open>The plan\<close>

record cpu_plan =
  cp_workers :: int
  cp_perWorkerLoad :: float64

text \<open>\<open>ovf\<close> is what the conversion of a \<open>float64\<close> to \<open>int\<close> yields outside its range.\<close>

definition cpu_size :: "int \<Rightarrow> float64 \<Rightarrow> float64 \<Rightarrow> int \<Rightarrow> cpu_plan" where
  "cpu_size ovf load available numCPU =
     (let totalUnits = flt_mul load available;
          workers = float_to_int64 ovf (flt_ceil totalUnits);
          workers = (if workers < 1 then 1 else workers);
          workers = (if workers > numCPU then numCPU else workers);
          perWorkerLoad = flt_div totalUnits (flt_of_int workers);
          perWorkerLoad = (if flt_less (Fin 1) perWorkerLoad then Fin 1 else perWorkerLoad)
      in \<lparr>cp_workers = workers, cp_perWorkerLoad = perWorkerLoad\<rparr>)"

definition cpu_emitPhaseEvents :: "resource_config \<Rightarrow> bool \<Rightarrow> bool \<Rightarrow> bool \<Rightarrow> resource_event list" where
  "cpu_emitPhaseEvents c = phase_events (''atropos.resource.target_load'', FloatAttr (rc_target_load c)) (rc_base c)"

section \<open>The duty cycle\<close>

text \<open>The load of a moment: the expression of the ramps, with the worker's load as the target.\<close>

definition duty_load :: "float64 \<Rightarrow> fault_config \<Rightarrow> int \<Rightarrow> float64" where
  "duty_load targetLoad c = ramp_level targetLoad (fc_duration c) (fc_ramp_up c) (fc_ramp_down c)"

definition duty_split :: "int \<Rightarrow> int \<Rightarrow> float64 \<Rightarrow> int \<times> int" where
  "duty_split ovf window load =
     (let burnTime = float_to_int64 ovf (flt_mul (flt_of_int window) load)
      in (burnTime, wrap64 (window - burnTime)))"

text \<open>
  The burn loop on the instants it looks at the clock and whether the context is done
  then. \<open>Burning\<close> means that the looks end before the loop.
\<close>

datatype burn_end = BurnOver int | BurnStopped int | Burning

fun burn_loop :: "int \<Rightarrow> (int \<times> bool) list \<Rightarrow> burn_end" where
  "burn_loop burnDeadline [] = Burning"
| "burn_loop burnDeadline ((now, stop) # looks) =
     (if now < burnDeadline
      then (if stop then BurnStopped now else burn_loop burnDeadline looks)
      else BurnOver now)"

text \<open>
  A round: the context at its start, the time since the start, the instant the burn begins at, the looks
  of the burn loop, and whether the sleep's timer fires before the context is done.
\<close>

record duty_round =
  du_done :: bool
  du_elapsed :: int
  du_now :: int
  du_looks :: "(int \<times> bool) list"
  du_slept :: bool

text \<open>What a worker does in a round: its burn and sleep times, and the end of the burn.\<close>

record duty_log =
  dl_burn :: int
  dl_sleep :: int
  dl_deadline :: int
  dl_end :: burn_end

fun dutyCycle :: "int \<Rightarrow> float64 \<Rightarrow> fault_config \<Rightarrow> int \<Rightarrow> int option \<Rightarrow> duty_round list \<Rightarrow> duty_log list" where
  "dutyCycle ovf targetLoad c window ctxDeadline [] = []"
| "dutyCycle ovf targetLoad c window ctxDeadline (r # rounds) =
     (if du_done r then []
      else (let (burnTime, sleepTime) = duty_split ovf window (duty_load targetLoad c (du_elapsed r));
                burnDeadline = du_now r + burnTime;
                burnDeadline = (case ctxDeadline of None \<Rightarrow> burnDeadline
                                | Some dl \<Rightarrow> if dl < burnDeadline then dl else burnDeadline);
                end = burn_loop burnDeadline (du_looks r);
                entry = \<lparr>dl_burn = burnTime, dl_sleep = sleepTime, dl_deadline = burnDeadline, dl_end = end\<rparr>
            in case end of
                 BurnOver now \<Rightarrow>
                   if sleepTime > 0 \<and> \<not> du_slept r then [entry]
                   else entry # dutyCycle ovf targetLoad c window ctxDeadline rounds
               | _ \<Rightarrow> [entry]))"

section \<open>Start\<close>

record cpu_detail =
  cd_availableCPUs :: float64
  cd_workers :: int
  cd_perWorkerLoad :: float64

text \<open>
  \<open>Start\<close> up to the handle: the error of the validation, or the plan and the window of the
  workers. \<open>cpu_result\<close> is what it sends when they are done: the time taken, the detail, the error.
\<close>

definition cpu_Start :: "int \<Rightarrow> float64 \<Rightarrow> int \<Rightarrow> resource_config \<Rightarrow> fault_error + cpu_plan \<times> int" where
  "cpu_Start ovf available numCPU c =
     (case resource_Validate c of
        Some e \<Rightarrow> Inl e
      | None \<Rightarrow> Inr (cpu_size ovf (rc_target_load c) available numCPU, EffectiveWindow c))"

definition cpu_result ::
    "float64 \<Rightarrow> cpu_plan \<Rightarrow> int \<Rightarrow> ctx_error option \<Rightarrow> ctx_error option \<Rightarrow> int \<times> cpu_detail \<times> ctx_error option" where
  "cpu_result available plan elapsed ctx throttle =
     (elapsed,
      \<lparr>cd_availableCPUs = available, cd_workers = cp_workers plan, cd_perWorkerLoad = cp_perWorkerLoad plan\<rparr>,
      stress_err ctx throttle)"

section \<open>What the plan amounts to\<close>

lemma trunc_ceil: assumes "0 \<le> u" and "u < 2 ^ 62" shows "float_to_int64 ovf (flt_ceil (Fin u)) = \<lceil>u\<rceil>"
proof -
  have "0 \<le> \<lceil>u\<rceil>" using assms(1) by simp
  moreover have "\<lceil>u\<rceil> \<le> 2 ^ 62" using assms(2) by (simp add: ceiling_le_iff)
  ultimately show ?thesis by (simp add: flt_ceil_def float_to_int64_def i64_def)
qed

lemma cpu_size_spread:
  assumes "0 \<le> u" and "u < 2 ^ 62" and "1 \<le> n" and "n \<le> 2 ^ 53" and unit: "flt_mul load available = Fin u"
  shows "let w = min n (max 1 \<lceil>u\<rceil>) in
     cp_workers (cpu_size ovf load available n) = w \<and>
     (\<exists>p. cp_perWorkerLoad (cpu_size ovf load available n) = Fin p \<and> 0 \<le> p \<and> p \<le> 1 \<and>
        \<bar>of_int w * p - min u (of_int n)\<bar> \<le> of_int w * pow2 (- 54))"
proof -
  let ?w = "min n (max 1 \<lceil>u\<rceil>)"
  let ?x = "u / of_int ?w"
  have w: "1 \<le> ?w" "?w \<le> 2 ^ 53" using assms by auto
  then have wr: "flt_of_int ?w = Fin (of_int ?w)" by (intro flt_of_int_small) auto
  have w0: "(of_int ?w :: rat) \<noteq> 0" using w(1) by (simp del: of_int_min)
  have wn: "(if (if \<lceil>u\<rceil> < 1 then 1 else \<lceil>u\<rceil>) > n then n else if \<lceil>u\<rceil> < 1 then 1 else \<lceil>u\<rceil>) = ?w" using assms(3) by auto
  have W: "cp_workers (cpu_size ovf load available n) = ?w"
    and P: "cp_perWorkerLoad (cpu_size ovf load available n) =
      (if flt_less (Fin 1) (round64 ?x) then Fin 1 else round64 ?x)"
    unfolding cpu_size_def unit trunc_ceil [OF assms(1,2)] Let_def wn wr using w0 by (simp_all add: flt_div_def del: of_int_min)
  have wpos: "0 < (of_int ?w :: rat)" using w(1) by simp
  have x0: "0 \<le> ?x" using assms(1) wpos by simp
  have goal: "\<exists>p. cp_perWorkerLoad (cpu_size ovf load available n) = Fin p \<and> 0 \<le> p \<and> p \<le> 1 \<and>
        \<bar>of_int ?w * p - min u (of_int n)\<bar> \<le> of_int ?w * pow2 (- 54)"
  proof (cases "u \<le> of_int ?w")
    case True
    then have x1: "?x \<le> 1" using wpos by (simp add: pos_divide_le_eq)
    obtain p where p: "round64 ?x = Fin p" "0 \<le> p" "p \<le> 1" using round64_le [OF x0 x1 float_rat_1] by blast
    have "of_int ?w * p - u = of_int ?w * (p - ?x)" using w0 by (simp add: right_diff_distrib del: of_int_min)
    then have "\<bar>of_int ?w * p - u\<bar> = of_int ?w * \<bar>p - ?x\<bar>" using wpos by (simp add: abs_mult)
    also have "\<dots> \<le> of_int ?w * pow2 (- 54)"
      using round64_unit_error [OF x0 x1 p(1)] wpos by (intro mult_left_mono) simp_all
    finally have "\<bar>of_int ?w * p - u\<bar> \<le> of_int ?w * pow2 (- 54)" .
    moreover have "min u (of_int n) = u" using True by (simp add: min_def split: if_splits)
    ultimately show ?thesis using P p by (intro exI [of _ p]) simp
  next
    case False
    then have wn: "?w = n" "of_int n < u" using le_of_int_ceiling [of u] by (auto simp: min_def max_def split: if_splits)
    have x1: "1 \<le> ?x" using False wpos by (simp add: pos_le_divide_eq)
    have "?x \<le> u / 1" using w(1) assms(1) by (intro divide_left_mono) simp_all
    also have "\<dots> \<le> pow2 62" using assms(2) pow2_nat [of 62] by simp
    finally obtain v where v: "round64 ?x = Fin v" using round64_le [OF x0 _ float_rat_pow2 [of 62]] by auto
    have "1 \<le> v" using round64_mono [OF _ x1 v] float_rat_1 by (auto simp: float_rat_def)
    then have "cp_perWorkerLoad (cpu_size ovf load available n) = Fin 1" using P v by auto
    then show ?thesis using wn wpos by (intro exI [of _ 1]) simp
  qed
  with W show ?thesis by (simp add: Let_def)
qed

lemma duty_split_exact:
  assumes "0 \<le> window" and "window \<le> 2 ^ 53" and "0 \<le> v" and "v \<le> 1"
  shows "\<exists>b. duty_split ovf window (Fin v) = (b, window - b) \<and> 0 \<le> b \<and> b \<le> window \<and>
     \<lfloor>of_int window * v\<rfloor> \<le> b \<and> b \<le> \<lceil>of_int window * v\<rceil>"
proof -
  let ?x = "of_int window * v"
  have f: "flt_of_int window = Fin (of_int window)" using assms by (intro flt_of_int_small)
  have x: "0 \<le> ?x" "?x \<le> of_int window" using assms mult_left_le [of v "of_int window"] by simp_all
  obtain r where r: "round64 ?x = Fin r" "of_int \<lfloor>?x\<rfloor> \<le> r" "r \<le> of_int \<lceil>?x\<rceil>"
    using round64_between [OF x assms(2)] by blast
  have r0: "0 \<le> r" using x(1) r(2) order_trans [of 0 "of_int \<lfloor>?x\<rfloor>" r] by simp
  have c: "\<lceil>?x\<rceil> \<le> window" using x(2) by (simp add: ceiling_le_iff)
  note B = float_to_int64_bounds [OF r0 r(3)]
  have "\<lceil>?x\<rceil> \<le> 2 ^ 53" using c assms(2) by (rule order_trans)
  then have lt: "\<lceil>?x\<rceil> < 2 ^ 63" by (rule le_less_trans) simp
  let ?b = "float_to_int64 ovf (Fin r)"
  have b: "0 \<le> ?b" "?b \<le> \<lceil>?x\<rceil>" "?b = \<lfloor>r\<rfloor>" using B [OF lt] r0 by (simp_all add: rat_trunc_def)
  have "\<lfloor>?x\<rfloor> \<le> ?b" using r(2) b(3) by (simp add: le_floor_iff)
  moreover have "wrap64 (window - ?b) = window - ?b"
  proof (intro wrap64_id i64_nonneg)
    show "0 \<le> window - ?b" using b(2) c by simp
    have "window - ?b \<le> 2 ^ 53" using b(1) assms(2) by simp
    then show "window - ?b < 2 ^ 63" by (rule le_less_trans) simp
  qed
  ultimately show ?thesis using b c f r(1) by (simp add: duty_split_def Let_def flt_mul_def)
qed

text \<open>The split of a round of a worker with valid ramps.\<close>

lemma duty_share:
  assumes "ramps_ok (fc_duration c) (fc_ramp_up c) (fc_ramp_down c)" and "float_rat p" and "0 \<le> p" and "p \<le> 1"
    and "0 \<le> window" and "window \<le> 2 ^ 53" and "0 \<le> e" and "e < 2 ^ 63"
  obtains b where "duty_split ovf window (duty_load (Fin p) c e) = (b, window - b)" and "0 \<le> b" and "b \<le> window"
    and "b \<le> \<lceil>of_int window * p\<rceil>"
proof -
  obtain v where v: "duty_load (Fin p) c e = Fin v" "0 \<le> v" "v \<le> p"
    using ramp_level_bounds [OF assms(1,7,8,2,3)] by (auto simp: duty_load_def)
  obtain b where b: "duty_split ovf window (duty_load (Fin p) c e) = (b, window - b)" "0 \<le> b" "b \<le> window" "b \<le> \<lceil>of_int window * v\<rceil>"
    using duty_split_exact [OF assms(5,6) v(2), of ovf] v assms(4) by auto
  have "of_int window * v \<le> of_int window * p" using v(3) assms(5) by (intro mult_left_mono) simp_all
  then have "\<lceil>of_int window * v\<rceil> \<le> \<lceil>of_int window * p\<rceil>" by (rule ceiling_mono)
  with b(4) have "b \<le> \<lceil>of_int window * p\<rceil>" by simp
  with b that show ?thesis by blast
qed

lemma burn_loop_over:
  "burn_loop d looks = BurnOver now \<Longrightarrow> d \<le> now \<and> (\<exists>k < length looks. fst (looks ! k) = now \<and> (\<forall>j < k. fst (looks ! j) < d))"
proof (induction looks)
  case (Cons l looks)
  obtain t stop where l: "l = (t, stop)" by fastforce
  show ?case
  proof (cases "t < d")
    case True
    with Cons l obtain k where "d \<le> now" "k < length looks" "fst (looks ! k) = now" "\<forall>j < k. fst (looks ! j) < d"
      by (auto split: if_splits)
    with True l show ?thesis by (auto intro!: exI [of _ "Suc k"] simp: nth_Cons less_Suc_eq_0_disj split: nat.splits)
  next
    case False
    with Cons.prems l show ?thesis by (auto intro!: exI [of _ 0])
  qed
qed simp

lemma roundCPU_small:
  assumes "0 \<le> q" and "0 < p" and "256 * q \<le> p" shows "roundCPU (flt_div (Fin q) (Fin p)) = Fin 0"
proof -
  have "q / p \<le> pow2 (- 8)" using assms by (simp add: pow2_def divide_le_eq)
  then obtain v where v: "round64 (q / p) = Fin v" "0 \<le> v" "v \<le> pow2 (- 8)"
    using round64_le [of "q / p" "pow2 (- 8)"] float_rat_pow2 [of "- 8"] assms by auto
  have "round_pos (25 / 64) = 25 / 64" by (rule round_pos_exact [of 25 "- 6"]) (simp_all add: pow2_def)
  moreover have "(25 / 64 :: rat) < pow2 1024"
  proof -
    have "(25 / 64 :: rat) < pow2 0" by (simp add: pow2_def)
    also have "\<dots> < pow2 1024" by simp
    finally show ?thesis .
  qed
  ultimately have "float_rat (25 / 64)" by (simp add: round_pos_float)
  moreover have "v * 100 \<le> 25 / 64" "0 \<le> v * 100" using v by (simp_all add: pow2_def)
  ultimately obtain w where w: "round64 (v * 100) = Fin w" "0 \<le> w" "w \<le> 25 / 64"
    using round64_le by blast
  have "\<lfloor>w + 1 / 2\<rfloor> = 0" using w by (simp add: floor_eq_iff)
  with v w assms show ?thesis by (simp add: roundCPU_def flt_div_def flt_mul_def flt_round_def)
qed

lemma flt_mul_NaN [simp]: "flt_mul NaN x = NaN"
  by (simp add: flt_mul_def flt_sgn_def flt_inf_def)

section \<open>Properties\<close>

text \<open>
  C22. The load of a valid CPU fault is spread exactly: with \<open>u\<close> CPUs to burn, the product of the target load
  and the available CPUs, it starts as many workers as \<open>u\<close> needs, at least one and at most one
  per CPU, and their loads, fractions of 1, add up to \<open>u\<close>, or to all CPUs when \<open>u\<close> is more, up to
  the last bit of a \<open>float64\<close> per worker.
\<close>

theorem cpu_load_spread:
  assumes "resource_Validate c = None" and "rc_target_load c = Fin l" and "float_rat a" and "0 < a" and "a < 2 ^ 62"
    and "1 \<le> n" and "n \<le> 2 ^ 53"
  shows "\<exists>u p plan. flt_mul (Fin l) (Fin a) = Fin u \<and> 0 \<le> u \<and> u \<le> a \<and>
     cpu_Start ovf (Fin a) n c = Inr (plan, EffectiveWindow c) \<and>
     cp_workers plan = min n (max 1 \<lceil>u\<rceil>) \<and> cp_perWorkerLoad plan = Fin p \<and> 0 \<le> p \<and> p \<le> 1 \<and>
     \<bar>of_int (cp_workers plan) * p - min u (of_int n)\<bar> \<le> of_int (cp_workers plan) * pow2 (- 54)"
proof -
  have "load_ok (rc_target_load c)" using assms(1) by (auto simp: resource_Validate_def split: option.splits if_splits)
  then have l: "0 < l" "l \<le> 1" using assms(2) by (auto simp: load_ok_iff)
  obtain u where "flt_mul (Fin a) (Fin l) = Fin u" and u: "0 \<le> u" "u \<le> a"
    using flt_mul_unit [OF assms(3), of l] assms(4) l by auto
  then have m: "flt_mul (Fin l) (Fin a) = Fin u" by (simp add: flt_mul_def mult.commute)
  have "u < 2 ^ 62" using u(2) assms(5) by simp
  from cpu_size_spread [OF u(1) this assms(6,7) m] m u assms(1,2) show ?thesis
    by (auto simp: cpu_Start_def Let_def)
qed

definition sample_cpu :: resource_config where
  "sample_cpu = \<lparr>rc_base = sample_ramps, rc_target_load = Fin (3 / 4), rc_window = 0\<rparr>"

theorem cpu_load_spread_witness:
  "\<exists>u p plan. cpu_Start 0 (Fin 2) 4 sample_cpu = Inr (plan, 100 * Millisecond) \<and> cp_perWorkerLoad plan = Fin p \<and> 0 \<le> p \<and> p \<le> 1 \<and>
     cp_workers plan = min 4 (max 1 \<lceil>u::rat\<rceil>)"
proof -
  have v: "resource_Validate sample_cpu = None"
    using sample_ramps_ok by (simp add: resource_Validate_def sample_cpu_def load_ok_def)
  have w: "EffectiveWindow sample_cpu = 100 * Millisecond" by (simp add: EffectiveWindow_def DefaultWindow_def sample_cpu_def)
  have l: "rc_target_load sample_cpu = Fin (3 / 4)" by (simp add: sample_cpu_def)
  have "float_rat 2" using float_rat_int [of 2] by simp
  from cpu_load_spread [OF v l this, of 4 0] w show ?thesis by auto
qed

text \<open>
  A worker of a fault with valid ramps: in every round its burn and sleep times make up the window,
  the burn is at most its share of the window, rounded up, it ends at the latest at
  the context's deadline, and without the context being done it does not end before its own.
\<close>

theorem duty_cycle_sound:
  assumes "ramps_ok (fc_duration c) (fc_ramp_up c) (fc_ramp_down c)" and "float_rat p" and "0 \<le> p" and "p \<le> 1"
    and "0 \<le> window" and "window \<le> 2 ^ 53" and "\<forall>r \<in> set rounds. 0 \<le> du_elapsed r \<and> du_elapsed r < 2 ^ 63"
    and "entry \<in> set (dutyCycle ovf (Fin p) c window (Some dl) rounds)"
  shows "dl_burn entry + dl_sleep entry = window \<and> 0 \<le> dl_burn entry \<and> dl_burn entry \<le> \<lceil>of_int window * p\<rceil> \<and>
     0 \<le> dl_sleep entry \<and> dl_deadline entry \<le> dl \<and>
     (\<forall>now. dl_end entry = BurnOver now \<longrightarrow> dl_deadline entry \<le> now)"
  using assms(7,8)
proof (induction rounds)
  case (Cons r rounds)
  obtain b where b: "duty_split ovf window (duty_load (Fin p) c (du_elapsed r)) = (b, window - b)" "0 \<le> b" "b \<le> window"
    and share: "b \<le> \<lceil>of_int window * p\<rceil>"
    using duty_share [OF assms(1-6), of "du_elapsed r" ovf] Cons.prems(1) by auto
  let ?dl = "if dl < du_now r + b then dl else du_now r + b"
  let ?e = "\<lparr>dl_burn = b, dl_sleep = window - b, dl_deadline = ?dl, dl_end = burn_loop ?dl (du_looks r)\<rparr>"
  have "entry = ?e \<or> entry \<in> set (dutyCycle ovf (Fin p) c window (Some dl) rounds)"
    using Cons.prems(2) b(1) by (auto simp: Let_def split: if_splits burn_end.splits)
  then show ?case
  proof
    assume "entry = ?e"
    with b share burn_loop_over [of ?dl "du_looks r"] show ?thesis by auto
  next
    assume "entry \<in> set (dutyCycle ovf (Fin p) c window (Some dl) rounds)"
    with Cons.IH Cons.prems(1) show ?thesis by simp
  qed
qed simp

theorem duty_cycle_sound_witness:
  "\<exists>e. e \<in> set (dutyCycle 0 (Fin 1) sample_ramps (100 * Millisecond) (Some 0)
           [\<lparr>du_done = False, du_elapsed = 50 * Second, du_now = 7, du_looks = [(9, False)], du_slept = True\<rparr>]) \<and>
     dl_burn e + dl_sleep e = 100 * Millisecond"
proof -
  let ?rs = "[\<lparr>du_done = False, du_elapsed = 50 * Second, du_now = 7, du_looks = [(9, False)], du_slept = True\<rparr>]"
  let ?log = "dutyCycle 0 (Fin 1) sample_ramps (100 * Millisecond) (Some 0) ?rs"
  have ne: "?log \<noteq> []" by (simp add: Let_def split_beta split: burn_end.split)
  have ok: "ramps_ok (fc_duration sample_ramps) (fc_ramp_up sample_ramps) (fc_ramp_down sample_ramps)"
    by (rule valid_ramps [OF sample_ramps_ok])
  have m: "hd ?log \<in> set ?log" using ne by (rule hd_in_set)
  have r: "\<forall>r \<in> set ?rs. 0 \<le> du_elapsed r \<and> du_elapsed r < 2 ^ 63" by (simp add: Second_def)
  from duty_cycle_sound [OF ok float_rat_1 _ _ _ _ r m] have "dl_burn (hd ?log) + dl_sleep (hd ?log) = 100 * Millisecond"
    by (simp add: Millisecond_def)
  with m show ?thesis by blast
qed

text \<open>
  A container's quota of less than a 256th of a CPU is taken for no quota at all: it rounds to zero
  hundredths, which is how the detectors say that they found nothing, and the fault sizes
  itself for all CPUs of the host.
\<close>

theorem small_quota_ignored:
  assumes "Fields (TrimSpace d) = [a, b]" and "a \<noteq> ''max''" and "parse a = Some (Fin q)" and "parse b = Some (Fin p)"
    and "0 \<le> q" and "0 < p" and "256 * q \<le> p"
  shows "detectCgroupV2 parse (Some d) = Fin 0 \<and> AvailableCPUs parse (Some d) None None n = flt_of_int n"
  using roundCPU_small [OF assms(5-7)] assms(1-4,6)
  by (simp add: AvailableCPUs_def detectCgroupV2_def detectCgroupV1_def)

lemma ParseFloat_int: assumes "number_val s = of_int i" and "0 \<le> i" and "i \<le> 2 ^ 53" shows "ParseFloat s = Some (Fin (of_int i))"
  using float_rat_int [OF assms(2,3)] assms(1) by (simp add: ParseFloat_def float_rat_def)

theorem small_quota_ignored_witness:
  "AvailableCPUs ParseFloat (Some (''1000 1000000'' @ [CHR 0x0A])) None None 64 = Fin 64"
proof -
  have f: "Fields (TrimSpace (''1000 1000000'' @ [CHR 0x0A])) = [''1000'', ''1000000'']"
    by (simp add: TrimSpace_def Fields.simps trim_left.simps spaces_def Let_def)
  have d: "is_digit (CHR ''0'')" "is_digit (CHR ''1'')" "digit_val (CHR ''0'') = 0" "digit_val (CHR ''1'') = 1"
    by (simp_all add: is_digit_def digit_val_def)
  have q: "ParseFloat ''1000'' = Some (Fin 1000)" and p: "ParseFloat ''1000000'' = Some (Fin 1000000)"
    using ParseFloat_int [of "''1000''" 1000] ParseFloat_int [of "''1000000''" 1000000]
    by (simp_all add: number_val_def digits_val_def pow10_def d)
  have "flt_of_int 64 = Fin 64" using flt_of_int_small [of 64] by simp
  with small_quota_ignored [where parse = ParseFloat, OF f _ q p, of 64] show ?thesis by simp
qed

text \<open>
  A target load that is NaN passes the validation. Where the conversion of NaN yields the least integer,
  the fault starts one worker, which then never burns and never sleeps: it spins in its outer loop.
\<close>

theorem nan_load_spins:
  assumes "resource_Validate c = None" and "rc_target_load c = NaN" and "1 \<le> n" and "0 < window" and "window < 2 ^ 63"
  shows "cpu_Start (- (2 ^ 63)) available n c = Inr (\<lparr>cp_workers = 1, cp_perWorkerLoad = NaN\<rparr>, EffectiveWindow c) \<and>
     duty_split (- (2 ^ 63)) window (duty_load NaN b e) = (- (2 ^ 63), window - 2 ^ 63)"
proof -
  have "ramp_level NaN dur up down e = NaN" for dur up down by (simp add: ramp_level_def Let_def)
  moreover have "flt_mul x NaN = NaN" for x by (cases x) (simp_all add: flt_mul_def flt_sgn_def flt_inf_def)
  moreover have "wrap64 (window + 2 ^ 63) = window - 2 ^ 63" using assms(4,5) by (subst wrap64_above) simp_all
  moreover have "flt_div NaN x = NaN" for x by (simp add: flt_div_def)
  ultimately show ?thesis using assms(1-3)
    by (simp add: cpu_Start_def cpu_size_def Let_def flt_ceil_def float_to_int64_def duty_split_def duty_load_def)
qed

theorem nan_load_spins_witness:
  "cpu_Start (- (2 ^ 63)) (Fin 2) 4 (sample_cpu\<lparr>rc_target_load := NaN\<rparr>) =
     Inr (\<lparr>cp_workers = 1, cp_perWorkerLoad = NaN\<rparr>, 100 * Millisecond)"
proof -
  let ?c = "sample_cpu\<lparr>rc_target_load := NaN\<rparr>"
  have v: "resource_Validate ?c = None"
    using sample_ramps_ok by (simp add: resource_Validate_def sample_cpu_def load_ok_def)
  have "EffectiveWindow ?c = 100 * Millisecond" by (simp add: EffectiveWindow_def DefaultWindow_def sample_cpu_def)
  with nan_load_spins [OF v, of 4 1 "Fin 2" undefined 0] show ?thesis by simp
qed

end
