(* ===== verification/Memory_Stress.thy ===== *)
theory Memory_Stress
  imports Resource_Ramp Go_Text
begin

text \<open>
  The memory fault: \<open>internal/fault/resource/memory/detect.go\<close>, which finds the limit and the usage, and
  \<open>internal/fault/resource/memory/stress.go\<close>: its sizes, the allocation, the hold, the release and
  the workers that thrash. The contents of the system's files and the outcomes of the timers are
  inputs.
\<close>

section \<open>Limits and usage\<close>

text \<open>The contents of a file, \<open>None\<close> when it cannot be read.\<close>

definition readUint64File :: "string option \<Rightarrow> 64 word" where
  "readUint64File data =
     (case data of
        None \<Rightarrow> 0
      | Some d \<Rightarrow> (case ParseUint (TrimSpace d) of None \<Rightarrow> 0 | Some v \<Rightarrow> word_of_int v))"

definition detectMemoryCgroupV2 :: "string option \<Rightarrow> 64 word" where
  "detectMemoryCgroupV2 data =
     (case data of
        None \<Rightarrow> 0
      | Some d \<Rightarrow>
          (let s = TrimSpace d
           in if s = ''max'' then 0
              else (case ParseUint s of None \<Rightarrow> 0 | Some v \<Rightarrow> word_of_int v)))"

definition detectMemoryCgroupV1 :: "string option \<Rightarrow> 64 word" where
  "detectMemoryCgroupV1 data =
     (let v = readUint64File data in if v = 0 \<or> v \<ge> 2 ^ 60 then 0 else v)"

fun meminfo_lines :: "string list \<Rightarrow> 64 word" where
  "meminfo_lines [] = 0"
| "meminfo_lines (line # ls) =
     (if \<not> prefix ''MemTotal:'' line then meminfo_lines ls
      else (case Fields line of
              a # b # _ \<Rightarrow> (case ParseUint b of None \<Rightarrow> 0 | Some kB \<Rightarrow> word_of_int kB * 1024)
            | _ \<Rightarrow> 0))"

definition detectProcMeminfo :: "string option \<Rightarrow> 64 word" where
  "detectProcMeminfo data =
     (case data of None \<Rightarrow> 0 | Some d \<Rightarrow> meminfo_lines (fst (scan_lines (64 * 1024) d)))"

definition detectSysctl :: "string \<Rightarrow> string option \<Rightarrow> 64 word" where
  "detectSysctl goos out =
     (if goos \<noteq> ''darwin'' then 0
      else (case out of
              None \<Rightarrow> 0
            | Some d \<Rightarrow> (case ParseUint (TrimSpace d) of None \<Rightarrow> 0 | Some v \<Rightarrow> word_of_int v)))"

text \<open>What the system offers: its files by their roles, \<open>runtime.GOOS\<close> and the output of \<open>sysctl\<close>.\<close>

record memory_system =
  ms_max :: "string option"
  ms_limit :: "string option"
  ms_meminfo :: "string option"
  ms_goos :: string
  ms_sysctl :: "string option"
  ms_current :: "string option"
  ms_usage :: "string option"

definition AvailableMemory :: "memory_system \<Rightarrow> 64 word" where
  "AvailableMemory m =
     (let mem = detectMemoryCgroupV2 (ms_max m) in
      if mem > 0 then mem
      else (let mem = detectMemoryCgroupV1 (ms_limit m) in
      if mem > 0 then mem
      else (let mem = detectProcMeminfo (ms_meminfo m) in
      if mem > 0 then mem
      else detectSysctl (ms_goos m) (ms_sysctl m))))"

definition CurrentUsage :: "memory_system \<Rightarrow> 64 word" where
  "CurrentUsage m =
     (let usage = readUint64File (ms_current m) in
      if usage > 0 then usage
      else (let usage = readUint64File (ms_usage m) in if usage > 0 then usage else 0))"

section \<open>The plan\<close>

text \<open>\<open>ovf\<close> is what the conversion to \<open>uint64\<close> yields outside its range.\<close>

definition memory_total :: "64 word \<Rightarrow> float64 \<Rightarrow> 64 word \<Rightarrow> 64 word" where
  "memory_total ovf load available = float_to_uint64 ovf (flt_mul load (flt_of_int (uint available)))"

record memory_plan =
  mp_available :: "64 word"
  mp_targetBytes :: "64 word"
  mp_chunkSize :: int
  mp_numChunks :: int
  mp_thrashWorkers :: int

definition memory_plan :: "64 word \<Rightarrow> memory_system \<Rightarrow> memory_config \<Rightarrow> memory_plan" where
  "memory_plan ovf m c =
     (let available = AvailableMemory m;
          currentUsage = CurrentUsage m;
          chunkSize = memory_EffectiveChunkSize c;
          targetBytes = memory_target (memory_total ovf (mc_target_load c) available) currentUsage
      in \<lparr>mp_available = available, mp_targetBytes = targetBytes, mp_chunkSize = chunkSize,
          mp_numChunks = memory_chunks targetBytes chunkSize, mp_thrashWorkers = EffectiveThrashWorkers c\<rparr>)"

section \<open>Chunks\<close>

definition pageSize :: nat where "pageSize = 4096"
definition thrashStride :: nat where "thrashStride = pageSize + 1"

text \<open>The loop of \<open>allocChunk\<close>, and the inner loop of \<open>thrashLoop\<close>, from an offset on.\<close>

function touch_pages :: "nat \<Rightarrow> 8 word list \<Rightarrow> 8 word list" where
  "touch_pages off buf = (if off < length buf then touch_pages (off + pageSize) (buf[off := 0xFF]) else buf)"
  by pat_completeness auto
termination by (relation "measure (\<lambda>(off, buf). length buf - off)") (auto simp: pageSize_def)

declare touch_pages.simps [simp del]

definition allocChunk :: "nat \<Rightarrow> 8 word list" where
  "allocChunk sz = touch_pages 0 (replicate sz 0)"

function thrash_pass :: "nat \<Rightarrow> 8 word list \<Rightarrow> 8 word list" where
  "thrash_pass off chunk =
     (if off < length chunk then thrash_pass (off + thrashStride) (chunk[off := xor (chunk ! off) 0xAA]) else chunk)"
  by pat_completeness auto
termination by (relation "measure (\<lambda>(off, chunk). length chunk - off)") (auto simp: thrashStride_def)

declare thrash_pass.simps [simp del]

text \<open>
  A worker that thrashes: for every turn of its loop, whether the context is done. A chunk
  that was released is nil and is passed over.
\<close>

fun thrash_loop :: "nat \<Rightarrow> nat \<Rightarrow> bool list \<Rightarrow> 8 word list option list \<Rightarrow> 8 word list option list" where
  "thrash_loop n chunkIdx [] chunks = chunks"
| "thrash_loop n chunkIdx (stop # turns) chunks =
     (if stop then chunks
      else (case chunks ! chunkIdx of
              None \<Rightarrow> thrash_loop n ((chunkIdx + 1) mod n) turns chunks
            | Some chunk \<Rightarrow>
                thrash_loop n ((chunkIdx + 1) mod n) turns (chunks[chunkIdx := Some (thrash_pass 0 chunk)])))"

definition thrashLoop :: "nat \<Rightarrow> bool list \<Rightarrow> 8 word list option list \<Rightarrow> 8 word list option list" where
  "thrashLoop workerID turns chunks =
     (if length chunks = 0 then chunks else thrash_loop (length chunks) (workerID mod length chunks) turns chunks)"

section \<open>The run\<close>

text \<open>
  Phase 1 from the \<open>i\<close>-th chunk on: for every turn, whether the context is done when it is looked
  at, and whether the timer, where there is one, fires before the context is done. The result
  says whether the phase was left early and how many chunks there are.
\<close>

definition alloc_interval :: "fault_config \<Rightarrow> int \<Rightarrow> int" where
  "alloc_interval c numChunks = (if fc_ramp_up c > 0 \<and> numChunks > 1 then fc_ramp_up c sdiv numChunks else 0)"

fun alloc_loop :: "int \<Rightarrow> nat \<Rightarrow> nat \<Rightarrow> (bool \<times> bool) list \<Rightarrow> bool \<times> nat" where
  "alloc_loop interval n i [] = (n \<le> i, i)"
| "alloc_loop interval n i ((stop, fired) # turns) =
     (if n \<le> i then (True, i)
      else if stop then (False, i)
      else if interval > 0 \<and> i > 0 \<and> \<not> fired then (False, i)
      else alloc_loop interval n (i + 1) turns)"

definition hold_duration :: "fault_config \<Rightarrow> int" where
  "hold_duration c = wrap64 (wrap64 (fc_duration c - fc_ramp_up c) - fc_ramp_down c)"

definition release_interval :: "fault_config \<Rightarrow> nat \<Rightarrow> int" where
  "release_interval c len = fc_ramp_down c sdiv int len"

text \<open>The ramp-down from \<open>len\<close> chunks: one chunk is released in every turn, the last one first.\<close>

fun release_loop :: "int \<Rightarrow> nat \<Rightarrow> (bool \<times> bool) list \<Rightarrow> nat" where
  "release_loop interval len [] = len"
| "release_loop interval len ((stop, fired) # turns) =
     (if len = 0 then 0
      else if stop then len
      else if interval > 0 \<and> len - 1 > 0 \<and> \<not> fired then len - 1
      else release_loop interval (len - 1) turns)"

record memory_detail =
  md_available :: "64 word"
  md_targetBytes :: "64 word"
  md_peak :: "64 word"
  md_chunks :: int
  md_thrashing :: bool

text \<open>
  The goroutine of \<open>Start\<close>: the chunks allocated, those the ramp-down releases, how many
  workers thrash, and the detail it sends. The label \<open>done\<close> releases the chunks that are left.
\<close>

record memory_run =
  mr_allocated :: nat
  mr_released :: nat
  mr_thrashers :: int
  mr_detail :: memory_detail

definition memory_run :: "memory_config \<Rightarrow> memory_plan \<Rightarrow> (bool \<times> bool) list \<Rightarrow> (bool \<times> bool) list \<Rightarrow> memory_run" where
  "memory_run c plan allocs releases =
     (let base = mc_base c;
          (finished, len) = alloc_loop (alloc_interval base (mp_numChunks plan)) (nat (mp_numChunks plan)) 0 allocs;
          left_over = (if finished \<and> fc_ramp_down base > 0 \<and> len > 0
                       then release_loop (release_interval base len) len releases else len)
      in \<lparr>mr_allocated = len, mr_released = len - left_over,
          mr_thrashers = (if finished \<and> mc_thrashing c \<and> len > 0 then mp_thrashWorkers plan else 0),
          mr_detail = \<lparr>md_available = mp_available plan, md_targetBytes = mp_targetBytes plan,
                       md_peak = of_nat len * word_of_int (mp_chunkSize plan), md_chunks = mp_numChunks plan,
                       md_thrashing = mc_thrashing c\<rparr>\<rparr>)"

definition memory_Start :: "64 word \<Rightarrow> memory_system \<Rightarrow> memory_config \<Rightarrow> fault_error + memory_plan" where
  "memory_Start ovf m c =
     (case memory_Validate c of Some e \<Rightarrow> Inl e | None \<Rightarrow> Inr (memory_plan ovf m c))"

section \<open>Numbers in files\<close>

lemma trim_left_keep: "(\<And>w. w \<in> set ws \<Longrightarrow> w = [] \<or> \<not> prefix w s) \<Longrightarrow> trim_left ws s = s"
proof -
  assume a: "\<And>w. w \<in> set ws \<Longrightarrow> w = [] \<or> \<not> prefix w s"
  have "find (\<lambda>w. w \<noteq> [] \<and> prefix w s) ws = None" using a by (auto simp: find_None_iff)
  then show ?thesis by (simp add: trim_left.simps [of ws s])
qed

lemma no_space_digit:
  assumes "is_digit c" and "w \<in> set spaces \<union> set (map rev spaces)" shows "w = [] \<or> \<not> prefix w (c # s)"
proof -
  have sp: "\<forall>w \<in> set spaces \<union> set (map rev spaces). w \<noteq> [] \<and> \<not> is_digit (hd w)"
    by (simp add: spaces_def is_digit_def)
  have "\<not> is_digit (hd w)" using bspec [OF sp assms(2)] by simp
  with assms(1) show ?thesis by (cases w) auto
qed

lemma TrimSpace_number:
  assumes "list_all is_digit s" and "s \<noteq> []" shows "TrimSpace (s @ [CHR 0x0A]) = s"
proof -
  obtain c r where s: "s = c # r" "is_digit c" using assms by (cases s) auto
  obtain d t where r: "rev s = d # t" "is_digit d" using assms by (cases "rev s") (auto simp: list_all_iff)
  have 1: "trim_left spaces (s @ [CHR 0x0A]) = s @ [CHR 0x0A]"
    using no_space_digit [OF s(2)] by (intro trim_left_keep) (simp add: s)
  have "trim_left (map rev spaces) (CHR 0x0A # rev s) = trim_left (map rev spaces) (rev s)"
    by (subst trim_left.simps) (simp add: spaces_def)
  also have "\<dots> = rev s"
    using no_space_digit [OF r(2)] by (intro trim_left_keep) (simp add: r)
  finally show ?thesis by (simp add: TrimSpace_def 1)
qed

section \<open>Pages\<close>

lemma dvd_step:
  assumes "0 < (p::nat)" and "off \<le> i"
  shows "p dvd (i - off) \<longleftrightarrow> i = off \<or> off + p \<le> i \<and> p dvd (i - (off + p))"
proof (cases "off + p \<le> i")
  case True
  then have "i - off = (i - (off + p)) + p" by simp
  then have "p dvd (i - off) \<longleftrightarrow> p dvd (i - (off + p))" using dvd_add_left_iff [of p p "i - (off + p)"] by simp
  with True assms(1) show ?thesis by auto
next
  case False
  then have "i - off < p" using assms by linarith
  with False assms show ?thesis by (auto dest: nat_dvd_not_less)
qed

lemma length_touch_pages [simp]: "length (touch_pages off buf) = length buf"
  by (induction off buf rule: touch_pages.induct) (subst touch_pages.simps, auto)

lemma touch_pages_nth:
  "i < length buf \<Longrightarrow> touch_pages off buf ! i = (if off \<le> i \<and> pageSize dvd (i - off) then 0xFF else buf ! i)"
proof (induction off buf rule: touch_pages.induct)
  case (1 off buf)
  show ?case
  proof (cases "off < length buf")
    case False
    with 1 show ?thesis by (subst touch_pages.simps) auto
  next
    case True
    have "0 < pageSize" by (simp add: pageSize_def)
    note step = dvd_step [OF this, of off i]
    show ?thesis
    proof (cases "off \<le> i")
      case le: True
      with 1 True step [OF le] show ?thesis by (subst touch_pages.simps) (auto simp: nth_list_update)
    qed (use 1 True in \<open>subst touch_pages.simps, simp\<close>)
  qed
qed

lemma length_thrash_pass [simp]: "length (thrash_pass off buf) = length buf"
  by (induction off buf rule: thrash_pass.induct) (subst thrash_pass.simps, auto)

lemma thrash_pass_nth:
  "i < length buf \<Longrightarrow>
   thrash_pass off buf ! i = (if off \<le> i \<and> thrashStride dvd (i - off) then xor (buf ! i) 0xAA else buf ! i)"
proof (induction off buf rule: thrash_pass.induct)
  case (1 off buf)
  show ?case
  proof (cases "off < length buf")
    case False
    with 1 show ?thesis by (subst thrash_pass.simps) auto
  next
    case True
    have pos: "0 < thrashStride" by (simp add: thrashStride_def)
    note step = dvd_step [OF pos, of off i]
    show ?thesis
    proof (cases "off \<le> i")
      case le: True
      with 1 True step [OF le] pos show ?thesis by (subst thrash_pass.simps) (auto simp: nth_list_update)
    qed (use 1 True in \<open>subst thrash_pass.simps, simp\<close>)
  qed
qed

section \<open>Counting chunks\<close>

lemma alloc_loop_range:
  "i \<le> n \<Longrightarrow> alloc_loop interval n i turns = (fin, k) \<Longrightarrow> i \<le> k \<and> k \<le> n \<and> (fin \<longleftrightarrow> k = n)"
  by (induction interval n i turns rule: alloc_loop.induct) (auto split: if_splits)

lemma alloc_loop_full: "i \<le> n \<Longrightarrow> n - i \<le> k \<Longrightarrow> alloc_loop interval n i (replicate k (False, True)) = (True, n)"
proof (induction k arbitrary: i)
  case (Suc k)
  then show ?case by (cases "i = n") simp_all
qed simp

lemma alloc_loop_stop:
  "i + k < n \<Longrightarrow> alloc_loop interval n i (replicate k (False, True) @ (True, b) # rest) = (False, i + k)"
  by (induction k arbitrary: i) simp_all

lemma release_loop_le: "release_loop interval len turns \<le> len"
  by (induction interval len turns rule: release_loop.induct) (auto intro: order_trans)

lemma release_loop_full: "len \<le> k \<Longrightarrow> release_loop interval len (replicate k (False, True)) = 0"
proof (induction k arbitrary: len)
  case (Suc k)
  then show ?case by (cases len) auto
qed simp

lemma sint_small: assumes "uint (w :: 64 word) < 2 ^ 63" shows "sint w = uint w"
proof -
  have "- (2 ^ 63) \<le> uint w" by (rule order_trans [of _ 0]) simp_all
  with assms show ?thesis by (simp add: sint_uint signed_take_bit_int_eq_self_iff)
qed

lemma memory_chunks_small:
  assumes "0 < chunk" and "uint w < 2 ^ 63"
  shows "memory_chunks w chunk = (if uint w div chunk < 1 \<and> 0 < uint w then 1 else uint w div chunk)"
proof -
  have "sint w sdiv chunk = uint w div chunk"
    unfolding sint_small [OF assms(2)] by (rule sdiv_nonneg) (use assms(1) in simp_all)
  then show ?thesis by (simp add: memory_chunks_def Let_def word_less_def)
qed

lemma memory_total_bound:
  assumes "0 < l" and "l \<le> 1" and "uint available \<le> 2 ^ 53"
  shows "uint (memory_total ovf (Fin l) available) \<le> \<lceil>l * of_int (uint available)\<rceil>"
    and "uint (memory_total ovf (Fin l) available) \<le> 2 ^ 53"
proof -
  let ?a = "uint available" and ?x = "l * of_int (uint available)"
  have f: "flt_of_int ?a = Fin (of_int ?a)" using assms(3) by (intro flt_of_int_small) simp_all
  have A: "0 \<le> (of_int ?a :: rat)" by (simp only: of_int_0_le_iff uint_ge_0)
  have x: "0 \<le> ?x" "?x \<le> of_int ?a"
    using assms(1) mult_nonneg_nonneg [OF _ A, of l] mult_left_le_one_le [OF A _ assms(2)] by simp_all
  obtain r where r: "round64 ?x = Fin r" "of_int \<lfloor>?x\<rfloor> \<le> r" "r \<le> of_int \<lceil>?x\<rceil>"
    using round64_between [OF x assms(3)] by blast
  have "0 \<le> \<lfloor>?x\<rfloor>" using x(1) by simp
  then have "0 \<le> (of_int \<lfloor>?x\<rfloor> :: rat)" by (simp only: of_int_0_le_iff)
  then have r0: "0 \<le> r" using r(2) by (rule order_trans)
  note B = rat_trunc_bounds [OF r0 r(3)]
  have c: "\<lceil>?x\<rceil> \<le> ?a" using x(2) by (simp add: ceiling_le_iff)
  have "rat_trunc r \<le> 2 ^ 53" using order_trans [OF B(2) order_trans [OF c assms(3)]] .
  moreover from this have "rat_trunc r < 2 ^ 64" by (rule le_less_trans) simp
  moreover from this B(1) have "uint (memory_total ovf (Fin l) available) = rat_trunc r"
    unfolding memory_total_def f flt_mul_def prod.case float64.case r(1) float_to_uint64_def
    by (simp add: uint_word_of_int)
  ultimately show "uint (memory_total ovf (Fin l) available) \<le> \<lceil>?x\<rceil>"
    and "uint (memory_total ovf (Fin l) available) \<le> 2 ^ 53" using B(2) by simp_all
qed

lemma memory_target_uint:
  "uint (memory_target t u) = (if uint u < uint t then uint t - uint u else 0)"
  by (simp add: memory_target_def word_less_def uint_sub_if')

lemma memory_Start_load:
  assumes "memory_Start ovf m c = Inr plan" and "mc_target_load c = Fin l"
  shows "0 < l" and "l \<le> 1" and "plan = memory_plan ovf m c"
  using assms by (auto simp: memory_Start_def memory_Validate_def load_ok_def split: option.splits if_splits)

lemma chunk_size_pos: "0 < memory_EffectiveChunkSize c"
  by (simp add: memory_EffectiveChunkSize_def)

lemma readUint64File_dec:
  assumes "n < 2 ^ 64" shows "readUint64File (Some (format_dec n @ [CHR 0x0A])) = of_nat n"
proof -
  note fd = format_dec_digits [of n]
  have "TrimSpace (format_dec n @ [CHR 0x0A]) = format_dec n" using fd by (intro TrimSpace_number) simp_all
  moreover have "int n < 2 ^ 64" using assms by simp
  ultimately show ?thesis using fd by (simp add: readUint64File_def ParseUint_def Let_def)
qed

text \<open>The chunks of a plan fit into its target, unless one chunk is larger than it.\<close>

lemma memory_plan_within:
  assumes "memory_Start ovf m c = Inr plan" and "mc_target_load c = Fin l" and "uint (AvailableMemory m) \<le> 2 ^ 53"
    and "k \<le> nat (mp_numChunks plan)"
  shows "mp_chunkSize plan \<le> uint (mp_targetBytes plan) \<Longrightarrow>
      uint (CurrentUsage m) + int k * mp_chunkSize plan \<le> \<lceil>l * of_int (uint (AvailableMemory m))\<rceil>"
    and "uint (mp_targetBytes plan) < mp_chunkSize plan \<Longrightarrow> k \<le> (if mp_targetBytes plan = 0 then 0 else 1)"
    and "0 < mp_chunkSize plan"
proof -
  note L = memory_Start_load [OF assms(1,2)]
  let ?a = "AvailableMemory m" and ?u = "CurrentUsage m" and ?n = "mp_numChunks plan"
  let ?t = "memory_total ovf (Fin l) ?a" and ?T = "uint (mp_targetBytes plan)" and ?c = "mp_chunkSize plan"
  note tot = memory_total_bound [OF L(1,2) assms(3), of ovf]
  have p: "mp_targetBytes plan = memory_target ?t ?u" "?c = memory_EffectiveChunkSize c"
    "?n = memory_chunks (mp_targetBytes plan) ?c"
    by (simp_all add: L(3) memory_plan_def Let_def assms(2))
  show c: "0 < ?c" using chunk_size_pos p(2) by simp
  have T: "?T = (if uint ?u < uint ?t then uint ?t - uint ?u else 0)" by (simp add: p(1) memory_target_uint)
  have "?T \<le> uint ?t" using T by simp
  then have "?T \<le> 2 ^ 53" using tot(2) by (rule order_trans)
  then have "?T < 2 ^ 63" by (rule le_less_trans) simp
  note N = memory_chunks_small [OF c this]
  show "uint ?u + int k * ?c \<le> \<lceil>l * of_int (uint ?a)\<rceil>" if big: "?c \<le> ?T"
  proof -
    have "1 \<le> ?T div ?c" using big c by (simp add: int_one_le_iff_zero_less pos_imp_zdiv_pos_iff)
    then have "int k \<le> ?T div ?c" using assms(4) N p(3) by simp
    then have "int k * ?c \<le> ?T" using int_le_div_iff [OF c] by simp
    moreover have "0 < ?T" using big c by simp
    ultimately show ?thesis using T tot(1) by (simp split: if_splits)
  qed
  show "k \<le> (if mp_targetBytes plan = 0 then 0 else 1)" if "?T < ?c"
  proof -
    have "?T div ?c = 0" using that by simp
    then show ?thesis using assms(4) N p(3) by (cases "0 < ?T") (auto simp: uint_0_iff)
  qed
qed

section \<open>Properties\<close>

text \<open>
  The memory fault stays within its target: what it allocates and what is in use already come to
  at most the target load's share of the limit, rounded up to a byte, unless the room left is smaller than
  one chunk; then it is a single chunk, and none when there is no room.
\<close>

theorem memory_within_target:
  assumes "memory_Start ovf m c = Inr plan" and "mc_target_load c = Fin l" and "uint (AvailableMemory m) \<le> 2 ^ 53"
  shows "(mp_chunkSize plan \<le> uint (mp_targetBytes plan) \<longrightarrow>
          uint (CurrentUsage m) + int (mr_allocated (memory_run c plan allocs releases)) * mp_chunkSize plan
            \<le> \<lceil>l * of_int (uint (AvailableMemory m))\<rceil>) \<and>
     (uint (mp_targetBytes plan) < mp_chunkSize plan \<longrightarrow>
        mr_allocated (memory_run c plan allocs releases) \<le> (if mp_targetBytes plan = 0 then 0 else 1))"
proof -
  obtain fin k where a: "alloc_loop (alloc_interval (mc_base c) (mp_numChunks plan)) (nat (mp_numChunks plan)) 0 allocs = (fin, k)"
    by fastforce
  have k: "k \<le> nat (mp_numChunks plan)" using alloc_loop_range [OF _ a] by simp
  have run: "mr_allocated (memory_run c plan allocs releases) = k" by (simp add: memory_run_def a Let_def)
  show ?thesis unfolding run using memory_plan_within(1,2) [OF assms k] by blast
qed

definition sample_system :: memory_system where
  "sample_system = \<lparr>ms_max = None, ms_limit = Some (format_dec 8000000 @ [CHR 0x0A]), ms_meminfo = None, ms_goos = ''linux'',
     ms_sysctl = None, ms_current = None, ms_usage = None\<rparr>"

definition sample_memory :: memory_config where
  "sample_memory = \<lparr>mc_base = sample_ramps, mc_target_load = Fin (1 / 2), mc_chunk_size = 0, mc_thrashing = False,
     mc_thrash_workers = 0\<rparr>"

lemma sample_memory_valid: "memory_Validate sample_memory = None"
  using sample_ramps_ok by (simp add: memory_Validate_def sample_memory_def load_ok_def)

lemma sample_plan:
  fixes plan defines "plan \<equiv> memory_plan 0 sample_system sample_memory"
  shows "memory_Start 0 sample_system sample_memory = Inr plan" and "mc_target_load sample_memory = Fin (1 / 2)"
    and "AvailableMemory sample_system = 8000000" and "CurrentUsage sample_system = 0"
    and "mp_chunkSize plan = 1048576" and "mp_targetBytes plan = 4000000" and "mp_numChunks plan = 3"
proof -
  show a: "AvailableMemory sample_system = 8000000"
    using readUint64File_dec [of 8000000]
    by (simp add: AvailableMemory_def sample_system_def detectMemoryCgroupV2_def detectMemoryCgroupV1_def)
  show u: "CurrentUsage sample_system = 0" by (simp add: CurrentUsage_def sample_system_def readUint64File_def)
  show "memory_Start 0 sample_system sample_memory = Inr plan" by (simp add: memory_Start_def sample_memory_valid plan_def)
  show "mc_target_load sample_memory = Fin (1 / 2)" by (simp add: sample_memory_def)
  have f: "flt_of_int 8000000 = Fin 8000000" using flt_of_int_small [of 8000000] by simp
  have r: "round64 4000000 = Fin 4000000" using float_rat_int [of 4000000] by (simp add: float_rat_def)
  show c: "mp_chunkSize plan = 1048576" and t: "mp_targetBytes plan = 4000000"
    by (simp_all add: plan_def memory_plan_def Let_def memory_EffectiveChunkSize_def sample_memory_def a u memory_total_def f
        flt_mul_def r float_to_uint64_def rat_trunc_def memory_target_def)
  have "mp_numChunks plan = memory_chunks (mp_targetBytes plan) (mp_chunkSize plan)"
    by (simp add: plan_def memory_plan_def Let_def)
  moreover have "memory_chunks 4000000 1048576 = 3" by (subst memory_chunks_small) simp_all
  ultimately show "mp_numChunks plan = 3" by (simp add: c t)
qed

theorem memory_within_target_witness:
  "\<exists>plan. memory_Start 0 sample_system sample_memory = Inr plan \<and>
     int (mr_allocated (memory_run sample_memory plan [(False, True), (False, True)] [])) * mp_chunkSize plan \<le> 4000000"
proof -
  have "uint (AvailableMemory sample_system) \<le> 2 ^ 53" by (simp add: sample_plan)
  from memory_within_target [OF sample_plan(1,2) this, of "[(False, True), (False, True)]" "[]"]
  show ?thesis by (intro exI [of _ "memory_plan 0 sample_system sample_memory"]) (simp add: sample_plan)
qed

text \<open>
  What an undisturbed run and an interrupted one come to. Undisturbed, all planned chunks are allocated, and
  released one after another when there is a ramp-down. When the context is done at the \<open>k\<close>-th chunk, only
  \<open>k\<close> chunks are allocated and nothing thrashes, but the detail reports all planned chunks as allocated.
\<close>

theorem memory_run_outcome:
  assumes "mp_numChunks plan = int n" and "k < n" and "n \<le> ka" and "n \<le> kr"
  shows "(let r = memory_run c plan (replicate ka (False, True)) (replicate kr (False, True)) in
           mr_allocated r = n \<and> mr_released r = (if fc_ramp_down (mc_base c) > 0 then n else 0) \<and>
           md_peak (mr_detail r) = of_nat n * word_of_int (mp_chunkSize plan)) \<and>
     (let r = memory_run c plan (replicate k (False, True) @ (True, b) # rest) releases in
           mr_allocated r = k \<and> mr_released r = 0 \<and> mr_thrashers r = 0 \<and>
           md_peak (mr_detail r) = of_nat k * word_of_int (mp_chunkSize plan) \<and> md_chunks (mr_detail r) = int n)"
proof -
  have "alloc_loop i n 0 (replicate ka (False, True)) = (True, n)" for i using assms by (simp add: alloc_loop_full)
  moreover have "alloc_loop i n 0 (replicate k (False, True) @ (True, b) # rest) = (False, k)" for i
    using alloc_loop_stop [of 0 k n] assms by simp
  moreover have "release_loop i n (replicate kr (False, True)) = 0" for i using assms by (simp add: release_loop_full)
  ultimately show ?thesis using assms by (simp add: memory_run_def Let_def)
qed

theorem memory_run_outcome_witness:
  "md_chunks (mr_detail (memory_run sample_memory
     \<lparr>mp_available = 9000, mp_targetBytes = 3000, mp_chunkSize = 1000, mp_numChunks = 3, mp_thrashWorkers = 2\<rparr> [(False, True), (True, False)] [])) = 3 \<and>
   mr_allocated (memory_run sample_memory
     \<lparr>mp_available = 9000, mp_targetBytes = 3000, mp_chunkSize = 1000, mp_numChunks = 3, mp_thrashWorkers = 2\<rparr> [(False, True), (True, False)] []) = 1"
  using memory_run_outcome [where n = 3 and k = 1 and ka = 3 and kr = 3 and b = False and rest = "[]" and releases = "[]"
      and c = sample_memory and
      plan = "\<lparr>mp_available = 9000, mp_targetBytes = 3000, mp_chunkSize = 1000, mp_numChunks = 3, mp_thrashWorkers = 2\<rparr>"]
  by (simp add: Let_def)

text \<open>
  How long an undisturbed run with \<open>n\<close> chunks waits, with valid ramps: the duration less one step and the
  rounding of each ramp. With a single chunk the ramps are not waited for at all, and the fault
  ends that much before its duration is over.
\<close>

theorem memory_timeline:
  assumes "ramps_ok (fc_duration c) (fc_ramp_up c) (fc_ramp_down c)" and "1 \<le> n"
  shows "(n - 1) * alloc_interval c n + hold_duration c + (n - 1) * release_interval c (nat n) =
     fc_duration c - (fc_ramp_up c div n + fc_ramp_up c mod n) - (fc_ramp_down c div n + fc_ramp_down c mod n)"
proof -
  have up: "0 \<le> fc_ramp_up c" and down: "0 \<le> fc_ramp_down c" and dur: "fc_duration c < 2 ^ 63"
    and fit: "fc_ramp_up c + fc_ramp_down c < fc_duration c"
    using assms(1) by (simp_all add: ramps_ok_def)
  have w: "wrap64 (fc_duration c - fc_ramp_up c) = fc_duration c - fc_ramp_up c"
    and w': "wrap64 (fc_duration c - fc_ramp_up c - fc_ramp_down c) = fc_duration c - fc_ramp_up c - fc_ramp_down c"
    using up down dur fit by (intro wrap64_id i64_nonneg; linarith)+
  have h: "hold_duration c = fc_duration c - fc_ramp_up c - fc_ramp_down c" by (simp add: hold_duration_def w w')
  have step: "(n - 1) * (x div n) = x - (x div n + x mod n)" for x
    using div_mult_mod_eq [of x n] by (simp add: algebra_simps)
  have a: "(n - 1) * alloc_interval c n = (n - 1) * (fc_ramp_up c div n)"
    using up assms(2) by (auto simp: alloc_interval_def sdiv_nonneg)
  have r: "release_interval c (nat n) = fc_ramp_down c div n"
    using down assms(2) by (simp add: release_interval_def sdiv_nonneg)
  show ?thesis unfolding a r h step by simp
qed

theorem memory_timeline_witness:
  "hold_duration sample_ramps = 70 * Second"
  using memory_timeline [OF valid_ramps [OF sample_ramps_ok], of 1] by (simp add: sample_ramps_def)

text \<open>
  Where no limit is found, the fault of a valid configuration starts without an error and allocates nothing.
\<close>

theorem no_limit_no_pressure:
  assumes "AvailableMemory m = 0" and "memory_Validate c = None" and "mc_target_load c = Fin l"
  shows "\<exists>plan. memory_Start ovf m c = Inr plan \<and> mp_numChunks plan = 0 \<and>
     mr_allocated (memory_run c plan allocs releases) = 0"
proof -
  have "memory_total ovf (Fin l) 0 = 0"
    by (simp add: memory_total_def float_to_uint64_def rat_trunc_def)
  then have "mp_numChunks (memory_plan ovf m c) = 0"
    using memory_chunks_small [OF chunk_size_pos, of 0 c] assms
    by (simp add: memory_plan_def Let_def memory_target_def)
  moreover have "alloc_loop i 0 0 allocs = (True, 0)" for i by (cases allocs) auto
  ultimately show ?thesis using assms by (simp add: memory_Start_def memory_run_def Let_def)
qed

theorem no_limit_no_pressure_witness:
  "\<exists>plan. memory_Start 0 (sample_system\<lparr>ms_limit := None\<rparr>) sample_memory = Inr plan \<and>
     mr_allocated (memory_run sample_memory plan [(False, True)] []) = 0"
proof -
  have "AvailableMemory (sample_system\<lparr>ms_limit := None\<rparr>) = 0"
    by (simp add: AvailableMemory_def sample_system_def detectMemoryCgroupV2_def detectMemoryCgroupV1_def
        readUint64File_def detectProcMeminfo_def detectSysctl_def)
  from no_limit_no_pressure [OF this sample_memory_valid, of "1 / 2" 0 "[(False, True)]" "[]"] show ?thesis
    by (auto simp: sample_memory_def)
qed

text \<open>Every page of a new chunk is written, which makes the system back it with memory.\<close>

theorem alloc_commits_pages:
  assumes "off < sz" shows "length (allocChunk sz) = sz \<and> allocChunk sz ! off = (if 4096 dvd off then 0xFF else 0)"
  using touch_pages_nth [of off "replicate sz 0" 0] assms by (simp add: allocChunk_def pageSize_def)

theorem alloc_commits_pages_witness: "allocChunk 5000 ! 4096 = 0xFF"
  using alloc_commits_pages [of 4096 5000] by simp

text \<open>
  A pass of a thrashing worker changes a byte on every page of a chunk of up to 4096 pages; in larger
  ones its stride, a byte longer than a page, passes over the page with index 4096.
\<close>

theorem thrash_reaches_pages:
  assumes "length chunk = p * 4096"
  shows "(p \<le> 4096 \<longrightarrow> (\<forall>k < p. \<exists>off. off < length chunk \<and> off div 4096 = k \<and> thrash_pass 0 chunk ! off \<noteq> chunk ! off)) \<and>
     (\<forall>off < length chunk. off div 4096 = 4096 \<longrightarrow> thrash_pass 0 chunk ! off = chunk ! off)"
proof (intro conjI impI allI)
  fix k assume p: "p \<le> 4096" "k < p"
  let ?off = "k * 4097"
  have q: "?off = k * 4096 + k" by simp
  have k: "k < 4096" "(k + 1) * 4096 \<le> p * 4096" using p by simp_all
  have lt: "?off < length chunk" using k by (simp add: assms)
  have "?off div 4096 = k" unfolding q using k(1) by simp
  moreover have "thrash_pass 0 chunk ! ?off = xor (chunk ! ?off) 0xAA"
    using thrash_pass_nth [OF lt, of 0] by (simp add: thrashStride_def pageSize_def)
  moreover have "xor w 0xAA \<noteq> w" for w :: "8 word"
  proof
    assume "xor w 0xAA = w"
    then have "xor w (xor w 0xAA) = 0" by simp
    then show False by (simp flip: xor.assoc)
  qed
  ultimately show "\<exists>off. off < length chunk \<and> off div 4096 = k \<and> thrash_pass 0 chunk ! off \<noteq> chunk ! off"
    using lt by (intro exI [of _ ?off]) simp
next
  fix off assume off: "off < length chunk" "off div 4096 = 4096"
  have "\<not> 4097 dvd off"
  proof
    assume "4097 dvd off"
    then obtain j where j: "off = 4097 * j" by (rule dvdE)
    have "4096 * 4096 \<le> off" "off < 4097 * 4096" using off(2) div_mult_mod_eq [of off 4096] mod_less_divisor [of 4096 off] by linarith+
    with j have "4095 < j" "j < 4096" by simp_all
    then show False by simp
  qed
  then show "thrash_pass 0 chunk ! off = chunk ! off"
    using thrash_pass_nth [OF off(1), of 0] by (simp add: thrashStride_def pageSize_def)
qed

theorem thrash_reaches_pages_witness:
  "\<exists>off. off div 4096 = 1 \<and> thrash_pass 0 (replicate 8192 0) ! off \<noteq> 0"
proof -
  have "\<forall>k < 2. \<exists>off. off < 8192 \<and> off div 4096 = k \<and> thrash_pass 0 (replicate 8192 0) ! off \<noteq> replicate 8192 0 ! off"
    using thrash_reaches_pages [of "replicate 8192 0" 2] by simp
  from spec [OF this, of 1]
  obtain off where "off < 8192" "off div 4096 = 1" "thrash_pass 0 (replicate 8192 0) ! off \<noteq> replicate 8192 0 ! off"
    by auto
  then show ?thesis by (intro exI [of _ off]) simp
qed

text \<open>Any number the kernel writes into one of its files, with its line feed, is read back.\<close>

theorem memory_file_round_trip:
  assumes "n < 2 ^ 64" shows "readUint64File (Some (format_dec n @ [CHR 0x0A])) = of_nat n"
  using assms by (rule readUint64File_dec)

theorem memory_file_round_trip_witness:
  "readUint64File (Some (format_dec 18446744073709551615 @ [CHR 0x0A])) = - 1"
  using memory_file_round_trip [of 18446744073709551615] by simp

end
