(* ===== verification/Stress_Start.thy ===== *)
theory Stress_Start
  imports Resource_Ramp
begin

text \<open>
  \<open>Start\<close> of the I/O fault (\<open>internal/fault/resource/io/stress.go\<close>) and of the disk fault
  (\<open>internal/fault/resource/disk/stress.go\<close>): the files they create, the errors, the workers
  together, and the result they send. What the system calls return is an input; a directory is
  a map from the names of its files to their bytes.
\<close>

section \<open>Files of the I/O fault\<close>

type_synonym directory = "string \<rightharpoonup> string"

text \<open>\<open>fmt.Sprintf("file_%04d.hex", i)\<close>\<close>

definition file_name :: "nat \<Rightarrow> string" where
  "file_name i = ''file_'' @ replicate (4 - length (format_dec i)) (CHR ''0'') @ format_dec i @ ''.hex''"

text \<open>
  The system calls for one file: whether it is created, the bytes \<open>rand.Read\<close> draws, whether the write succeeds
  and how many bytes a failing one has written.
\<close>

record file_outcome =
  fo_created :: bool
  fo_random :: "string option"
  fo_written :: bool
  fo_partial :: nat

definition writeRandomFile :: "string \<Rightarrow> file_outcome \<Rightarrow> directory \<Rightarrow> bool \<times> directory" where
  "writeRandomFile path x d =
     (if \<not> fo_created x then (False, d)
      else (case fo_random x of
              None \<Rightarrow> (False, d(path \<mapsto> []))
            | Some bytes \<Rightarrow>
                if fo_written x then (True, d(path \<mapsto> bytes)) else (False, d(path \<mapsto> take (fo_partial x) bytes))))"

text \<open>The loop of phase 1 from the \<open>i\<close>-th file on, with an outcome for every file; \<open>Inl\<close> is the file that fails.\<close>

fun write_files :: "int \<Rightarrow> nat \<Rightarrow> file_outcome list \<Rightarrow> directory \<Rightarrow> string list \<Rightarrow> int \<Rightarrow> (nat \<times> directory) + (directory \<times> string list \<times> int)" where
  "write_files fileSize i [] d files total_bytes = Inr (d, files, total_bytes)"
| "write_files fileSize i (x # os) d files total_bytes =
     (case writeRandomFile (file_name i) x d of
        (False, d') \<Rightarrow> Inl (i, d')
      | (True, d') \<Rightarrow> write_files fileSize (i + 1) os d' (files @ [file_name i]) (wrap64 (total_bytes + fileSize)))"

datatype io_error = IoInvalid fault_error | NoTempDir | FileFailed nat

text \<open>
  \<open>Start\<close> of the I/O fault up to the goroutine: whether \<open>os.MkdirTemp\<close> succeeds, the outcomes of the files,
  whether \<open>os.RemoveAll\<close> works. The second component is the directory left, if there is one.
\<close>

definition io_Start :: "io_config \<Rightarrow> bool \<Rightarrow> (nat \<Rightarrow> file_outcome) \<Rightarrow> bool \<Rightarrow> (io_error + string list \<times> int) \<times> directory option" where
  "io_Start c mkdir outcomes removed =
     (case io_Validate c of
        Some e \<Rightarrow> (Inl (IoInvalid e), None)
      | None \<Rightarrow>
          if \<not> mkdir then (Inl NoTempDir, None)
          else (case write_files (EffectiveFileSize c) 0 (map outcomes [0..<nat (EffectiveFileCount c)]) Map.empty [] 0 of
                  Inl (i, d) \<Rightarrow> (Inl (FileFailed i), if removed then None else Some d)
                | Inr (d, files, total_bytes) \<Rightarrow> (Inr (files, total_bytes), Some d)))"

section \<open>The readers together\<close>

record io_detail =
  id_bytesWritten :: int
  id_bytesRead :: int
  id_writeOps :: int
  id_readOps :: int
  id_fileCount :: int
  id_fileSize :: int

text \<open>
  The workers' additions to the shared counters commute, so the totals are the sums of what each
  of them adds. The second component says whether the directory is still there.
\<close>

definition io_run :: "io_config \<Rightarrow> string list \<Rightarrow> int \<Rightarrow> read_round list list \<Rightarrow> read_run list" where
  "io_run c files written rounds =
     map2 (readWorker (length files)) [0..<nat (EffectiveWorkers c)] rounds"

definition io_result :: "io_config \<Rightarrow> string list \<Rightarrow> int \<Rightarrow> read_round list list \<Rightarrow> int \<Rightarrow> ctx_error option \<Rightarrow> ctx_error option \<Rightarrow>
    int \<times> io_detail \<times> ctx_error option" where
  "io_result c files written rounds elapsed ctx throttle =
     (let runs = io_run c files written rounds
      in (elapsed,
          \<lparr>id_bytesWritten = written, id_bytesRead = wrap64 (sum_list (map rd_total runs)),
           id_writeOps = EffectiveFileCount c, id_readOps = wrap64 (sum_list (map rd_ops runs)),
           id_fileCount = EffectiveFileCount c, id_fileSize = EffectiveFileSize c\<rparr>,
          stress_err ctx throttle))"

definition io_emitPhaseEvents :: "io_config \<Rightarrow> int \<Rightarrow> bool \<Rightarrow> bool \<Rightarrow> bool \<Rightarrow> resource_event list" where
  "io_emitPhaseEvents c targetRate = phase_events (''atropos.resource.target_rate'', IntAttr targetRate) (ic_base c)"

section \<open>The disk fault\<close>

record disk_detail =
  dd_bytesWritten :: int
  dd_writeOps :: int
  dd_maxDisk :: int

datatype disk_error = DiskInvalid fault_error | NoTempFile

text \<open>\<open>Start\<close> of the disk fault up to the goroutine: the bucket it makes at an instant and its rate, limit and chunk.\<close>

definition disk_Start :: "disk_config \<Rightarrow> bool \<Rightarrow> int \<Rightarrow> disk_error + token_bucket \<times> int \<times> int \<times> int" where
  "disk_Start c created now =
     (case disk_Validate c of
        Some e \<Rightarrow> Inl (DiskInvalid e)
      | None \<Rightarrow>
          if \<not> created then Inl NoTempFile
          else (let writeRate = EffectiveWriteRate c; maxDisk = EffectiveMaxDiskUsage c; chunkSize = disk_EffectiveChunkSize c
                in Inr (newTokenBucket now writeRate chunkSize, writeRate, maxDisk, chunkSize)))"

definition disk_result :: "disk_config \<Rightarrow> write_round list \<Rightarrow> int \<Rightarrow> ctx_error option \<Rightarrow> ctx_error option \<Rightarrow>
    int \<times> disk_detail \<times> ctx_error option" where
  "disk_result c rounds elapsed ctx throttle =
     (let r = writeWorker (EffectiveMaxDiskUsage c) (disk_EffectiveChunkSize c) rounds new_file
      in (elapsed,
          \<lparr>dd_bytesWritten = dr_written r, dd_writeOps = dr_ops r, dd_maxDisk = EffectiveMaxDiskUsage c\<rparr>,
          stress_err ctx throttle))"

definition disk_emitPhaseEvents :: "disk_config \<Rightarrow> int \<Rightarrow> bool \<Rightarrow> bool \<Rightarrow> bool \<Rightarrow> resource_event list" where
  "disk_emitPhaseEvents c targetRate = phase_events (''atropos.resource.target_rate'', IntAttr targetRate) (dc_base c)"

section \<open>Names and files\<close>

lemma digits_val_padding: "digits_val 0 (replicate k (CHR ''0'')) = 0"
  by (induction k) (simp_all add: digits_val_def digit_val_def)

lemma file_name_inj: "file_name i = file_name j \<longleftrightarrow> i = j"
proof
  assume "file_name i = file_name j"
  then have "replicate (4 - length (format_dec i)) (CHR ''0'') @ format_dec i =
      replicate (4 - length (format_dec j)) (CHR ''0'') @ format_dec j"
    by (simp add: file_name_def flip: append_assoc)
  then have "digits_val 0 (replicate (4 - length (format_dec i)) (CHR ''0'') @ format_dec i) =
      digits_val 0 (replicate (4 - length (format_dec j)) (CHR ''0'') @ format_dec j)" by simp
  then show "i = j" using format_dec_digits [of i] format_dec_digits [of j]
    by (simp add: digits_val_append digits_val_padding)
qed simp

definition file_ok :: "int \<Rightarrow> file_outcome \<Rightarrow> bool" where
  "file_ok n x \<longleftrightarrow> fo_created x \<and> fo_written x \<and> (\<exists>bytes. fo_random x = Some bytes \<and> int (length bytes) = n)"

text \<open>\<open>rand.Read\<close> fills its buffer.\<close>

definition rand_fills :: "int \<Rightarrow> file_outcome \<Rightarrow> bool" where
  "rand_fills n x \<longleftrightarrow> (case fo_random x of None \<Rightarrow> True | Some bytes \<Rightarrow> int (length bytes) = n)"

lemma write_files_ok:
  "\<forall>x \<in> set os. rand_fills sz x \<Longrightarrow> write_files sz i os d files t = Inr (d', files', t') \<Longrightarrow>
   (\<forall>x \<in> set os. file_ok sz x) \<and> files' = files @ map file_name [i..<i + length os] \<and>
   (i64 t \<longrightarrow> t' = wrap64 (t + sz * int (length os))) \<and>
   dom d' = dom d \<union> file_name ` {i..<i + length os} \<and>
   (\<forall>j \<in> {i..<i + length os}. \<exists>bytes. d' (file_name j) = Some bytes \<and> int (length bytes) = sz) \<and>
   (\<forall>p. p \<notin> file_name ` {i..<i + length os} \<longrightarrow> d' p = d p)"
proof (induction os arbitrary: i d files t)
  case Nil
  then show ?case by (auto simp: wrap64_id)
next
  case (Cons x os)
  obtain bytes where b: "fo_created x" "fo_written x" "fo_random x = Some bytes" "int (length bytes) = sz"
    and rest: "write_files sz (i + 1) os (d(file_name i \<mapsto> bytes)) (files @ [file_name i]) (wrap64 (t + sz)) = Inr (d', files', t')"
    using Cons.prems by (auto simp: writeRandomFile_def rand_fills_def split: if_splits option.splits)
  note IH = Cons.IH [OF _ rest]
  have ran: "{i..<i + length (x # os)} = insert i {i + 1..<i + 1 + length os}"
    by auto
  have upt: "[i..<i + length (x # os)] = i # [i + 1..<i + 1 + length os]"
    using upt_conv_Cons [of i "i + length (x # os)"] by simp
  have w: "wrap64 (wrap64 (t + sz) + sz * int (length os)) = wrap64 (t + sz * int (length (x # os)))"
    by (simp add: wrap64_def mod_simps algebra_simps)
  have ni: "file_name i \<notin> file_name ` {i + 1..<i + 1 + length os}" by (auto simp: file_name_inj)
  show ?case unfolding ran upt
    using IH Cons.prems(1) b ni w by (auto simp: file_ok_def)
qed

lemma write_files_fails:
  "write_files sz i os d files t = Inl (j, d') \<Longrightarrow> i \<le> j \<and> j < i + length os \<and> \<not> (\<exists>n. file_ok n (os ! (j - i)))"
proof (induction os arbitrary: i d files t)
  case (Cons x os)
  obtain ok d1 where w: "writeRandomFile (file_name i) x d = (ok, d1)" by fastforce
  show ?case
  proof (cases ok)
    case True
    with Cons w have "i + 1 \<le> j \<and> j < i + 1 + length os \<and> \<not> (\<exists>n. file_ok n (os ! (j - (i + 1))))" by fastforce
    then show ?thesis by (auto simp: nth_Cons' Suc_diff_le)
  next
    case False
    with Cons.prems w have "j = i" by simp
    with False w show ?thesis by (auto simp: writeRandomFile_def file_ok_def split: if_splits option.splits)
  qed
qed simp

section \<open>Counters\<close>

lemma read_loop_totals:
  assumes "\<forall>r \<in> set rounds. 0 \<le> rr_read r \<and> rr_read r \<le> sz" and "0 \<le> sz"
  shows "0 \<le> rd_total s \<Longrightarrow> rd_total s \<le> rd_ops s * sz \<Longrightarrow> 0 \<le> rd_ops s \<Longrightarrow>
     rd_ops s + int (length rounds) < 2 ^ 63 \<Longrightarrow> (rd_ops s + int (length rounds)) * sz < 2 ^ 63 \<Longrightarrow>
     rd_ops s = int (length (rd_opened s)) \<Longrightarrow>
     (let s' = read_loop n rounds s in
      rd_ops s' = int (length (rd_opened s')) \<and> 0 \<le> rd_total s' \<and> rd_total s' \<le> rd_ops s' * sz \<and>
      rd_ops s' \<le> rd_ops s + int (length rounds))"
  using assms(1)
proof (induction rounds arbitrary: s)
  case (Cons r rounds)
  let ?s = "s\<lparr>rd_total := wrap64 (rd_total s + rr_read r), rd_ops := wrap64 (rd_ops s + 1),
                rd_idx := (rd_idx s + 1) mod n, rd_opened := rd_opened s @ [rd_idx s]\<rparr>"
  have r: "0 \<le> rr_read r" "rr_read r \<le> sz" using Cons.prems(7) by simp_all
  have le: "(rd_ops s + 1) * sz \<le> (rd_ops s + int (length (r # rounds))) * sz"
    using assms(2) by (intro mult_right_mono) simp_all
  have t: "rd_total s + rr_read r \<le> (rd_ops s + 1) * sz" using Cons.prems(2) r by (simp add: distrib_right)
  have w: "wrap64 (rd_total s + rr_read r) = rd_total s + rr_read r" "wrap64 (rd_ops s + 1) = rd_ops s + 1"
    using Cons.prems r t le by (intro wrap64_id i64_nonneg; simp)+
  have "let s' = read_loop n rounds ?s in
      rd_ops s' = int (length (rd_opened s')) \<and> 0 \<le> rd_total s' \<and> rd_total s' \<le> rd_ops s' * sz \<and>
      rd_ops s' \<le> rd_ops ?s + int (length rounds)"
    using Cons.prems r t w by (intro Cons.IH) (simp_all add: algebra_simps)
  with Cons.prems w show ?case by (auto simp: Let_def)
qed (simp add: Let_def)

lemma readWorker_totals:
  assumes "\<forall>r \<in> set rounds. 0 \<le> rr_read r \<and> rr_read r \<le> sz" and "0 \<le> sz"
    and "int (length rounds) < 2 ^ 63" and "int (length rounds) * sz < 2 ^ 63"
  shows "rd_ops (readWorker n w rounds) = int (length (rd_opened (readWorker n w rounds)))"
    and "0 \<le> rd_total (readWorker n w rounds)"
    and "rd_total (readWorker n w rounds) \<le> rd_ops (readWorker n w rounds) * sz"
    and "rd_ops (readWorker n w rounds) \<le> int (length rounds)"
proof -
  let ?s = "\<lparr>rd_idx = w mod n, rd_total = 0, rd_ops = 0, rd_opened = []\<rparr>"
  have "rd_ops (readWorker n w rounds) = int (length (rd_opened (readWorker n w rounds))) \<and>
      0 \<le> rd_total (readWorker n w rounds) \<and>
      rd_total (readWorker n w rounds) \<le> rd_ops (readWorker n w rounds) * sz \<and>
      rd_ops (readWorker n w rounds) \<le> int (length rounds)"
    unfolding readWorker_def using assms(3,4) read_loop_totals [OF assms(1,2), of ?s n] by (auto simp: Let_def)
  then show "rd_ops (readWorker n w rounds) = int (length (rd_opened (readWorker n w rounds)))"
    "0 \<le> rd_total (readWorker n w rounds)"
    "rd_total (readWorker n w rounds) \<le> rd_ops (readWorker n w rounds) * sz"
    "rd_ops (readWorker n w rounds) \<le> int (length rounds)" by blast+
qed

lemma writeWorker_totals:
  assumes "0 < chunk"
  shows "dr_written s = chunk * dr_ops s \<Longrightarrow> 0 \<le> dr_ops s \<Longrightarrow> chunk * (dr_ops s + int (length rounds)) < 2 ^ 63 \<Longrightarrow>
     (let s' = writeWorker maxDisk chunk rounds s in
      dr_written s' = chunk * dr_ops s' \<and> 0 \<le> dr_ops s' \<and> dr_ops s' \<le> dr_ops s + int (length rounds))"
proof (induction rounds arbitrary: s)
  case (Cons r rounds)
  define s1 where "s1 = (if wrap64 (dr_fileSize s + chunk) > maxDisk then s\<lparr>dr_fileSize := 0, dr_offset := 0\<rparr> else s)"
  define s2 where "s2 = file_write chunk s1"
  define s3 where "s3 = s2\<lparr>dr_fileSize := wrap64 (dr_fileSize s2 + chunk), dr_written := wrap64 (dr_written s2 + chunk),
      dr_ops := wrap64 (dr_ops s2 + 1)\<rparr>"
  have f: "dr_written s1 = dr_written s" "dr_ops s1 = dr_ops s" "dr_written s2 = dr_written s" "dr_ops s2 = dr_ops s"
    "dr_written (file_write k s1) = dr_written s" "dr_ops (file_write k s1) = dr_ops s" for k
    by (simp_all add: s1_def s2_def file_write_def)
  have "chunk * (dr_ops s + 1) \<le> chunk * (dr_ops s + int (length (r # rounds)))"
    using assms by (intro mult_left_mono) simp_all
  then have lt: "chunk * (dr_ops s + 1) < 2 ^ 63" using Cons.prems(3) by simp
  have nn: "0 \<le> dr_written s" using Cons.prems(1,2) assms by simp
  have "1 * (dr_ops s + 1) \<le> chunk * (dr_ops s + 1)" using assms Cons.prems(2) by (intro mult_right_mono) simp_all
  with lt have o: "dr_ops s + 1 < 2 ^ 63" by simp
  have w: "wrap64 (dr_written s + chunk) = chunk * (dr_ops s + 1)" "wrap64 (dr_ops s + 1) = dr_ops s + 1"
    using Cons.prems(1,2) lt o nn assms by (simp_all add: wrap64_id i64_nonneg algebra_simps)
  have "let s' = writeWorker maxDisk chunk rounds s3 in
      dr_written s' = chunk * dr_ops s' \<and> 0 \<le> dr_ops s' \<and> dr_ops s' \<le> dr_ops s3 + int (length rounds)"
    using Cons.prems w f by (intro Cons.IH) (simp_all add: s3_def algebra_simps)
  moreover have "dr_ops s3 = dr_ops s + 1" using w f by (simp add: s3_def)
  moreover have "writeWorker maxDisk chunk (r # rounds) s =
      (if wr_done r \<or> \<not> wr_acquired r \<or> (wrap64 (dr_fileSize s + chunk) > maxDisk \<and> \<not> wr_seek_ok r) then s
       else if \<not> wr_write_ok r then file_write (wr_partial r) s1 else writeWorker maxDisk chunk rounds s3)"
    by (simp add: s1_def s2_def s3_def Let_def)
  ultimately show ?case using Cons.prems f by (auto simp: Let_def)
qed (simp add: Let_def)

section \<open>Properties\<close>

text \<open>
  Phase 1 of the I/O fault is all or nothing: it succeeds exactly with the directory holding the configured
  number of files, with different names and the configured size, and the count of the bytes written; when
  it fails, nothing of the directory is left if it can be removed, and a file is to blame only
  if one of its system calls failed.
\<close>

theorem io_start_outcome:
  assumes "\<forall>i. rand_fills (EffectiveFileSize c) (outcomes i)"
  shows "case io_Start c mkdir outcomes removed of
     (Inr (files, total_bytes), dir) \<Rightarrow>
       io_Validate c = None \<and> mkdir \<and> (\<forall>i < nat (EffectiveFileCount c). file_ok (EffectiveFileSize c) (outcomes i)) \<and>
       length files = nat (EffectiveFileCount c) \<and> distinct files \<and>
       total_bytes = wrap64 (EffectiveFileSize c * int (nat (EffectiveFileCount c))) \<and>
       (\<exists>d. dir = Some d \<and> dom d = set files \<and> (\<forall>f \<in> set files. int (length (the (d f))) = EffectiveFileSize c))
   | (Inl e, dir) \<Rightarrow>
       (removed \<longrightarrow> dir = None) \<and>
       (case e of IoInvalid v \<Rightarrow> io_Validate c = Some v | NoTempDir \<Rightarrow> \<not> mkdir
        | FileFailed i \<Rightarrow> i < nat (EffectiveFileCount c) \<and> \<not> file_ok (EffectiveFileSize c) (outcomes i))"
proof (cases "io_Validate c = None \<and> mkdir")
  case False
  then show ?thesis by (auto simp: io_Start_def split: option.splits)
next
  case True
  let ?n = "nat (EffectiveFileCount c)"
  let ?os = "map outcomes [0..<?n]"
  have r: "\<forall>x \<in> set ?os. rand_fills (EffectiveFileSize c) x" using assms by simp
  show ?thesis
  proof (cases "write_files (EffectiveFileSize c) 0 ?os Map.empty [] 0")
    case (Inl e)
    obtain i d where e: "e = (i, d)" by fastforce
    from write_files_fails [OF Inl [unfolded e]] have "i < ?n" "\<not> file_ok (EffectiveFileSize c) (outcomes i)" by auto
    with True Inl e show ?thesis by (simp add: io_Start_def)
  next
    case (Inr s)
    obtain d files t where s: "s = (d, files, t)" by (metis surj_pair)
    note W = write_files_ok [OF r Inr [unfolded s]]
    have files: "files = map file_name [0..<?n]" and dom: "dom d = file_name ` {0..<?n}" using W by auto
    have "distinct files" unfolding files by (simp add: distinct_map inj_on_def file_name_inj)
    moreover have "\<forall>f \<in> set files. int (length (the (d f))) = EffectiveFileSize c" using W by (auto simp: files)
    moreover have "t = wrap64 (EffectiveFileSize c * int ?n)" using W by (simp add: i64_def)
    moreover have "\<forall>i < ?n. file_ok (EffectiveFileSize c) (outcomes i)" using W by auto
    ultimately show ?thesis using True Inr s files dom by (simp add: io_Start_def)
  qed
qed

theorem io_start_outcome_witness:
  "\<exists>c outcomes files total_bytes dir. io_Start c True outcomes True = (Inr (files, total_bytes), dir) \<and> length files = 3 \<and>
     distinct files \<and> total_bytes = 6"
proof -
  let ?c = "\<lparr>ic_base = sample_ramps, ic_read_rate = 10, ic_file_size = 2, ic_file_count = 3, ic_workers = 1, ic_path = [], ic_mode = ModeRead\<rparr>"
  let ?os = "\<lambda>_::nat. \<lparr>fo_created = True, fo_random = Some ''ab'', fo_written = True, fo_partial = 0\<rparr>"
  have s: "EffectiveFileSize ?c = 2" "EffectiveFileCount ?c = 3" by (simp_all add: EffectiveFileSize_def EffectiveFileCount_def)
  have v: "io_Validate ?c = None" using sample_ramps_ok by (simp add: io_Validate_def)
  have "\<forall>i. rand_fills (EffectiveFileSize ?c) (?os i)" by (simp add: s rand_fills_def)
  from io_start_outcome [OF this, of True True]
  show ?thesis
    by (intro exI [of _ ?c] exI [of _ ?os], cases "io_Start ?c True ?os True")
      (auto simp: s v rand_fills_def file_ok_def wrap64_def split: sum.splits prod.splits io_error.splits)
qed

text \<open>
  The totals the I/O fault reports: the reads are the files its workers opened, and the bytes are at most
  a file's size for each.
\<close>

theorem io_totals:
  assumes "\<forall>rs \<in> set rounds. \<forall>r \<in> set rs. 0 \<le> rr_read r \<and> rr_read r \<le> EffectiveFileSize c"
    and "length rounds = nat (EffectiveWorkers c)"
    and "sum_list (map (int \<circ> length) rounds) * EffectiveFileSize c < 2 ^ 63" and "sum_list (map (int \<circ> length) rounds) < 2 ^ 63"
  shows "let d = fst (snd (io_result c files written rounds elapsed ctx throttle)) in
     id_readOps d = sum_list (map (int \<circ> length \<circ> rd_opened) (io_run c files written rounds)) \<and>
     0 \<le> id_bytesRead d \<and> id_bytesRead d \<le> id_readOps d * EffectiveFileSize c"
proof -
  let ?sz = "EffectiveFileSize c" and ?n = "length files"
  have sz: "0 \<le> ?sz" by (simp add: EffectiveFileSize_def DefaultFileSize_def)
  have gen: "sum_list (map rd_ops runs) = sum_list (map (int \<circ> length \<circ> rd_opened) runs) \<and> 0 \<le> sum_list (map rd_total runs) \<and>
      sum_list (map rd_total runs) \<le> sum_list (map rd_ops runs) * ?sz \<and> 0 \<le> sum_list (map rd_ops runs) \<and>
      sum_list (map rd_ops runs) \<le> sum_list (map (int \<circ> length) rs)"
    if "runs = map2 (readWorker ?n) ws rs" "length ws = length rs"
      "\<forall>r \<in> set rs. \<forall>x \<in> set r. 0 \<le> rr_read x \<and> rr_read x \<le> ?sz"
      "sum_list (map (int \<circ> length) rs) * ?sz < 2 ^ 63" "sum_list (map (int \<circ> length) rs) < 2 ^ 63" for ws rs runs
    using that
  proof (induction ws rs arbitrary: runs rule: list_induct2')
    case (4 w ws r rs)
    have nn: "0 \<le> sum_list (map (int \<circ> length) rs)" by (intro sum_list_nonneg) auto
    have p: "int (length r) * ?sz \<le> sum_list (map (int \<circ> length) (r # rs)) * ?sz"
      "sum_list (map (int \<circ> length) rs) * ?sz \<le> sum_list (map (int \<circ> length) (r # rs)) * ?sz"
      using nn sz by (simp_all add: distrib_right)
    have "int (length r) \<le> sum_list (map (int \<circ> length) (r # rs))" using nn by simp
    then have "int (length r) < 2 ^ 63" using "4.prems"(5) by (rule le_less_trans)
    note R = readWorker_totals [OF _ sz this, of ?n w]
    have r: "\<forall>x \<in> set r. 0 \<le> rr_read x \<and> rr_read x \<le> ?sz" using "4.prems"(3) by simp
    note R = R [OF r le_less_trans [OF p(1) "4.prems"(4)]]
    have "sum_list (map (int \<circ> length) rs) \<le> sum_list (map (int \<circ> length) (r # rs))" by simp
    then have rest: "sum_list (map (int \<circ> length) rs) < 2 ^ 63" using "4.prems"(5) by (rule le_less_trans)
    have rs: "length ws = length rs" "\<forall>r \<in> set rs. \<forall>x \<in> set r. 0 \<le> rr_read x \<and> rr_read x \<le> ?sz"
      using "4.prems"(2,3) by simp_all
    define X where "X = map2 (readWorker ?n) ws rs"
    have runs: "runs = readWorker ?n w r # X" using "4.prems"(1) by (simp add: X_def)
    have IH: "sum_list (map rd_ops X) = sum_list (map (int \<circ> length \<circ> rd_opened) X)" "0 \<le> sum_list (map rd_total X)"
      "sum_list (map rd_total X) \<le> sum_list (map rd_ops X) * ?sz" "0 \<le> sum_list (map rd_ops X)"
      "sum_list (map rd_ops X) \<le> sum_list (map (int \<circ> length) rs)"
      using "4.IH" [OF X_def rs le_less_trans [OF p(2) "4.prems"(4)] rest] by blast+
    have "0 \<le> rd_ops (readWorker ?n w r)" using R(1) by simp
    then show ?case using R IH unfolding runs list.map sum_list.Cons distrib_right comp_apply by (intro conjI) linarith+
  qed simp_all
  let ?runs = "io_run c files written rounds"
  have len: "length [0..<nat (EffectiveWorkers c)] = length rounds" using assms(2) by simp
  have G: "sum_list (map rd_ops ?runs) = sum_list (map (int \<circ> length \<circ> rd_opened) ?runs)"
    "0 \<le> sum_list (map rd_total ?runs)" "sum_list (map rd_total ?runs) \<le> sum_list (map rd_ops ?runs) * ?sz"
    "0 \<le> sum_list (map rd_ops ?runs)" "sum_list (map rd_ops ?runs) \<le> sum_list (map (int \<circ> length) rounds)"
    using gen [OF io_run_def len assms(1,3,4)] by blast+
  have "sum_list (map rd_ops ?runs) * ?sz \<le> sum_list (map (int \<circ> length) rounds) * ?sz" using G(5) sz by (rule mult_right_mono)
  then have "wrap64 (sum_list (map rd_total ?runs)) = sum_list (map rd_total ?runs)"
    and "wrap64 (sum_list (map rd_ops ?runs)) = sum_list (map rd_ops ?runs)"
    using G assms(3,4) by (intro wrap64_id i64_nonneg; linarith)+
  with G show ?thesis by (simp add: io_result_def Let_def)
qed

theorem io_totals_witness:
  "\<exists>c d. fst (snd (io_result c [''f'', ''g''] 4 [[\<lparr>rr_done = False, rr_acquired = True, rr_open_ok = True, rr_read = 2\<rparr>]] 9 None None)) = d \<and>
     id_readOps d = 1 \<and> id_bytesRead d \<le> 2"
proof -
  let ?c = "\<lparr>ic_base = sample_ramps, ic_read_rate = 10, ic_file_size = 2, ic_file_count = 2, ic_workers = 1, ic_path = [], ic_mode = ModeRead\<rparr>"
  let ?r = "\<lparr>rr_done = False, rr_acquired = True, rr_open_ok = True, rr_read = 2\<rparr>"
  have "\<forall>rs \<in> set [[?r]]. \<forall>r \<in> set rs. 0 \<le> rr_read r \<and> rr_read r \<le> EffectiveFileSize ?c" by (simp add: EffectiveFileSize_def)
  from io_totals [OF this, of "[''f'', ''g'']" 4 9 None None]
  show ?thesis
    by (intro exI [of _ ?c]) (simp add: EffectiveWorkers_def EffectiveFileSize_def Let_def io_run_def readWorker_def)
qed

text \<open>
  What the disk fault reports: each successful write counts one chunk, whatever the errors, as long
  as the counter does not overflow.
\<close>

theorem disk_totals:
  assumes "disk_EffectiveChunkSize c * int (length rounds) < 2 ^ 63"
  shows "let d = fst (snd (disk_result c rounds elapsed ctx throttle)) in
     dd_bytesWritten d = disk_EffectiveChunkSize c * dd_writeOps d \<and> 0 \<le> dd_writeOps d \<and> dd_writeOps d \<le> int (length rounds)"
proof -
  have "0 < disk_EffectiveChunkSize c" by (simp add: disk_EffectiveChunkSize_def DefaultChunkSize_def)
  from writeWorker_totals [OF this, of new_file rounds "EffectiveMaxDiskUsage c"] assms
  show ?thesis by (simp add: disk_result_def Let_def new_file_def)
qed

theorem disk_totals_witness:
  "dd_bytesWritten (fst (snd (disk_result \<lparr>dc_base = sample_ramps, dc_write_rate = 1, dc_max_disk = 10, dc_chunk_size = 4, dc_path = []\<rparr>
     [good_round] 7 None None))) = 4"
  using disk_totals [of "\<lparr>dc_base = sample_ramps, dc_write_rate = 1, dc_max_disk = 10, dc_chunk_size = 4, dc_path = []\<rparr>"
      "[good_round]" 7 None None]
  by (simp add: disk_EffectiveChunkSize_def disk_result_def Let_def good_round_def new_file_def file_write_def wrap64_def EffectiveMaxDiskUsage_def)

text \<open>The mode of the I/O fault changes nothing: it writes all its files and then reads, whatever the mode.\<close>

theorem io_mode_ignored:
  "io_Start (c\<lparr>ic_mode := m\<rparr>) = io_Start c \<and> io_result (c\<lparr>ic_mode := m\<rparr>) = io_result c"
  by (simp add: io_Start_def io_result_def io_run_def io_Validate_def EffectiveFileSize_def EffectiveFileCount_def
      EffectiveWorkers_def fun_eq_iff cong: option.case_cong)

end
