(* ===== verification/Network_Proxy.thy ===== *)
theory Network_Proxy
  imports Fault_Kinds
begin

text \<open>
  The TCP proxy fault (\<open>internal/fault/network\<close>): the \<open>Pipe\<close> loop of each toxic, hijacking,
  the handling of a connection and the accept loop. A \<open>Pipe\<close> runs over a list of rounds, one
  per \<open>Read\<close>; a round says what the read returned and what the environment did meanwhile. The
  result is how the pipe ended, the bytes written to the destination and the waits. The
  locale \<open>toxic_pipe\<close> is what \<open>streamWorker\<close> relies on: a toxic delays or cuts a stream,
  but never changes, invents or reorders bytes.
\<close>

section \<open>Rounds\<close>

datatype read_end = ReadEOF | ReadFailed

text \<open>
  \<open>pr_ctx\<close> and \<open>pr_timer\<close>: the context is done, or the toxic's timer has fired, when the loop
  looks at them. \<open>pr_time\<close> is the draw of the jitter or the elapsed time of the write.
  \<open>pr_stop\<close> is the wait of the round that the context interrupts, \<open>pr_fail\<close> the write
  that fails, and after how many bytes.
\<close>

record pipe_round =
  pr_ctx :: bool
  pr_timer :: bool
  pr_data :: string
  pr_end :: "read_end option"
  pr_lost :: bool
  pr_time :: int
  pr_stop :: "nat option"
  pr_fail :: "(nat \<times> nat) option"

datatype pipe_end = PipeNil | PipeCtx | PipeReadErr | PipeWriteErr | PipeRST string int | PipeOpen

type_synonym pipe_result = "pipe_end \<times> string \<times> int list"

definition prepend :: "string \<Rightarrow> int list \<Rightarrow> pipe_result \<Rightarrow> pipe_result" where
  "prepend out ws res = (fst res, out @ fst (snd res), ws @ snd (snd res))"

text \<open>The test of \<open>readErr\<close> that ends every round.\<close>

definition after_read :: "pipe_round \<Rightarrow> pipe_result \<Rightarrow> pipe_result" where
  "after_read r k =
     (case pr_end r of None \<Rightarrow> k | Some ReadEOF \<Rightarrow> (PipeNil, [], []) | Some ReadFailed \<Rightarrow> (PipeReadErr, [], []))"

definition fails_at :: "pipe_round \<Rightarrow> nat \<Rightarrow> nat option" where
  "fails_at r k = (case pr_fail r of None \<Rightarrow> None | Some (j, m) \<Rightarrow> if j = k then Some m else None)"

definition write_all :: "pipe_round \<Rightarrow> pipe_result \<Rightarrow> pipe_result" where
  "write_all r k =
     (case fails_at r 0 of
        Some m \<Rightarrow> (PipeWriteErr, take m (pr_data r), [])
      | None \<Rightarrow> prepend (pr_data r) [] k)"

definition wait_for :: "int \<Rightarrow> pipe_round \<Rightarrow> pipe_result \<Rightarrow> pipe_result" where
  "wait_for d r k = (if pr_stop r = Some 0 then (PipeCtx, [], [d]) else prepend [] [d] k)"

section \<open>The toxics\<close>

fun latency_pipe :: "int \<Rightarrow> int \<Rightarrow> pipe_round list \<Rightarrow> pipe_result" where
  "latency_pipe delay jitter [] = (PipeOpen, [], [])"
| "latency_pipe delay jitter (r # rs) =
     (let next = after_read r (latency_pipe delay jitter rs)
      in if pr_data r = [] then next
         else wait_for (if jitter > 0 then wrap64 (delay + pr_time r) else delay) r (write_all r next))"

definition EffectiveRetransmit :: "int \<Rightarrow> int" where
  "EffectiveRetransmit d = (if d = 0 then 200 * Millisecond else d)"

fun loss_pipe :: "int \<Rightarrow> int \<Rightarrow> int \<Rightarrow> pipe_round list \<Rightarrow> pipe_result" where
  "loss_pipe retransmit threshold consecutive [] = (PipeOpen, [], [])"
| "loss_pipe retransmit threshold consecutive (r # rs) =
     (if pr_ctx r then (PipeCtx, [], [])
      else if pr_data r = [] then after_read r (loss_pipe retransmit threshold consecutive rs)
      else if pr_lost r then
        (let c = consecutive + 1
         in if threshold > 0 \<and> c \<ge> threshold then (PipeRST ''packet_loss_threshold'' 0, [], [])
            else wait_for retransmit r (write_all r (after_read r (loss_pipe retransmit threshold c rs))))
      else write_all r (after_read r (loss_pipe retransmit threshold 0 rs)))"

text \<open>The inner loop of \<open>Drip\<close>; \<open>k\<close> counts the pieces. \<open>None\<close> means that all were written.\<close>

definition EffectiveDripChunk :: "int \<Rightarrow> nat" where
  "EffectiveDripChunk c = (if c \<le> 0 then 1 else nat c)"

function drip_pieces :: "nat \<Rightarrow> int \<Rightarrow> pipe_round \<Rightarrow> nat \<Rightarrow> string \<Rightarrow> pipe_end option \<times> string \<times> int list" where
  "drip_pieces chunk interval r k data =
     (if data = [] \<or> chunk = 0 then (None, [], [])
      else
        (let piece = take chunk data; rest = drop chunk data; pause = (rest \<noteq> [] \<and> interval > 0)
         in case fails_at r k of
              Some m \<Rightarrow> (Some PipeWriteErr, take m piece, [])
            | None \<Rightarrow>
                (if pause \<and> pr_stop r = Some k then (Some PipeCtx, piece, [interval])
                 else case drip_pieces chunk interval r (Suc k) rest of
                        (e, out, ws) \<Rightarrow> (e, piece @ out, (if pause then [interval] else []) @ ws))))"
  by pat_completeness auto

termination
  by (relation "measure (\<lambda>(chunk, interval, r, k, data). length data)") auto

declare drip_pieces.simps [simp del]

fun drip_pipe :: "nat \<Rightarrow> int \<Rightarrow> pipe_round list \<Rightarrow> pipe_result" where
  "drip_pipe chunk interval [] = (PipeOpen, [], [])"
| "drip_pipe chunk interval (r # rs) =
     (if pr_ctx r then (PipeCtx, [], [])
      else case drip_pieces chunk interval r 0 (pr_data r) of
             (Some e, out, ws) \<Rightarrow> (e, out, ws)
           | (None, out, ws) \<Rightarrow> prepend out ws (after_read r (drip_pipe chunk interval rs)))"

text \<open>
  \<open>tx n\<close> is the transmission time of \<open>n\<close> bytes, the floating point quotient the code computes.
\<close>

fun throttle_pipe :: "(nat \<Rightarrow> int) \<Rightarrow> pipe_round list \<Rightarrow> pipe_result" where
  "throttle_pipe tx [] = (PipeOpen, [], [])"
| "throttle_pipe tx (r # rs) =
     (let next = after_read r (throttle_pipe tx rs); sleep = wrap64 (tx (length (pr_data r)) - pr_time r)
      in if pr_ctx r then (PipeCtx, [], [])
         else if pr_data r = [] then next
         else write_all r (if sleep > 0 then wait_for sleep r next else next))"

fun rst_pipe :: "int \<Rightarrow> int \<Rightarrow> int \<Rightarrow> pipe_round list \<Rightarrow> pipe_result" where
  "rst_pipe afterBytes afterDuration forwarded [] = (PipeOpen, [], [])"
| "rst_pipe afterBytes afterDuration forwarded (r # rs) =
     (let total = wrap64 (forwarded + int (length (pr_data r)))
      in if pr_ctx r then (PipeCtx, [], [])
         else if pr_timer r \<and> afterDuration > 0 then (PipeRST ''duration'' forwarded, [], [])
         else if pr_data r = [] then after_read r (rst_pipe afterBytes afterDuration forwarded rs)
         else write_all r
           (if afterBytes > 0 \<and> total \<ge> afterBytes then (PipeRST ''bytes'' total, [], [])
            else after_read r (rst_pipe afterBytes afterDuration total rs)))"

text \<open>\<open>Blackhole\<close> consumes its source and returns when the context is done.\<close>

definition blackhole_pipe :: "pipe_round list \<Rightarrow> pipe_result" where
  "blackhole_pipe rs = (if \<exists>r \<in> set rs. pr_ctx r then (PipeCtx, [], []) else (PipeOpen, [], []))"

text \<open>\<open>passthrough\<close>: \<open>io.Copy\<close> on a goroutine, until it ends or the context is done.\<close>

fun passthrough_pipe :: "pipe_round list \<Rightarrow> pipe_result" where
  "passthrough_pipe [] = (PipeOpen, [], [])"
| "passthrough_pipe (r # rs) =
     (if pr_ctx r then (PipeCtx, [], [])
      else if pr_data r = [] then after_read r (passthrough_pipe rs)
      else write_all r (after_read r (passthrough_pipe rs)))"

section \<open>What every toxic keeps\<close>

text \<open>The bytes the source offers before its end.\<close>

fun offered :: "pipe_round list \<Rightarrow> string" where
  "offered [] = []"
| "offered (r # rs) = pr_data r @ (if pr_end r = None then offered rs else [])"

definition faithful :: "pipe_round list \<Rightarrow> pipe_result \<Rightarrow> bool" where
  "faithful rs res \<longleftrightarrow>
     prefix (fst (snd res)) (offered rs) \<and> (fst res \<in> {PipeNil, PipeReadErr} \<longrightarrow> fst (snd res) = offered rs)"

locale toxic_pipe =
  fixes pipe :: "pipe_round list \<Rightarrow> pipe_result"
  assumes pipe_faithful: "faithful rs (pipe rs)"
begin

lemma delivers_prefix: "prefix (fst (snd (pipe rs))) (offered rs)"
  using pipe_faithful by (simp add: faithful_def)

lemma clean_end_delivers_all: "fst (pipe rs) = PipeNil \<Longrightarrow> fst (snd (pipe rs)) = offered rs"
  using pipe_faithful by (simp add: faithful_def)

lemma never_more: "length (fst (snd (pipe rs))) \<le> length (offered rs)"
  using delivers_prefix by (rule prefix_length_le)

end

lemma faithful_cut [intro]: "e \<notin> {PipeNil, PipeReadErr} \<Longrightarrow> prefix out (offered rs) \<Longrightarrow> faithful rs (e, out, ws)"
  by (simp add: faithful_def)

lemma faithful_waits [simp]: "faithful rs (prepend [] ws res) = faithful rs res"
  by (simp add: faithful_def prepend_def)

text \<open>The rest of a round, once its data is written.\<close>

definition rest_of :: "pipe_round \<Rightarrow> pipe_round list \<Rightarrow> pipe_round list" where
  "rest_of r rs = r\<lparr>pr_data := []\<rparr> # rs"

lemma offered_rest [simp]: "pr_data r @ offered (rest_of r rs) = offered (r # rs)"
  by (simp add: rest_of_def)

lemma offered_empty: "pr_data r = [] \<Longrightarrow> offered (rest_of r rs) = offered (r # rs)"
  by (simp add: rest_of_def)

lemma faithful_after_read: "faithful rs k \<Longrightarrow> faithful (rest_of r rs) (after_read r k)"
  by (auto simp: faithful_def after_read_def rest_of_def split: option.splits read_end.splits)

lemma faithful_empty: "pr_data r = [] \<Longrightarrow> faithful (rest_of r rs) k \<Longrightarrow> faithful (r # rs) k"
  unfolding faithful_def using offered_empty [of r rs] by metis

lemma faithful_write: "faithful (rest_of r rs) k \<Longrightarrow> faithful (r # rs) (write_all r k)"
  by (auto simp: faithful_def write_all_def prepend_def rest_of_def take_is_prefix prefix_prefix
      split: option.splits)

lemma faithful_wait: "faithful rs k \<Longrightarrow> faithful rs (wait_for d r k)"
  by (auto simp: wait_for_def)

lemma faithful_wait_rest: "faithful (rest_of r rs) k \<Longrightarrow> faithful (rest_of r rs) (wait_for d r k)"
  by (rule faithful_wait)

lemmas faithful_round = faithful_after_read faithful_write faithful_wait faithful_empty faithful_cut

lemma latency_faithful: "faithful rs (latency_pipe delay jitter rs)"
  by (induction rs) (auto simp: Let_def intro!: faithful_round)

lemma loss_faithful: "faithful rs (loss_pipe rt th c rs)"
  by (induction rs arbitrary: c) (auto simp: Let_def intro!: faithful_round)

lemma throttle_faithful: "faithful rs (throttle_pipe tx rs)"
  by (induction rs) (auto simp: Let_def intro!: faithful_round)

lemma rst_faithful: "faithful rs (rst_pipe ab ad f rs)"
  by (induction rs arbitrary: f) (auto simp: Let_def intro!: faithful_round)

lemma blackhole_faithful: "faithful rs (blackhole_pipe rs)"
  by (auto simp: blackhole_pipe_def)

lemma passthrough_faithful: "faithful rs (passthrough_pipe rs)"
  by (induction rs) (auto intro!: faithful_round)

lemma drip_pieces_prefix:
  "0 < chunk \<Longrightarrow>
   (case drip_pieces chunk interval r k data of
      (Some e, out, ws) \<Rightarrow> e \<in> {PipeCtx, PipeWriteErr} \<and> prefix out data
    | (None, out, ws) \<Rightarrow> out = data)"
proof (induction chunk interval r k data rule: drip_pieces.induct)
  case (1 chunk interval r k data)
  show ?case
  proof (cases "data = []")
    case True
    then show ?thesis by (simp add: drip_pieces.simps)
  next
    case False
    let ?rest = "drop chunk data"
    obtain e out ws where rec: "drip_pieces chunk interval r (Suc k) ?rest = (e, out, ws)" by (metis prod_cases3)
    have piece: "prefix (take m (take chunk data)) data" for m
      by (metis take_is_prefix prefix_order.trans)
    let ?stop = "(?rest \<noteq> [] \<and> interval > 0) \<and> pr_stop r = Some k"
    show ?thesis
    proof (cases "fails_at r k")
      case (Some m)
      then show ?thesis using False "1.prems" piece by (simp add: drip_pieces.simps [of chunk interval r k data])
    next
      case None
      show ?thesis
      proof (cases ?stop)
        case True
        then show ?thesis using None False "1.prems" by (simp add: drip_pieces.simps [of chunk interval r k data] take_is_prefix)
      next
        case nostop: False
        have ih: "case e of Some x \<Rightarrow> x \<in> {PipeCtx, PipeWriteErr} \<and> prefix out ?rest | None \<Rightarrow> out = ?rest"
          using "1.IH" [OF _ refl refl refl None nostop "1.prems"] False "1.prems" rec by (auto split: option.splits)
        have "prefix (take chunk data @ out) data" if "prefix out ?rest"
          using that by (metis append_take_drop_id same_prefix_prefix)
        with ih show ?thesis
          using None nostop False "1.prems" rec
          by (cases e) (simp_all add: drip_pieces.simps [of chunk interval r k data] Let_def del: de_Morgan_conj)
      qed
    qed
  qed
qed

lemma drip_faithful: "0 < chunk \<Longrightarrow> faithful rs (drip_pipe chunk interval rs)"
proof (induction rs)
  case (Cons r rs)
  obtain e out ws where p: "drip_pieces chunk interval r 0 (pr_data r) = (e, out, ws)" by (metis prod_cases3)
  note P = drip_pieces_prefix [OF Cons.prems, where interval = interval and r = r and k = 0 and data = "pr_data r", unfolded p]
  show ?case
  proof (cases e)
    case None
    with P have out: "out = pr_data r" by simp
    have "faithful (rest_of r rs) (after_read r (drip_pipe chunk interval rs))"
      using Cons.IH [OF Cons.prems] by (rule faithful_after_read)
    then show ?thesis using p None out by (auto simp: faithful_def prepend_def rest_of_def)
  next
    case (Some x)
    with P p show ?thesis by (auto intro!: faithful_cut prefix_prefix)
  qed
qed auto

interpretation latency: toxic_pipe "latency_pipe delay jitter" for delay jitter
  by unfold_locales (rule latency_faithful)

interpretation loss: toxic_pipe "loss_pipe retransmit threshold 0" for retransmit threshold
  by unfold_locales (rule loss_faithful)

interpretation throttle: toxic_pipe "throttle_pipe tx" for tx
  by unfold_locales (rule throttle_faithful)

interpretation rst: toxic_pipe "rst_pipe afterBytes afterDuration 0" for afterBytes afterDuration
  by unfold_locales (rule rst_faithful)

interpretation blackhole: toxic_pipe blackhole_pipe
  by unfold_locales (rule blackhole_faithful)

interpretation pass: toxic_pipe passthrough_pipe
  by unfold_locales (rule passthrough_faithful)

interpretation drip: toxic_pipe "drip_pipe (EffectiveDripChunk chunk) interval" for chunk interval
  by unfold_locales (rule drip_faithful, simp add: EffectiveDripChunk_def)

section \<open>Connections\<close>

text \<open>
  \<open>Hijack\<close> of the two toxics that implement it, before the dial (\<open>up\<close> false) or after it:
  whether they take the connection, and the error. \<open>fired\<close>: the timer of \<open>RST\<close> fires before the
  context is done.
\<close>

fun conn_hijack :: "toxic \<Rightarrow> bool \<Rightarrow> bool \<Rightarrow> (bool \<times> pipe_end option) option" where
  "conn_hijack BlackholeToxic up fired = Some (if up then (False, None) else (True, None))"
| "conn_hijack (RSTToxic afterBytes afterDuration) up fired =
     Some (if \<not> up \<or> afterBytes > 0 then (False, None)
           else if afterDuration \<le> 0 then (True, Some (PipeRST ''immediate'' 0))
           else (True, Some (if fired then PipeRST ''duration'' 0 else PipeCtx)))"
| "conn_hijack _ up fired = None"

text \<open>The toxics announced by a hijack event, and the error of the one that took the connection.\<close>

fun checkHijackers :: "bool \<Rightarrow> bool \<Rightarrow> toxic_link list \<Rightarrow> toxic list \<times> pipe_end option option" where
  "checkHijackers up fired [] = ([], None)"
| "checkHijackers up fired (lk # lks) =
     (case conn_hijack (tl_toxic lk) up fired of
        None \<Rightarrow> checkHijackers up fired lks
      | Some (hijacked, err) \<Rightarrow>
          if hijacked \<or> err \<noteq> None then ([tl_toxic lk], Some err)
          else (let (evs, res) = checkHijackers up fired lks in (tl_toxic lk # evs, res)))"

fun pipe_of :: "(int \<Rightarrow> nat \<Rightarrow> int) \<Rightarrow> toxic option \<Rightarrow> pipe_round list \<Rightarrow> pipe_result" where
  "pipe_of tx None rs = passthrough_pipe rs"
| "pipe_of tx (Some (LatencyToxic delay jitter)) rs = latency_pipe delay jitter rs"
| "pipe_of tx (Some (LossToxic rate retransmit threshold)) rs =
     loss_pipe (EffectiveRetransmit retransmit) threshold 0 rs"
| "pipe_of tx (Some BlackholeToxic) rs = blackhole_pipe rs"
| "pipe_of tx (Some (DripToxic chunk interval)) rs = drip_pipe (EffectiveDripChunk chunk) interval rs"
| "pipe_of tx (Some (RSTToxic afterBytes afterDuration)) rs = rst_pipe afterBytes afterDuration 0 rs"
| "pipe_of tx (Some (ThrottleToxic bps)) rs = throttle_pipe (tx bps) rs"

text \<open>
  \<open>streamWorker\<close>: the bytes delivered, whether an error event is emitted, and whether
  \<open>applyRST\<close> makes the close a reset.
\<close>

record stream_result =
  sr_out :: string
  sr_error :: bool
  sr_reset :: bool

definition streamWorker :: "(int \<Rightarrow> nat \<Rightarrow> int) \<Rightarrow> toxic option \<Rightarrow> pipe_round list \<Rightarrow> stream_result" where
  "streamWorker tx t rs =
     (case pipe_of tx t rs of (e, out, ws) \<Rightarrow>
        \<lparr>sr_out = out, sr_error = (e \<noteq> PipeNil),
         sr_reset = (case e of PipeRST reason n \<Rightarrow> True | _ \<Rightarrow> False)\<rparr>)"

definition split_toxics :: "toxic_link list \<Rightarrow> toxic option \<times> toxic option" where
  "split_toxics lks =
     fold (\<lambda>lk (u, d). case tl_direction lk of
             Upstream \<Rightarrow> (Some (tl_toxic lk), d) | Downstream \<Rightarrow> (u, Some (tl_toxic lk)) | DirectionOther _ \<Rightarrow> (u, d))
       lks (None, None)"

datatype conn_outcome =
  HijackedPre | DialFailed | HijackedPost bool | Streamed stream_result stream_result

definition handleAffected ::
  "(int \<Rightarrow> nat \<Rightarrow> int) \<Rightarrow> toxic_link list \<Rightarrow> bool \<Rightarrow> bool \<Rightarrow> pipe_round list \<Rightarrow> pipe_round list \<Rightarrow> conn_outcome" where
  "handleAffected tx toxics dial_ok fired up_rounds down_rounds =
     (case snd (checkHijackers False fired toxics) of
        Some _ \<Rightarrow> HijackedPre
      | None \<Rightarrow>
          if \<not> dial_ok then DialFailed
          else (case snd (checkHijackers True fired toxics) of
                  Some err \<Rightarrow> HijackedPost (case err of Some (PipeRST reason n) \<Rightarrow> True | _ \<Rightarrow> False)
                | None \<Rightarrow>
                    (let (u, d) = split_toxics toxics
                     in Streamed (streamWorker tx u up_rounds) (streamWorker tx d down_rounds))))"

section \<open>The accept loop\<close>

text \<open>An accepted connection with the draw of its random number, or an error of \<open>Accept\<close>.\<close>

datatype accepted = Conn rat | AcceptError bool bool

record proxy_counts =
  pc_total :: int
  pc_affected :: int
  pc_passthrough :: int

fun accept_loop :: "float64 \<Rightarrow> accepted list \<Rightarrow> proxy_counts \<Rightarrow> proxy_counts" where
  "accept_loop scope [] c = c"
| "accept_loop scope (Conn q # as) c =
     (let c1 = c\<lparr>pc_total := pc_total c + 1\<rparr>
      in accept_loop scope as
           (if flt_less (Fin q) scope then c1\<lparr>pc_affected := pc_affected c1 + 1\<rparr>
            else c1\<lparr>pc_passthrough := pc_passthrough c1 + 1\<rparr>))"
| "accept_loop scope (AcceptError ctx permanent # as) c =
     (if ctx then c else if permanent then c else accept_loop scope as c)"

definition proxy_run :: "net_config \<Rightarrow> accepted list \<Rightarrow> proxy_counts" where
  "proxy_run c as = accept_loop (effectiveScope c) as \<lparr>pc_total = 0, pc_affected = 0, pc_passthrough = 0\<rparr>"

section \<open>Lemmas\<close>

lemma checkHijackers_pre:
  "snd (checkHijackers False fired lks) \<noteq> None \<longleftrightarrow> BlackholeToxic \<in> tl_toxic ` set lks"
proof (induction lks)
  case (Cons lk lks)
  then show ?case by (cases "tl_toxic lk") (auto simp: split_beta)
qed simp

lemma checkHijackers_post:
  "snd (checkHijackers True fired lks) \<noteq> None \<longleftrightarrow> (\<exists>ab ad. RSTToxic ab ad \<in> tl_toxic ` set lks \<and> ab \<le> 0)"
proof (induction lks)
  case (Cons lk lks)
  then show ?case by (cases "tl_toxic lk") (auto simp: split_beta image_iff)
qed simp

lemma split_toxics_snoc:
  "split_toxics (lks @ [lk]) =
     (case tl_direction lk of
        Upstream \<Rightarrow> (Some (tl_toxic lk), snd (split_toxics lks))
      | Downstream \<Rightarrow> (fst (split_toxics lks), Some (tl_toxic lk))
      | DirectionOther _ \<Rightarrow> split_toxics lks)"
  by (simp add: split_toxics_def split_beta split: direction.splits)

lemma accept_loop_counts:
  "pc_total c = pc_affected c + pc_passthrough c \<Longrightarrow>
   pc_total (accept_loop scope as c) = pc_affected (accept_loop scope as c) + pc_passthrough (accept_loop scope as c)"
  by (induction scope as c rule: accept_loop.induct) (auto simp: Let_def)

lemma accept_loop_full:
  "(\<And>q. Conn q \<in> set as \<Longrightarrow> flt_less (Fin q) scope) \<Longrightarrow> pc_passthrough (accept_loop scope as c) = pc_passthrough c"
  by (induction scope as c rule: accept_loop.induct) (auto simp: Let_def)

lemma rst_bytes:
  "rst_pipe ab ad f rs = (PipeRST ''bytes'' n, out, ws) \<Longrightarrow> 0 \<le> f \<Longrightarrow> f < ab \<Longrightarrow> ab + B < 2 ^ 63 \<Longrightarrow>
   (\<And>r. r \<in> set rs \<Longrightarrow> int (length (pr_data r)) \<le> B) \<Longrightarrow>
   n = f + int (length out) \<and> ab \<le> n \<and> n < ab + B"
proof (induction rs arbitrary: f out ws)
  case (Cons r rs)
  let ?t = "f + int (length (pr_data r))"
  have B: "int (length (pr_data r)) \<le> B" using Cons.prems(5) by simp
  then have w: "wrap64 ?t = ?t" using Cons.prems(2-4) by (intro wrap64_id i64_nonneg) auto
  have nctx: "\<not> pr_ctx r" "\<not> (pr_timer r \<and> ad > 0)" using Cons.prems(1) by (auto simp: Let_def split: if_splits)
  show ?case
  proof (cases "pr_data r = []")
    case True
    with Cons.prems(1) nctx have "rst_pipe ab ad f rs = (PipeRST ''bytes'' n, out, ws)"
      by (auto simp: Let_def after_read_def split: option.splits read_end.splits)
    from Cons.IH [OF this Cons.prems(2-4)] Cons.prems(5) show ?thesis by simp
  next
    case False
    with Cons.prems(1) nctx w have fa: "fails_at r 0 = None"
      by (auto simp: Let_def write_all_def split: option.splits)
    show ?thesis
    proof (cases "ab \<le> ?t")
      case True
      with Cons.prems(1-3) nctx w False fa have "n = ?t" "out = pr_data r"
        by (auto simp: Let_def write_all_def prepend_def)
      with True Cons.prems(3) B show ?thesis by auto
    next
      case less: False
      with Cons.prems(1-3) nctx w False fa obtain out' ws' where
        rec: "rst_pipe ab ad ?t rs = (PipeRST ''bytes'' n, out', ws')" "out = pr_data r @ out'"
        by (cases "rst_pipe ab ad ?t rs") (auto simp: Let_def write_all_def prepend_def after_read_def split: option.splits read_end.splits)
      from Cons.IH [OF rec(1) _ _ Cons.prems(4)] less Cons.prems(2,5) rec(2) show ?thesis by auto
    qed
  qed
qed simp

lemma latency_waits_bound:
  assumes "0 \<le> delay" and "delay + max 0 jitter < 2 ^ 63"
  shows "(\<And>r. r \<in> set rs \<Longrightarrow> 0 \<le> pr_time r \<and> (0 < jitter \<longrightarrow> pr_time r < jitter)) \<Longrightarrow>
   d \<in> set (snd (snd (latency_pipe delay jitter rs))) \<Longrightarrow> delay \<le> d \<and> d \<le> delay + max 0 jitter"
proof (induction rs)
  case (Cons r rs)
  let ?d = "if jitter > 0 then wrap64 (delay + pr_time r) else delay"
  have t: "0 \<le> pr_time r" "0 < jitter \<longrightarrow> pr_time r < jitter" using Cons.prems(1) by auto
  then have w: "delay \<le> ?d \<and> ?d \<le> delay + max 0 jitter"
    using assms by (auto simp: wrap64_id i64_nonneg)
  have "d = ?d \<or> d \<in> set (snd (snd (latency_pipe delay jitter rs)))"
    using Cons.prems(2)
    by (auto simp: Let_def wait_for_def write_all_def after_read_def prepend_def split: if_splits option.splits read_end.splits)
  with w Cons.IH Cons.prems(1) show ?case by auto
qed simp

section \<open>Properties\<close>

text \<open>
  C4. Streams stay honest under every toxic: whatever the rounds bring, the bytes a
  \<open>streamWorker\<close> delivers are a prefix of the bytes its source offers, and when it reports no
  error they are all of them.
\<close>

theorem streamWorker_prefix:
  "prefix (sr_out (streamWorker tx t rs)) (offered rs) \<and>
   (\<not> sr_error (streamWorker tx t rs) \<longrightarrow> sr_out (streamWorker tx t rs) = offered rs)"
proof -
  have "prefix (fst (snd (pipe_of tx t rs))) (offered rs) \<and>
      (fst (pipe_of tx t rs) = PipeNil \<longrightarrow> fst (snd (pipe_of tx t rs)) = offered rs)"
  proof (cases t)
    case None
    then show ?thesis using pass.delivers_prefix pass.clean_end_delivers_all by simp
  next
    case (Some x)
    then show ?thesis
      by (cases x)
        (simp_all add: latency.delivers_prefix latency.clean_end_delivers_all loss.delivers_prefix loss.clean_end_delivers_all
           blackhole.delivers_prefix blackhole.clean_end_delivers_all drip.delivers_prefix drip.clean_end_delivers_all
           rst.delivers_prefix rst.clean_end_delivers_all throttle.delivers_prefix throttle.clean_end_delivers_all)
  qed
  then show ?thesis by (simp add: streamWorker_def split_beta)
qed

definition one_read :: "string \<Rightarrow> pipe_round" where
  "one_read s = \<lparr>pr_ctx = False, pr_timer = False, pr_data = s, pr_end = Some ReadEOF, pr_lost = False, pr_time = 0,
     pr_stop = None, pr_fail = None\<rparr>"

theorem streamWorker_prefix_witness:
  "sr_out (streamWorker (\<lambda>_ _. 0) (Some (DripToxic 2 5)) [one_read ''abc'']) = ''abc''"
proof -
  have "\<not> sr_error (streamWorker (\<lambda>_ _. 0) (Some (DripToxic 2 5)) [one_read ''abc''])"
    by (simp add: streamWorker_def one_read_def EffectiveDripChunk_def drip_pieces.simps fails_at_def prepend_def after_read_def)
  with streamWorker_prefix [of "\<lambda>_ _. 0" "Some (DripToxic 2 5)" "[one_read ''abc'']"] show ?thesis
    by (simp add: one_read_def)
qed

text \<open>
  Which connections reach the upstream. A blackhole anywhere in the list, whatever its
  direction, takes the connection before the dial; otherwise, when the dial succeeds, a reset
  toxic without a byte threshold takes it before any byte is piped; otherwise each direction is
  piped through one toxic, the last of the list for that direction.
\<close>

theorem handleAffected_outcome:
  "handleAffected tx toxics dial_ok fired ups downs =
     (if BlackholeToxic \<in> tl_toxic ` set toxics then HijackedPre
      else if \<not> dial_ok then DialFailed
      else if \<exists>ab ad. RSTToxic ab ad \<in> tl_toxic ` set toxics \<and> ab \<le> 0
      then HijackedPost (\<exists>reason n. snd (checkHijackers True fired toxics) = Some (Some (PipeRST reason n)))
      else Streamed (streamWorker tx (fst (split_toxics toxics)) ups) (streamWorker tx (snd (split_toxics toxics)) downs))"
proof -
  show ?thesis
    using checkHijackers_pre [of fired toxics] checkHijackers_post [of fired toxics]
    by (cases "snd (checkHijackers False fired toxics)"; cases "snd (checkHijackers True fired toxics)")
      (auto simp: handleAffected_def split_beta split: option.splits pipe_end.splits)
qed

text \<open>
  Only the last toxic of a direction has an effect: a toxic followed by another of the same
  direction is dropped from the stream, although the configuration accepts both.
\<close>

theorem earlier_toxic_dropped:
  assumes "tl_direction b = tl_direction a"
  shows "split_toxics (lks @ [a, b]) = split_toxics (lks @ [b])"
  using assms split_toxics_snoc [of "lks @ [a]" b] split_toxics_snoc [of lks a] split_toxics_snoc [of lks b]
  by (simp split: direction.splits)

theorem earlier_toxic_dropped_witness:
  "split_toxics [\<lparr>tl_toxic = LatencyToxic 5 0, tl_direction = Upstream\<rparr>, \<lparr>tl_toxic = ThrottleToxic 10, tl_direction = Upstream\<rparr>] =
   (Some (ThrottleToxic 10), None)"
  using earlier_toxic_dropped [of "\<lparr>tl_toxic = ThrottleToxic 10, tl_direction = Upstream\<rparr>"
      "\<lparr>tl_toxic = LatencyToxic 5 0, tl_direction = Upstream\<rparr>" "[]"]
  by (simp add: split_toxics_def)

text \<open>
  The accept loop: every connection counted is either affected or passed through; with the
  scope left at zero, which stands for one, all of them are affected, random draws being below
  one.
\<close>

theorem proxy_connections:
  "pc_total (proxy_run c as) = pc_affected (proxy_run c as) + pc_passthrough (proxy_run c as) \<and>
   (nc_scope c = Fin 0 \<and> (\<forall>q. Conn q \<in> set as \<longrightarrow> q < 1) \<longrightarrow> pc_passthrough (proxy_run c as) = 0)"
proof -
  let ?z = "\<lparr>pc_total = 0, pc_affected = 0, pc_passthrough = 0\<rparr>"
  have "pc_passthrough (proxy_run c as) = 0" if "nc_scope c = Fin 0" "\<forall>q. Conn q \<in> set as \<longrightarrow> q < 1"
    using accept_loop_full [of as "Fin 1" ?z] that by (simp add: proxy_run_def effectiveScope_def)
  moreover have "pc_total (proxy_run c as) = pc_affected (proxy_run c as) + pc_passthrough (proxy_run c as)"
    using accept_loop_counts [of ?z] by (simp add: proxy_run_def)
  ultimately show ?thesis by blast
qed

theorem proxy_connections_witness:
  "\<exists>c. pc_passthrough (proxy_run c [Conn (1/2), AcceptError False False, Conn 0]) = 0"
proof -
  let ?c = "\<lparr>nc_base = \<lparr>fc_duration = 1, fc_ramp_up = 0, fc_ramp_down = 0\<rparr>, nc_listen = [], nc_upstream = [],
      nc_scope = Fin 0, nc_toxics = [], nc_external = False\<rparr>"
  from proxy_connections [of ?c "[Conn (1/2), AcceptError False False, Conn 0]"] show ?thesis
    by (intro exI [of _ ?c]) auto
qed

text \<open>
  A reset by byte count happens when the threshold has been delivered and before one more
  read buffer has: the count it reports is the number of bytes delivered, at least the threshold
  and less than the threshold plus the largest read.
\<close>

theorem rst_byte_threshold:
  assumes "rst_pipe ab ad 0 rs = (PipeRST ''bytes'' n, out, ws)" and "0 < ab" and "ab + B < 2 ^ 63"
    and "\<forall>r \<in> set rs. int (length (pr_data r)) \<le> B"
  shows "n = int (length out) \<and> ab \<le> n \<and> n < ab + B"
  using rst_bytes [OF assms(1) _ assms(2,3)] assms(4) by simp

theorem rst_byte_threshold_witness:
  "\<exists>out ws n. rst_pipe 2 0 0 [(one_read ''abc'')\<lparr>pr_end := None\<rparr>] = (PipeRST ''bytes'' n, out, ws) \<and> n = 3"
proof -
  have "rst_pipe 2 0 0 [(one_read ''abc'')\<lparr>pr_end := None\<rparr>] = (PipeRST ''bytes'' 3, ''abc'', [])"
    by (simp add: one_read_def write_all_def fails_at_def prepend_def wrap64_def)
  from rst_byte_threshold [OF this, of 3] this show ?thesis by (auto simp: one_read_def)
qed

text \<open>
  Every chunk the latency toxic forwards waits at least the configured delay and at most
  the delay plus the jitter.
\<close>

theorem latency_wait_bounds:
  assumes "0 \<le> delay" and "delay + max 0 jitter < 2 ^ 63"
    and "\<forall>r \<in> set rs. 0 \<le> pr_time r \<and> (0 < jitter \<longrightarrow> pr_time r < jitter)"
    and "d \<in> set (snd (snd (latency_pipe delay jitter rs)))"
  shows "delay \<le> d \<and> d \<le> delay + max 0 jitter"
  using latency_waits_bound [OF assms(1,2) _ assms(4)] assms(3) by blast

theorem latency_wait_bounds_witness:
  "\<exists>d. d \<in> set (snd (snd (latency_pipe 10 5 [(one_read ''x'')\<lparr>pr_time := 3\<rparr>]))) \<and> 10 \<le> d \<and> d \<le> 15"
proof -
  have mem: "13 \<in> set (snd (snd (latency_pipe 10 5 [(one_read ''x'')\<lparr>pr_time := 3\<rparr>])))"
    by (simp add: one_read_def wait_for_def prepend_def wrap64_def Let_def)
  from latency_wait_bounds [OF _ _ _ mem] mem show ?thesis by (intro exI [of _ 13]) (simp add: one_read_def)
qed

end
