(* ===== verification/Cache_Push.thy ===== *)
theory Cache_Push
  imports Cachebox_Delay
begin

text \<open>
  The client that pushes recorded entries to the control plane in batches (\<open>cache_push.go\<close>).
  Adds, the timer's callback, the posts and \<open>Stop\<close> run on goroutines of their own; each takes
  the lock for its whole critical section, so the component is a step relation over the state
  the lock protects. \<open>cp_added\<close>, \<open>cp_flushed\<close> and \<open>cp_done\<close> are bookkeeping of the
  specification: the entries accepted, the batches handed to a post and those whose post has
  ended.
\<close>

section \<open>The client\<close>

definition defaultMaxBatch :: int where "defaultMaxBatch = 100"
definition defaultMaxWait :: int where "defaultMaxWait = 5 * Second"

text \<open>
  A timer is armed or has fired; \<open>Stop\<close> on a timer that has fired does not take back its callback.
  \<open>cp_callbacks\<close> counts the callbacks that have not got the lock yet.
\<close>

datatype timer = Armed | Fired

record push_client =
  cp_maxBatch :: int
  cp_maxWait :: int
  cp_batch :: "wire_entry list"
  cp_timer :: "timer option"
  cp_callbacks :: nat
  cp_stopped :: bool
  cp_posts :: "wire_entry list list"
  cp_pushed :: int
  cp_dropped :: int
  cp_added :: "wire_entry list"
  cp_flushed :: "wire_entry list list"
  cp_done :: "wire_entry list list"

definition NewCachePushClient :: "int \<Rightarrow> int \<Rightarrow> push_client" where
  "NewCachePushClient maxBatch maxWait =
     \<lparr>cp_maxBatch = (if maxBatch \<le> 0 then defaultMaxBatch else maxBatch),
      cp_maxWait = (if maxWait \<le> 0 then defaultMaxWait else maxWait),
      cp_batch = [], cp_timer = None, cp_callbacks = 0, cp_stopped = False, cp_posts = [],
      cp_pushed = 0, cp_dropped = 0, cp_added = [], cp_flushed = [], cp_done = []\<rparr>"

definition flushLocked :: "push_client \<Rightarrow> push_client" where
  "flushLocked c =
     (if cp_batch c = [] then c
      else c\<lparr>cp_timer := None, cp_batch := [], cp_posts := cp_posts c @ [cp_batch c],
             cp_flushed := cp_flushed c @ [cp_batch c]\<rparr>)"

definition push_add :: "entry \<Rightarrow> push_client \<Rightarrow> push_client" where
  "push_add e c =
     (if cp_stopped c then c
      else
        (let c1 = c\<lparr>cp_batch := cp_batch c @ [EntryToWire e], cp_added := cp_added c @ [EntryToWire e]\<rparr>
         in if int (length (cp_batch c1)) \<ge> cp_maxBatch c1 then flushLocked c1
            else if cp_timer c1 = None then c1\<lparr>cp_timer := Some Armed\<rparr> else c1))"

definition timer_callback :: "push_client \<Rightarrow> push_client" where
  "timer_callback c =
     (let c1 = c\<lparr>cp_callbacks := cp_callbacks c - 1\<rparr>
      in if \<not> cp_stopped c1 \<and> cp_batch c1 \<noteq> [] then flushLocked c1 else c1)"

text \<open>The outcome of a post: an error before or at the request, or the status of the response.\<close>

datatype post_outcome = MarshalError | NewRequestError | DoError | PostStatus int

definition post_ok :: "post_outcome \<Rightarrow> bool" where
  "post_ok p = (case p of PostStatus st \<Rightarrow> \<not> (st < 200 \<or> st \<ge> 300) | _ \<Rightarrow> False)"

definition post :: "post_outcome \<Rightarrow> wire_entry list \<Rightarrow> push_client \<Rightarrow> push_client" where
  "post p entries c =
     (let n = int (length entries);
          c1 = c\<lparr>cp_posts := remove1 entries (cp_posts c), cp_done := cp_done c @ [entries]\<rparr>
      in if post_ok p then c1\<lparr>cp_pushed := cp_pushed c1 + n\<rparr> else c1\<lparr>cp_dropped := cp_dropped c1 + n\<rparr>)"

text \<open>\<open>Stop\<close> up to the unlock; the post of the last batch then runs on the same goroutine.\<close>

definition push_Stop :: "push_client \<Rightarrow> push_client" where
  "push_Stop c =
     (if cp_stopped c then c
      else c\<lparr>cp_stopped := True, cp_timer := None, cp_batch := [],
             cp_posts := cp_posts c @ (if cp_batch c \<noteq> [] then [cp_batch c] else []),
             cp_flushed := cp_flushed c @ (if cp_batch c \<noteq> [] then [cp_batch c] else [])\<rparr>)"

definition push_Stats :: "push_client \<Rightarrow> int \<times> int" where
  "push_Stats c = (cp_pushed c, cp_dropped c)"

inductive push_step :: "push_client \<Rightarrow> push_client \<Rightarrow> bool" where
  add: "push_step c (push_add e c)"
| fire: "cp_timer c = Some Armed \<Longrightarrow> push_step c (c\<lparr>cp_timer := Some Fired, cp_callbacks := cp_callbacks c + 1\<rparr>)"
| callback: "0 < cp_callbacks c \<Longrightarrow> push_step c (timer_callback c)"
| post_end: "b \<in> set (cp_posts c) \<Longrightarrow> push_step c (post p b c)"
| stop: "push_step c (push_Stop c)"

inductive push_reach :: "push_client \<Rightarrow> push_client \<Rightarrow> bool" for c0 :: push_client where
  push_refl: "push_reach c0 c0"
| push_trans: "push_reach c0 c \<Longrightarrow> push_step c d \<Longrightarrow> push_reach c0 d"

section \<open>The invariant\<close>

definition push_books :: "push_client \<Rightarrow> bool" where
  "push_books c \<longleftrightarrow>
     cp_added c = concat (cp_flushed c) @ cp_batch c \<and>
     mset (cp_flushed c) = mset (cp_posts c) + mset (cp_done c) \<and>
     cp_pushed c + cp_dropped c = int (length (concat (cp_done c)))"

definition push_shape :: "push_client \<Rightarrow> bool" where
  "push_shape c \<longleftrightarrow>
     0 < cp_maxBatch c \<and> int (length (cp_batch c)) < cp_maxBatch c \<and>
     (cp_timer c \<noteq> None \<longleftrightarrow> cp_batch c \<noteq> []) \<and>
     (cp_timer c = Some Fired \<longrightarrow> 0 < cp_callbacks c) \<and>
     (cp_stopped c \<longrightarrow> cp_batch c = []) \<and>
     (\<forall>b \<in> set (cp_flushed c). b \<noteq> [] \<and> int (length b) \<le> cp_maxBatch c)"

lemma push_books_flush: "push_books c \<Longrightarrow> push_books (flushLocked c)"
  by (simp add: push_books_def flushLocked_def)

lemma push_books_step: "push_step c d \<Longrightarrow> push_books c \<Longrightarrow> push_books d"
proof (induction rule: push_step.induct)
  case (add c e)
  have "push_books (c\<lparr>cp_batch := cp_batch c @ [EntryToWire e], cp_added := cp_added c @ [EntryToWire e]\<rparr>)"
    using add by (simp add: push_books_def)
  from push_books_flush [OF this] this add show ?case by (simp add: push_add_def Let_def push_books_def)
next
  case (callback c)
  have "push_books (c\<lparr>cp_callbacks := cp_callbacks c - 1\<rparr>)" using callback by (simp add: push_books_def)
  from push_books_flush [OF this] this show ?case by (simp add: timer_callback_def Let_def)
next
  case (post_end b c p)
  then have "b \<in># mset (cp_posts c)" by simp
  then have "mset (remove1 b (cp_posts c)) + add_mset b (mset (cp_done c)) = mset (cp_posts c) + mset (cp_done c)"
    by (simp add: insert_DiffM flip: union_mset_add_mset_left)
  with post_end show ?case by (simp add: push_books_def post_def Let_def)
qed (auto simp: push_books_def push_Stop_def)

lemma push_shape_flush:
  "0 < cp_maxBatch c \<Longrightarrow> int (length (cp_batch c)) \<le> cp_maxBatch c \<Longrightarrow>
   (\<forall>b \<in> set (cp_flushed c). b \<noteq> [] \<and> int (length b) \<le> cp_maxBatch c) \<Longrightarrow> cp_batch c \<noteq> [] \<Longrightarrow>
   push_shape (flushLocked c)"
  by (auto simp: push_shape_def flushLocked_def)

lemma push_shape_step: "push_step c d \<Longrightarrow> push_shape c \<Longrightarrow> push_shape d"
proof (induction rule: push_step.induct)
  case (add c e)
  let ?c = "c\<lparr>cp_batch := cp_batch c @ [EntryToWire e], cp_added := cp_added c @ [EntryToWire e]\<rparr>"
  have "push_shape (flushLocked ?c)"
    using add by (intro push_shape_flush) (auto simp: push_shape_def)
  then show ?case using add by (auto simp: push_add_def Let_def push_shape_def)
next
  case (callback c)
  let ?c = "c\<lparr>cp_callbacks := cp_callbacks c - 1\<rparr>"
  have "push_shape (flushLocked ?c)" if "cp_batch c \<noteq> []"
    using callback that by (intro push_shape_flush) (auto simp: push_shape_def)
  then show ?case using callback by (auto simp: timer_callback_def Let_def push_shape_def)
qed (auto simp: push_shape_def post_def push_Stop_def Let_def)

lemma push_books_reach: "push_reach c d \<Longrightarrow> push_books c \<Longrightarrow> push_books d"
  by (induction rule: push_reach.induct) (auto dest: push_books_step)

lemma push_shape_reach: "push_reach c d \<Longrightarrow> push_shape c \<Longrightarrow> push_shape d"
  by (induction rule: push_reach.induct) (auto dest: push_shape_step)

lemma NewCachePushClient_inv: "push_books (NewCachePushClient n w)" "push_shape (NewCachePushClient n w)"
  by (simp_all add: push_books_def push_shape_def NewCachePushClient_def defaultMaxBatch_def)

lemma push_reach_add: "push_reach c d \<Longrightarrow> push_reach c (push_add e d)"
  by (rule push_reach.push_trans) (auto intro: push_step.add)

section \<open>Properties\<close>

text \<open>
  C7. No entry is lost or sent twice. In every interleaving, the entries accepted are, in
  order, those of the batches flushed followed by the current batch; every flushed batch is
  either being posted or posted, once; and pushed and dropped together count the entries of
  the posts that have ended.
\<close>

theorem push_conserves:
  assumes "push_reach (NewCachePushClient n w) c"
  shows "cp_added c = concat (cp_flushed c) @ cp_batch c \<and>
     mset (cp_flushed c) = mset (cp_posts c) + mset (cp_done c) \<and>
     fst (push_Stats c) + snd (push_Stats c) = int (length (concat (cp_done c)))"
  using push_books_reach [OF assms NewCachePushClient_inv(1)] by (simp add: push_books_def push_Stats_def)

theorem push_conserves_witness:
  "\<exists>e. cp_flushed (push_add e (NewCachePushClient 1 0)) = [[EntryToWire e]] \<and>
     cp_added (push_add e (NewCachePushClient 1 0)) = [EntryToWire e]"
proof -
  obtain e :: entry where True by blast
  have "push_reach (NewCachePushClient 1 0) (push_add e (NewCachePushClient 1 0))"
    by (intro push_reach_add push_refl)
  from push_conserves [OF this] show ?thesis
    by (intro exI [of _ e]) (simp add: push_add_def NewCachePushClient_def flushLocked_def Let_def)
qed

text \<open>
  No entry waits without a timer. While the client runs, a batch that is not empty is
  smaller than the maximum and has a timer that is armed or a callback under way; every flushed
  batch has between one and the maximum number of entries.
\<close>

theorem push_batch_timed:
  assumes "push_reach (NewCachePushClient n w) c"
  shows "int (length (cp_batch c)) < cp_maxBatch c \<and>
     (cp_batch c = [] \<or> cp_timer c = Some Armed \<or> 0 < cp_callbacks c) \<and>
     (\<forall>b \<in> set (cp_flushed c). 0 < length b \<and> int (length b) \<le> cp_maxBatch c)"
proof -
  have sh: "push_shape c" by (rule push_shape_reach [OF assms NewCachePushClient_inv(2)])
  then have "cp_batch c = [] \<or> cp_timer c = Some Armed \<or> 0 < cp_callbacks c"
    by (cases "cp_timer c"; cases "the (cp_timer c)") (auto simp: push_shape_def)
  with sh show ?thesis by (auto simp: push_shape_def)
qed

theorem push_batch_timed_witness:
  "\<exists>e. cp_timer (push_add e (NewCachePushClient 2 0)) = Some Armed \<and>
     int (length (cp_batch (push_add e (NewCachePushClient 2 0)))) < 2"
proof -
  obtain e :: entry where True by blast
  have "push_reach (NewCachePushClient 2 0) (push_add e (NewCachePushClient 2 0))"
    by (intro push_reach_add push_refl)
  from push_batch_timed [OF this] show ?thesis
    by (intro exI [of _ e]) (simp add: push_add_def NewCachePushClient_def Let_def)
qed

text \<open>
  After \<open>Stop\<close> no accepted entry is left behind in the batch, and nothing is accepted any
  more: every entry accepted has been handed to a post.
\<close>

theorem push_stopped:
  assumes "push_reach (NewCachePushClient n w) c" and "push_reach (push_Stop c) d"
  shows "cp_stopped d \<and> cp_batch d = [] \<and> cp_added d = cp_added c \<and> cp_added d = concat (cp_flushed d)"
proof -
  have start: "push_reach (NewCachePushClient n w) (push_Stop c)"
    using assms(1) by (rule push_reach.push_trans) (rule push_step.stop)
  have keep: "cp_stopped d \<and> cp_batch d = [] \<and> cp_added d = cp_added c"
    using assms(2)
  proof (induction rule: push_reach.induct)
    case push_refl
    have "push_shape c" by (rule push_shape_reach [OF assms(1) NewCachePushClient_inv(2)])
    then show ?case by (simp add: push_Stop_def push_shape_def)
  next
    case (push_trans c1 d1)
    from push_trans(2,3) show ?case
      by (induction rule: push_step.induct)
        (auto simp: push_add_def timer_callback_def post_def push_Stop_def Let_def)
  qed
  have "push_books (push_Stop c)" by (rule push_books_reach [OF start NewCachePushClient_inv(1)])
  from push_books_reach [OF assms(2) this] keep show ?thesis by (simp add: push_books_def)
qed

theorem push_stopped_witness:
  "\<exists>e. cp_added (push_Stop (push_add e (NewCachePushClient 2 0))) = concat (cp_flushed (push_Stop (push_add e (NewCachePushClient 2 0)))) \<and>
     cp_added (push_add e (NewCachePushClient 2 0)) = [EntryToWire e]"
proof -
  obtain e :: entry where True by blast
  have "push_reach (NewCachePushClient 2 0) (push_add e (NewCachePushClient 2 0))"
    by (intro push_reach_add push_refl)
  from push_stopped [OF this push_refl]
  have "cp_added (push_Stop (push_add e (NewCachePushClient 2 0))) = concat (cp_flushed (push_Stop (push_add e (NewCachePushClient 2 0))))"
    by blast
  moreover have "cp_added (push_add e (NewCachePushClient 2 0)) = [EntryToWire e]"
    by (simp add: push_add_def NewCachePushClient_def Let_def)
  ultimately show ?thesis by blast
qed

end
