(* ===== verification/Compiled_Rules.thy ===== *)
theory Compiled_Rules
  imports Interceptor Go_Stdlib
begin

text \<open>
  The wire format of the control plane and its decoding into rules of the static evaluator
  (\<open>compiled_rule.go\<close>). A function that returns a value and an error returns a sum; each error
  the code builds is a constructor of \<open>decode_error\<close>, with the text it quotes. The network
  resolver is supplied by the application and is a parameter.
\<close>

section \<open>The wire format\<close>

record compiled_fault =
  cf_category :: string
  cf_type :: string
  cf_config :: "json option"
  cf_duration_ms :: int
  cf_ramp_up_ms :: int
  cf_ramp_down_ms :: int

datatype compiled_composition =
    CompiledComposition string string int int int "compiled_member list"
and compiled_member =
    CompiledMember string "compiled_fault option" "compiled_composition option"

record compiled_rule =
  cr_name :: string
  cr_point :: string
  cr_labels :: labels
  cr_mode :: string
  cr_priority :: int
  cr_policy :: string
  cr_fault :: "compiled_fault option"
  cr_composition :: "compiled_composition option"

text \<open>A resolver is the application's; a nil one is \<open>None\<close>.\<close>

type_synonym network_resolver = "string \<Rightarrow> string + string \<times> string"

type_synonym decode_option = "network_resolver option"

datatype decode_error =
    DecodeConfig string | BadDuration string string | UnknownFaultType string string
  | UnknownCategory string | NeedsResolver string | ResolveFailed string string
  | CompositionUnsupported | InRule string decode_error

definition buildDecodeConfig :: "decode_option list \<Rightarrow> network_resolver option" where
  "buildDecodeConfig opts = fold (\<lambda>opt cfg. opt) opts None"

section \<open>Enumerations\<close>

definition parseInjectionPoint :: "string \<Rightarrow> injection_point" where
  "parseInjectionPoint s =
     (if s = ''ingress'' then Ingress else if s = ''egress'' then Egress
      else if s = ''transient'' then Transient else if s = ''custom'' then Custom else Ingress)"

definition parseMode :: "string \<Rightarrow> mode" where
  "parseMode s = (if s = ''background'' then Background else if s = ''inline'' then Inline else Inline)"

definition parseStartPolicy :: "string \<Rightarrow> start_policy" where
  "parseStartPolicy s = (if s = ''always_start'' then AlwaysStart else DeduplicateByRule)"

section \<open>Fault configurations\<close>

text \<open>
  One field of the configuration struct a decoder unmarshals into; a configuration that is
  absent or no JSON text is \<open>None\<close>. All the fields of one struct share the error.
\<close>

definition config_field :: "string \<Rightarrow> (string \<Rightarrow> json \<Rightarrow> 'a option) \<Rightarrow> string \<Rightarrow> json option \<Rightarrow> decode_error + 'a" where
  "config_field what field name config =
     or_error (DecodeConfig what) (case config of None \<Rightarrow> None | Some doc \<Rightarrow> field name doc)"

definition parse_duration :: "string \<Rightarrow> string \<Rightarrow> decode_error + int" where
  "parse_duration what s = or_error (BadDuration what s) (ParseDuration s)"

text \<open>The optional durations: an empty string leaves the zero value.\<close>

definition optional_duration :: "string \<Rightarrow> string \<Rightarrow> decode_error + int" where
  "optional_duration what s = (if s \<noteq> [] then parse_duration what s else Inr 0)"

definition default_duration :: "int \<Rightarrow> fault_config \<Rightarrow> fault_config" where
  "default_duration d base = (if fc_duration base = 0 then base\<lparr>fc_duration := d\<rparr> else base)"

definition decodeInlineFault :: "string \<Rightarrow> json option \<Rightarrow> fault_config \<Rightarrow> decode_error + fault" where
  "decodeInlineFault faultType config base =
     (if faultType = ''latency'' then
        and_then (config_field ''latency'' str_field ''delay'' config) (\<lambda>delay_s.
        and_then (config_field ''latency'' str_field ''jitter'' config) (\<lambda>jitter_s.
        and_then (parse_duration ''latency delay'' delay_s) (\<lambda>delay.
        and_then (optional_duration ''latency jitter'' jitter_s) (\<lambda>jitter.
        Inr (LatencyFault \<lparr>lf_base = default_duration (wrap64 (delay + jitter)) base,
                           lf_delay = delay, lf_jitter = jitter\<rparr>)))))
      else if faultType = ''error'' then
        and_then (config_field ''error'' int_field ''status_code'' config) (\<lambda>status.
        and_then (config_field ''error'' str_field ''message'' config) (\<lambda>message.
        Inr (InlineError \<lparr>ef_base = default_duration 1 base, ef_status = status, ef_message = message\<rparr>)))
      else if faultType = ''hang'' then
        and_then (config_field ''hang'' str_field ''duration'' config) (\<lambda>dur_s.
        and_then (parse_duration ''hang duration'' dur_s) (\<lambda>dur.
        Inr (HangFault \<lparr>hf_base = default_duration dur base\<rparr>)))
      else Inl (UnknownFaultType ''inline'' faultType))"

definition or_default :: "int \<Rightarrow> int \<Rightarrow> int" where
  "or_default d x = (if x = 0 then d else x)"

definition parse_io_mode :: "string \<Rightarrow> io_mode" where
  "parse_io_mode s =
     (if s = ''write'' then ModeWrite else if s = ''read_write'' then ModeReadWrite else ModeRead)"

definition decodeResourceFault :: "string \<Rightarrow> json option \<Rightarrow> fault_config \<Rightarrow> decode_error + fault" where
  "decodeResourceFault faultType config base =
     (if faultType = ''cpu'' then
        and_then (config_field ''cpu'' float_field ''target_load'' config) (\<lambda>load.
        and_then (config_field ''cpu'' str_field ''window'' config) (\<lambda>window_s.
        and_then (optional_duration ''cpu window'' window_s) (\<lambda>window.
        Inr (CpuStress \<lparr>rc_base = base, rc_target_load = load, rc_window = window\<rparr>))))
      else if faultType = ''memory'' then
        and_then (config_field ''memory'' float_field ''target_load'' config) (\<lambda>load.
        and_then (config_field ''memory'' int_field ''chunk_size'' config) (\<lambda>chunk.
        and_then (config_field ''memory'' bool_field ''thrashing'' config) (\<lambda>thrashing.
        and_then (config_field ''memory'' int_field ''thrash_workers'' config) (\<lambda>workers.
        Inr (MemoryStress \<lparr>mc_base = base, mc_target_load = load, mc_chunk_size = chunk,
                           mc_thrashing = thrashing, mc_thrash_workers = workers\<rparr>)))))
      else if faultType = ''disk'' then
        and_then (config_field ''disk'' int_field ''write_rate'' config) (\<lambda>rate.
        and_then (config_field ''disk'' int_field ''max_disk_usage'' config) (\<lambda>usage.
        and_then (config_field ''disk'' int_field ''chunk_size'' config) (\<lambda>chunk.
        and_then (config_field ''disk'' str_field ''path'' config) (\<lambda>path.
        Inr (DiskStress \<lparr>dc_base = base, dc_write_rate = or_default DefaultWriteRate rate,
                         dc_max_disk = or_default DefaultMaxDisk usage, dc_chunk_size = chunk,
                         dc_path = path\<rparr>)))))
      else if faultType = ''io'' then
        and_then (config_field ''io'' int_field ''read_rate'' config) (\<lambda>rate.
        and_then (config_field ''io'' int_field ''file_size'' config) (\<lambda>size.
        and_then (config_field ''io'' int_field ''file_count'' config) (\<lambda>count.
        and_then (config_field ''io'' int_field ''workers'' config) (\<lambda>workers.
        and_then (config_field ''io'' str_field ''path'' config) (\<lambda>path.
        and_then (config_field ''io'' str_field ''mode'' config) (\<lambda>mode.
        Inr (IoStress \<lparr>ic_base = base, ic_read_rate = or_default DefaultReadRate rate,
                       ic_file_size = or_default DefaultFileSize size,
                       ic_file_count = or_default DefaultFileCount count,
                       ic_workers = or_default DefaultWorkers workers,
                       ic_path = path, ic_mode = parse_io_mode mode\<rparr>)))))))
      else Inl (UnknownFaultType ''resource'' faultType))"

definition decodeNetworkToxic :: "string \<Rightarrow> json option \<Rightarrow> decode_error + toxic" where
  "decodeNetworkToxic faultType config =
     (if faultType = ''latency'' then
        and_then (config_field ''network latency'' str_field ''delay'' config) (\<lambda>delay_s.
        and_then (config_field ''network latency'' str_field ''jitter'' config) (\<lambda>jitter_s.
        and_then (parse_duration ''network latency delay'' delay_s) (\<lambda>delay.
        and_then (optional_duration ''network latency jitter'' jitter_s) (\<lambda>jitter.
        Inr (LatencyToxic delay jitter)))))
      else if faultType = ''loss'' then
        and_then (config_field ''network loss'' float_field ''rate'' config) (\<lambda>rate.
        and_then (config_field ''network loss'' str_field ''retransmit_delay'' config) (\<lambda>delay_s.
        and_then (config_field ''network loss'' int_field ''reset_threshold'' config) (\<lambda>threshold.
        and_then (optional_duration ''network loss retransmit_delay'' delay_s) (\<lambda>delay.
        Inr (LossToxic rate delay threshold)))))
      else if faultType = ''blackhole'' then Inr BlackholeToxic
      else if faultType = ''drip'' then
        and_then (config_field ''network drip'' int_field ''chunk_size'' config) (\<lambda>chunk.
        and_then (config_field ''network drip'' str_field ''interval'' config) (\<lambda>interval_s.
        and_then (optional_duration ''network drip interval'' interval_s) (\<lambda>interval.
        Inr (DripToxic chunk interval))))
      else if faultType = ''rst'' then
        and_then (config_field ''network rst'' int_field ''after_bytes'' config) (\<lambda>bytes.
        and_then (config_field ''network rst'' str_field ''after_duration'' config) (\<lambda>after_s.
        and_then (optional_duration ''network rst after_duration'' after_s) (\<lambda>after.
        Inr (RSTToxic bytes after))))
      else if faultType = ''throttle'' then
        and_then (config_field ''network throttle'' int_field ''bytes_per_sec'' config) (\<lambda>bps.
        Inr (ThrottleToxic bps))
      else Inl (UnknownFaultType ''network'' faultType))"

definition decodeNetworkFault ::
  "string \<Rightarrow> json option \<Rightarrow> fault_config \<Rightarrow> network_resolver \<Rightarrow> decode_error + fault" where
  "decodeNetworkFault faultType config base resolve =
     and_then (config_field ''network envelope'' str_field ''target'' config) (\<lambda>target.
     and_then (config_field ''network envelope'' str_field ''direction'' config) (\<lambda>dir_s.
     and_then (config_field ''network envelope'' float_field ''scope'' config) (\<lambda>scope.
     and_then (case resolve target of Inl e \<Rightarrow> Inl (ResolveFailed target e) | Inr a \<Rightarrow> Inr a) (\<lambda>(listen, upstream).
     let dir = (if dir_s = ''downstream'' then Downstream else Upstream) in
     and_then (decodeNetworkToxic faultType config) (\<lambda>tox.
     Inr (ProxyFault \<lparr>nc_base = base, nc_listen = listen, nc_upstream = upstream, nc_scope = scope,
                      nc_toxics = [\<lparr>tl_toxic = tox, tl_direction = dir\<rparr>], nc_external = False\<rparr>))))))"

section \<open>Rules\<close>

definition decode_base :: "compiled_fault \<Rightarrow> fault_config" where
  "decode_base f = \<lparr>fc_duration = wrap64 (cf_duration_ms f * Millisecond),
                    fc_ramp_up = wrap64 (cf_ramp_up_ms f * Millisecond),
                    fc_ramp_down = wrap64 (cf_ramp_down_ms f * Millisecond)\<rparr>"

definition decodeFault :: "compiled_fault \<Rightarrow> network_resolver option \<Rightarrow> decode_error + fault" where
  "decodeFault f resolve =
     (let base = decode_base f in
      if cf_category f = ''inline'' then decodeInlineFault (cf_type f) (cf_config f) base
      else if cf_category f = ''network'' then
        (case resolve of
           None \<Rightarrow> Inl (NeedsResolver (cf_type f))
         | Some r \<Rightarrow> decodeNetworkFault (cf_type f) (cf_config f) base r)
      else if cf_category f = ''resource'' then decodeResourceFault (cf_type f) (cf_config f) base
      else Inl (UnknownCategory (cf_category f)))"

definition DecodeCompiledRule :: "compiled_rule \<Rightarrow> decode_option list \<Rightarrow> decode_error + static_rule" where
  "DecodeCompiledRule cr opts =
     (let resolve = buildDecodeConfig opts;
          sr = \<lparr>sr_name = cr_name cr, sr_point = parseInjectionPoint (cr_point cr), sr_labels = cr_labels cr,
                sr_decision = \<lparr>d_name = cr_name cr, d_fault = None, d_reason = ''compiled'',
                               d_mode = parseMode (cr_mode cr), d_cachebox = CacheBoxNone,
                               d_policy = parseStartPolicy (cr_policy cr)\<rparr>\<rparr>
      in and_then (case cr_fault cr of
                     None \<Rightarrow> Inr sr
                   | Some cf \<Rightarrow> and_then (decodeFault cf resolve) (\<lambda>f.
                       Inr (sr\<lparr>sr_decision := (sr_decision sr)\<lparr>d_fault := Some f\<rparr>\<rparr>))) (\<lambda>sr.
         if cr_composition cr \<noteq> None then Inl CompositionUnsupported else Inr sr))"

text \<open>The loop over the sorted rules; \<open>acc\<close> is the slice built so far.\<close>

fun decode_loop :: "decode_option list \<Rightarrow> static_rule list \<Rightarrow> compiled_rule list \<Rightarrow> decode_error + static_rule list" where
  "decode_loop opts acc [] = Inr acc"
| "decode_loop opts acc (cr # crs) =
     (case DecodeCompiledRule cr opts of
        Inl e \<Rightarrow> Inl (InRule (cr_name cr) e)
      | Inr sr \<Rightarrow> decode_loop opts (acc @ [sr]) crs)"

text \<open>
  \<open>sort.SliceStable\<close> by descending priority: the stable sort of the library by the negated
  priority.
\<close>

definition by_priority :: "compiled_rule list \<Rightarrow> compiled_rule list" where
  "by_priority crs = sort_key (\<lambda>cr. - cr_priority cr) crs"

definition DecodeCompiledRules :: "compiled_rule list \<Rightarrow> decode_option list \<Rightarrow> decode_error + static_rule list" where
  "DecodeCompiledRules compiled opts = decode_loop opts [] (by_priority compiled)"

section \<open>The shape of decoded rules\<close>

lemma decode_loop_Inr:
  "decode_loop opts acc crs = Inr rules \<longleftrightarrow>
   (\<exists>srs. rules = acc @ srs \<and> list_all2 (\<lambda>cr sr. DecodeCompiledRule cr opts = Inr sr) crs srs)"
proof (induction opts acc crs rule: decode_loop.induct)
  case (2 opts acc cr crs)
  show ?case
  proof (cases "DecodeCompiledRule cr opts")
    case (Inl e)
    then show ?thesis by (simp add: list_all2_Cons1)
  next
    case (Inr sr)
    with 2 [OF Inr] show ?thesis by (auto simp: list_all2_Cons1)
  qed
qed auto

lemma decode_loop_Inl:
  "decode_loop opts acc crs = Inl e \<longleftrightarrow>
   (\<exists>i < length crs. \<exists>err. DecodeCompiledRule (crs ! i) opts = Inl err \<and> e = InRule (cr_name (crs ! i)) err \<and>
      (\<forall>j < i. \<exists>sr. DecodeCompiledRule (crs ! j) opts = Inr sr))"
proof (induction opts acc crs rule: decode_loop.induct)
  case (2 opts acc cr crs)
  show ?case
  proof (cases "DecodeCompiledRule cr opts")
    case (Inl e)
    then show ?thesis by (auto simp: Ex_less_Suc2 All_less_Suc2)
  next
    case (Inr sr)
    with 2 [OF Inr] show ?thesis by (simp add: Ex_less_Suc2 All_less_Suc2)
  qed
qed simp

lemma DecodeCompiledRules_Inr:
  "DecodeCompiledRules crs opts = Inr rules \<longleftrightarrow>
   list_all2 (\<lambda>cr sr. DecodeCompiledRule cr opts = Inr sr) (by_priority crs) rules"
  by (simp add: DecodeCompiledRules_def decode_loop_Inr)

lemma set_by_priority [simp]: "set (by_priority crs) = set crs"
  by (simp add: by_priority_def)

lemma length_by_priority [simp]: "length (by_priority crs) = length crs"
  by (simp add: by_priority_def)

lemma DecodeCompiledRule_Inr:
  "DecodeCompiledRule cr opts = Inr sr \<longleftrightarrow>
   cr_composition cr = None \<and>
   (\<exists>f. (case cr_fault cr of None \<Rightarrow> f = None
         | Some cf \<Rightarrow> (\<exists>g. f = Some g \<and> decodeFault cf (buildDecodeConfig opts) = Inr g)) \<and>
    sr = \<lparr>sr_name = cr_name cr, sr_point = parseInjectionPoint (cr_point cr), sr_labels = cr_labels cr,
          sr_decision = \<lparr>d_name = cr_name cr, d_fault = f, d_reason = ''compiled'', d_mode = parseMode (cr_mode cr),
                         d_cachebox = CacheBoxNone, d_policy = parseStartPolicy (cr_policy cr)\<rparr>\<rparr>)"
  by (cases "cr_fault cr") (auto simp: DecodeCompiledRule_def fallible)

section \<open>64-bit values\<close>


















section \<open>Priority order\<close>

text \<open>
  The first element with a property in a stably sorted list: among the elements with the
  property, one of least key, and the earliest of those in the list that was sorted.
\<close>

fun least_first :: "('a \<Rightarrow> 'k::linorder) \<Rightarrow> ('a \<Rightarrow> bool) \<Rightarrow> 'a list \<Rightarrow> 'a option" where
  "least_first k P [] = None"
| "least_first k P (x # xs) =
     (if P x
      then (case least_first k P xs of None \<Rightarrow> Some x | Some y \<Rightarrow> if k x \<le> k y then Some x else Some y)
      else least_first k P xs)"

lemma find_SomeD: "find P xs = Some x \<Longrightarrow> x \<in> set xs \<and> P x"
  by (induction xs) (auto split: if_splits)

lemma find_insort_key:
  "sorted (map k ys) \<Longrightarrow> find P (insort_key k x ys) =
     (if P x then (case find P ys of None \<Rightarrow> Some x | Some y \<Rightarrow> if k x \<le> k y then Some x else Some y)
      else find P ys)"
proof (induction ys)
  case (Cons y ys)
  then show ?case
    by (auto split: option.splits) (meson find_SomeD order_trans)+
qed simp

lemma find_sort_key: "find P (sort_key k xs) = least_first k P xs"
proof (induction xs)
  case (Cons x xs)
  then show ?case by (simp add: find_insort_key [OF sorted_sort_key] del: find.simps)
qed simp

lemma least_first_None: "least_first k P xs = None \<longleftrightarrow> (\<forall>x \<in> set xs. \<not> P x)"
  by (induction xs) (auto split: option.splits if_splits)

definition leads :: "('a \<Rightarrow> 'k::linorder) \<Rightarrow> ('a \<Rightarrow> bool) \<Rightarrow> 'a list \<Rightarrow> nat \<Rightarrow> bool" where
  "leads k P xs i \<longleftrightarrow> P (xs ! i) \<and>
     (\<forall>j < length xs. P (xs ! j) \<longrightarrow> k (xs ! i) < k (xs ! j) \<or> (k (xs ! i) = k (xs ! j) \<and> i \<le> j))"

lemma least_first_leads: "least_first k P xs = Some x \<Longrightarrow> \<exists>i < length xs. leads k P xs i \<and> x = xs ! i"
proof (induction xs arbitrary: x)
  case (Cons a xs)
  show ?case
  proof (cases "least_first k P xs")
    case None
    then have "\<forall>j < length xs. \<not> P (xs ! j)" by (simp add: least_first_None)
    with Cons.prems None show ?thesis
      by (intro exI [of _ 0]) (auto simp: leads_def All_less_Suc2 split: if_splits)
  next
    case (Some y)
    with Cons.IH obtain i where i: "i < length xs" "leads k P xs i" "y = xs ! i" by blast
    show ?thesis
    proof (cases "P a \<and> k a \<le> k y")
      case True
      with Some Cons.prems i show ?thesis
        by (intro exI [of _ 0]) (fastforce simp: leads_def All_less_Suc2)
    next
      case False
      with Some Cons.prems i have "x = y" by (auto split: if_splits)
      with i False show ?thesis
        by (intro exI [of _ "Suc i"]) (auto simp: leads_def All_less_Suc2)
    qed
  qed
qed simp

lemma leads_unique: "leads k P xs i \<Longrightarrow> leads k P xs j \<Longrightarrow> i < length xs \<Longrightarrow> j < length xs \<Longrightarrow> i = j"
  unfolding leads_def by (metis le_antisym less_asym less_irrefl)

lemma find_by_key:
  "find P (sort_key k xs) = Some x \<longleftrightarrow> (\<exists>i < length xs. leads k P xs i \<and> x = xs ! i)"
proof
  assume "\<exists>i < length xs. leads k P xs i \<and> x = xs ! i"
  then obtain i where i: "i < length xs" "leads k P xs i" "x = xs ! i" by blast
  then have "least_first k P xs \<noteq> None" by (auto simp: least_first_None leads_def)
  then obtain y where y: "least_first k P xs = Some y" by blast
  from least_first_leads [OF y] i leads_unique have "y = x" by metis
  with y show "find P (sort_key k xs) = Some x" by (simp add: find_sort_key)
qed (simp add: find_sort_key least_first_leads)

text \<open>Decoding and evaluation in the order of the wire.\<close>

definition compiled_applies :: "eval_request \<Rightarrow> compiled_rule \<Rightarrow> bool" where
  "compiled_applies req cr \<longleftrightarrow>
     parseInjectionPoint (cr_point cr) = er_point req \<and> labelsMatch (cr_labels cr) (er_labels req)"

lemma decoded_applies:
  "DecodeCompiledRule cr opts = Inr sr \<Longrightarrow> rule_matches sr req = compiled_applies req cr"
  by (auto simp: DecodeCompiledRule_Inr rule_matches_def compiled_applies_def)

lemma find_list_all2:
  "list_all2 R xs ys \<Longrightarrow> \<forall>x y. R x y \<longrightarrow> P x = Q y \<Longrightarrow>
   (case find Q ys of None \<Rightarrow> find P xs = None | Some y \<Rightarrow> \<exists>x. find P xs = Some x \<and> R x y)"
  by (induction rule: list_all2_induct) (auto split: option.splits)

lemma decoded_find:
  assumes "DecodeCompiledRules crs opts = Inr rules"
  shows "case find (\<lambda>sr. rule_matches sr req) rules of
           None \<Rightarrow> find (compiled_applies req) (by_priority crs) = None
         | Some sr \<Rightarrow> \<exists>cr. find (compiled_applies req) (by_priority crs) = Some cr \<and> DecodeCompiledRule cr opts = Inr sr"
  by (rule find_list_all2 [OF assms [unfolded DecodeCompiledRules_Inr]]) (simp add: decoded_applies)

definition rule_fails :: "decode_option list \<Rightarrow> compiled_rule \<Rightarrow> bool" where
  "rule_fails opts cr \<longleftrightarrow> (case DecodeCompiledRule cr opts of Inl e \<Rightarrow> True | Inr sr \<Rightarrow> False)"

lemma decode_loop_find:
  "decode_loop opts acc crs = Inl e \<longleftrightarrow>
   (\<exists>cr err. find (rule_fails opts) crs = Some cr \<and> DecodeCompiledRule cr opts = Inl err \<and>
      e = InRule (cr_name cr) err)"
  by (induction opts acc crs rule: decode_loop.induct) (auto simp: rule_fails_def split: sum.splits)

section \<open>Properties of decoding\<close>

text \<open>
  C11. Priorities decide: after decoded rules are installed, a request gets the decision of the
  matching rule with the highest priority, and among rules of equal priority of the one that
  comes first on the wire.
\<close>

theorem decoded_priority:
  assumes "DecodeCompiledRules crs opts = Inr rules"
  shows "Evaluate (SetRules rules e) req = Some d \<longleftrightarrow>
    (\<exists>i < length crs. compiled_applies req (crs ! i) \<and>
       (\<exists>sr. DecodeCompiledRule (crs ! i) opts = Inr sr \<and> d = sr_decision sr) \<and>
       (\<forall>j < length crs. compiled_applies req (crs ! j) \<longrightarrow>
          cr_priority (crs ! j) < cr_priority (crs ! i) \<or>
          (cr_priority (crs ! j) = cr_priority (crs ! i) \<and> i \<le> j)))"
proof -
  have lead: "leads (\<lambda>cr. - cr_priority cr) (compiled_applies req) crs i \<longleftrightarrow>
      compiled_applies req (crs ! i) \<and>
      (\<forall>j < length crs. compiled_applies req (crs ! j) \<longrightarrow>
          cr_priority (crs ! j) < cr_priority (crs ! i) \<or>
          (cr_priority (crs ! j) = cr_priority (crs ! i) \<and> i \<le> j))" for i
    by (auto simp: leads_def)
  have "Evaluate (SetRules rules e) req = Some d \<longleftrightarrow>
      (\<exists>cr sr. find (compiled_applies req) (by_priority crs) = Some cr \<and>
         DecodeCompiledRule cr opts = Inr sr \<and> d = sr_decision sr)"
    using decoded_find [OF assms, of req]
    by (auto simp: Evaluate_def SetRules_def first_match_find split: option.splits)
  also have "\<dots> \<longleftrightarrow> (\<exists>i < length crs. leads (\<lambda>cr. - cr_priority cr) (compiled_applies req) crs i \<and>
      (\<exists>sr. DecodeCompiledRule (crs ! i) opts = Inr sr \<and> d = sr_decision sr))"
    by (auto simp: by_priority_def find_by_key)
  finally show ?thesis by (auto simp: lead)
qed

definition tagged_rule :: "string \<Rightarrow> int \<Rightarrow> compiled_rule" where
  "tagged_rule name prio = \<lparr>cr_name = name, cr_point = ''egress'', cr_labels = [], cr_mode = ''inline'',
     cr_priority = prio, cr_policy = [], cr_fault = None, cr_composition = None\<rparr>"

definition three_rules :: "compiled_rule list" where
  "three_rules = [tagged_rule ''low'' 1, tagged_rule ''first'' 5, tagged_rule ''second'' 5]"

theorem decoded_priority_witness:
  "\<exists>rules d. DecodeCompiledRules three_rules [] = Inr rules \<and>
     Evaluate (SetRules rules two_rules) \<lparr>er_point = Egress, er_labels = []\<rparr> = Some d \<and> d_name d = ''first''"
proof -
  let ?req = "\<lparr>er_point = Egress, er_labels = []\<rparr>"
  obtain rules where r: "DecodeCompiledRules three_rules [] = Inr rules"
    by (simp add: DecodeCompiledRules_def by_priority_def three_rules_def tagged_rule_def DecodeCompiledRule_def)
  obtain sr where sr: "DecodeCompiledRule (three_rules ! 1) [] = Inr sr" "sr_name sr = ''first''" "d_name (sr_decision sr) = ''first''"
    by (simp add: DecodeCompiledRule_def three_rules_def tagged_rule_def)
  have "Evaluate (SetRules rules two_rules) ?req = Some (sr_decision sr)"
    unfolding decoded_priority [OF r]
    by (intro exI [of _ 1] conjI exI [of _ sr])
       (use sr(1) in \<open>auto simp: compiled_applies_def parseInjectionPoint_def three_rules_def tagged_rule_def
          less_Suc_eq numeral_eq_Suc\<close>)
  with r sr show ?thesis by blast
qed

text \<open>
  C17. Decoding is all or nothing: it fails exactly when some rule fails to decode, and the error
  names the failing rule of highest priority, the first such on the wire; one bad rule keeps
  every other rule of the set from being installed.
\<close>

theorem decode_error_rule:
  "DecodeCompiledRules crs opts = Inl e \<longleftrightarrow>
    (\<exists>i < length crs. \<exists>err. DecodeCompiledRule (crs ! i) opts = Inl err \<and> e = InRule (cr_name (crs ! i)) err \<and>
       (\<forall>j < length crs. \<forall>err'. DecodeCompiledRule (crs ! j) opts = Inl err' \<longrightarrow>
          cr_priority (crs ! j) < cr_priority (crs ! i) \<or>
          (cr_priority (crs ! j) = cr_priority (crs ! i) \<and> i \<le> j)))"
proof -
  have fails: "rule_fails opts cr \<longleftrightarrow> (\<exists>err. DecodeCompiledRule cr opts = Inl err)" for cr
    by (auto simp: rule_fails_def split: sum.splits)
  have lead: "leads (\<lambda>cr. - cr_priority cr) (rule_fails opts) crs i \<longleftrightarrow>
      rule_fails opts (crs ! i) \<and>
      (\<forall>j < length crs. \<forall>err'. DecodeCompiledRule (crs ! j) opts = Inl err' \<longrightarrow>
          cr_priority (crs ! j) < cr_priority (crs ! i) \<or>
          (cr_priority (crs ! j) = cr_priority (crs ! i) \<and> i \<le> j))" for i
    by (auto simp: leads_def fails)
  have "DecodeCompiledRules crs opts = Inl e \<longleftrightarrow>
      (\<exists>i < length crs. leads (\<lambda>cr. - cr_priority cr) (rule_fails opts) crs i \<and>
         (\<exists>err. DecodeCompiledRule (crs ! i) opts = Inl err \<and> e = InRule (cr_name (crs ! i)) err))"
    by (auto simp: DecodeCompiledRules_def decode_loop_find by_priority_def find_by_key)
  then show ?thesis by (auto simp: lead fails)
qed

definition composed_rule :: compiled_rule where
  "composed_rule = (tagged_rule ''tree'' 0)\<lparr>cr_composition := Some (CompiledComposition ''c'' ''serial'' 0 0 0 [])\<rparr>"

theorem decode_error_rule_witness:
  "DecodeCompiledRules (three_rules @ [composed_rule]) [] = Inl (InRule ''tree'' CompositionUnsupported)"
  unfolding decode_error_rule
  by (intro exI [of _ 3] exI [of _ CompositionUnsupported])
     (auto simp: three_rules_def composed_rule_def tagged_rule_def DecodeCompiledRule_def less_Suc_eq numeral_eq_Suc)

text \<open>
  The order on the wire matters only between rules of equal priority: with distinct priorities,
  any permutation of the set decodes to the same rule list, or to the same error.
\<close>

theorem decode_wire_order:
  assumes "mset crs' = mset crs" and "inj_on cr_priority (set crs)"
  shows "DecodeCompiledRules crs' opts = DecodeCompiledRules crs opts"
proof -
  have "inj_on (\<lambda>cr. - cr_priority cr) (set crs)"
    using assms(2) by (auto simp: inj_on_def)
  then have "by_priority crs' = by_priority crs"
    using assms(1) unfolding by_priority_def
    by (intro sort_key_inj_key_eq) (auto simp: mset_eq_setD [OF assms(1)])
  then show ?thesis by (simp add: DecodeCompiledRules_def)
qed

theorem decode_wire_order_witness:
  "DecodeCompiledRules [tagged_rule ''a'' 1, tagged_rule ''b'' 2] [] =
   DecodeCompiledRules [tagged_rule ''b'' 2, tagged_rule ''a'' 1] []"
  by (rule decode_wire_order) (auto simp: tagged_rule_def)















text \<open>
  Names on the wire. Parsing the name of an injection point or of a mode gives it back exactly
  when it is a named one; \<open>deduplicate_by_type\<close>, the name the evaluator package prints for its
  third policy, is read as \<open>DeduplicateByRule\<close>.
\<close>

theorem wire_names_round_trip:
  "(parseInjectionPoint (point_String p) = p \<longleftrightarrow> p \<in> {Ingress, Egress, Transient, Custom}) \<and>
   (parseMode (mode_String m) = m \<longleftrightarrow> m \<in> {Background, Inline}) \<and>
   (parseStartPolicy (policy_String s) = s \<longleftrightarrow> s \<in> {AlwaysStart, DeduplicateByRule}) \<and>
   parseStartPolicy (policy_String DeduplicateByType) = DeduplicateByRule"
proof (intro conjI)
  show "parseInjectionPoint (point_String p) = p \<longleftrightarrow> p \<in> {Ingress, Egress, Transient, Custom}"
    by (cases p) (auto simp: parseInjectionPoint_def point_String_def)
  show "parseMode (mode_String m) = m \<longleftrightarrow> m \<in> {Background, Inline}"
    by (cases m) (auto simp: parseMode_def mode_String_def)
  show "parseStartPolicy (policy_String s) = s \<longleftrightarrow> s \<in> {AlwaysStart, DeduplicateByRule}"
    by (cases s) (auto simp: parseStartPolicy_def policy_String_def)
  show "parseStartPolicy (policy_String DeduplicateByType) = DeduplicateByRule"
    by (simp add: parseStartPolicy_def policy_String_def)
qed

definition latency_config :: "nat \<Rightarrow> string \<Rightarrow> nat \<Rightarrow> string \<Rightarrow> json" where
  "latency_config n u m u' = JObj [(''delay'', JStr (format_dec n @ u)), (''jitter'', JStr (format_dec m @ u'))]"

lemma latency_config_fields:
  "config_field what str_field ''delay'' (Some (latency_config n u m u')) = Inr (format_dec n @ u)"
  "config_field what str_field ''jitter'' (Some (latency_config n u m u')) = Inr (format_dec m @ u')"
  by (simp_all add: latency_config_def config_field_def str_field_def str_conv_def json_field_def field_values_def to_upper_def)

text \<open>
  A latency rule with a delay and a jitter written as a whole number of a unit: the decoded
  fault has exactly these nanoseconds, and a number whose nanoseconds do not fit into 63 bits
  is rejected, the delay being checked first. The duration defaults to their sum, which wraps
  around.
\<close>

theorem decode_latency_exact:
  assumes "u \<in> set duration_units" and "u' \<in> set duration_units"
    and "duration_unit u = Some un" and "duration_unit u' = Some un'"
  shows "decodeInlineFault ''latency'' (Some (latency_config n u m u')) base =
    (if \<not> int n * un < 2 ^ 63 then Inl (BadDuration ''latency delay'' (format_dec n @ u))
     else if \<not> int m * un' < 2 ^ 63 then Inl (BadDuration ''latency jitter'' (format_dec m @ u'))
     else Inr (LatencyFault
       \<lparr>lf_base = (if fc_duration base = 0 then base\<lparr>fc_duration := wrap64 (int n * un + int m * un')\<rparr> else base),
        lf_delay = int n * un, lf_jitter = int m * un'\<rparr>))"
  using ParseDuration_whole [OF assms(1,3), of n] ParseDuration_whole [OF assms(2,4), of m] format_dec_digits [of m]
  by (simp add: decodeInlineFault_def latency_config_fields parse_duration_def optional_duration_def
      default_duration_def)

theorem decode_latency_exact_witness:
  "decodeInlineFault ''latency'' (Some (latency_config 200 ''ms'' 50 ''ms'')) (no_ramps 0) = Inr (NewLatencyFault 200000000 50000000)"
  by (subst decode_latency_exact)
     (auto simp: duration_units_def duration_unit_def Millisecond_def Microsecond_def Second_def NewLatencyFault_def)

lemma no_duration_invalid:
  assumes "decodeFault cf r = Inr f" and "cf_category cf \<in> {''network'', ''resource''}"
    and "cf_duration_ms cf = 0"
  shows "fault_Validate f = Some DurationNotPositive"
proof -
  have "fc_duration (decode_base cf) = 0" using assms(3) by (simp add: decode_base_def wrap64_def)
  then have v: "FaultConfig_Validate (decode_base cf) = Some DurationNotPositive"
    by (simp add: FaultConfig_Validate_def)
  show ?thesis
  proof (cases "cf_category cf = ''network''")
    case True
    with assms(1) v show ?thesis
      by (auto simp: decodeFault_def decodeNetworkFault_def fallible Let_def net_Validate_def split: option.splits)
  next
    case False
    with assms(1,2) v show ?thesis
      by (auto simp: decodeFault_def decodeResourceFault_def fallible Let_def resource_Validate_def
          memory_Validate_def disk_Validate_def io_Validate_def split: if_splits)
  qed
qed

text \<open>
  A network or resource rule must carry its duration: one without \<open>duration_ms\<close> decodes, is
  installed and matches, but each request that matches it gets the error of a duration that is
  not positive, and no fault ever starts. The inline categories fill the duration in.
\<close>

theorem undated_rule_never_starts:
  assumes "DecodeCompiledRule cr opts = Inr sr" and "cr_fault cr = Some cf"
    and "cf_category cf \<in> {''network'', ''resource''}" and "cf_duration_ms cf = 0"
    and "it_eval i req = Some (sr_decision sr)"
  shows "Check i os early req w = (Inl (InvalidFault DurationNotPositive), w)"
proof -
  from assms(1,2) obtain f where f: "decodeFault cf (buildDecodeConfig opts) = Inr f"
    and d: "d_fault (sr_decision sr) = Some f" "d_cachebox (sr_decision sr) = CacheBoxNone"
    by (auto simp: DecodeCompiledRule_Inr)
  from no_duration_invalid [OF f assms(3,4)] d assms(5) show ?thesis
    by (simp add: Check_def StartFault_def)
qed

definition disk_rule :: compiled_rule where
  "disk_rule = (tagged_rule ''fill'' 0)\<lparr>cr_mode := ''background'',
     cr_fault := Some \<lparr>cf_category = ''resource'', cf_type = ''disk'', cf_config = Some (JObj []),
                       cf_duration_ms = 0, cf_ramp_up_ms = 0, cf_ramp_down_ms = 0\<rparr>\<rparr>"

theorem undated_rule_never_starts_witness:
  "\<exists>sr. DecodeCompiledRule disk_rule [] = Inr sr \<and>
     (\<forall>req w. Check (Interceptor_New (Some (\<lambda>_. Some (sr_decision sr))) []) (\<lambda>_. None) False req w =
        (Inl (InvalidFault DurationNotPositive), w))"
proof -
  obtain sr where sr: "DecodeCompiledRule disk_rule [] = Inr sr"
    by (simp add: disk_rule_def tagged_rule_def DecodeCompiledRule_def decodeFault_def Let_def
        decodeResourceFault_def config_field_def str_field_def int_field_def json_field_def field_values_def)
  have "Check (Interceptor_New (Some (\<lambda>_. Some (sr_decision sr))) []) (\<lambda>_. None) False req w =
        (Inl (InvalidFault DurationNotPositive), w)" for req w
    by (rule undated_rule_never_starts [OF sr], simp add: disk_rule_def, simp_all add: Interceptor_New_def)
  with sr show ?thesis by blast
qed

end
