(* ===== verification/Control_Plane.thy ===== *)
theory Control_Plane
  imports Compiled_Rules Cachebox_Dispatch
begin

text \<open>
  What changes the SDK's rules, active fault and cache box at run time: the fault, rules and
  cache-box endpoints (\<open>admin.go\<close>, \<open>rules_admin.go\<close>, \<open>cachebox_admin.go\<close>) and the application of
  a register response (\<open>register.go\<close>). A handler is a function from the method, the decoded
  body and the state it closes over to its answer and the state after it.
\<close>

section \<open>Fault requests\<close>

record fault_request =
  fq_category :: string
  fq_type :: string
  fq_delay :: string
  fq_jitter :: string
  fq_duration :: string
  fq_status :: int
  fq_message :: string
  fq_config :: "json option"

definition effectiveCategory :: "fault_request \<Rightarrow> string" where
  "effectiveCategory r = (if fq_category r = [] then ''inline'' else fq_category r)"

definition decode_fault_request :: "json \<Rightarrow> fault_request option" where
  "decode_fault_request doc =
     (case (str_field ''category'' doc, str_field ''type'' doc, str_field ''delay'' doc, str_field ''jitter'' doc,
            str_field ''duration'' doc, int_field ''status_code'' doc, str_field ''message'' doc, raw_field ''config'' doc) of
        (Some c, Some t, Some d, Some j, Some du, Some s, Some m, Some cfg) \<Rightarrow>
          Some \<lparr>fq_category = c, fq_type = t, fq_delay = d, fq_jitter = j, fq_duration = du, fq_status = s,
                fq_message = m, fq_config = cfg\<rparr>
      | _ \<Rightarrow> None)"

definition buildInlineFault :: "fault_request \<Rightarrow> decode_error + fault" where
  "buildInlineFault req =
     (if fq_type req = ''latency'' then
        and_then (parse_duration ''delay'' (fq_delay req)) (\<lambda>delay.
        and_then (optional_duration ''jitter'' (fq_jitter req)) (\<lambda>jitter.
        Inr (NewLatencyFault delay jitter)))
      else if fq_type req = ''error'' then
        (let status = (if fq_status req = 0 then 500 else fq_status req);
             msg = (if fq_message req = [] then ''injected fault'' else fq_message req)
         in Inr (NewErrorFault status msg))
      else if fq_type req = ''hang'' then
        and_then (parse_duration ''hang duration'' (fq_duration req)) (\<lambda>dur. Inr (NewHangFault dur))
      else Inl (UnknownFaultType ''inline'' (fq_type req)))"

text \<open>A missing \<open>config\<close> is the empty object.\<close>

definition config_or_empty :: "fault_request \<Rightarrow> json option" where
  "config_or_empty req = (case fq_config req of None \<Rightarrow> Some (JObj []) | Some c \<Rightarrow> Some c)"

definition buildNetworkFault :: "fault_request \<Rightarrow> network_resolver option \<Rightarrow> decode_error + fault" where
  "buildNetworkFault req resolve =
     (case resolve of
        None \<Rightarrow> Inl (NeedsResolver (fq_type req))
      | Some r \<Rightarrow>
          (let cfg = config_or_empty req in
           and_then (config_field ''network'' str_field ''duration'' cfg) (\<lambda>dur_s.
           and_then (parse_duration ''network duration'' dur_s) (\<lambda>dur.
           decodeNetworkFault (fq_type req) cfg (no_ramps dur) r))))"

definition buildResourceFault :: "fault_request \<Rightarrow> decode_error + fault" where
  "buildResourceFault req =
     (let cfg = config_or_empty req in
      and_then (config_field ''resource'' str_field ''duration'' cfg) (\<lambda>dur_s.
      and_then (config_field ''resource'' str_field ''ramp_up'' cfg) (\<lambda>up_s.
      and_then (config_field ''resource'' str_field ''ramp_down'' cfg) (\<lambda>down_s.
      and_then (parse_duration ''resource duration'' dur_s) (\<lambda>dur.
      and_then (optional_duration ''ramp_up'' up_s) (\<lambda>up.
      and_then (optional_duration ''ramp_down'' down_s) (\<lambda>down.
      decodeResourceFault (fq_type req) cfg \<lparr>fc_duration = dur, fc_ramp_up = up, fc_ramp_down = down\<rparr>)))))))"

definition buildFault :: "fault_request \<Rightarrow> network_resolver option \<Rightarrow> decode_error + fault" where
  "buildFault req resolve =
     (if effectiveCategory req = ''inline'' then buildInlineFault req
      else if effectiveCategory req = ''network'' then buildNetworkFault req resolve
      else if effectiveCategory req = ''resource'' then buildResourceFault req
      else Inl (UnknownCategory (fq_category req)))"

section \<open>HTTP handlers\<close>

text \<open>
  What a handler answers: the status code and the body. A request body is a JSON document, or
  \<open>None\<close> when it is none. The content type, the same for all of them, is left out.
\<close>

datatype reply_body =
    FaultStatus bool "fault_request option" | RulesBody "static_rule list"
  | StatsBody "store_stats \<times> recorder_stats" | InvalidJSON | BadRequest decode_error
  | BadMu | BadSigma | MethodNotAllowed | NoBody

record reply =
  rl_code :: int
  rl_body :: reply_body

type_synonym demo = "fault_request demo_evaluator"

definition request_mode :: "fault_request \<Rightarrow> mode" where
  "request_mode req = (if effectiveCategory req \<noteq> ''inline'' then Background else Inline)"

definition fault_decision :: "string \<Rightarrow> string \<Rightarrow> fault \<Rightarrow> mode \<Rightarrow> decision" where
  "fault_decision name reason f md =
     \<lparr>d_name = name, d_fault = Some f, d_reason = reason, d_mode = md, d_cachebox = CacheBoxNone,
      d_policy = DeduplicateByRule\<rparr>"

definition handleFaultPost :: "json option \<Rightarrow> network_resolver option \<Rightarrow> demo \<Rightarrow> reply \<times> demo" where
  "handleFaultPost body resolve eval =
     (case (case body of None \<Rightarrow> None | Some doc \<Rightarrow> decode_fault_request doc) of
        None \<Rightarrow> (\<lparr>rl_code = 400, rl_body = InvalidJSON\<rparr>, eval)
      | Some req \<Rightarrow>
          (case buildFault req resolve of
             Inl e \<Rightarrow> (\<lparr>rl_code = 400, rl_body = BadRequest e\<rparr>, eval)
           | Inr f \<Rightarrow>
               (\<lparr>rl_code = 201, rl_body = FaultStatus True (Some req)\<rparr>,
                demo_Set (Some (fault_decision ''admin'' ''admin'' f (request_mode req))) (Some req) eval)))"

definition FaultAdminHandlerWith ::
  "string \<Rightarrow> json option \<Rightarrow> network_resolver option \<Rightarrow> demo \<Rightarrow> reply \<times> demo" where
  "FaultAdminHandlerWith meth body resolve eval =
     (if meth = ''POST'' then handleFaultPost body resolve eval
      else if meth = ''DELETE'' then (\<lparr>rl_code = 200, rl_body = FaultStatus False None\<rparr>, demo_Clear eval)
      else if meth = ''GET'' then
        (case demo_Active eval of
           Some req \<Rightarrow> (\<lparr>rl_code = 200, rl_body = FaultStatus True (Some req)\<rparr>, eval)
         | None \<Rightarrow> (\<lparr>rl_code = 200, rl_body = FaultStatus False None\<rparr>, eval))
      else (\<lparr>rl_code = 405, rl_body = MethodNotAllowed\<rparr>, eval))"

text \<open>
  The rules endpoint decodes into \<open>[]StaticRule\<close>, whose fields have no JSON names of their own
  and whose enumerations are integers. \<open>Decision.Fault\<close> is an interface: \<open>null\<close> leaves it nil
  and any other value is an error.
\<close>

definition point_of_int :: "int \<Rightarrow> injection_point" where
  "point_of_int i = (if i = 0 then Ingress else if i = 1 then Egress else if i = 2 then Transient
                     else if i = 3 then Custom else PointOther i)"

definition mode_of_int :: "int \<Rightarrow> mode" where
  "mode_of_int i = (if i = 0 then Background else if i = 1 then Inline else ModeUnknown i)"

definition action_of_int :: "int \<Rightarrow> cachebox_action" where
  "action_of_int i = (if i = 0 then CacheBoxNone else if i = 1 then CacheBoxPassthrough
                      else if i = 2 then CacheBoxReplay else if i = 3 then CacheBoxReplayDelay else CacheBoxOther i)"

definition policy_of_int :: "int \<Rightarrow> start_policy" where
  "policy_of_int i = (if i = 0 then DeduplicateByRule else if i = 1 then DeduplicateByType
                      else if i = 2 then AlwaysStart else PolicyOther i)"

definition decode_decision :: "decision \<Rightarrow> json \<Rightarrow> decision option" where
  "decode_decision d doc =
     (case (json_field str_conv (d_name d) ''Name'' doc,
            json_field (\<lambda>_. None) (d_fault d) ''Fault'' doc,
            json_field str_conv (d_reason d) ''Reason'' doc,
            json_field (map_option mode_of_int \<circ> int_conv) (d_mode d) ''Mode'' doc,
            json_field (map_option action_of_int \<circ> int_conv) (d_cachebox d) ''CacheBox'' doc,
            json_field (map_option policy_of_int \<circ> int_conv) (d_policy d) ''StartPolicy'' doc) of
        (Some n, Some f, Some r, Some m, Some a, Some p) \<Rightarrow>
          Some \<lparr>d_name = n, d_fault = f, d_reason = r, d_mode = m, d_cachebox = a, d_policy = p\<rparr>
      | _ \<Rightarrow> None)"

text \<open>A map of strings: each object adds its members, \<open>null\<close> members being empty strings.\<close>

fun label_members :: "(string \<times> json) list \<Rightarrow> labels \<Rightarrow> labels option" where
  "label_members [] ls = Some ls"
| "label_members ((k, v) # ms) ls =
     (case assign str_conv [v] [] of None \<Rightarrow> None | Some s \<Rightarrow> label_members ms (go_store k s ls))"

fun fold_fields :: "(json \<Rightarrow> 'a \<Rightarrow> 'a option) \<Rightarrow> json list \<Rightarrow> 'a \<Rightarrow> 'a option" where
  "fold_fields step [] a = Some a"
| "fold_fields step (v # vs) a = (case step v a of None \<Rightarrow> None | Some b \<Rightarrow> fold_fields step vs b)"

definition labels_step :: "json \<Rightarrow> labels \<Rightarrow> labels option" where
  "labels_step v ls = (case v of JObj ms \<Rightarrow> label_members ms ls | JNull \<Rightarrow> Some [] | _ \<Rightarrow> None)"

definition zero_decision :: decision where
  "zero_decision = \<lparr>d_name = [], d_fault = None, d_reason = [], d_mode = Background,
                    d_cachebox = CacheBoxNone, d_policy = DeduplicateByRule\<rparr>"

definition decode_static_rule :: "json \<Rightarrow> static_rule option" where
  "decode_static_rule doc =
     (case (str_field ''Name'' doc, json_field (map_option point_of_int \<circ> int_conv) Ingress ''Point'' doc,
            field_values doc ''Labels'', field_values doc ''Decision'') of
        (Some n, Some p, Some ls, Some ds) \<Rightarrow>
          (case (fold_fields labels_step ls [], fold_fields (\<lambda>v d. decode_decision d v) ds zero_decision) of
             (Some l, Some d) \<Rightarrow> Some \<lparr>sr_name = n, sr_point = p, sr_labels = l, sr_decision = d\<rparr>
           | _ \<Rightarrow> None)
      | _ \<Rightarrow> None)"

definition decode_static_rules :: "json \<Rightarrow> static_rule list option" where
  "decode_static_rules doc =
     (case doc of JArr vs \<Rightarrow> those (map decode_static_rule vs) | JNull \<Rightarrow> Some [] | _ \<Rightarrow> None)"

definition RulesAdminHandler :: "string \<Rightarrow> json option \<Rightarrow> static_evaluator \<Rightarrow> reply \<times> static_evaluator" where
  "RulesAdminHandler meth body eval =
     (if meth = ''GET'' then (\<lparr>rl_code = 200, rl_body = RulesBody (Rules eval)\<rparr>, eval)
      else if meth = ''POST'' then
        (case (case body of None \<Rightarrow> None | Some doc \<Rightarrow> decode_static_rules doc) of
           None \<Rightarrow> (\<lparr>rl_code = 400, rl_body = InvalidJSON\<rparr>, eval)
         | Some rules \<Rightarrow> (\<lparr>rl_code = 204, rl_body = NoBody\<rparr>, SetRules rules eval))
      else (\<lparr>rl_code = 405, rl_body = MethodNotAllowed\<rparr>, eval))"

record delay_request =
  dr_mu :: float64
  dr_sigma :: float64
  dr_seed :: int

definition decode_delay_request :: "json \<Rightarrow> delay_request option" where
  "decode_delay_request doc =
     (case (float_field ''mu'' doc, float_field ''sigma'' doc, uint_field ''seed'' doc) of
        (Some m, Some s, Some d) \<Rightarrow> Some \<lparr>dr_mu = m, dr_sigma = s, dr_seed = d\<rparr> | _ \<Rightarrow> None)"

definition handleCacheBoxDelay :: "json option \<Rightarrow> cachebox \<Rightarrow> reply \<times> cachebox" where
  "handleCacheBoxDelay body cb =
     (case (case body of None \<Rightarrow> None | Some doc \<Rightarrow> decode_delay_request doc) of
        None \<Rightarrow> (\<lparr>rl_code = 400, rl_body = InvalidJSON\<rparr>, cb)
      | Some req \<Rightarrow>
          if flt_less (dr_mu req) (Fin 0) then (\<lparr>rl_code = 400, rl_body = BadMu\<rparr>, cb)
          else if flt_less (dr_sigma req) (Fin 0) then (\<lparr>rl_code = 400, rl_body = BadSigma\<rparr>, cb)
          else (\<lparr>rl_code = 204, rl_body = NoBody\<rparr>,
                SetDelaySource (Some (NewDistributionDelaySource (dr_mu req) (dr_sigma req) (dr_seed req))) cb))"

text \<open>The path after its last slash, empty when there is none or it ends in one.\<close>

definition path_suffix :: "string \<Rightarrow> string" where
  "path_suffix path =
     (if CHR ''/'' \<in> set path then rev (takeWhile (\<lambda>c. c \<noteq> CHR ''/'') (rev path)) else [])"

definition clear_store :: "cachebox \<Rightarrow> cachebox" where
  "clear_store cb = cb\<lparr>cb_recorder := (cb_recorder cb)\<lparr>rc_store := mem_clear (rc_store (cb_recorder cb))\<rparr>\<rparr>"

definition CacheBoxAdminHandler :: "string \<Rightarrow> string \<Rightarrow> json option \<Rightarrow> cachebox \<Rightarrow> reply \<times> cachebox" where
  "CacheBoxAdminHandler meth path body cb =
     (let suffix = path_suffix path in
      if meth = ''GET'' \<and> suffix \<noteq> ''delay'' then (\<lparr>rl_code = 200, rl_body = StatsBody (CacheBox_Stats cb)\<rparr>, cb)
      else if meth = ''POST'' \<and> suffix = ''delay'' then handleCacheBoxDelay body cb
      else if meth = ''DELETE'' then (\<lparr>rl_code = 204, rl_body = NoBody\<rparr>, clear_store cb)
      else (\<lparr>rl_code = 405, rl_body = MethodNotAllowed\<rparr>, cb))"

section \<open>Registration\<close>

record register_response =
  rg_status :: string
  rg_rules :: "compiled_rule list"
  rg_active :: "fault_request option"
  rg_freeze :: "delay_request option"

datatype register_error =
    RequestFailed | RegisterStatus int string | DecodeRegister

text \<open>
  What the HTTP exchange yields: no response, or a status and a body. \<open>dec\<close> is the decoding of
  the response text; the code reads at most 1 MiB of it.
\<close>

datatype exchange = NoResponse | Response int string

definition registerWith ::
  "(string \<Rightarrow> register_response option) \<Rightarrow> exchange \<Rightarrow> register_error + register_response" where
  "registerWith dec x =
     (case x of
        NoResponse \<Rightarrow> Inl RequestFailed
      | Response status body \<Rightarrow>
          (let text = take (2 ^ 20) body in
           if status \<noteq> 201 then Inl (RegisterStatus status text)
           else or_error DecodeRegister (dec text)))"

record apply_targets =
  at_evaluator :: "static_evaluator option"
  at_demo :: "demo option"
  at_cachebox :: "cachebox option"
  at_resolver :: "network_resolver option"

datatype apply_error =
    NoEvaluator int | ApplyRules decode_error | NoDemoEval | ApplyActive decode_error
  | NoCacheBox | ApplyMu float64 | ApplySigma float64

definition applyActiveFault :: "fault_request \<Rightarrow> demo \<Rightarrow> network_resolver option \<Rightarrow> decode_error + demo" where
  "applyActiveFault req eval resolve =
     and_then (buildFault req resolve) (\<lambda>f.
     Inr (demo_Set (Some (fault_decision ''active_fault'' ''register'' f (request_mode req))) (Some req) eval))"

definition applyFreezeCfg :: "delay_request \<Rightarrow> cachebox \<Rightarrow> apply_error + cachebox" where
  "applyFreezeCfg req cb =
     (if flt_less (dr_mu req) (Fin 0) then Inl (ApplyMu (dr_mu req))
      else if flt_less (dr_sigma req) (Fin 0) then Inl (ApplySigma (dr_sigma req))
      else Inr (SetDelaySource (Some (NewDistributionDelaySource (dr_mu req) (dr_sigma req) (dr_seed req))) cb))"

text \<open>
  The three phases of \<open>Apply\<close>, each an early return or the targets with one of them changed;
  \<open>Apply\<close> returns the error and the targets as it leaves them.
\<close>

definition apply_rules :: "register_response \<Rightarrow> apply_targets \<Rightarrow> apply_error + apply_targets" where
  "apply_rules resp t =
     (if rg_rules resp = [] then Inr t
      else case at_evaluator t of
        None \<Rightarrow> Inl (NoEvaluator (int (length (rg_rules resp))))
      | Some e \<Rightarrow>
          (let opts = (case at_resolver t of None \<Rightarrow> [] | Some r \<Rightarrow> [Some r])
           in case DecodeCompiledRules (rg_rules resp) opts of
                Inl err \<Rightarrow> Inl (ApplyRules err)
              | Inr rules \<Rightarrow> Inr (t\<lparr>at_evaluator := Some (SetRules rules e)\<rparr>)))"

definition apply_active :: "register_response \<Rightarrow> apply_targets \<Rightarrow> apply_error + apply_targets" where
  "apply_active resp t =
     (case rg_active resp of
        None \<Rightarrow> Inr t
      | Some req \<Rightarrow>
          (case at_demo t of
             None \<Rightarrow> Inl NoDemoEval
           | Some eval \<Rightarrow>
               (case applyActiveFault req eval (at_resolver t) of
                  Inl err \<Rightarrow> Inl (ApplyActive err)
                | Inr eval' \<Rightarrow> Inr (t\<lparr>at_demo := Some eval'\<rparr>))))"

definition apply_freeze :: "register_response \<Rightarrow> apply_targets \<Rightarrow> apply_error + apply_targets" where
  "apply_freeze resp t =
     (case rg_freeze resp of
        None \<Rightarrow> Inr t
      | Some req \<Rightarrow>
          (case at_cachebox t of
             None \<Rightarrow> Inl NoCacheBox
           | Some cb \<Rightarrow>
               (case applyFreezeCfg req cb of
                  Inl err \<Rightarrow> Inl err
                | Inr cb' \<Rightarrow> Inr (t\<lparr>at_cachebox := Some cb'\<rparr>))))"

definition Apply :: "register_response \<Rightarrow> apply_targets \<Rightarrow> apply_error option \<times> apply_targets" where
  "Apply resp t =
     (case apply_rules resp t of
        Inl err \<Rightarrow> (Some err, t)
      | Inr t1 \<Rightarrow>
          (case apply_active resp t1 of
             Inl err \<Rightarrow> (Some err, t1)
           | Inr t2 \<Rightarrow>
               (case apply_freeze resp t2 of
                  Inl err \<Rightarrow> (Some err, t2)
                | Inr t3 \<Rightarrow> (None, t3))))"

section \<open>Applying a response\<close>

lemmas phase_defs = apply_rules_def apply_active_def apply_freeze_def applyActiveFault_def applyFreezeCfg_def

text \<open>Each phase changes its own target, and depends on it and the resolver only.\<close>

lemma apply_rules_other:
  "apply_rules resp t = Inr t' \<Longrightarrow>
   at_demo t' = at_demo t \<and> at_cachebox t' = at_cachebox t \<and> at_resolver t' = at_resolver t"
  by (auto simp: apply_rules_def Let_def split: if_splits option.splits sum.splits)

lemma apply_active_other:
  "apply_active resp t = Inr t' \<Longrightarrow>
   at_evaluator t' = at_evaluator t \<and> at_cachebox t' = at_cachebox t \<and> at_resolver t' = at_resolver t"
  by (auto simp: apply_active_def split: option.splits sum.splits)

lemma apply_freeze_other:
  "apply_freeze resp t = Inr t' \<Longrightarrow>
   at_evaluator t' = at_evaluator t \<and> at_demo t' = at_demo t \<and> at_resolver t' = at_resolver t"
  by (auto simp: apply_freeze_def split: option.splits sum.splits)

lemma SetRules_same [simp]: "SetRules rs (SetRules rs' e) = SetRules rs e"
  by (simp add: SetRules_def)

lemma demo_Set_same [simp]: "demo_Set d r (demo_Set d' r' e) = demo_Set d r e"
  by (simp add: demo_Set_def)

lemma SetDelaySource_same [simp]: "SetDelaySource (Some d) (SetDelaySource (Some d') cb) = SetDelaySource (Some d) cb"
  by (simp add: SetDelaySource_def)

lemma apply_rules_again:
  assumes "apply_rules resp t = Inr t1" and "at_evaluator t2 = at_evaluator t1" and "at_resolver t2 = at_resolver t1"
  shows "apply_rules resp t2 = Inr t2"
proof (cases "rg_rules resp = []")
  case False
  with assms(1) obtain e rules where e: "at_evaluator t = Some e"
    and r: "DecodeCompiledRules (rg_rules resp) (case at_resolver t of None \<Rightarrow> [] | Some r \<Rightarrow> [Some r]) = Inr rules"
    and t1: "t1 = t\<lparr>at_evaluator := Some (SetRules rules e)\<rparr>"
    by (auto simp: apply_rules_def Let_def split: option.splits sum.splits)
  from t1 assms have same: "at_evaluator t2 = Some (SetRules rules e)" "at_resolver t2 = at_resolver t" by simp_all
  then have "t2\<lparr>at_evaluator := Some (SetRules rules e)\<rparr> = t2" by (cases t2) simp
  with False r same show ?thesis by (simp add: apply_rules_def)
qed (simp add: apply_rules_def)

lemma apply_active_again:
  assumes "apply_active resp t = Inr t1" and "at_demo t2 = at_demo t1" and "at_resolver t2 = at_resolver t1"
  shows "apply_active resp t2 = Inr t2"
proof (cases "rg_active resp")
  case (Some req)
  with assms(1) obtain e f where e: "at_demo t = Some e" and f: "buildFault req (at_resolver t) = Inr f"
    and t1: "t1 = t\<lparr>at_demo := Some (demo_Set (Some (fault_decision ''active_fault'' ''register'' f (request_mode req))) (Some req) e)\<rparr>"
    by (auto simp: apply_active_def applyActiveFault_def fallible split: option.splits sum.splits)
  from t1 assms have d: "at_demo t2 = at_demo t1" "at_resolver t2 = at_resolver t" by simp_all
  then have "t2\<lparr>at_demo := at_demo t1\<rparr> = t2" by (cases t2) simp
  with Some f d t1 show ?thesis by (simp add: apply_active_def applyActiveFault_def)
qed (simp add: apply_active_def)

lemma apply_freeze_again:
  assumes "apply_freeze resp t = Inr t1" and "at_cachebox t2 = at_cachebox t1"
  shows "apply_freeze resp t2 = Inr t2"
proof (cases "rg_freeze resp")
  case (Some req)
  with assms(1) obtain cb where cb: "at_cachebox t = Some cb" "\<not> flt_less (dr_mu req) (Fin 0)" "\<not> flt_less (dr_sigma req) (Fin 0)"
    and t1: "t1 = t\<lparr>at_cachebox := Some (SetDelaySource (Some (NewDistributionDelaySource (dr_mu req) (dr_sigma req) (dr_seed req))) cb)\<rparr>"
    by (auto simp: apply_freeze_def applyFreezeCfg_def split: option.splits sum.splits if_splits)
  from assms have "t2\<lparr>at_cachebox := at_cachebox t1\<rparr> = t2" by (cases t2) simp
  with Some cb t1 assms(2) show ?thesis by (simp add: apply_freeze_def applyFreezeCfg_def)
qed (simp add: apply_freeze_def)

lemma apply_active_error_cong:
  "at_demo t2 = at_demo t \<Longrightarrow> at_resolver t2 = at_resolver t \<Longrightarrow>
   apply_active resp t = Inl e \<Longrightarrow> apply_active resp t2 = Inl e"
  by (auto simp: apply_active_def applyActiveFault_def split: option.splits sum.splits)

lemma apply_freeze_error_cong:
  "at_cachebox t2 = at_cachebox t \<Longrightarrow> apply_freeze resp t = Inl e \<Longrightarrow> apply_freeze resp t2 = Inl e"
  by (auto simp: apply_freeze_def split: option.splits sum.splits)

section \<open>Properties of the control plane\<close>

text \<open>
  C16. Applying the same response once more changes nothing and answers the same, also when it
  fails: a client may register again with its instance id at any time.
\<close>

theorem Apply_idempotent: "Apply resp (snd (Apply resp t)) = Apply resp t"
proof (cases "apply_rules resp t")
  case (Inl e)
  then show ?thesis by (simp add: Apply_def)
next
  case rules: (Inr t1)
  show ?thesis
  proof (cases "apply_active resp t1")
    case (Inl e)
    with rules apply_rules_again [OF rules refl refl] show ?thesis by (simp add: Apply_def)
  next
    case active: (Inr t2)
    note o2 = apply_active_other [OF active]
    show ?thesis
    proof (cases "apply_freeze resp t2")
      case (Inl e)
      with rules active apply_rules_again [OF rules] apply_active_again [OF active] o2 show ?thesis
        by (simp add: Apply_def)
    next
      case freeze: (Inr t3)
      note o3 = apply_freeze_other [OF freeze]
      from rules active freeze o2 o3 apply_rules_again [OF rules, of t3] apply_active_again [OF active, of t3]
        apply_freeze_again [OF freeze, of t3] show ?thesis
        by (simp add: Apply_def)
    qed
  qed
qed

text \<open>What a response can install: its rules, its active fault, its freeze configuration.\<close>

definition rules_for :: "register_response \<Rightarrow> apply_targets \<Rightarrow> static_rule list \<Rightarrow> bool" where
  "rules_for resp t rules \<longleftrightarrow> rg_rules resp \<noteq> [] \<and> at_evaluator t \<noteq> None \<and>
     DecodeCompiledRules (rg_rules resp) (case at_resolver t of None \<Rightarrow> [] | Some r \<Rightarrow> [Some r]) = Inr rules"

definition active_for :: "register_response \<Rightarrow> apply_targets \<Rightarrow> fault_request \<Rightarrow> fault \<Rightarrow> bool" where
  "active_for resp t req f \<longleftrightarrow> rg_active resp = Some req \<and> at_demo t \<noteq> None \<and> buildFault req (at_resolver t) = Inr f"

definition freeze_for :: "register_response \<Rightarrow> apply_targets \<Rightarrow> delay_request \<Rightarrow> bool" where
  "freeze_for resp t req \<longleftrightarrow> rg_freeze resp = Some req \<and> at_cachebox t \<noteq> None \<and>
     \<not> flt_less (dr_mu req) (Fin 0) \<and> \<not> flt_less (dr_sigma req) (Fin 0)"

definition rules_pass :: "register_response \<Rightarrow> apply_targets \<Rightarrow> bool" where
  "rules_pass resp t \<longleftrightarrow> rg_rules resp = [] \<or> (\<exists>rules. rules_for resp t rules)"

definition active_pass :: "register_response \<Rightarrow> apply_targets \<Rightarrow> bool" where
  "active_pass resp t \<longleftrightarrow> rg_active resp = None \<or> (\<exists>req f. active_for resp t req f)"

definition freeze_pass :: "register_response \<Rightarrow> apply_targets \<Rightarrow> bool" where
  "freeze_pass resp t \<longleftrightarrow> rg_freeze resp = None \<or> (\<exists>req. freeze_for resp t req)"

lemma apply_rules_fails:
  assumes "\<not> rules_pass resp t"
  shows "\<exists>e. apply_rules resp t = Inl e \<and>
    (if at_evaluator t = None then e = NoEvaluator (int (length (rg_rules resp))) else \<exists>x. e = ApplyRules x)"
  using assms
  by (cases "at_evaluator t";
      cases "DecodeCompiledRules (rg_rules resp) (case at_resolver t of None \<Rightarrow> [] | Some r \<Rightarrow> [Some r])")
    (simp_all add: rules_pass_def rules_for_def apply_rules_def)

lemma apply_rules_passes:
  assumes "rules_pass resp t"
  shows "\<exists>t1. apply_rules resp t = Inr t1 \<and>
    (\<forall>rules. rules_for resp t rules \<longrightarrow> map_option Rules (at_evaluator t1) = Some rules) \<and>
    (rg_rules resp = [] \<longrightarrow> at_evaluator t1 = at_evaluator t)"
proof (cases "rg_rules resp = []")
  case False
  with assms obtain rules e where r: "rules_for resp t rules" and e: "at_evaluator t = Some e"
    by (auto simp: rules_pass_def rules_for_def)
  from r e False have "apply_rules resp t = Inr (t\<lparr>at_evaluator := Some (SetRules rules e)\<rparr>)"
    by (simp add: apply_rules_def rules_for_def)
  with r False show ?thesis by (simp add: rules_for_def SetRules_def Rules_def)
qed (simp add: apply_rules_def rules_for_def)

lemma apply_active_fails:
  assumes "\<not> active_pass resp t"
  shows "\<exists>e. apply_active resp t = Inl e \<and>
    (if at_demo t = None then e = NoDemoEval else \<exists>x. e = ApplyActive x)"
proof -
  from assms obtain req where req: "rg_active resp = Some req" by (auto simp: active_pass_def)
  show ?thesis
  proof (cases "at_demo t")
    case (Some d)
    with assms req obtain x where "buildFault req (at_resolver t) = Inl x"
      by (cases "buildFault req (at_resolver t)") (auto simp: active_pass_def active_for_def)
    with req Some show ?thesis by (simp add: apply_active_def applyActiveFault_def)
  qed (simp add: req apply_active_def)
qed

lemma apply_active_passes:
  assumes "active_pass resp t"
  shows "\<exists>t1. apply_active resp t = Inr t1 \<and>
    (\<forall>req f. active_for resp t req f \<longrightarrow>
       (\<exists>d. at_demo t1 = Some d \<and> demo_Active d = Some req \<and>
          (\<forall>q. demo_Evaluate d q = Some (fault_decision ''active_fault'' ''register'' f
             (if effectiveCategory req = ''inline'' then Inline else Background))))) \<and>
    (rg_active resp = None \<longrightarrow> at_demo t1 = at_demo t)"
proof (cases "rg_active resp")
  case (Some req)
  with assms obtain f e where f: "buildFault req (at_resolver t) = Inr f" and e: "at_demo t = Some e"
    by (auto simp: active_pass_def active_for_def)
  from f e Some have "apply_active resp t =
      Inr (t\<lparr>at_demo := Some (demo_Set (Some (fault_decision ''active_fault'' ''register'' f (request_mode req))) (Some req) e)\<rparr>)"
    by (simp add: apply_active_def applyActiveFault_def)
  with f Some show ?thesis
    by (simp add: active_for_def demo_Set_def demo_Active_def demo_Evaluate_def request_mode_def)
qed (simp add: apply_active_def active_for_def)

lemma apply_freeze_fails:
  assumes "\<not> freeze_pass resp t"
  shows "\<exists>e. apply_freeze resp t = Inl e \<and> e \<in> {NoCacheBox} \<union> range ApplyMu \<union> range ApplySigma \<and>
    (e = NoCacheBox \<longleftrightarrow> at_cachebox t = None)"
  using assms
  by (cases "rg_freeze resp"; cases "at_cachebox t")
    (auto simp: freeze_pass_def freeze_for_def apply_freeze_def applyFreezeCfg_def)

lemma apply_freeze_passes:
  assumes "freeze_pass resp t"
  shows "\<exists>t1. apply_freeze resp t = Inr t1 \<and>
    (\<forall>req cb. freeze_for resp t req \<and> at_cachebox t = Some cb \<longrightarrow>
       at_cachebox t1 = Some (cb\<lparr>cb_delay := DistributionDelay (dr_mu req) (dr_sigma req) (dr_seed req)\<rparr>)) \<and>
    (rg_freeze resp = None \<longrightarrow> at_cachebox t1 = at_cachebox t)"
proof (cases "rg_freeze resp")
  case (Some req)
  with assms obtain cb where cb: "at_cachebox t = Some cb" "\<not> flt_less (dr_mu req) (Fin 0)" "\<not> flt_less (dr_sigma req) (Fin 0)"
    by (auto simp: freeze_pass_def freeze_for_def)
  with Some have "apply_freeze resp t =
      Inr (t\<lparr>at_cachebox := Some (SetDelaySource (Some (NewDistributionDelaySource (dr_mu req) (dr_sigma req) (dr_seed req))) cb)\<rparr>)"
    by (simp add: apply_freeze_def applyFreezeCfg_def)
  with cb Some show ?thesis by (simp add: freeze_for_def SetDelaySource_def NewDistributionDelaySource_def)
qed (simp add: apply_freeze_def freeze_for_def)

text \<open>
  C31. What \<open>Apply\<close> leaves behind, for every response and all targets. It succeeds exactly when each
  category the response carries has its target and can be decoded. The rules are installed whenever
  they decode, also when a later category fails: the evaluator's rule list is then the decoded one.
  The active fault is installed whenever the rules passed and it can be built: the demo evaluator then
  answers every request with it, inline exactly for the inline category. The freeze configuration is
  installed when both passed: the cache box then samples from its parameters and nothing else of it
  has changed. Everything else stays as it was, and the error names the first category that failed.
\<close>

theorem Apply_stages:
  assumes "Apply resp t = (err, t')"
  shows "(err = None \<longleftrightarrow> rules_pass resp t \<and> active_pass resp t \<and> freeze_pass resp t) \<and>
    (\<not> rules_pass resp t \<longrightarrow> (if at_evaluator t = None then err = Some (NoEvaluator (int (length (rg_rules resp))))
       else \<exists>x. err = Some (ApplyRules x))) \<and>
    (rules_pass resp t \<and> \<not> active_pass resp t \<longrightarrow>
       (if at_demo t = None then err = Some NoDemoEval else \<exists>x. err = Some (ApplyActive x))) \<and>
    (rules_pass resp t \<and> active_pass resp t \<and> \<not> freeze_pass resp t \<longrightarrow>
       (if at_cachebox t = None then err = Some NoCacheBox else \<exists>x. err = Some (ApplyMu x) \<or> err = Some (ApplySigma x))) \<and>
    (\<forall>rules. rules_for resp t rules \<longrightarrow> map_option Rules (at_evaluator t') = Some rules) \<and>
    ((\<nexists>rules. rules_for resp t rules) \<longrightarrow> at_evaluator t' = at_evaluator t) \<and>
    (\<forall>req f. rules_pass resp t \<and> active_for resp t req f \<longrightarrow>
       (\<exists>d. at_demo t' = Some d \<and> demo_Active d = Some req \<and>
          (\<forall>q. demo_Evaluate d q = Some (fault_decision ''active_fault'' ''register'' f
             (if effectiveCategory req = ''inline'' then Inline else Background))))) \<and>
    (\<not> rules_pass resp t \<or> (\<nexists>req f. active_for resp t req f) \<longrightarrow> at_demo t' = at_demo t) \<and>
    (\<forall>req cb. rules_pass resp t \<and> active_pass resp t \<and> freeze_for resp t req \<and> at_cachebox t = Some cb \<longrightarrow>
       at_cachebox t' = Some (cb\<lparr>cb_delay := DistributionDelay (dr_mu req) (dr_sigma req) (dr_seed req)\<rparr>)) \<and>
    (\<not> rules_pass resp t \<or> \<not> active_pass resp t \<or> (\<nexists>req. freeze_for resp t req) \<longrightarrow> at_cachebox t' = at_cachebox t) \<and>
    at_resolver t' = at_resolver t"
proof (cases "rules_pass resp t")
  case False
  from apply_rules_fails [OF this] obtain e where e: "apply_rules resp t = Inl e"
    "if at_evaluator t = None then e = NoEvaluator (int (length (rg_rules resp))) else \<exists>x. e = ApplyRules x" by blast
  from e(1) assms have "err = Some e" "t' = t" by (simp_all add: Apply_def)
  moreover have "\<not> rules_for resp t rules" for rules using False by (simp add: rules_pass_def)
  ultimately show ?thesis using False e(2) by simp
next
  case rules: True
  from apply_rules_passes [OF rules] obtain t1 where t1: "apply_rules resp t = Inr t1"
    and R: "\<And>rules. rules_for resp t rules \<Longrightarrow> map_option Rules (at_evaluator t1) = Some rules"
      "rg_rules resp = [] \<Longrightarrow> at_evaluator t1 = at_evaluator t" by blast
  note o1 = apply_rules_other [OF t1]
  have R2: "\<nexists>rules. rules_for resp t rules \<Longrightarrow> at_evaluator t1 = at_evaluator t"
    using R(2) rules by (auto simp: rules_pass_def)
  have a1: "active_for resp t1 = active_for resp t" by (simp add: fun_eq_iff active_for_def o1)
  then have a2: "active_pass resp t1 = active_pass resp t" by (simp add: active_pass_def)
  show ?thesis
  proof (cases "active_pass resp t")
    case False
    with a2 apply_active_fails [of resp t1] obtain e where e: "apply_active resp t1 = Inl e"
      "if at_demo t1 = None then e = NoDemoEval else \<exists>x. e = ApplyActive x" by blast
    from t1 e(1) assms have "err = Some e" "t' = t1" by (simp_all add: Apply_def)
    moreover have "\<not> active_for resp t req f" for req f using False by (simp add: active_pass_def)
    ultimately show ?thesis using rules False e(2) o1 R(1) R2 by simp
  next
    case active: True
    with a2 apply_active_passes [of resp t1] a1 obtain t2 where t2: "apply_active resp t1 = Inr t2"
      and A: "\<And>req f. active_for resp t req f \<Longrightarrow>
         (\<exists>d. at_demo t2 = Some d \<and> demo_Active d = Some req \<and>
            (\<forall>q. demo_Evaluate d q = Some (fault_decision ''active_fault'' ''register'' f
               (if effectiveCategory req = ''inline'' then Inline else Background))))"
        "rg_active resp = None \<Longrightarrow> at_demo t2 = at_demo t1" by auto
    note o2 = apply_active_other [OF t2]
    have A2: "\<nexists>req f. active_for resp t req f \<Longrightarrow> at_demo t2 = at_demo t"
      using A(2) active o1 by (auto simp: active_pass_def)
    have f1: "freeze_for resp t2 = freeze_for resp t" by (simp add: fun_eq_iff freeze_for_def o1 o2)
    then have f2: "freeze_pass resp t2 = freeze_pass resp t" by (simp add: freeze_pass_def)
    show ?thesis
    proof (cases "freeze_pass resp t")
      case False
      with f2 have "\<not> freeze_pass resp t2" by simp
      from apply_freeze_fails [OF this] obtain e where e: "apply_freeze resp t2 = Inl e"
        "e \<in> {NoCacheBox} \<union> range ApplyMu \<union> range ApplySigma" "e = NoCacheBox \<longleftrightarrow> at_cachebox t2 = None"
        by (elim exE conjE) (rule that)
      from t1 t2 e(1) assms have r: "err = Some e" "t' = t2" by (simp_all add: Apply_def)
      have "if at_cachebox t = None then err = Some NoCacheBox else \<exists>x. err = Some (ApplyMu x) \<or> err = Some (ApplySigma x)"
        using e(2,3) o1 o2 r(1) by auto
      moreover have "\<not> freeze_for resp t req" for req using False by (simp add: freeze_pass_def)
      ultimately show ?thesis using rules active False o1 o2 r R(1) R2 A(1) A2 by simp
    next
      case True
      with f2 apply_freeze_passes [of resp t2] f1 o1 o2 obtain t3 where t3: "apply_freeze resp t2 = Inr t3"
        and F: "\<And>req cb. freeze_for resp t req \<Longrightarrow> at_cachebox t = Some cb \<Longrightarrow>
           at_cachebox t3 = Some (cb\<lparr>cb_delay := DistributionDelay (dr_mu req) (dr_sigma req) (dr_seed req)\<rparr>)"
          "rg_freeze resp = None \<Longrightarrow> at_cachebox t3 = at_cachebox t2" by auto
      note o3 = apply_freeze_other [OF t3]
      have F2: "\<nexists>req. freeze_for resp t req \<Longrightarrow> at_cachebox t3 = at_cachebox t"
        using F(2) True o1 o2 by (auto simp: freeze_pass_def)
      from t1 t2 t3 assms have r: "err = None" "t' = t3" by (simp_all add: Apply_def)
      show ?thesis using rules active True o1 o2 o3 r R(1) R2 A(1) A2 F(1) F2 by simp
    qed
  qed
qed

definition bare_targets :: apply_targets where
  "bare_targets = \<lparr>at_evaluator = Some (NewStaticEvaluator []), at_demo = None, at_cachebox = None, at_resolver = None\<rparr>"

definition mixed_response :: register_response where
  "mixed_response = \<lparr>rg_status = ''ok'', rg_rules = three_rules,
     rg_active = Some \<lparr>fq_category = [], fq_type = ''hang'', fq_delay = [], fq_jitter = [], fq_duration = ''5s'',
                       fq_status = 0, fq_message = [], fq_config = None\<rparr>, rg_freeze = None\<rparr>"

theorem Apply_stages_witness:
  "\<exists>t'. Apply mixed_response bare_targets = (Some NoDemoEval, t') \<and>
     map_option (map sr_name \<circ> Rules) (at_evaluator t') = Some [''first'', ''second'', ''low'']"
proof -
  obtain rules where r: "DecodeCompiledRules three_rules [] = Inr rules" "map sr_name rules = [''first'', ''second'', ''low'']"
    by (simp add: DecodeCompiledRules_def by_priority_def three_rules_def tagged_rule_def DecodeCompiledRule_def)
  then have "rules_for mixed_response bare_targets rules"
    by (simp add: rules_for_def mixed_response_def bare_targets_def three_rules_def)
  moreover obtain t' where a: "Apply mixed_response bare_targets = (Some NoDemoEval, t')"
    using r by (simp add: Apply_def apply_rules_def apply_active_def mixed_response_def bare_targets_def three_rules_def)
  ultimately have "map_option Rules (at_evaluator t') = Some rules"
    using Apply_stages [OF a] by blast
  with a r(2) show ?thesis by (auto simp: comp_def)
qed

definition request_doc :: "fault_request \<Rightarrow> json" where
  "request_doc req = JObj [(''delay'', JStr (fq_delay req)), (''jitter'', JStr (fq_jitter req)),
     (''duration'', JStr (fq_duration req)), (''status_code'', JNum (format_int (fq_status req))),
     (''message'', JStr (fq_message req))]"

lemma request_doc_fields:
  "config_field w str_field ''delay'' (Some (request_doc req)) = Inr (fq_delay req)"
  "config_field w str_field ''jitter'' (Some (request_doc req)) = Inr (fq_jitter req)"
  "config_field w str_field ''duration'' (Some (request_doc req)) = Inr (fq_duration req)"
  "config_field w str_field ''message'' (Some (request_doc req)) = Inr (fq_message req)"
  "i64 (fq_status req) \<Longrightarrow> config_field w int_field ''status_code'' (Some (request_doc req)) = Inr (fq_status req)"
  by (simp_all add: request_doc_def config_field_def str_field_def str_conv_def int_field_def int_conv_def
      json_field_def field_values_def to_upper_def ParseInt_format)

text \<open>
  The two ways to ask for an inline fault. For latency and hang, the fields of a request of the
  admin endpoint and the same values as a compiled rule's configuration build the same fault;
  for an error they do when the request names a status and a message, and otherwise the
  endpoint fills in 500 and a text while the compiled rule keeps a status that never validates.
\<close>

theorem inline_paths_agree:
  assumes "i64 (fq_status req)"
  shows "(fq_type req \<noteq> ''error'' \<or> fq_status req \<noteq> 0 \<and> fq_message req \<noteq> [] \<longrightarrow>
      (buildInlineFault req = Inr f \<longleftrightarrow>
       decodeInlineFault (fq_type req) (Some (request_doc req)) (no_ramps 0) = Inr f)) \<and>
    (fq_type req = ''error'' \<and> fq_status req = 0 \<longrightarrow>
       (\<exists>g h. buildInlineFault req = Inr g \<and> fault_Validate g = None \<and>
          decodeInlineFault (fq_type req) (Some (request_doc req)) (no_ramps 0) = Inr h \<and>
          fault_Validate h = Some (BadStatusCode 0)))"
proof (intro conjI impI)
  assume "fq_type req \<noteq> ''error'' \<or> fq_status req \<noteq> 0 \<and> fq_message req \<noteq> []"
  then show "buildInlineFault req = Inr f \<longleftrightarrow>
       decodeInlineFault (fq_type req) (Some (request_doc req)) (no_ramps 0) = Inr f"
    using assms
    by (auto simp: buildInlineFault_def decodeInlineFault_def request_doc_fields fallible parse_duration_def
        optional_duration_def default_duration_def NewLatencyFault_def NewErrorFault_def NewHangFault_def Let_def)
next
  assume "fq_type req = ''error'' \<and> fq_status req = 0"
  then show "\<exists>g h. buildInlineFault req = Inr g \<and> fault_Validate g = None \<and>
          decodeInlineFault (fq_type req) (Some (request_doc req)) (no_ramps 0) = Inr h \<and>
          fault_Validate h = Some (BadStatusCode 0)"
    using assms
    by (auto simp: buildInlineFault_def decodeInlineFault_def request_doc_fields default_duration_def
        NewErrorFault_def Error_Validate_def Let_def)
qed

definition outage_request :: fault_request where
  "outage_request = \<lparr>fq_category = [], fq_type = ''error'', fq_delay = [], fq_jitter = [], fq_duration = [],
     fq_status = 503, fq_message = ''down'', fq_config = None\<rparr>"

theorem inline_paths_agree_witness:
  "decodeInlineFault ''error'' (Some (request_doc outage_request)) (no_ramps 0) = Inr (NewErrorFault 503 ''down'')"
proof -
  have "buildInlineFault outage_request = Inr (NewErrorFault 503 ''down'')"
    by (simp add: buildInlineFault_def outage_request_def)
  moreover have "i64 (fq_status outage_request)" by (simp add: outage_request_def i64_def)
  ultimately show ?thesis
    using inline_paths_agree [of outage_request "NewErrorFault 503 ''down''"] by (simp add: outage_request_def)
qed

text \<open>
  The fault endpoint as a state machine. A POST is answered 201 exactly when the body is a fault
  request and its fault can be built; then every request at every injection point gets that
  fault, until the next accepted POST or a DELETE, and GET returns the request; a rejected call
  and a GET leave the evaluator as it was. Nothing is validated: the fault accepted may be one
  that never starts.
\<close>

theorem fault_endpoint:
  assumes "FaultAdminHandlerWith meth body resolve eval = (r, eval')"
  shows "(rl_code r = 201 \<longleftrightarrow> meth = ''POST'' \<and>
       (\<exists>doc req f. body = Some doc \<and> decode_fault_request doc = Some req \<and> buildFault req resolve = Inr f \<and>
          (\<forall>q. demo_Evaluate eval' q = Some (fault_decision ''admin'' ''admin'' f (request_mode req))) \<and>
          (\<forall>b res. FaultAdminHandlerWith ''GET'' b res eval' =
             (\<lparr>rl_code = 200, rl_body = FaultStatus True (Some req)\<rparr>, eval')))) \<and>
    (meth = ''DELETE'' \<longrightarrow> rl_code r = 200 \<and> (\<forall>q. demo_Evaluate eval' q = None) \<and> demo_Active eval' = None) \<and>
    (rl_code r \<noteq> 201 \<and> meth \<noteq> ''DELETE'' \<longrightarrow> eval' = eval)"
proof (cases "meth = ''POST''")
  case True
  then show ?thesis using assms
    by (auto simp: FaultAdminHandlerWith_def handleFaultPost_def demo_Evaluate_def demo_Set_def demo_Active_def
        split: option.splits sum.splits)
next
  case False
  then show ?thesis using assms
    by (auto simp: FaultAdminHandlerWith_def demo_Evaluate_def demo_Clear_def demo_Active_def
        split: option.splits if_splits)
qed

definition negative_post :: json where
  "negative_post = JObj [(''type'', JStr ''hang''), (''duration'', JStr ''-5s'')]"

theorem fault_endpoint_witness:
  "\<exists>r eval' d f. FaultAdminHandlerWith ''POST'' (Some negative_post) None \<lparr>de_decision = None, de_req = None\<rparr> = (r, eval') \<and>
     (\<forall>q. demo_Evaluate eval' q = Some d) \<and> d_fault d = Some f \<and> fault_Validate f = Some DurationNotPositive"
proof -
  let ?e = "\<lparr>de_decision = None, de_req = None\<rparr> :: demo"
  have pd: "ParseDuration ''-5s'' = Some (- 5000000000)"
  proof -
    have u: "''s'' \<in> set duration_units" "duration_unit ''s'' = Some Second"
      by (simp_all add: duration_units_def duration_unit_def)
    have f: "format_dec 5 = ''5''" by code_simp
    have "duration_sign (''5s'') = (False, ''5s'')" by (simp add: duration_sign_def)
    with ParseDuration_whole [OF u, of 5] have "duration_loop 0 ''5s'' = Some 5000000000"
      by (simp add: f Second_def ParseDuration_def split: option.splits if_splits)
    then show ?thesis by (simp add: ParseDuration_def duration_sign_def)
  qed
  obtain req where req: "decode_fault_request negative_post = Some req" "effectiveCategory req = ''inline''"
    "fq_type req = ''hang''" "fq_duration req = ''-5s''"
    by (simp add: decode_fault_request_def negative_post_def str_field_def int_field_def str_conv_def raw_field_def
        json_field_def field_values_def to_upper_def effectiveCategory_def)
  then have f: "buildFault req None = Inr (NewHangFault (- 5000000000))"
    by (simp add: buildFault_def buildInlineFault_def parse_duration_def pd)
  obtain r eval' where h: "FaultAdminHandlerWith ''POST'' (Some negative_post) None ?e = (r, eval')" by (metis surj_pair)
  then have code: "rl_code r = 201"
    using req(1) f by (auto simp: FaultAdminHandlerWith_def handleFaultPost_def)
  from fault_endpoint [OF h, THEN conjunct1, THEN iffD1, OF code] obtain doc req' f'
    where "Some negative_post = Some doc" "decode_fault_request doc = Some req'" "buildFault req' None = Inr f'"
      and ev: "\<forall>q. demo_Evaluate eval' q = Some (fault_decision ''admin'' ''admin'' f' (request_mode req'))"
    by (elim conjE exE)
  then have "f' = NewHangFault (- 5000000000)" using req(1) f by simp
  note ev [unfolded this]
  moreover have "fault_Validate (NewHangFault (- 5000000000)) = Some DurationNotPositive"
    by (simp add: NewHangFault_def Hang_Validate_def FaultConfig_Validate_def)
  moreover note h
  ultimately show ?thesis unfolding fault_decision_def by fastforce
qed

lemma assign_reject: "assign (\<lambda>_. None) vs a = Some b \<Longrightarrow> b = a \<and> set vs \<subseteq> {JNull}"
  by (induction vs) (auto split: if_splits)

lemma decode_decision_fault: "decode_decision d doc = Some d' \<Longrightarrow> d_fault d' = d_fault d"
  by (auto simp: decode_decision_def json_field_def dest: assign_reject split: option.splits)

lemma fold_decisions_fault: "fold_fields (\<lambda>v d. decode_decision d v) vs d = Some d' \<Longrightarrow> d_fault d' = d_fault d"
  by (induction "\<lambda>v d. decode_decision d v" vs d rule: fold_fields.induct)
     (auto dest: decode_decision_fault split: option.splits)

lemma those_set: "those xs = Some ys \<Longrightarrow> y \<in> set ys \<Longrightarrow> Some y \<in> set xs"
  by (induction xs arbitrary: ys) (auto split: option.splits)

text \<open>
  The rules endpoint cannot install a fault: a posted rule with any fault but \<open>null\<close> makes the
  call fail and leaves the evaluator as it was, and every rule an accepted call installs
  decides on a cache-box action or on nothing.
\<close>

theorem rules_endpoint_no_fault:
  assumes "RulesAdminHandler meth body eval = (r, eval')"
  shows "(eval' = eval \<or> rl_code r = 204 \<and> (\<forall>sr \<in> set (Rules eval'). d_fault (sr_decision sr) = None)) \<and>
    (rl_code r \<noteq> 204 \<longrightarrow> eval' = eval) \<and>
    (\<forall>q d. rl_code r = 204 \<and> Evaluate eval' q = Some d \<longrightarrow> d_fault d = None)"
proof (cases "meth = ''POST'' \<and> (\<exists>doc rules. body = Some doc \<and> decode_static_rules doc = Some rules)")
  case True
  then obtain doc rules where doc: "body = Some doc" "decode_static_rules doc = Some rules" by blast
  with True assms have eval': "eval' = SetRules rules eval" "rl_code r = 204"
    by (auto simp: RulesAdminHandler_def)
  have "d_fault (sr_decision sr) = None" if "sr \<in> set rules" for sr
  proof -
    from doc(2) that obtain v where "decode_static_rule v = Some sr"
      by (auto simp: decode_static_rules_def split: json.splits dest!: those_set)
    then show ?thesis
      by (auto simp: decode_static_rule_def zero_decision_def dest!: fold_decisions_fault split: option.splits)
  qed
  with eval' static.get_set static.eval_decisions [of rules "\<lambda>d. d_fault d = None" eval] show ?thesis by auto
next
  case False
  with assms have "rl_code r \<noteq> 204" "eval' = eval"
    by (auto simp: RulesAdminHandler_def split: if_splits option.splits)
  then show ?thesis by simp
qed

theorem rules_endpoint_no_fault_witness:
  "\<exists>r. RulesAdminHandler ''POST'' (Some (JArr [JObj [(''name'', JStr ''freeze''), (''Decision'', JObj [(''CacheBox'', JNum ''2'')])]]))
     two_rules = (r, SetRules [\<lparr>sr_name = ''freeze'', sr_point = Ingress, sr_labels = [],
        sr_decision = zero_decision\<lparr>d_cachebox := CacheBoxReplay\<rparr>\<rparr>] two_rules) \<and>
     (\<forall>q d. Evaluate (SetRules [\<lparr>sr_name = ''freeze'', sr_point = Ingress, sr_labels = [],
        sr_decision = zero_decision\<lparr>d_cachebox := CacheBoxReplay\<rparr>\<rparr>] two_rules) q = Some d \<longrightarrow> d_fault d = None)"
proof -
  let ?doc = "JArr [JObj [(''name'', JStr ''freeze''), (''Decision'', JObj [(''CacheBox'', JNum ''2'')])]]"
  let ?e = "SetRules [\<lparr>sr_name = ''freeze'', sr_point = Ingress, sr_labels = [],
        sr_decision = zero_decision\<lparr>d_cachebox := CacheBoxReplay\<rparr>\<rparr>] two_rules"
  have n: "char_of (78 :: nat) = CHR ''N''" by code_simp
  have h: "RulesAdminHandler ''POST'' (Some ?doc) two_rules = (\<lparr>rl_code = 204, rl_body = NoBody\<rparr>, ?e)"
    by (simp add: RulesAdminHandler_def decode_static_rules_def decode_static_rule_def decode_decision_def
        zero_decision_def str_field_def str_conv_def json_field_def field_values_def n to_upper_def int_conv_def
        ParseInt_def digits_val_def digit_val_def is_digit_def i64_def action_of_int_def)
  with rules_endpoint_no_fault [OF h] show ?thesis by auto
qed

text \<open>
  Freezing through the control plane and through the admin endpoint is the same: the endpoint
  accepts a delay request exactly when \<open>Apply\<close> does, and they leave the cache box in the same
  state, which samples from the requested distribution whatever its source was before.
\<close>

theorem freeze_paths_agree:
  assumes "decode_delay_request doc = Some req"
  shows "(applyFreezeCfg req cb = Inr cb' \<longleftrightarrow>
      CacheBoxAdminHandler ''POST'' ''/admin/cachebox/delay'' (Some doc) cb =
        (\<lparr>rl_code = 204, rl_body = NoBody\<rparr>, cb')) \<and>
    (applyFreezeCfg req cb = Inr cb' \<longrightarrow>
       (\<forall>draw ovf e. SampleDelay draw ovf cb' e = distribution_sample draw ovf (dr_mu req) (dr_sigma req) (Some e)))"
proof -
  have "path_suffix ''/admin/cachebox/delay'' = ''delay''" by (simp add: path_suffix_def)
  then show ?thesis using assms
    by (auto simp: CacheBoxAdminHandler_def handleCacheBoxDelay_def applyFreezeCfg_def SetDelaySource_def
        NewDistributionDelaySource_def SampleDelay_def delay_sample_def)
qed

theorem freeze_paths_agree_witness:
  "\<forall>cb. fst (CacheBoxAdminHandler ''POST'' ''/admin/cachebox/delay'' (Some (JObj [(''mu'', JNum ''0''), (''seed'', JNum ''7'')])) cb) =
     \<lparr>rl_code = 204, rl_body = NoBody\<rparr>"
proof
  fix cb
  let ?req = "\<lparr>dr_mu = Fin 0, dr_sigma = Fin 0, dr_seed = 7\<rparr>"
  have n: "number_val ''0'' = 0" by (simp add: number_val_def is_digit_def digits_val_def digit_val_def)
  have d: "decode_delay_request (JObj [(''mu'', JNum ''0''), (''seed'', JNum ''7'')]) = Some ?req"
    by (simp add: decode_delay_request_def float_field_def float_conv_def uint_field_def uint_conv_def json_field_def
        field_values_def to_upper_def ParseFloat_def n round64_def ParseUint_def is_digit_def digits_val_def digit_val_def)
  have "applyFreezeCfg ?req cb = Inr (SetDelaySource (Some (NewDistributionDelaySource (Fin 0) (Fin 0) 7)) cb)"
    by (simp add: applyFreezeCfg_def)
  with freeze_paths_agree [OF d] show "fst (CacheBoxAdminHandler ''POST'' ''/admin/cachebox/delay''
      (Some (JObj [(''mu'', JNum ''0''), (''seed'', JNum ''7'')])) cb) = \<lparr>rl_code = 204, rl_body = NoBody\<rparr>" by simp
qed

section \<open>The package-level fault endpoint\<close>

text \<open>
  What \<open>FaultAdminHandler\<close> works on: the demo evaluator, once it exists, and the package's
  interceptor. The interceptor holds a pointer to its evaluator; \<open>ap_wired\<close> says that it is the
  demo evaluator, so that its answers are those of the current one.
\<close>

record admin_process =
  ap_demo :: "demo option"
  ap_interceptor :: interceptor
  ap_wired :: bool

definition ensureDemoEval :: "admin_process \<Rightarrow> demo \<times> admin_process" where
  "ensureDemoEval p =
     (case ap_demo p of
        Some d \<Rightarrow> (d, p)
      | None \<Rightarrow>
          (let d = \<lparr>de_decision = None, de_req = None\<rparr>
           in (d, p\<lparr>ap_demo := Some d, ap_wired := True,
                    ap_interceptor := Configure [Some (WithEvaluator (Some (demo_Evaluate d)))]\<rparr>)))"

definition FaultAdminHandler :: "string \<Rightarrow> json option \<Rightarrow> admin_process \<Rightarrow> reply \<times> admin_process" where
  "FaultAdminHandler meth body p =
     (let (d, p1) = ensureDemoEval p;
          (r, d') = FaultAdminHandlerWith meth body None d
      in (r, p1\<lparr>ap_demo := Some d',
                ap_interceptor := (if ap_wired p1 then (ap_interceptor p1)\<lparr>it_eval := demo_Evaluate d'\<rparr>
                                   else ap_interceptor p1)\<rparr>))"

text \<open>
  The first call of the package-level fault endpoint, whatever its method, replaces the
  interceptor of the package: the evaluator and the cache box that the application configured
  before are gone, and a GET, which only asks for the status, leaves a service without rules.
\<close>

theorem first_admin_call_reconfigures:
  assumes "ap_demo p = None" and "FaultAdminHandler meth body p = (r, p')"
  shows "\<not> it_cachebox (ap_interceptor p') \<and> \<not> it_registry (ap_interceptor p') \<and>
     (\<exists>d. ap_demo p' = Some d \<and> it_eval (ap_interceptor p') = demo_Evaluate d) \<and>
     (meth \<noteq> ''POST'' \<longrightarrow> (\<forall>req. it_eval (ap_interceptor p') req = None))"
proof -
  let ?d = "\<lparr>de_decision = None, de_req = None\<rparr> :: demo"
  obtain d' where h: "FaultAdminHandlerWith meth body None ?d = (r, d')"
    and p': "p' = p\<lparr>ap_demo := Some d', ap_wired := True,
        ap_interceptor := (Configure [Some (WithEvaluator (Some (demo_Evaluate ?d)))])\<lparr>it_eval := demo_Evaluate d'\<rparr>\<rparr>"
    using assms by (auto simp: FaultAdminHandler_def ensureDemoEval_def Let_def split: prod.splits)
  have "d' = ?d" if "meth \<noteq> ''POST''"
    using h that by (auto simp: FaultAdminHandlerWith_def demo_Active_def demo_Clear_def split: if_splits)
  with p' show ?thesis by (auto simp: Configure_def Interceptor_New_def demo_Evaluate_def)
qed

theorem first_admin_call_reconfigures_witness:
  "\<exists>r p'. FaultAdminHandler ''GET'' None
       \<lparr>ap_demo = None, ap_interceptor = Configure [Some (WithEvaluator (Some (Evaluate two_rules))), Some (WithCacheBoxCoordinator True)],
        ap_wired = False\<rparr> = (r, p') \<and>
     it_cachebox (Configure [Some (WithEvaluator (Some (Evaluate two_rules))), Some (WithCacheBoxCoordinator True)]) \<and>
     \<not> it_cachebox (ap_interceptor p')"
proof -
  let ?p = "\<lparr>ap_demo = None, ap_interceptor = Configure [Some (WithEvaluator (Some (Evaluate two_rules))), Some (WithCacheBoxCoordinator True)],
        ap_wired = False\<rparr>"
  obtain r p' where h: "FaultAdminHandler ''GET'' None ?p = (r, p')" by (metis surj_pair)
  with first_admin_call_reconfigures [OF _ h] show ?thesis by (simp add: Configure_def Interceptor_New_def)
qed

end
