(* ===== verification/Manteion_Requests.thy ===== *)
theory Manteion_Requests
  imports Control_Plane
begin

text \<open>
  The configuration of a control-plane client and the requests it sends (\<open>manteion.go\<close>, and of
  \<open>manteion_client.go\<close> the request builders and the instance id), with the URL escaping they use
  written out.
\<close>

section \<open>Escaping\<close>

text \<open>\<open>url.QueryEscape\<close> and \<open>url.PathEscape\<close>, on bytes.\<close>

definition unreserved :: "char \<Rightarrow> bool" where
  "unreserved c \<longleftrightarrow>
     (let n = (of_char c :: nat)
      in (48 \<le> n \<and> n \<le> 57) \<or> (65 \<le> n \<and> n \<le> 90) \<or> (97 \<le> n \<and> n \<le> 122) \<or> c \<in> set ''-_.~'')"

definition upper_hex :: "nat \<Rightarrow> char" where
  "upper_hex d = (if d < 10 then char_of (48 + d) else char_of (55 + d))"

definition percent :: "char \<Rightarrow> string" where
  "percent c = (let n = (of_char c :: nat) in [CHR ''%'', upper_hex (n div 16), upper_hex (n mod 16)])"

definition query_escape :: "string \<Rightarrow> string" where
  "query_escape s =
     concat (map (\<lambda>c. if unreserved c then [c] else if c = CHR '' '' then ''+'' else percent c) s)"

definition path_escape :: "string \<Rightarrow> string" where
  "path_escape s =
     concat (map (\<lambda>c. if unreserved c \<or> c \<in> set ''$&+=:@'' then [c] else percent c) s)"

section \<open>Configuration\<close>

text \<open>
  An outgoing request: method, URL and headers; bodies and contexts are left out. The function
  of \<open>WithAuthFunc\<close> is the application's; here it is what it does to one request, an error or
  the request it leaves.
\<close>

record out_request =
  oq_method :: string
  oq_url :: string
  oq_header :: labels

type_synonym auth_fn = "out_request \<Rightarrow> string + out_request"

record manteion_config =
  mf_serviceName :: string
  mf_serviceVersion :: string
  mf_address :: string
  mf_url :: string
  mf_instanceID :: string
  mf_initTimeout :: int
  mf_pollInterval :: int
  mf_offline :: bool
  mf_targets :: apply_targets
  mf_authFn :: "auth_fn option"

datatype manteion_option =
    WithManteionURL string | WithInstanceID string | WithInitTimeout int | WithPollInterval int
  | WithOfflineMode | WithApplyTargets apply_targets | WithAddress string
  | WithManteionServiceVersion string | WithAuthFunc "auth_fn option"

fun apply_manteion :: "manteion_option \<Rightarrow> manteion_config \<Rightarrow> manteion_config" where
  "apply_manteion (WithManteionURL u) c = c\<lparr>mf_url := u\<rparr>"
| "apply_manteion (WithInstanceID i) c = c\<lparr>mf_instanceID := i\<rparr>"
| "apply_manteion (WithInitTimeout d) c = c\<lparr>mf_initTimeout := d\<rparr>"
| "apply_manteion (WithPollInterval d) c = c\<lparr>mf_pollInterval := d\<rparr>"
| "apply_manteion WithOfflineMode c = c\<lparr>mf_offline := True\<rparr>"
| "apply_manteion (WithApplyTargets t) c = c\<lparr>mf_targets := t\<rparr>"
| "apply_manteion (WithAddress a) c = c\<lparr>mf_address := a\<rparr>"
| "apply_manteion (WithManteionServiceVersion v) c = c\<lparr>mf_serviceVersion := v\<rparr>"
| "apply_manteion (WithAuthFunc f) c = c\<lparr>mf_authFn := f\<rparr>"

text \<open>
  \<open>Header.Set\<close> canonicalises a key made of token characters: a capital at the start and after
  each hyphen, small letters elsewhere. Another key is kept as it is.
\<close>

definition token_char :: "char \<Rightarrow> bool" where
  "token_char c \<longleftrightarrow>
     (let n = (of_char c :: nat)
      in (48 \<le> n \<and> n \<le> 57) \<or> (65 \<le> n \<and> n \<le> 90) \<or> (97 \<le> n \<and> n \<le> 122) \<or> c \<in> set ''!#$%&*+-.^_|~'' \<or> n = 39 \<or> n = 96)"

definition to_lower :: "char \<Rightarrow> char" where
  "to_lower c = (if CHR ''A'' \<le> c \<and> c \<le> CHR ''Z'' then char_of (of_char c + 32 :: nat) else c)"

fun canon_chars :: "bool \<Rightarrow> string \<Rightarrow> string" where
  "canon_chars up [] = []"
| "canon_chars up (c # s) = (if up then to_upper c else to_lower c) # canon_chars (c = CHR ''-'') s"

definition canonical_key :: "string \<Rightarrow> string" where
  "canonical_key k = (if list_all token_char k then canon_chars True k else k)"

definition set_header :: "string \<Rightarrow> string \<Rightarrow> out_request \<Rightarrow> out_request" where
  "set_header k v r = r\<lparr>oq_header := go_store (canonical_key k) v (oq_header r)\<rparr>"

definition WithAuthHeader :: "string \<Rightarrow> string \<Rightarrow> manteion_option" where
  "WithAuthHeader name hval = WithAuthFunc (Some (\<lambda>r. Inr (set_header name hval r)))"

text \<open>
  The environment at start-up: variables (empty when unset), the host name, the random bytes
  or the time taken instead, and the addresses of the local interfaces, each with whether it is
  an IP network, whether it is a loopback address, and its IPv4 text if it has one.
\<close>

record environment =
  en_var :: "string \<Rightarrow> string"
  en_host :: string
  en_random :: "nat option"
  en_nanos :: nat
  en_addrs :: "(bool \<times> bool \<times> string option) list option"

fun first_ipv4 :: "(bool \<times> bool \<times> string option) list \<Rightarrow> string" where
  "first_ipv4 [] = []"
| "first_ipv4 ((isnet, loopback, ip4) # as) =
     (if \<not> isnet \<or> loopback then first_ipv4 as
      else case ip4 of Some ip \<Rightarrow> ip | None \<Rightarrow> first_ipv4 as)"

definition localIPv4 :: "environment \<Rightarrow> string" where
  "localIPv4 en = (case en_addrs en of None \<Rightarrow> [] | Some as \<Rightarrow> first_ipv4 as)"

text \<open>Four random bytes are eight hexadecimal digits.\<close>

definition generateInstanceID :: "environment \<Rightarrow> string" where
  "generateInstanceID en =
     (let host = (if en_host en = [] then ''unknown'' else en_host en)
      in case en_random en of
           None \<Rightarrow> host @ ''-'' @ format_hex (en_nanos en)
         | Some b \<Rightarrow> host @ ''-'' @ (let h = format_hex (b mod 2 ^ 32) in replicate (8 - length h) (CHR ''0'') @ h))"

definition no_targets :: apply_targets where
  "no_targets = \<lparr>at_evaluator = None, at_demo = None, at_cachebox = None, at_resolver = None\<rparr>"

definition defaultManteionConfig :: "environment \<Rightarrow> string \<Rightarrow> manteion_config" where
  "defaultManteionConfig en serviceName =
     (let instanceID = (let v = en_var en ''MANTEION_INSTANCE_ID'' in if v = [] then generateInstanceID en else v);
          initTimeout = (let v = en_var en ''MANTEION_INIT_TIMEOUT''
                         in if v \<noteq> [] then (case ParseDuration v of Some d \<Rightarrow> d | None \<Rightarrow> 30 * Second)
                            else 30 * Second);
          addr = (let v = en_var en ''MANTEION_ADVERTISE_ADDR'' in if v = [] then localIPv4 en else v)
      in \<lparr>mf_serviceName = serviceName, mf_serviceVersion = en_var en ''MANTEION_SERVICE_VERSION'',
          mf_address = addr, mf_url = en_var en ''MANTEION_URL'', mf_instanceID = instanceID,
          mf_initTimeout = initTimeout, mf_pollInterval = 10 * Second, mf_offline = False,
          mf_targets = no_targets, mf_authFn = None\<rparr>)"

section \<open>Requests\<close>

datatype request_error = BadURL | AuthFailed string

text \<open>\<open>url_ok\<close> says which URLs \<open>http.NewRequest\<close> accepts.\<close>

definition newReq ::
  "(string \<Rightarrow> bool) \<Rightarrow> manteion_config \<Rightarrow> string \<Rightarrow> string \<Rightarrow> request_error + out_request" where
  "newReq url_ok cfg meth url =
     (if \<not> url_ok url then Inl BadURL
      else (let r = \<lparr>oq_method = meth, oq_url = url, oq_header = []\<rparr>
            in case mf_authFn cfg of
                 None \<Rightarrow> Inr r
               | Some f \<Rightarrow> (case f r of Inl e \<Rightarrow> Inl (AuthFailed e) | Inr r' \<Rightarrow> Inr r')))"

definition init_request :: "(string \<Rightarrow> bool) \<Rightarrow> manteion_config \<Rightarrow> request_error + out_request" where
  "init_request url_ok cfg = newReq url_ok cfg ''GET'' (mf_url cfg @ ''/api/v1/sdk/init'')"

definition rules_url :: "manteion_config \<Rightarrow> nat \<Rightarrow> string" where
  "rules_url cfg version =
     mf_url cfg @ ''/api/v1/sdk/rules?'' @ ''instance_id='' @ query_escape (mf_instanceID cfg) @
     ''&service='' @ query_escape (mf_serviceName cfg) @ ''&version='' @ query_escape (format_dec version)"

definition rules_request :: "(string \<Rightarrow> bool) \<Rightarrow> manteion_config \<Rightarrow> nat \<Rightarrow> request_error + out_request" where
  "rules_request url_ok cfg version = newReq url_ok cfg ''GET'' (rules_url cfg version)"

definition events_request :: "(string \<Rightarrow> bool) \<Rightarrow> manteion_config \<Rightarrow> request_error + out_request" where
  "events_request url_ok cfg =
     and_then (newReq url_ok cfg ''GET'' (mf_url cfg @ ''/api/v1/sdk/events?service='' @ query_escape (mf_serviceName cfg)))
       (\<lambda>r. Inr (set_header ''Cache-Control'' ''no-cache'' (set_header ''Accept'' ''text/event-stream'' r)))"

definition deregister_request :: "(string \<Rightarrow> bool) \<Rightarrow> manteion_config \<Rightarrow> request_error + out_request" where
  "deregister_request url_ok cfg =
     newReq url_ok cfg ''DELETE'' (mf_url cfg @ ''/api/v1/sdk/register/'' @ path_escape (mf_instanceID cfg))"

text \<open>The request of \<open>registerWith\<close>, built without \<open>newReq\<close>.\<close>

definition register_request :: "(string \<Rightarrow> bool) \<Rightarrow> manteion_config \<Rightarrow> request_error + out_request" where
  "register_request url_ok cfg =
     (let url = mf_url cfg @ ''/api/v1/sdk/register'' in
      if \<not> url_ok url then Inl BadURL
      else Inr (set_header ''Content-Type'' ''application/json''
                  \<lparr>oq_method = ''POST'', oq_url = url, oq_header = []\<rparr>))"

section \<open>Escaped text\<close>

fun hex_value :: "char \<Rightarrow> nat" where
  "hex_value c = (let n = of_char c in if n \<le> 57 then n - 48 else n - 55)"

fun query_unescape :: "string \<Rightarrow> string" where
  "query_unescape [] = []"
| "query_unescape (c # s) =
     (if c = CHR ''%'' then
        (case s of a # b # r \<Rightarrow> char_of (16 * hex_value a + hex_value b) # query_unescape r | _ \<Rightarrow> c # query_unescape s)
      else if c = CHR ''+'' then CHR '' '' # query_unescape s
      else c # query_unescape s)"

lemma hex_value_upper: "d < 16 \<Longrightarrow> hex_value (upper_hex d) = d"
  by (auto simp: upper_hex_def of_char_of Let_def)

lemma of_char_div16: "of_char c div 16 < (16 :: nat)"
proof -
  have "(of_char c :: nat) < 256" by simp
  then show ?thesis by (simp add: div_less_iff_less_mult)
qed

lemma percent_unescape: "query_unescape (percent c @ s) = c # query_unescape s"
  using of_char_div16 [of c] by (simp add: percent_def Let_def hex_value_upper del: hex_value.simps)

lemma query_escape_Nil [simp]: "query_escape [] = []"
  by (simp add: query_escape_def)

lemma query_escape_Cons:
  "query_escape (c # s) = (if unreserved c then [c] else if c = CHR '' '' then ''+'' else percent c) @ query_escape s"
  by (simp add: query_escape_def)

lemma query_escape_inverse: "query_unescape (query_escape s) = s"
proof (induction s)
  case (Cons c s)
  have "unreserved c \<Longrightarrow> c \<noteq> CHR ''%'' \<and> c \<noteq> CHR ''+''" by (auto simp: unreserved_def)
  with Cons show ?case by (simp add: query_escape_Cons percent_unescape)
qed simp

lemma query_escape_inj: "query_escape s = query_escape t \<longleftrightarrow> s = t"
  by (metis query_escape_inverse)

lemma upper_hex_unreserved: "d < 16 \<Longrightarrow> unreserved (upper_hex d)"
  by (auto simp: unreserved_def upper_hex_def of_char_of Let_def)

lemma escape_no_amp: "CHR ''&'' \<notin> set (query_escape s)"
proof (induction s)
  case (Cons c s)
  have amp: "\<not> unreserved (CHR ''&'')" by (simp add: unreserved_def)
  have "CHR ''&'' \<notin> set (percent c)"
    using amp upper_hex_unreserved [of "of_char c div 16"] upper_hex_unreserved [of "of_char c mod 16"] of_char_div16 [of c]
    by (auto simp: percent_def Let_def)
  with Cons amp show ?case by (auto simp: query_escape_Cons)
qed simp

section \<open>Properties of the requests\<close>

text \<open>
  A poll names the client: two polls at the same base URL have the same URL only when instance
  id, service and rule version are all the same, whatever characters the names contain.
\<close>

theorem rules_url_identifies:
  assumes "mf_url cfg = mf_url cfg'"
  shows "rules_url cfg v = rules_url cfg' v' \<longleftrightarrow>
     mf_instanceID cfg = mf_instanceID cfg' \<and> mf_serviceName cfg = mf_serviceName cfg' \<and> v = v'"
proof -
  have v: "format_dec v = format_dec v' \<longleftrightarrow> v = v'"
    using format_dec_digits by (metis of_nat_eq_iff)
  show ?thesis
    using assms append_eq_sep_iff [OF escape_no_amp escape_no_amp] v
    by (simp add: rules_url_def query_escape_inj)
qed

definition shop_config :: manteion_config where
  "shop_config = \<lparr>mf_serviceName = ''shop'', mf_serviceVersion = [], mf_address = [], mf_url = ''http://m'',
     mf_instanceID = ''a&service=b'', mf_initTimeout = 30 * Second, mf_pollInterval = 10 * Second, mf_offline = False,
     mf_targets = no_targets, mf_authFn = None\<rparr>"

theorem rules_url_identifies_witness:
  "rules_url shop_config 3 \<noteq> rules_url (shop_config\<lparr>mf_instanceID := ''a'', mf_serviceName := ''b''\<rparr>) 3"
  by (subst rules_url_identifies) (simp_all add: shop_config_def)

lemma newReq_auth_header:
  assumes "mf_authFn cfg = Some (\<lambda>r. Inr (set_header name hval r))" and "newReq url_ok cfg m u = Inr r"
  shows "map_of (oq_header r) (canonical_key name) = Some hval"
  using assms by (auto simp: newReq_def set_header_def Let_def split: if_splits)

text \<open>
  Authentication. A header set by \<open>WithAuthHeader\<close> is on the request for readiness, for rules,
  for events and for leaving; the request that registers the instance does not go through
  \<open>newReq\<close> and never carries it.
\<close>

theorem auth_header_coverage:
  assumes "cfg = apply_manteion (WithAuthHeader name hval) cfg0"
    and "canonical_key name \<notin> {canonical_key ''Accept'', canonical_key ''Cache-Control''}"
    and "canonical_key name \<noteq> canonical_key ''Content-Type''"
  shows "(init_request url_ok cfg = Inr r \<or> rules_request url_ok cfg v = Inr r \<or>
          events_request url_ok cfg = Inr r \<or> deregister_request url_ok cfg = Inr r
            \<longrightarrow> map_of (oq_header r) (canonical_key name) = Some hval) \<and>
    (register_request url_ok cfg = Inr r \<longrightarrow> map_of (oq_header r) (canonical_key name) = None) \<and>
    register_request url_ok cfg = register_request url_ok cfg0"
proof -
  have f: "mf_authFn cfg = Some (\<lambda>r. Inr (set_header name hval r))" and u: "mf_url cfg = mf_url cfg0"
    using assms(1) by (simp_all add: WithAuthHeader_def)
  have "events_request url_ok cfg = Inr r \<Longrightarrow> map_of (oq_header r) (canonical_key name) = Some hval"
    using newReq_auth_header [OF f] assms(2) by (auto simp: events_request_def fallible) (simp add: set_header_def)
  moreover have "register_request url_ok cfg = Inr r \<Longrightarrow> map_of (oq_header r) (canonical_key name) = None"
    using assms(3) by (auto simp: register_request_def set_header_def Let_def split: if_splits)
  moreover have "register_request url_ok cfg = register_request url_ok cfg0"
    by (simp add: register_request_def u)
  ultimately show ?thesis
    using newReq_auth_header [OF f] by (auto simp: init_request_def rules_request_def deregister_request_def)
qed

theorem auth_header_coverage_witness:
  "\<exists>r r'. let cfg = apply_manteion (WithAuthHeader ''X'' ''tok'') shop_config in
     init_request (\<lambda>_. True) cfg = Inr r \<and> map_of (oq_header r) ''X'' = Some ''tok'' \<and>
     register_request (\<lambda>_. True) cfg = Inr r' \<and> map_of (oq_header r') ''X'' = None"
proof -
  let ?cfg = "apply_manteion (WithAuthHeader ''X'' ''tok'') shop_config"
  have x: "canonical_key ''X'' = ''X''" by code_simp
  have ne: "canonical_key ''X'' \<notin> {canonical_key ''Accept'', canonical_key ''Cache-Control''}"
    "canonical_key ''X'' \<noteq> canonical_key ''Content-Type''" by code_simp+
  obtain r where r: "init_request (\<lambda>_. True) ?cfg = Inr r"
    by (simp add: init_request_def newReq_def WithAuthHeader_def)
  obtain r' where r': "register_request (\<lambda>_. True) ?cfg = Inr r'" by (simp add: register_request_def Let_def)
  have reg: "map_of (oq_header r') (canonical_key ''X'') = None"
    using auth_header_coverage [of ?cfg "''X''" "''tok''" shop_config "\<lambda>_. True" r'] ne r' by blast
  moreover have "map_of (oq_header r) (canonical_key ''X'') = Some ''tok''"
    using auth_header_coverage [of ?cfg "''X''" "''tok''" shop_config "\<lambda>_. True" r] ne r by blast
  ultimately show ?thesis using r r' by (auto simp: x Let_def)
qed

end
