(* ===== verification/Manteion_Client.thy ===== *)
theory Manteion_Client
  imports Manteion_Requests
begin

text \<open>
  The control-plane client (\<open>ConnectManteion\<close> of \<open>manteion.go\<close>, \<open>manteion_client.go\<close>) and the health
  report (\<open>health.go\<close>). An HTTP exchange is an input: what came back, if anything. The poll loop
  is a function on its variables, the goroutines of a client are the step relation
  \<open>client_step\<close>, which interleaves polls, registrations that return and closing in any order.
\<close>

section \<open>State\<close>

datatype manteion_status = ManteionDisconnected | ManteionConnected | ManteionDegraded

record client =
  cl_cfg :: manteion_config
  cl_targets :: apply_targets
  cl_version :: nat
  cl_lastPoll :: int
  cl_status :: manteion_status

section \<open>Readiness\<close>

text \<open>
  One attempt of \<open>waitForReady\<close>: whether the request cannot be built, the time the exchange
  takes, the status of the answer if there is one, and which branch the \<open>select\<close> takes when
  the deadline and the timer fall together. The deadline is the earlier of the caller's and
  \<open>now + initTimeout\<close>.
\<close>

record attempt =
  wa_bad :: bool
  wa_time :: int
  wa_status :: "int option"
  wa_tie :: bool

datatype wait_result = ReadyAfter nat int | InitRequestError nat | NotReady nat int | StillWaiting

definition next_backoff :: "int \<Rightarrow> int" where
  "next_backoff b = min (b * 2) (5 * Second)"

fun wait_loop :: "int \<Rightarrow> int \<Rightarrow> int \<Rightarrow> nat \<Rightarrow> attempt list \<Rightarrow> wait_result" where
  "wait_loop deadline now backoff n [] = StillWaiting"
| "wait_loop deadline now backoff n (a # as) =
     (if wa_bad a then InitRequestError n
      else (let now = now + wa_time a in
        if wa_status a = Some 200 then ReadyAfter n now
        else if deadline \<le> now then NotReady n now
        else if deadline < now + backoff \<or> (deadline = now + backoff \<and> wa_tie a) then NotReady n deadline
        else wait_loop deadline (now + backoff) (next_backoff backoff) (n + 1) as))"

definition waitForReady :: "int \<Rightarrow> int \<Rightarrow> int \<Rightarrow> attempt list \<Rightarrow> wait_result" where
  "waitForReady ctx_deadline initTimeout now as =
     wait_loop (min ctx_deadline (now + initTimeout)) now (500 * Millisecond) 1 as"

section \<open>Fetching rules\<close>

text \<open>
  The exchange of a poll: the request cannot be built (\<open>FetchBuild\<close>) or gets no answer, or there
  is an answer with a body that may break off. \<open>dec\<close> decodes the text of the payload into its
  version and rules; the code reads at most 1 MiB.
\<close>

datatype fetch_exchange = FetchBuild | FetchNoAnswer | FetchAnswer int string bool

datatype fetch_error = FetchRequest | PollFailed | ReadBody | DecodePayload | NotReady503 | UnexpectedStatus int string

definition fetchRules ::
  "(string \<Rightarrow> (nat \<times> compiled_rule list) option) \<Rightarrow> fetch_exchange \<Rightarrow> client \<Rightarrow> fetch_error option \<times> client" where
  "fetchRules dec x c =
     (case x of
        FetchBuild \<Rightarrow> (Some FetchRequest, c)
      | FetchNoAnswer \<Rightarrow> (Some PollFailed, c)
      | FetchAnswer status body broken \<Rightarrow>
          (if status = 304 then (None, c)
           else if status = 200 then
             (if broken \<and> length body < 2 ^ 20 then (Some ReadBody, c)
              else (case dec (take (2 ^ 20) body) of
                      None \<Rightarrow> (Some DecodePayload, c)
                    | Some (version, rules) \<Rightarrow>
                        (case DecodeCompiledRules rules [] of
                           Inl err \<Rightarrow> (None, c)
                         | Inr srs \<Rightarrow>
                             (None, c\<lparr>cl_targets := (cl_targets c)\<lparr>at_evaluator :=
                                        map_option (SetRules srs) (at_evaluator (cl_targets c))\<rparr>,
                                      cl_version := version\<rparr>))))
           else if status = 503 then (Some NotReady503, c)
           else (Some (UnexpectedStatus status (take 512 body)), c)))"

section \<open>The poll loop\<close>

text \<open>
  The variables of \<open>pollLoopWithTrigger\<close>: the consecutive failures, the period the ticker was
  last set to, and how many goroutines were started to register again. \<open>Reset\<close> panics on a
  period that is not positive, and so does \<open>NewTicker\<close> when the loop starts.
\<close>

record poll =
  pl_client :: client
  pl_failures :: nat
  pl_ticker :: int
  pl_registers :: nat
  pl_panic :: bool

definition poll_backoff :: "int \<Rightarrow> nat \<Rightarrow> int" where
  "poll_backoff interval failures = min (wrap64 (interval * 2 ^ min failures 6)) (60 * Second)"

definition doPoll ::
  "(string \<Rightarrow> (nat \<times> compiled_rule list) option) \<Rightarrow> int \<Rightarrow> fetch_exchange \<Rightarrow> poll \<Rightarrow> poll" where
  "doPoll dec now x p =
     (let interval = mf_pollInterval (cl_cfg (pl_client p)) in
      case fetchRules dec x (pl_client p) of
        (Some err, c) \<Rightarrow>
          (let failures = pl_failures p + 1;
               backoff = poll_backoff interval failures
           in if backoff \<le> 0
              then p\<lparr>pl_client := c\<lparr>cl_status := ManteionDegraded\<rparr>, pl_failures := failures, pl_panic := True\<rparr>
              else p\<lparr>pl_client := c\<lparr>cl_status := ManteionDegraded\<rparr>, pl_failures := failures, pl_ticker := backoff,
                     pl_registers := (if failures = 6 then pl_registers p + 1 else pl_registers p)\<rparr>)
      | (None, c) \<Rightarrow>
          (let recovered = (pl_failures p > 0);
               c1 = (if recovered then c\<lparr>cl_version := 0\<rparr> else c)
           in p\<lparr>pl_client := c1\<lparr>cl_lastPoll := now, cl_status := ManteionConnected\<rparr>, pl_failures := 0,
                pl_ticker := interval,
                pl_registers := (if recovered then pl_registers p + 1 else pl_registers p)\<rparr>))"

section \<open>Connecting\<close>

definition client_register ::
  "(string \<Rightarrow> register_response option) \<Rightarrow> exchange \<Rightarrow> client \<Rightarrow> (register_error + apply_error) option \<times> client" where
  "client_register dec x c =
     (case registerWith dec x of
        Inl e \<Rightarrow> (Some (Inl e), c)
      | Inr resp \<Rightarrow>
          (let (err, t) = Apply resp (cl_targets c) in (map_option Inr err, c\<lparr>cl_targets := t\<rparr>)))"

datatype connect_error =
  NoEvaluatorTarget | ConnectWait wait_result | ConnectRegister "register_error + apply_error"

text \<open>
  What \<open>ConnectManteion\<close> meets: the deadline of its context, its clock, the attempts to reach
  the control plane, the two exchanges that follow, and the time after them.
\<close>

record connect_env =
  ce_deadline :: int
  ce_now :: int
  ce_attempts :: "attempt list"
  ce_register :: exchange
  ce_fetch :: fetch_exchange
  ce_polled :: int

text \<open>
  The result, nil without an error when there is no URL, together with the targets as they are
  afterwards, and the poll loop as its goroutine starts: the status is stored after the goroutines
  are started, which is a step of its own below. The SSE client's transport is left out.
\<close>

definition ConnectManteion ::
  "(string \<Rightarrow> register_response option) \<Rightarrow> (string \<Rightarrow> (nat \<times> compiled_rule list) option) \<Rightarrow> environment \<Rightarrow>
   connect_env \<Rightarrow> string \<Rightarrow> manteion_option list \<Rightarrow> (connect_error + poll option) \<times> apply_targets" where
  "ConnectManteion decR decF en ce serviceName opts =
     (let cfg = fold apply_manteion opts (defaultManteionConfig en serviceName) in
      if mf_offline cfg \<or> mf_url cfg = [] then (Inr None, mf_targets cfg)
      else if at_evaluator (mf_targets cfg) = None then (Inl NoEvaluatorTarget, mf_targets cfg)
      else
        (let c = \<lparr>cl_cfg = cfg, cl_targets = mf_targets cfg, cl_version = 0, cl_lastPoll = 0,
                  cl_status = ManteionDisconnected\<rparr>;
             w = waitForReady (ce_deadline ce) (mf_initTimeout cfg) (ce_now ce) (ce_attempts ce)
         in case w of
              ReadyAfter n t \<Rightarrow>
                (case client_register decR (ce_register ce) c of
                   (Some e, c1) \<Rightarrow> (Inl (ConnectRegister e), cl_targets c1)
                 | (None, c1) \<Rightarrow>
                     (let c2 = (case fetchRules decF (ce_fetch ce) c1 of
                                  (Some e, c2) \<Rightarrow> c2
                                | (None, c2) \<Rightarrow> c2\<lparr>cl_lastPoll := ce_polled ce\<rparr>)
                      in (Inr (Some \<lparr>pl_client = c2, pl_failures = 0,
                                     pl_ticker = mf_pollInterval cfg, pl_registers = 0, pl_panic = (mf_pollInterval cfg \<le> 0)\<rparr>),
                          cl_targets c2)))
            | _ \<Rightarrow> (Inl (ConnectWait w), cl_targets c)))"

section \<open>Leaving\<close>

text \<open>
  \<open>Close\<close> after it has cancelled and waited for the goroutines: one request, every failure of which
  is logged and none returned. The exchange is the status of the answer, if there is one.
\<close>

datatype close_log = BuildFailed request_error | DeregisterFailed | DeregisterStatus int

definition client_Close ::
  "(string \<Rightarrow> bool) \<Rightarrow> int option \<Rightarrow> client option \<Rightarrow> out_request option \<times> close_log list" where
  "client_Close url_ok x c =
     (case c of
        None \<Rightarrow> (None, [])
      | Some c \<Rightarrow>
          (case deregister_request url_ok (cl_cfg c) of
             Inl e \<Rightarrow> (None, [BuildFailed e])
           | Inr req \<Rightarrow>
               (Some req, (case x of
                  None \<Rightarrow> [DeregisterFailed]
                | Some status \<Rightarrow> if status sdiv 100 \<noteq> 2 then [DeregisterStatus status] else []))))"

section \<open>The running client\<close>

text \<open>
  The goroutines of a client: the poll loop, the registrations it started that have not
  returned, and the listener's trigger, a channel of capacity one. \<open>rn_connecting\<close> is
  \<open>ConnectManteion\<close> between the start of the goroutines and the store of the status, which
  is its last access to the client before it returns it; \<open>rn_closed\<close> is \<open>Close\<close> having
  cancelled the goroutines. A poll starts at a tick or takes the trigger. The answer to a
  registration may be of any age when it is applied.
\<close>

record running =
  rn_poll :: poll
  rn_pending :: nat
  rn_trigger :: bool
  rn_connecting :: bool
  rn_closed :: bool

definition after_poll :: "poll \<Rightarrow> running \<Rightarrow> running" where
  "after_poll p' r = r\<lparr>rn_poll := p', rn_pending := rn_pending r + (pl_registers p' - pl_registers (rn_poll r))\<rparr>"

definition client_Status :: "client option \<Rightarrow> manteion_status" where
  "client_Status c = (case c of None \<Rightarrow> ManteionDisconnected | Some c \<Rightarrow> cl_status c)"

datatype client_event =
  Tick int fetch_exchange | TriggeredPoll int fetch_exchange | RulesChanged
| Registered "exchange" | StatusStored | CloseCalled

inductive client_step ::
  "(string \<Rightarrow> register_response option) \<Rightarrow> (string \<Rightarrow> (nat \<times> compiled_rule list) option) \<Rightarrow>
   running \<Rightarrow> client_event \<Rightarrow> running \<Rightarrow> bool"
  for decR decF where
  tick: "\<not> pl_panic (rn_poll r) \<Longrightarrow>
     client_step decR decF r (Tick now x) (after_poll (doPoll decF now x (rn_poll r)) r)"
| triggered: "\<not> pl_panic (rn_poll r) \<Longrightarrow> rn_trigger r \<Longrightarrow>
     client_step decR decF r (TriggeredPoll now x)
       (after_poll (doPoll decF now x (rn_poll r)) (r\<lparr>rn_trigger := False\<rparr>))"
| rules_changed: "\<not> rn_closed r \<Longrightarrow> client_step decR decF r RulesChanged (r\<lparr>rn_trigger := True\<rparr>)"
| registered: "0 < rn_pending r \<Longrightarrow>
     client_step decR decF r (Registered x)
       (r\<lparr>rn_poll := (rn_poll r)\<lparr>pl_client := snd (client_register decR x (pl_client (rn_poll r)))\<rparr>,
          rn_pending := rn_pending r - 1\<rparr>)"
| stored: "rn_connecting r \<Longrightarrow>
     client_step decR decF r StatusStored
       (r\<lparr>rn_poll := (rn_poll r)\<lparr>pl_client := (pl_client (rn_poll r))\<lparr>cl_status := ManteionConnected\<rparr>\<rparr>,
          rn_connecting := False\<rparr>)"
| close: "\<not> rn_connecting r \<Longrightarrow> client_step decR decF r CloseCalled (r\<lparr>rn_closed := True\<rparr>)"

inductive client_run ::
  "(string \<Rightarrow> register_response option) \<Rightarrow> (string \<Rightarrow> (nat \<times> compiled_rule list) option) \<Rightarrow>
   running \<Rightarrow> client_event list \<Rightarrow> running \<Rightarrow> bool"
  for decR decF where
  run_nil: "client_run decR decF r [] r"
| run_cons: "client_step decR decF r e r1 \<Longrightarrow> client_run decR decF r1 es r2 \<Longrightarrow> client_run decR decF r (e # es) r2"

definition started :: "poll \<Rightarrow> running" where
  "started p = \<lparr>rn_poll = p, rn_pending = 0, rn_trigger = False, rn_connecting = True, rn_closed = False\<rparr>"

inductive_cases client_stepE: "client_step decR decF r e r'"
inductive_cases client_run_NilE: "client_run decR decF r [] r'"
inductive_cases client_run_ConsE: "client_run decR decF r (e # es) r'"

section \<open>Health\<close>

record health_status =
  hs_status :: string
  hs_version :: nat
  hs_count :: int
  hs_url :: string
  hs_lastPoll :: "int option"
  hs_stale :: "int option"

text \<open>
  \<open>hs_lastPoll\<close> is the time of the last poll if there was one; \<open>hs_stale\<close> the whole seconds since
  then, which the code renders as a duration.
\<close>

definition status_name :: "manteion_status \<Rightarrow> string" where
  "status_name s = (case s of ManteionConnected \<Rightarrow> ''connected'' | ManteionDegraded \<Rightarrow> ''degraded''
                    | ManteionDisconnected \<Rightarrow> ''disconnected'')"

definition healthFrom :: "int \<Rightarrow> client option \<Rightarrow> health_status" where
  "healthFrom now c =
     (case c of
        None \<Rightarrow> \<lparr>hs_status = ''offline'', hs_version = 0, hs_count = 0, hs_url = [], hs_lastPoll = None, hs_stale = None\<rparr>
      | Some c \<Rightarrow>
          \<lparr>hs_status = status_name (cl_status c), hs_version = cl_version c,
           hs_count = (case at_evaluator (cl_targets c) of None \<Rightarrow> 0 | Some e \<Rightarrow> int (length (Rules e))),
           hs_url = mf_url (cl_cfg c),
           hs_lastPoll = (if cl_lastPoll c \<noteq> 0 then Some (cl_lastPoll c) else None),
           hs_stale = (if cl_lastPoll c \<noteq> 0 \<and> cl_status c = ManteionDegraded
                       then Some (time_sub now (cl_lastPoll c) sdiv Second) else None)\<rparr>)"

definition Ready :: "int \<Rightarrow> client option \<Rightarrow> bool" where
  "Ready now c \<longleftrightarrow> hs_status (healthFrom now c) \<noteq> ''disconnected''"

definition HealthHandler_code :: "int \<Rightarrow> client option \<Rightarrow> int" where
  "HealthHandler_code now c = (if hs_status (healthFrom now c) = ''disconnected'' then 503 else 200)"

section \<open>Waiting for the control plane\<close>

lemma next_backoff_ge: "500 * Millisecond \<le> b \<Longrightarrow> 500 * Millisecond \<le> next_backoff b \<and> b \<le> max b (next_backoff b)"
  by (simp add: next_backoff_def Second_def Millisecond_def)

text \<open>Each further attempt costs at least half a second of what is left until the deadline.\<close>

lemma wait_loop_ends:
  "\<lbrakk> 500 * Millisecond \<le> backoff; \<forall>a \<in> set as. 0 \<le> wa_time a;
     deadline - now < int (length as) * (500 * Millisecond); as \<noteq> [] \<rbrakk>
   \<Longrightarrow> wait_loop deadline now backoff n as \<noteq> StillWaiting"
proof (induction deadline now backoff n as rule: wait_loop.induct)
  case (2 deadline now backoff n a as)
  let ?now = "now + wa_time a"
  have t: "0 \<le> wa_time a" using "2.prems"(2) by simp
  show ?case
  proof (cases "wa_bad a \<or> wa_status a = Some 200 \<or> deadline \<le> ?now \<or> deadline < ?now + backoff \<or>
      (deadline = ?now + backoff \<and> wa_tie a)")
    case False
    then have go: "\<not> wa_bad a" "wa_status a \<noteq> Some 200" "\<not> deadline \<le> ?now"
      "\<not> (deadline < ?now + backoff \<or> deadline = ?now + backoff \<and> wa_tie a)" by auto
    have "as \<noteq> []"
    proof
      assume "as = []"
      with "2.prems" t go(4) show False by auto
    qed
    moreover have "deadline - (?now + backoff) < int (length as) * (500 * Millisecond)"
      using "2.prems"(1,3) t by (simp add: algebra_simps)
    ultimately have "wait_loop deadline (?now + backoff) (next_backoff backoff) (n + 1) as \<noteq> StillWaiting"
      using "2.prems"(1,2) next_backoff_ge [OF "2.prems"(1)] by (intro "2.IH" [OF go(1) refl go(2,3,4)]) auto
    with go show ?thesis by (simp add: Let_def)
  qed (auto simp: Let_def)
qed simp

lemma wait_loop_result:
  "wait_loop deadline now backoff n as = w \<Longrightarrow> \<forall>a \<in> set as. 0 \<le> wa_time a \<Longrightarrow>
   (case w of
      ReadyAfter k t \<Rightarrow> n \<le> k \<and> k < n + length as \<and> wa_status (as ! (k - n)) = Some 200
    | InitRequestError k \<Rightarrow> n \<le> k \<and> k < n + length as \<and> wa_bad (as ! (k - n))
    | NotReady k t \<Rightarrow> n \<le> k \<and> k < n + length as \<and> deadline \<le> t \<and> (\<forall>i \<le> k - n. wa_status (as ! i) \<noteq> Some 200)
    | _ \<Rightarrow> True)"
proof (induction deadline now backoff n as rule: wait_loop.induct)
  case (2 deadline now backoff n a as)
  let ?now = "now + wa_time a"
  show ?case
  proof (cases "wa_bad a \<or> wa_status a = Some 200 \<or> deadline \<le> ?now \<or> deadline < ?now + backoff \<or>
      (deadline = ?now + backoff \<and> wa_tie a)")
    case True
    with "2.prems" show ?thesis by (auto simp: Let_def split: if_splits)
  next
    case False
    then have go: "\<not> wa_bad a" "wa_status a \<noteq> Some 200" "\<not> deadline \<le> ?now"
      "\<not> (deadline < ?now + backoff \<or> deadline = ?now + backoff \<and> wa_tie a)" by auto
    have w: "wait_loop deadline (?now + backoff) (next_backoff backoff) (n + 1) as = w"
      using "2.prems"(1) go by (simp add: Let_def)
    have ih: "case w of
      ReadyAfter k t \<Rightarrow> n + 1 \<le> k \<and> k < n + 1 + length as \<and> wa_status (as ! (k - (n + 1))) = Some 200
    | InitRequestError k \<Rightarrow> n + 1 \<le> k \<and> k < n + 1 + length as \<and> wa_bad (as ! (k - (n + 1)))
    | NotReady k t \<Rightarrow> n + 1 \<le> k \<and> k < n + 1 + length as \<and> deadline \<le> t \<and>
        (\<forall>i \<le> k - (n + 1). wa_status (as ! i) \<noteq> Some 200)
    | _ \<Rightarrow> True"
      using "2.prems"(2) by (intro "2.IH" [OF go(1) refl go(2,3,4) w]) simp
    have shift: "(a # as) ! (k - n) = as ! (k - (n + 1))" if "n + 1 \<le> k" for k
      using that by (simp add: nth_Cons split: nat.split) (metis Suc_diff_Suc Suc_le_lessD diff_Suc_1')
    have all: "\<forall>i \<le> k - n. wa_status ((a # as) ! i) \<noteq> Some 200"
      if "n + 1 \<le> k" "\<forall>i \<le> k - (n + 1). wa_status (as ! i) \<noteq> Some 200" for k
    proof (intro allI impI)
      fix i assume "i \<le> k - n"
      then show "wa_status ((a # as) ! i) \<noteq> Some 200"
        using that go(2) by (cases i) auto
    qed
    from ih shift all show ?thesis by (cases w) auto
  qed
qed auto

section \<open>Polling\<close>

lemma fetchRules_error_state: "fetchRules dec x c = (Some e, c') \<Longrightarrow> c' = c"
  by (auto simp: fetchRules_def split: fetch_exchange.splits if_splits option.splits prod.splits sum.splits)

lemma fetchRules_status: "fst (fetchRules dec x c) = fst (fetchRules dec x c0)"
  by (auto simp: fetchRules_def split: fetch_exchange.splits option.splits sum.splits)

definition fetch_fails :: "(string \<Rightarrow> (nat \<times> compiled_rule list) option) \<Rightarrow> fetch_exchange \<Rightarrow> client \<Rightarrow> bool" where
  "fetch_fails dec x c \<longleftrightarrow> fst (fetchRules dec x c) \<noteq> None"


lemma fetchRules_success:
  assumes "fetchRules dec x c = (None, c')"
  shows "c' = c \<or> (\<exists>version rules srs. DecodeCompiledRules rules [] = Inr srs \<and>
     c' = c\<lparr>cl_targets := (cl_targets c)\<lparr>at_evaluator := map_option (SetRules srs) (at_evaluator (cl_targets c))\<rparr>,
             cl_version := version\<rparr>)"
  using assms
  by (auto simp: fetchRules_def split: fetch_exchange.splits if_splits option.splits prod.splits sum.splits)

lemma fetchRules_same:
  assumes "fetchRules dec x c = (e, c')"
  shows "cl_cfg c' = cl_cfg c" and "cl_status c' = cl_status c"
    and "at_evaluator (cl_targets c') = None \<longleftrightarrow> at_evaluator (cl_targets c) = None"
  using assms fetchRules_error_state [of dec x c _ c'] fetchRules_success [of dec x c c'] by (cases e; fastforce)+

lemma Apply_evaluator_None: "at_evaluator (snd (Apply resp t)) = None \<longleftrightarrow> at_evaluator t = None"
proof -
  have "apply_rules resp t = Inr t1 \<Longrightarrow> at_evaluator t1 = None \<longleftrightarrow> at_evaluator t = None" for t1
    by (auto simp: apply_rules_def Let_def split: if_splits option.splits sum.splits)
  then show ?thesis
    by (auto simp: Apply_def split: sum.splits dest!: apply_active_other apply_freeze_other)
qed

lemma client_register_same:
  "cl_cfg (snd (client_register decR x c)) = cl_cfg c" "cl_status (snd (client_register decR x c)) = cl_status c"
  "cl_version (snd (client_register decR x c)) = cl_version c"
  "cl_lastPoll (snd (client_register decR x c)) = cl_lastPoll c"
  "at_evaluator (cl_targets (snd (client_register decR x c))) = None \<longleftrightarrow> at_evaluator (cl_targets c) = None"
  using Apply_evaluator_None by (auto simp: client_register_def split: sum.splits prod.splits) (metis snd_conv)+

text \<open>The delay before the next poll, for intervals whose multiples do not overflow.\<close>

lemma poll_backoff_eq:
  assumes "0 < interval" and "interval \<le> 2 ^ 56"
  shows "poll_backoff interval f = min (interval * 2 ^ min f 6) (60 * Second)"
proof -
  have "(2 :: int) ^ min f 6 \<le> 2 ^ 6" by (rule power_increasing) simp_all
  then have "interval * 2 ^ min f 6 \<le> 2 ^ 56 * 2 ^ 6"
    using assms by (intro mult_mono) simp_all
  then have "i64 (interval * 2 ^ min f 6)"
    using assms by (intro i64_nonneg) simp_all
  then show ?thesis by (simp add: poll_backoff_def wrap64_id)
qed

lemma poll_backoff_pos:
  assumes "0 < interval" and "interval \<le> 2 ^ 56" shows "0 < poll_backoff interval f"
  using assms by (simp add: poll_backoff_eq Second_def)

section \<open>Invariants of a running client\<close>

definition poll_inv :: "int \<Rightarrow> poll \<Rightarrow> bool" where
  "poll_inv interval p \<longleftrightarrow>
     \<not> pl_panic p \<and> mf_pollInterval (cl_cfg (pl_client p)) = interval \<and>
     pl_ticker p = (if pl_failures p = 0 then interval else poll_backoff interval (pl_failures p)) \<and>
     at_evaluator (cl_targets (pl_client p)) \<noteq> None"

lemma doPoll_inv:
  assumes "poll_inv interval p" and "0 < interval" and "interval \<le> 2 ^ 56"
  shows "poll_inv interval (doPoll dec now x p)"
proof (cases "fetchRules dec x (pl_client p)")
  case (Pair err c)
  note same = fetchRules_same [OF Pair]
  show ?thesis
  proof (cases err)
    case None
    with assms same Pair show ?thesis by (auto simp: doPoll_def poll_inv_def Let_def)
  next
    case (Some e)
    have "\<not> poll_backoff interval (pl_failures p + 1) \<le> 0" using poll_backoff_pos [OF assms(2,3)] by (simp add: not_le)
    with Some assms same Pair show ?thesis by (auto simp: doPoll_def poll_inv_def Let_def)
  qed
qed

lemma client_step_inv:
  assumes "client_step decR decF r e r'" and "poll_inv interval (rn_poll r)" and "0 < interval" and "interval \<le> 2 ^ 56"
  shows "poll_inv interval (rn_poll r')"
  using assms(1)
proof cases
  case (tick now x)
  then show ?thesis using doPoll_inv [OF assms(2-4)] by (simp add: after_poll_def)
next
  case (triggered now x)
  then show ?thesis using doPoll_inv [OF assms(2-4)] by (simp add: after_poll_def)
next
  case (registered x)
  then show ?thesis using assms(2) by (simp add: poll_inv_def client_register_same)
next
  case stored
  then show ?thesis using assms(2) by (simp add: poll_inv_def)
qed (use assms(2) in simp_all)

lemma client_run_inv:
  assumes "client_run decR decF r es r'" and "poll_inv interval (rn_poll r)" and "0 < interval" and "interval \<le> 2 ^ 56"
  shows "poll_inv interval (rn_poll r')"
  using assms(1,2) by (induction rule: client_run.induct) (auto dest: client_step_inv [OF _ _ assms(3,4)])

lemma connect_inv:
  assumes "ConnectManteion decR decF en ce service opts = (Inr (Some p), t)"
    and "0 < mf_pollInterval (cl_cfg (pl_client p))"
  shows "poll_inv (mf_pollInterval (cl_cfg (pl_client p))) p \<and> cl_status (pl_client p) = ManteionDisconnected"
proof -
  define cfg where "cfg = fold apply_manteion opts (defaultManteionConfig en service)"
  define c where "c = \<lparr>cl_cfg = cfg, cl_targets = mf_targets cfg, cl_version = 0, cl_lastPoll = 0,
                  cl_status = ManteionDisconnected\<rparr>"
  have ev: "at_evaluator (mf_targets cfg) \<noteq> None"
    using assms(1) by (auto simp: ConnectManteion_def Let_def cfg_def split: if_splits)
  obtain c1 where reg: "client_register decR (ce_register ce) c = (None, c1)"
    and p: "p = \<lparr>pl_client = (case fetchRules decF (ce_fetch ce) c1 of
                                  (Some e, c2) \<Rightarrow> c2
                                | (None, c2) \<Rightarrow> c2\<lparr>cl_lastPoll := ce_polled ce\<rparr>),
                 pl_failures = 0, pl_ticker = mf_pollInterval cfg, pl_registers = 0, pl_panic = (mf_pollInterval cfg \<le> 0)\<rparr>"
    using assms(1) by (auto simp: ConnectManteion_def Let_def cfg_def [symmetric] c_def [symmetric]
        split: if_splits wait_result.splits prod.splits option.splits)
  have c1: "cl_cfg c1 = cfg" "at_evaluator (cl_targets c1) \<noteq> None" "cl_status c1 = ManteionDisconnected"
    using client_register_same [of decR "ce_register ce" c] reg ev by (simp_all add: c_def)
  obtain err c2 where f: "fetchRules decF (ce_fetch ce) c1 = (err, c2)" by (metis surj_pair)
  from fetchRules_same [OF f] c1 p f assms(2) show ?thesis
    by (auto simp: poll_inv_def split: option.splits)
qed

text \<open>The status: what the last poll found, unless \<open>ConnectManteion\<close> has stored its own since.\<close>

definition poll_status :: "poll \<Rightarrow> manteion_status" where
  "poll_status p = (if pl_failures p = 0 then ManteionConnected else ManteionDegraded)"

fun is_poll :: "client_event \<Rightarrow> bool" where
  "is_poll (Tick now x) = True"
| "is_poll (TriggeredPoll now x) = True"
| "is_poll _ = False"

abbreviation run_status :: "running \<Rightarrow> manteion_status" where
  "run_status r \<equiv> cl_status (pl_client (rn_poll r))"

lemma doPoll_status: "cl_status (pl_client (doPoll dec now x p)) = poll_status (doPoll dec now x p)"
  by (simp add: doPoll_def poll_status_def Let_def split: prod.split option.split)

lemma client_step_status:
  assumes "client_step decR decF r e r'"
  shows "is_poll e \<Longrightarrow> run_status r' = poll_status (rn_poll r')"
    and "\<not> is_poll e \<Longrightarrow> pl_failures (rn_poll r') = pl_failures (rn_poll r)"
    and "\<not> is_poll e \<Longrightarrow> e \<noteq> StatusStored \<Longrightarrow> run_status r' = run_status r"
    and "e = StatusStored \<Longrightarrow> run_status r' = ManteionConnected"
  using assms by (cases; simp add: after_poll_def doPoll_status client_register_same)+

lemma status_without_store:
  "client_run decR decF r es r' \<Longrightarrow> StatusStored \<notin> set es \<Longrightarrow>
   run_status r' = (if list_ex is_poll es then poll_status (rn_poll r') else run_status r) \<and>
   (list_ex is_poll es \<or> pl_failures (rn_poll r') = pl_failures (rn_poll r))"
proof (induction rule: client_run.induct)
  case (run_cons r e r1 es r2)
  then have "StatusStored \<notin> set es" "e \<noteq> StatusStored" by auto
  with run_cons.IH client_step_status [OF run_cons.hyps(1)] show ?case
    by (cases "is_poll e") (auto simp: poll_status_def)
qed simp

lemma client_run_append:
  "client_run decR decF r (es @ es') r' \<longleftrightarrow> (\<exists>r1. client_run decR decF r es r1 \<and> client_run decR decF r1 es' r')"
proof (induction es arbitrary: r)
  case Nil
  show ?case by (auto intro: run_nil elim: client_run_NilE)
next
  case (Cons e es)
  then show ?case by (auto elim!: client_run_ConsE) (blast intro: run_cons)+
qed

lemma client_step_connecting:
  "client_step decR decF r e r' \<Longrightarrow> rn_connecting r' = (rn_connecting r \<and> e \<noteq> StatusStored) \<and> (e = StatusStored \<longrightarrow> rn_connecting r)"
  by (cases rule: client_step.cases) (auto simp: after_poll_def)

lemma stored_once: "client_run decR decF r es r' \<Longrightarrow> \<not> rn_connecting r \<Longrightarrow> StatusStored \<notin> set es \<and> \<not> rn_connecting r'"
  by (induction rule: client_run.induct) (auto dest: client_step_connecting)

lemma status_after_store:
  assumes "client_run decR decF r (es @ StatusStored # es') r'"
  shows "run_status r' = (if list_ex is_poll es' then poll_status (rn_poll r') else ManteionConnected)"
proof -
  from assms obtain r1 r2 where r: "client_step decR decF r1 StatusStored r2" "client_run decR decF r2 es' r'"
    by (auto simp: client_run_append elim: client_run_ConsE)
  have "\<not> rn_connecting r2" using client_step_connecting [OF r(1)] by simp
  with status_without_store [OF r(2)] stored_once [OF r(2)] client_step_status(4) [OF r(1)] show ?thesis by auto
qed

section \<open>Properties of the client\<close>

text \<open>
  C12. The state of a client in every interleaving of polls, triggers, registrations, closing and the
  end of \<open>ConnectManteion\<close>, for a poll interval of up to two years: nothing panics, and the ticker has
  the interval or the backoff of the failures so far. The status is disconnected until the first poll
  is over or \<open>ConnectManteion\<close> stores its own; that store says connected whatever the polls since the
  start of the loop have found, and only from the first poll after it on is the status connected
  exactly while the last poll succeeded and degraded otherwise.
\<close>

theorem client_invariant:
  assumes "ConnectManteion decR decF en ce service opts = (Inr (Some p), t)"
    and "interval = mf_pollInterval (cl_cfg (pl_client p))" and "0 < interval" and "interval \<le> 2 ^ 56"
    and "client_run decR decF (started p) es r"
  shows "let status = cl_status (pl_client (rn_poll r)); failures = pl_failures (rn_poll r);
       polled = (if failures = 0 then ManteionConnected else ManteionDegraded)
     in \<not> pl_panic (rn_poll r) \<and>
        (StatusStored \<notin> set es \<longrightarrow> status = (if list_ex is_poll es then polled else ManteionDisconnected)) \<and>
        (\<forall>es1 es2. es = es1 @ StatusStored # es2 \<longrightarrow>
           status = (if list_ex is_poll es2 then polled else ManteionConnected)) \<and>
        pl_ticker (rn_poll r) =
          (if failures = 0 then interval else min (interval * 2 ^ min failures 6) (60 * Second)) \<and>
        at_evaluator (cl_targets (pl_client (rn_poll r))) \<noteq> None"
proof -
  have p: "poll_inv interval p" "cl_status (pl_client p) = ManteionDisconnected"
    using connect_inv [OF assms(1)] assms(2,3) by simp_all
  then have inv: "poll_inv interval (rn_poll r)"
    using client_run_inv [OF assms(5) _ assms(3,4)] by (simp add: started_def)
  have "StatusStored \<notin> set es \<Longrightarrow> run_status r = (if list_ex is_poll es then poll_status (rn_poll r) else ManteionDisconnected)"
    using status_without_store [OF assms(5)] p(2) by (simp add: started_def)
  moreover have "es = es1 @ StatusStored # es2 \<Longrightarrow>
      run_status r = (if list_ex is_poll es2 then poll_status (rn_poll r) else ManteionConnected)" for es1 es2
    using status_after_store assms(5) by blast
  ultimately show ?thesis using inv poll_backoff_eq [OF assms(3,4)] by (simp add: Let_def poll_inv_def poll_status_def)
qed

definition up_env :: connect_env where
  "up_env = \<lparr>ce_deadline = 100 * Second, ce_now = 0,
     ce_attempts = [\<lparr>wa_bad = False, wa_time = 1, wa_status = Some 200, wa_tie = False\<rparr>],
     ce_register = Response 201 ''{}'', ce_fetch = FetchNoAnswer, ce_polled = 5\<rparr>"

definition quiet_env :: environment where
  "quiet_env = \<lparr>en_var = (\<lambda>_. []), en_host = ''h'', en_random = Some 0, en_nanos = 0, en_addrs = None\<rparr>"

definition empty_response :: register_response where
  "empty_response = \<lparr>rg_status = ''ok'', rg_rules = [], rg_active = None, rg_freeze = None\<rparr>"

definition up_opts :: "manteion_option list" where
  "up_opts = [WithManteionURL ''http://m'', WithApplyTargets bare_targets]"

lemma up_connect:
  "\<exists>p. ConnectManteion (\<lambda>_. Some empty_response) (\<lambda>_. None) quiet_env up_env ''shop'' up_opts = (Inr (Some p), bare_targets) \<and>
     mf_pollInterval (cl_cfg (pl_client p)) = 10 * Second \<and> cl_lastPoll (pl_client p) = 0 \<and> pl_registers p = 0"
  by (simp add: ConnectManteion_def up_opts_def defaultManteionConfig_def quiet_env_def up_env_def
      Let_def waitForReady_def client_register_def registerWith_def empty_response_def Apply_def apply_rules_def
      apply_active_def apply_freeze_def fetchRules_def bare_targets_def)


text \<open>A first poll that fails before the status is stored: the client is connected with one failure.\<close>

theorem client_invariant_witness:
  "\<exists>p r. client_run (\<lambda>_. Some empty_response) (\<lambda>_. None) (started p) [Tick 7 FetchNoAnswer, StatusStored] r \<and>
     cl_status (pl_client (rn_poll r)) = ManteionConnected \<and> pl_failures (rn_poll r) = 1 \<and> pl_ticker (rn_poll r) = 20 * Second"
proof -
  let ?R = "\<lambda>_. Some empty_response" and ?F = "\<lambda>_. None"
  from up_connect obtain p
    where up: "ConnectManteion ?R ?F quiet_env up_env ''shop'' up_opts = (Inr (Some p), bare_targets)"
      and iv: "mf_pollInterval (cl_cfg (pl_client p)) = 10 * Second" by blast
  have inv: "poll_inv (10 * Second) p" using connect_inv [OF up] iv by (simp add: Second_def)
  have z: "pl_failures p = 0" using up
    by (auto simp: ConnectManteion_def Let_def split: if_splits wait_result.splits prod.splits option.splits)
  let ?r1 = "after_poll (doPoll ?F 7 FetchNoAnswer p) (started p)"
  have "client_step ?R ?F (started p) (Tick 7 FetchNoAnswer) ?r1"
    using client_step.tick [of "started p" ?R ?F 7 FetchNoAnswer] inv by (simp add: started_def poll_inv_def)
  moreover obtain r where s: "client_step ?R ?F ?r1 StatusStored r" "pl_failures (rn_poll r) = pl_failures (rn_poll ?r1)"
    using client_step.stored [of ?r1 ?R ?F] by (simp add: after_poll_def started_def)
  ultimately have run: "client_run ?R ?F (started p) [Tick 7 FetchNoAnswer, StatusStored] r"
    by (blast intro: run_cons run_nil)
  have "pl_failures (rn_poll r) = 1"
    using s(2) z inv by (simp add: after_poll_def doPoll_def fetchRules_def poll_inv_def Let_def)
  moreover note client_invariant [OF up refl _ _ run]
  then have "\<forall>es1 es2. [Tick 7 FetchNoAnswer, StatusStored] = es1 @ StatusStored # es2 \<longrightarrow>
      run_status r = (if list_ex is_poll es2 then poll_status (rn_poll r) else ManteionConnected)"
    "pl_ticker (rn_poll r) = (if pl_failures (rn_poll r) = 0 then 10 * Second
       else min (10 * Second * 2 ^ min (pl_failures (rn_poll r)) 6) (60 * Second))"
    using iv by (simp_all add: Second_def Let_def poll_status_def)
  from this(1) [rule_format, of "[Tick 7 FetchNoAnswer]" "[]"] this(2) run calculation show ?thesis
    by (intro exI [of _ p] exI [of _ r]) (simp add: Second_def)
qed

text \<open>
  A client that \<open>ConnectManteion\<close> returned is always ready: from the store of the status on, before
  which nobody else has the client, and also while there is none, the status is never
  \<open>disconnected\<close>, \<open>Ready\<close> holds and the health endpoint answers 200; the state that the documentation says should turn traffic away does not occur.
\<close>

theorem always_ready:
  assumes "ConnectManteion decR decF en ce service opts = (Inr (Some p), t)"
    and "client_run decR decF (started p) es r" and "StatusStored \<in> set es"
    and "c = None \<or> c = Some (pl_client (rn_poll r))"
  shows "hs_status (healthFrom now c) \<in> {''offline'', ''connected'', ''degraded''} \<and> Ready now c \<and>
     HealthHandler_code now c = 200"
proof -
  from assms(3) obtain es1 es2 where "es = es1 @ StatusStored # es2" by (auto dest: split_list)
  then have "run_status r \<in> {ManteionConnected, ManteionDegraded}"
    using status_after_store assms(2) by (auto simp: poll_status_def)
  then show ?thesis using assms(4)
    by (auto simp: healthFrom_def Ready_def HealthHandler_code_def status_name_def)
qed

theorem always_ready_witness:
  "\<exists>p r. ConnectManteion (\<lambda>_. Some empty_response) (\<lambda>_. None) quiet_env up_env ''shop'' up_opts = (Inr (Some p), bare_targets) \<and>
     client_run (\<lambda>_. Some empty_response) (\<lambda>_. None) (started p) [StatusStored] r \<and>
     cl_lastPoll (pl_client (rn_poll r)) = 0 \<and> Ready 9 (Some (pl_client (rn_poll r))) \<and> Ready 9 None"
proof -
  let ?R = "\<lambda>_. Some empty_response" and ?F = "\<lambda>_. None"
  from up_connect obtain p
    where up: "ConnectManteion ?R ?F quiet_env up_env ''shop'' up_opts = (Inr (Some p), bare_targets)"
      and z: "cl_lastPoll (pl_client p) = 0" by blast
  obtain r where s: "client_step ?R ?F (started p) StatusStored r" "cl_lastPoll (pl_client (rn_poll r)) = 0"
    using client_step.stored [of "started p" ?R ?F] z by (simp add: started_def)
  have run: "client_run ?R ?F (started p) [StatusStored] r" by (rule run_cons [OF s(1) run_nil])
  note ready = always_ready [OF up run]
  from ready [of "Some (pl_client (rn_poll r))" 9] ready [of None 9]
  have "Ready 9 (Some (pl_client (rn_poll r)))" "Ready 9 None" by simp_all
  with up s(2) run show ?thesis by blast
qed

text \<open>
  The backoff. It never exceeds a minute, grows with the failures, doubling while it is below
  the cap and the failures are at most six; and an interval longer than a minute is cut: a
  client that polls less often than once a minute polls more often while polls fail.
\<close>

theorem poll_backoff_bounds:
  assumes "0 < interval" and "interval \<le> 2 ^ 56" and "0 < f"
  shows "0 < poll_backoff interval f \<and> poll_backoff interval f \<le> 60 * Second \<and>
    (f \<le> g \<longrightarrow> poll_backoff interval f \<le> poll_backoff interval g) \<and>
    (f < 6 \<and> poll_backoff interval f * 2 \<le> 60 * Second \<longrightarrow> poll_backoff interval (f + 1) = poll_backoff interval f * 2) \<and>
    (interval \<le> poll_backoff interval f \<longleftrightarrow> interval \<le> 60 * Second)"
proof (intro conjI impI)
  note bo = poll_backoff_eq [OF assms(1,2)]
  show "0 < poll_backoff interval f" by (rule poll_backoff_pos [OF assms(1,2)])
  show "poll_backoff interval f \<le> 60 * Second" by (simp add: bo)
  show "poll_backoff interval f \<le> poll_backoff interval g" if "f \<le> g"
  proof -
    have "(2 :: int) ^ min f 6 \<le> 2 ^ min g 6" using that by (intro power_increasing) simp_all
    then have "interval * 2 ^ min f 6 \<le> interval * 2 ^ min g 6" using assms(1) by (intro mult_left_mono) simp_all
    then show ?thesis by (simp add: bo)
  qed
  show "poll_backoff interval (f + 1) = poll_backoff interval f * 2"
    if "f < 6 \<and> poll_backoff interval f * 2 \<le> 60 * Second"
  proof -
    have "min (f + 1) 6 = Suc (min f 6)" using that by simp
    then have "interval * 2 ^ min (f + 1) 6 = interval * 2 ^ min f 6 * 2" by simp
    with that show ?thesis by (simp add: bo min_def Second_def split: if_splits)
  qed
  have "interval * 1 \<le> interval * 2 ^ min f 6" using assms(1) by (intro mult_left_mono) simp_all
  then show "interval \<le> poll_backoff interval f \<longleftrightarrow> interval \<le> 60 * Second" by (auto simp: bo)
qed

theorem poll_backoff_bounds_witness:
  "poll_backoff (10 * Second) 1 \<le> poll_backoff (10 * Second) 3 \<and> \<not> 300 * Second \<le> poll_backoff (300 * Second) 1"
  using poll_backoff_bounds [of "10 * Second" 1 3] poll_backoff_bounds [of "300 * Second" 1 1]
  by (simp add: Second_def)










lemma network_rule_undecodable:
  assumes "cr \<in> set rules" and "cr_fault cr = Some cf" and "cf_category cf = ''network''"
  shows "\<exists>e. DecodeCompiledRules rules [] = Inl e"
proof (cases "DecodeCompiledRules rules []")
  case (Inr srs)
  with assms(1) obtain sr where "DecodeCompiledRule cr [] = Inr sr"
    by (auto simp: DecodeCompiledRules_Inr list_all2_conv_all_nth in_set_conv_nth)
       (metis assms(1) in_set_conv_nth length_by_priority set_by_priority)
  with assms(2,3) show ?thesis
    by (auto simp: DecodeCompiledRule_Inr decodeFault_def buildDecodeConfig_def)
qed blast

text \<open>
  C14. A poll never installs a rule set that contains a network fault. The poll decodes without the
  resolver of the targets, so the whole set is refused, the rules and the version stay, and the
  poll still counts as a success; registering with the same set installs it.
\<close>

theorem poll_never_installs_network:
  assumes "dec (take (2 ^ 20) body) = Some (version, rules)" and "\<not> broken"
    and "cr \<in> set rules" and "cr_fault cr = Some cf" and "cf_category cf = ''network''"
  shows "doPoll dec now (FetchAnswer 200 body broken) p =
     p\<lparr>pl_client := (pl_client p)\<lparr>cl_version := (if pl_failures p > 0 then 0 else cl_version (pl_client p)),
                        cl_lastPoll := now, cl_status := ManteionConnected\<rparr>,
       pl_failures := 0, pl_ticker := mf_pollInterval (cl_cfg (pl_client p)),
       pl_registers := pl_registers p + (if pl_failures p > 0 then 1 else 0)\<rparr>"
proof -
  obtain e where "DecodeCompiledRules rules [] = Inl e"
    using network_rule_undecodable [OF assms(3-5)] by blast
  with assms(1,2) have "fetchRules dec (FetchAnswer 200 body broken) (pl_client p) = (None, pl_client p)"
    by (simp add: fetchRules_def)
  then show ?thesis by (simp add: doPoll_def Let_def)
qed

definition throttle_rule :: compiled_rule where
  "throttle_rule = (tagged_rule ''slow-db'' 0)\<lparr>cr_mode := ''background'',
     cr_fault := Some \<lparr>cf_category = ''network'', cf_type = ''blackhole'', cf_config = Some (JObj [(''target'', JStr ''db'')]),
                       cf_duration_ms = 1000, cf_ramp_up_ms = 0, cf_ramp_down_ms = 0\<rparr>\<rparr>"

theorem poll_never_installs_network_witness:
  "(\<exists>srs. DecodeCompiledRules [throttle_rule] [Some (\<lambda>t. Inr (''l'', t))] = Inr srs) \<and>
   (\<forall>p. cl_targets (pl_client (doPoll (\<lambda>_. Some (1, [throttle_rule])) 5 (FetchAnswer 200 [] False) p)) =
     cl_targets (pl_client p))"
proof
  show "\<exists>srs. DecodeCompiledRules [throttle_rule] [Some (\<lambda>t. Inr (''l'', t))] = Inr srs"
    by (simp add: DecodeCompiledRules_def by_priority_def throttle_rule_def tagged_rule_def DecodeCompiledRule_def
        decodeFault_def buildDecodeConfig_def decodeNetworkFault_def config_field_def str_field_def str_conv_def
        float_field_def json_field_def field_values_def to_upper_def decodeNetworkToxic_def Let_def)
  show "\<forall>p. cl_targets (pl_client (doPoll (\<lambda>_. Some (1, [throttle_rule])) 5 (FetchAnswer 200 [] False) p)) =
     cl_targets (pl_client p)"
    using poll_never_installs_network [of "\<lambda>_. Some (1, [throttle_rule])" "[]" 1 "[throttle_rule]" False throttle_rule]
    by (simp add: throttle_rule_def)
qed

fun unchanged_poll :: "client_event \<Rightarrow> bool" where
  "unchanged_poll (Tick now (FetchAnswer status body broken)) \<longleftrightarrow> status = 304"
| "unchanged_poll (TriggeredPoll now (FetchAnswer status body broken)) \<longleftrightarrow> status = 304"
| "unchanged_poll RulesChanged \<longleftrightarrow> True"
| "unchanged_poll _ \<longleftrightarrow> False"

lemma unchanged_step:
  assumes "client_step decR decF r e r'" and "unchanged_poll e" and "pl_failures (rn_poll r) = 0"
  shows "pl_failures (rn_poll r') = 0 \<and> cl_targets (pl_client (rn_poll r')) = cl_targets (pl_client (rn_poll r)) \<and>
     cl_version (pl_client (rn_poll r')) = cl_version (pl_client (rn_poll r))"
  using assms(1)
proof cases
  case (tick now x)
  with assms(2,3) show ?thesis by (cases x) (simp_all add: doPoll_def after_poll_def fetchRules_def Let_def)
next
  case (triggered now x)
  with assms(2,3) show ?thesis by (cases x) (simp_all add: doPoll_def after_poll_def fetchRules_def Let_def)
qed (use assms in simp_all)

lemma unchanged_run:
  assumes "client_run decR decF r es r'" and "list_all unchanged_poll es" and "pl_failures (rn_poll r) = 0"
  shows "cl_targets (pl_client (rn_poll r')) = cl_targets (pl_client (rn_poll r)) \<and>
     cl_version (pl_client (rn_poll r')) = cl_version (pl_client (rn_poll r))"
  using assms by (induction rule: client_run.induct) (auto dest: unchanged_step)

text \<open>
  C15. A registration that returns late overwrites newer rules. Its rules are installed whatever the
  version of the rules in place, the version is kept, and as long as the control plane answers
  that nothing has changed since that version, the older rules stay.
\<close>

theorem late_registration_wins:
  assumes "client_step decR decF r (Registered x) r1" and "pl_failures (rn_poll r) = 0"
    and "registerWith decR x = Inr resp" and "rg_rules resp \<noteq> []"
    and "DecodeCompiledRules (rg_rules resp) (case at_resolver (cl_targets (pl_client (rn_poll r))) of None \<Rightarrow> [] | Some f \<Rightarrow> [Some f]) = Inr srs"
    and "at_evaluator (cl_targets (pl_client (rn_poll r))) = Some e"
    and "client_run decR decF r1 es r2" and "list_all unchanged_poll es"
  shows "at_evaluator (cl_targets (pl_client (rn_poll r2))) = Some (SetRules srs e) \<and>
     cl_version (pl_client (rn_poll r2)) = cl_version (pl_client (rn_poll r))"
proof -
  let ?c = "pl_client (rn_poll r)"
  from assms(1) have r1: "pl_client (rn_poll r1) = snd (client_register decR x ?c)" "pl_failures (rn_poll r1) = 0"
    using assms(2) by (auto elim: client_stepE)
  have "apply_rules resp (cl_targets ?c) = Inr ((cl_targets ?c)\<lparr>at_evaluator := Some (SetRules srs e)\<rparr>)"
    using assms(4-6) by (simp add: apply_rules_def)
  then have "at_evaluator (snd (Apply resp (cl_targets ?c))) = Some (SetRules srs e)"
    by (auto simp: Apply_def split: sum.splits dest!: apply_active_other apply_freeze_other)
  then have "at_evaluator (cl_targets (pl_client (rn_poll r1))) = Some (SetRules srs e)"
    using r1(1) assms(3) by (simp add: client_register_def split: prod.splits)
  moreover have "cl_version (pl_client (rn_poll r1)) = cl_version ?c" using r1(1) client_register_same(3) by simp
  ultimately show ?thesis using unchanged_run [OF assms(7,8) r1(2)] by simp
qed

definition old_response :: register_response where
  "old_response = empty_response\<lparr>rg_rules := [tagged_rule ''old'' 0]\<rparr>"

theorem late_registration_wins_witness:
  "\<exists>r r2 srs. cl_version (pl_client (rn_poll r)) = 8 \<and>
     client_run (\<lambda>_. Some old_response) (\<lambda>_. None) r [Registered (Response 201 []), Tick 4 (FetchAnswer 304 [] False)] r2 \<and>
     DecodeCompiledRules (rg_rules old_response) [] = Inr srs \<and>
     at_evaluator (cl_targets (pl_client (rn_poll r2))) = Some (SetRules srs two_rules) \<and>
     cl_version (pl_client (rn_poll r2)) = 8"
proof -
  let ?R = "\<lambda>_. Some old_response" and ?F = "\<lambda>_. None"
  define c where "c = \<lparr>cl_cfg = shop_config, cl_targets = bare_targets\<lparr>at_evaluator := Some two_rules\<rparr>, cl_version = 8,
                       cl_lastPoll = 3, cl_status = ManteionConnected\<rparr>"
  define p where "p = \<lparr>pl_client = c, pl_failures = 0, pl_ticker = 10 * Second, pl_registers = 1, pl_panic = False\<rparr>"
  define r where "r = \<lparr>rn_poll = p, rn_pending = 1, rn_trigger = False, rn_connecting = False, rn_closed = False\<rparr>"
  obtain srs where srs: "DecodeCompiledRules (rg_rules old_response) [] = Inr srs"
    by (simp add: old_response_def DecodeCompiledRules_def by_priority_def tagged_rule_def DecodeCompiledRule_def)
  obtain r1 where s1: "client_step ?R ?F r (Registered (Response 201 [])) r1" and np: "\<not> pl_panic (rn_poll r1)"
    using client_step.registered [of r ?R ?F "Response 201 []"] by (auto simp: r_def p_def)
  then obtain r2 where s2: "client_step ?R ?F r1 (Tick 4 (FetchAnswer 304 [] False)) r2"
    using client_step.tick by blast
  then have run: "client_run ?R ?F r1 [Tick 4 (FetchAnswer 304 [] False)] r2" by (rule run_cons [OF _ run_nil])
  have "at_evaluator (cl_targets (pl_client (rn_poll r2))) = Some (SetRules srs two_rules) \<and>
      cl_version (pl_client (rn_poll r2)) = cl_version (pl_client (rn_poll r))"
    by (rule late_registration_wins [OF s1 _ _ _ _ _ run, where resp = old_response])
       (use srs in \<open>simp_all add: r_def p_def c_def registerWith_def old_response_def bare_targets_def\<close>)
  moreover have "client_run ?R ?F r [Registered (Response 201 []), Tick 4 (FetchAnswer 304 [] False)] r2"
    by (rule run_cons [OF s1 run])
  ultimately show ?thesis using srs by (intro exI [of _ r] exI [of _ r2] exI [of _ srs]) (simp add: r_def p_def c_def)
qed

text \<open>
  C32. Waiting for the control plane ends. With more attempts on offer than half seconds until the
  deadline, \<open>waitForReady\<close> returns: ready at the first answer 200, or not ready, no earlier than
  the deadline and without having been answered 200, or with an error at an attempt whose request
  cannot be built.
\<close>

theorem waitForReady_returns:
  assumes "\<forall>a \<in> set as. 0 \<le> wa_time a" and "as \<noteq> []"
    and "min ctx_deadline (now + timeout) - now < int (length as) * (500 * Millisecond)"
  shows "waitForReady ctx_deadline timeout now as \<noteq> StillWaiting \<and>
    (\<forall>k t. waitForReady ctx_deadline timeout now as = ReadyAfter k t \<longrightarrow>
       1 \<le> k \<and> k \<le> length as \<and> wa_status (as ! (k - 1)) = Some 200) \<and>
    (\<forall>k. waitForReady ctx_deadline timeout now as = InitRequestError k \<longrightarrow>
       1 \<le> k \<and> k \<le> length as \<and> wa_bad (as ! (k - 1))) \<and>
    (\<forall>k t. waitForReady ctx_deadline timeout now as = NotReady k t \<longrightarrow>
       1 \<le> k \<and> k \<le> length as \<and> min ctx_deadline (now + timeout) \<le> t \<and> (\<forall>i < k. wa_status (as ! i) \<noteq> Some 200))"
proof -
  let ?w = "waitForReady ctx_deadline timeout now as"
  have "?w \<noteq> StillWaiting"
    unfolding waitForReady_def by (rule wait_loop_ends) (use assms in auto)
  moreover have "wait_loop (min ctx_deadline (now + timeout)) now (500 * Millisecond) 1 as = ?w"
    by (simp add: waitForReady_def)
  note wait_loop_result [OF this assms(1)]
  ultimately show ?thesis by (auto split: wait_result.splits)
qed

definition refused :: attempt where
  "refused = \<lparr>wa_bad = False, wa_time = 0, wa_status = Some 503, wa_tie = False\<rparr>"

theorem waitForReady_returns_witness:
  "waitForReady (2 ^ 62) Second 0 (replicate 3 refused) \<noteq> StillWaiting"
  using waitForReady_returns [of "replicate 3 refused" "2 ^ 62" 0 Second]
  by (simp add: refused_def Second_def Millisecond_def)

text \<open>
  Connecting. Without a URL or in offline mode nothing is contacted and there is no client and
  no error; without an evaluator it fails; otherwise a client is returned exactly when the
  control plane became ready and the registration was answered and applied, whether or not the
  first rules could be fetched; when they could not, its poll loop starts with version 0 and no poll
  so far. The status is stored after that.
\<close>

theorem connect_outcome:
  assumes "cfg = fold apply_manteion opts (defaultManteionConfig en service)"
    and "ConnectManteion decR decF en ce service opts = (res, t)"
  shows "(res = Inr None \<longleftrightarrow> mf_offline cfg \<or> mf_url cfg = []) \<and>
    (res = Inl NoEvaluatorTarget \<longleftrightarrow> \<not> (mf_offline cfg \<or> mf_url cfg = []) \<and> at_evaluator (mf_targets cfg) = None) \<and>
    ((\<exists>p. res = Inr (Some p)) \<longleftrightarrow> \<not> (mf_offline cfg \<or> mf_url cfg = []) \<and> at_evaluator (mf_targets cfg) \<noteq> None \<and>
       (\<exists>k now resp. waitForReady (ce_deadline ce) (mf_initTimeout cfg) (ce_now ce) (ce_attempts ce) = ReadyAfter k now \<and>
          registerWith decR (ce_register ce) = Inr resp \<and> fst (Apply resp (mf_targets cfg)) = None)) \<and>
    (\<forall>p. res = Inr (Some p) \<and> fetch_fails decF (ce_fetch ce) (pl_client p) \<longrightarrow>
       cl_status (pl_client p) = ManteionDisconnected \<and> cl_version (pl_client p) = 0 \<and> cl_lastPoll (pl_client p) = 0)"
proof -
  let ?c = "\<lparr>cl_cfg = cfg, cl_targets = mf_targets cfg, cl_version = 0, cl_lastPoll = 0, cl_status = ManteionDisconnected\<rparr>"
  show ?thesis
  proof (cases "mf_offline cfg \<or> mf_url cfg = [] \<or> at_evaluator (mf_targets cfg) = None")
    case True
    then have "res = (if mf_offline cfg \<or> mf_url cfg = [] then Inr None else Inl NoEvaluatorTarget)"
      using assms(2) by (auto simp: ConnectManteion_def Let_def assms(1) [symmetric] split: if_splits)
    with True show ?thesis by auto
  next
    case False
    show ?thesis
    proof (cases "\<exists>k now. waitForReady (ce_deadline ce) (mf_initTimeout cfg) (ce_now ce) (ce_attempts ce) = ReadyAfter k now")
      case ready: True
      obtain err c1 where reg: "client_register decR (ce_register ce) ?c = (err, c1)" by (metis surj_pair)
      obtain e2 c2 where f: "fetchRules decF (ce_fetch ce) c1 = (e2, c2)" by (metis surj_pair)
      have same: "cl_version c1 = 0" "cl_lastPoll c1 = 0" "cl_status c1 = ManteionDisconnected"
        using client_register_same(2-4) [of decR "ce_register ce" ?c] reg by simp_all
      have reg_ok: "err = None \<longleftrightarrow> (\<exists>resp. registerWith decR (ce_register ce) = Inr resp \<and> fst (Apply resp (mf_targets cfg)) = None)"
        using reg by (auto simp: client_register_def split: sum.splits prod.splits)
      have fails: "fetch_fails decF (ce_fetch ce) c0 \<longleftrightarrow> e2 \<noteq> None" for c0
        using f fetchRules_status [of decF "ce_fetch ce" c0 c1] by (simp add: fetch_fails_def)
      have "e2 = Some e \<Longrightarrow> c2 = c1" for e using f fetchRules_error_state by simp
      with False ready reg f same reg_ok fails assms(2) show ?thesis
        by (cases err; cases e2) (auto simp: ConnectManteion_def Let_def assms(1) [symmetric])
    next
      case False
      with \<open>\<not> (mf_offline cfg \<or> mf_url cfg = [] \<or> at_evaluator (mf_targets cfg) = None)\<close> assms(2) show ?thesis
        by (auto simp: ConnectManteion_def Let_def assms(1) [symmetric] split: wait_result.splits)
    qed
  qed
qed

theorem connect_outcome_witness:
  "\<exists>p t. ConnectManteion (\<lambda>_. Some empty_response) (\<lambda>_. None) quiet_env up_env ''shop'' up_opts = (Inr (Some p), t) \<and>
     cl_status (pl_client p) = ManteionDisconnected \<and> cl_lastPoll (pl_client p) = 0"
proof -
  obtain p t where c: "ConnectManteion (\<lambda>_. Some empty_response) (\<lambda>_. None) quiet_env up_env ''shop'' up_opts = (Inr (Some p), t)"
    using up_connect by blast
  have "fetch_fails (\<lambda>_. None) (ce_fetch up_env) (pl_client p)" by (simp add: fetch_fails_def fetchRules_def up_env_def)
  with connect_outcome [OF refl c] c show ?thesis by blast
qed

end
