(* ===== verification/Event_Stream.thy ===== *)
theory Event_Stream
  imports Go_Text
begin

text \<open>
  The server-sent events of the control plane (\<open>sseStream\<close> and \<open>listenSSE\<close> of
  \<open>manteion_client.go\<close>): the loop over the lines of a stream and the loop that connects again.
\<close>

text \<open>The scanner of a stream has a buffer of at most 1 MiB.\<close>

definition max_token :: nat where
  "max_token = 2 ^ 20"

section \<open>Events\<close>

text \<open>
  The loop of \<open>sseStream\<close> over the lines: the current event name and the number of times the
  poll is triggered.
\<close>

fun sse_loop :: "string \<Rightarrow> nat \<Rightarrow> string list \<Rightarrow> nat" where
  "sse_loop event n [] = n"
| "sse_loop event n (line # ls) =
     (if line = [] then sse_loop [] (if event = ''rules_changed'' then n + 1 else n) ls
      else if prefix '':'' line then sse_loop event n ls
      else if prefix ''event:'' line then sse_loop (TrimSpace (drop 6 line)) n ls
      else sse_loop event n ls)"

text \<open>
  \<open>sseStream\<close>: the request cannot be made (\<open>None\<close>), or an answer with its status, its bytes and
  whether the stream breaks off. The result is the triggers and whether there was an error.
\<close>

definition sseStream :: "(int \<times> string \<times> bool) option \<Rightarrow> nat \<times> bool" where
  "sseStream x =
     (case x of
        None \<Rightarrow> (0, True)
      | Some (status, bytes, broken) \<Rightarrow>
          if status \<noteq> 200 then (0, True)
          else (let (ls, too_long) = scan_lines max_token bytes in (sse_loop [] 0 ls, too_long \<or> broken)))"

text \<open>
  \<open>listenSSE\<close>: one stream after another until the context is done, which is looked at before
  and after each; the log line is written for the first error since the last clean end.
\<close>

fun listen_loop :: "bool \<Rightarrow> ((int \<times> string \<times> bool) option \<times> bool) list \<Rightarrow> nat \<times> bool list" where
  "listen_loop firstFailure [] = (0, [])"
| "listen_loop firstFailure ((x, ended) # xs) =
     (let (n, err) = sseStream x in
      if ended then (n, [])
      else (let (m, logs) = listen_loop (if err \<and> firstFailure then False else if \<not> err then True else firstFailure) xs
            in (n + m, (err \<and> firstFailure) # logs)))"

section \<open>Which events trigger a poll\<close>

text \<open>The blocks of a stream of lines: what stands before each blank line.\<close>

fun blocks :: "string list \<Rightarrow> string list \<Rightarrow> string list list" where
  "blocks acc [] = []"
| "blocks acc (l # ls) = (if l = [] then acc # blocks [] ls else blocks (acc @ [l]) ls)"

definition event_lines :: "string list \<Rightarrow> string list" where
  "event_lines b = filter (prefix ''event:'') b"

definition announces :: "string list \<Rightarrow> bool" where
  "announces b \<longleftrightarrow> event_lines b \<noteq> [] \<and> TrimSpace (drop 6 (last (event_lines b))) = ''rules_changed''"

definition block_event :: "string list \<Rightarrow> string" where
  "block_event b = (if event_lines b = [] then [] else TrimSpace (drop 6 (last (event_lines b))))"

lemma block_event_snoc:
  "block_event (b @ [l]) = (if prefix ''event:'' l then TrimSpace (drop 6 l) else block_event b)"
  by (simp add: block_event_def event_lines_def)

lemma sse_loop_blocks:
  "sse_loop (block_event acc) n ls = n + length (filter announces (blocks acc ls))"
proof (induction ls arbitrary: acc n)
  case (Cons l ls)
  have colon: "\<not> prefix ''event:'' l" if "prefix '':'' l" using that by (cases l) auto
  have ann: "block_event acc = ''rules_changed'' \<longleftrightarrow> announces acc" by (simp add: block_event_def announces_def)
  have nil: "block_event [] = []" by (simp add: block_event_def event_lines_def)
  show ?case
  proof (cases "l = []")
    case True
    with Cons.IH [of "[]"] show ?thesis by (simp add: ann nil)
  next
    case False
    then have "sse_loop (block_event acc) n (l # ls) = sse_loop (block_event (acc @ [l])) n ls"
      using colon by (auto simp: block_event_snoc)
    with False Cons.IH [of "acc @ [l]" n] show ?thesis by simp
  qed
qed simp

text \<open>
  The listener triggers a poll once for every block of lines closed by a blank line whose last
  \<open>event:\<close> line, trimmed, names \<open>rules_changed\<close>; comments, data lines, other events and an
  unfinished block at the end do not count.
\<close>

theorem sse_triggers:
  "sseStream (Some (200, bytes, broken)) =
     (length (filter announces (blocks [] (fst (scan_lines max_token bytes)))), snd (scan_lines max_token bytes) \<or> broken)"
proof -
  obtain ls err where s: "scan_lines max_token bytes = (ls, err)" by (metis surj_pair)
  have "block_event [] = []" by (simp add: block_event_def event_lines_def)
  with sse_loop_blocks [of "[]" 0 ls] s show ?thesis by (simp add: sseStream_def)
qed

end
