(* ===== verification/Request_Metrics.thy ===== *)
theory Request_Metrics
  imports Cachebox_Dispatch Float_Arith
begin

text \<open>
  The metrics of \<open>metrics.go\<close> and the package-level \<open>IngressMiddleware\<close> and \<open>EgressTransport\<close> of
  \<open>middleware.go\<close>, which record them around the interceptor's. The metrics are a log of what is
  observed and counted; the tracing wrapper between the two hands the calls and the answer through.
\<close>

section \<open>Metrics\<close>

datatype metric =
    ServerDuration | ServerRequests | ClientDuration | ClientRequests | CacheHits | CacheMisses | CacheRecords

datatype metric_op = Observe metric "string list" float64 | Inc metric "string list"

type_synonym metrics = "metric_op list"

text \<open>The value of a counter, over all its labels.\<close>

definition counter :: "metric \<Rightarrow> metrics \<Rightarrow> nat" where
  "counter m ml = length (filter (\<lambda>x. case x of Inc n _ \<Rightarrow> n = m | _ \<Rightarrow> False) ml)"

text \<open>\<open>d.Seconds()\<close>\<close>

definition Seconds :: "int \<Rightarrow> float64" where
  "Seconds d =
     (let sec = d sdiv Second; nsec = d smod Second
      in flt_add (flt_of_int sec) (flt_div (flt_of_int nsec) (Fin 1000000000)))"

section \<open>The status recorder\<close>

datatype writer_op = WriteHeader int | WriteBytes string | Flush

text \<open>\<open>sr_forwarded\<close> are the calls the wrapped writer gets.\<close>

record status_recorder =
  sr_statusCode :: int
  sr_written :: bool
  sr_forwarded :: "writer_op list"

definition new_recorder :: status_recorder where
  "new_recorder = \<lparr>sr_statusCode = 200, sr_written = False, sr_forwarded = []\<rparr>"

definition forward_op :: "writer_op \<Rightarrow> status_recorder \<Rightarrow> status_recorder" where
  "forward_op x s = s\<lparr>sr_forwarded := sr_forwarded s @ [x]\<rparr>"

fun recorder_op :: "bool \<Rightarrow> writer_op \<Rightarrow> status_recorder \<Rightarrow> status_recorder" where
  "recorder_op flusher (WriteHeader code) s =
     forward_op (WriteHeader code)
       (if \<not> sr_written s then s\<lparr>sr_statusCode := code, sr_written := True\<rparr> else s)"
| "recorder_op flusher (WriteBytes b) s =
     forward_op (WriteBytes b)
       (if \<not> sr_written s then s\<lparr>sr_statusCode := 200, sr_written := True\<rparr> else s)"
| "recorder_op flusher Flush s = (if flusher then forward_op Flush s else s)"

definition record_ops :: "bool \<Rightarrow> writer_op list \<Rightarrow> status_recorder" where
  "record_ops flusher ops = fold (recorder_op flusher) ops new_recorder"

text \<open>
  What the server's own writer makes of the calls: the status it puts on the wire. Informational
  headers other than 101 are sent on their own and the first final header stays; a write or a
  flush without one implies 200, and so does the end of the handler.
\<close>

fun wire_status :: "writer_op list \<Rightarrow> int" where
  "wire_status [] = 200"
| "wire_status (WriteHeader code # ops) =
     (if 100 \<le> code \<and> code \<le> 199 \<and> code \<noteq> 101 then wire_status ops else code)"
| "wire_status (WriteBytes b # ops) = 200"
| "wire_status (Flush # ops) = 200"

section \<open>The middleware\<close>

text \<open>
  The handler of \<open>IngressMiddleware\<close>: the calls the wrapped handler makes, whether it panics, which skips
  the metrics, and the time it takes.
\<close>

definition ingress_metrics :: "string \<Rightarrow> string \<Rightarrow> bool \<Rightarrow> writer_op list \<Rightarrow> bool \<Rightarrow> int \<Rightarrow> metrics \<Rightarrow> metrics" where
  "ingress_metrics serviceName reqMethod flusher ops panics elapsed ml =
     (if panics then ml
      else (let rec = record_ops flusher ops;
                duration = Seconds elapsed;
                status = format_int (sr_statusCode rec)
            in ml @ [Observe ServerDuration [reqMethod, status, serviceName] duration,
                      Inc ServerRequests [reqMethod, status, serviceName]]))"

text \<open>\<open>http.Header.Get\<close> on a canonical key.\<close>

definition header_get :: "string \<Rightarrow> header option \<Rightarrow> string" where
  "header_get k h = (case h of None \<Rightarrow> [] | Some h \<Rightarrow> (case map_of h k of Some (v # _) \<Rightarrow> v | _ \<Rightarrow> []))"

definition cache_metrics :: "http_response \<Rightarrow> metrics" where
  "cache_metrics resp =
     (if header_get headerCacheMode (rp_header resp) \<noteq> [] then [Inc CacheHits []]
      else if header_get headerCacheKey (rp_header resp) \<noteq> [] then [Inc CacheRecords []]
      else [])"

text \<open>\<open>urlHost\<close> is \<open>r.URL.Host\<close>; a panic below skips the metrics.\<close>

definition egress_metrics :: "string \<Rightarrow> egress_request \<Rightarrow> http_result \<Rightarrow> int \<Rightarrow> metrics \<Rightarrow> metrics" where
  "egress_metrics urlHost r res elapsed ml =
     (case res of
        HPanic \<Rightarrow> ml
      | _ \<Rightarrow>
          (let duration = Seconds elapsed;
               resp = (case res of HResp resp \<Rightarrow> Some resp | _ \<Rightarrow> None);
               status = (case resp of None \<Rightarrow> ''error'' | Some resp \<Rightarrow> format_int (rp_status resp));
               target = (if urlHost = [] then hr_host r else urlHost)
           in ml @ [Observe ClientDuration [hr_method r, status, target] duration,
                     Inc ClientRequests [hr_method r, status, target]] @
              (case resp of None \<Rightarrow> [] | Some resp \<Rightarrow> cache_metrics resp)))"

section \<open>The recorded status\<close>

lemma recorder_done:
  "sr_written s \<Longrightarrow> sr_statusCode (fold (recorder_op flusher) ops s) = sr_statusCode s"
proof (induction ops arbitrary: s)
  case (Cons x ops)
  then show ?case by (cases x) (auto simp: forward_op_def)
qed simp

lemma record_ops_forwarded:
  "sr_forwarded (fold (recorder_op flusher) ops s) = sr_forwarded s @ filter (\<lambda>x. flusher \<or> x \<noteq> Flush) ops"
proof (induction ops arbitrary: s)
  case (Cons x ops)
  then show ?case by (cases x) (auto simp: forward_op_def)
qed simp

fun first_status :: "writer_op list \<Rightarrow> int" where
  "first_status [] = 200"
| "first_status (WriteHeader code # ops) = code"
| "first_status (WriteBytes b # ops) = 200"
| "first_status (Flush # ops) = first_status ops"

lemma record_ops_status: "sr_statusCode (record_ops flusher ops) = first_status ops"
proof -
  have "sr_statusCode (fold (recorder_op flusher) ops s) = first_status ops"
    if "\<not> sr_written s" "sr_statusCode s = 200" for s
    using that
  proof (induction ops arbitrary: s rule: first_status.induct)
    case (4 ops)
    then show ?case by (cases flusher) (simp_all add: forward_op_def)
  qed (simp_all add: forward_op_def recorder_done)
  then show ?thesis by (simp add: record_ops_def new_recorder_def)
qed

definition informational :: "int \<Rightarrow> bool" where
  "informational c \<longleftrightarrow> 100 \<le> c \<and> c \<le> 199 \<and> c \<noteq> 101"

text \<open>The first call decides: the two statuses agree unless it is informational or a flush.\<close>

definition plain_start :: "writer_op list \<Rightarrow> bool" where
  "plain_start ops = (case ops of WriteHeader c # _ \<Rightarrow> \<not> informational c | Flush # _ \<Rightarrow> False | _ \<Rightarrow> True)"

lemma status_plain: "plain_start ops \<Longrightarrow> first_status ops = wire_status ops"
  by (cases ops rule: wire_status.cases) (auto simp: plain_start_def informational_def)

section \<open>Counters\<close>

lemma counter_simps [simp]:
  "counter m [] = 0" "counter m (xs @ ys) = counter m xs + counter m ys"
  "counter m (Inc n l # xs) = (if n = m then 1 else 0) + counter m xs"
  "counter m (Observe n l v # xs) = counter m xs"
  by (simp_all add: counter_def)

lemma counter_cache:
  "counter CacheHits (cache_metrics resp) + counter CacheRecords (cache_metrics resp) \<le> 1"
  "counter CacheMisses (cache_metrics resp) = 0" "counter ClientRequests (cache_metrics resp) = 0"
  by (simp_all add: cache_metrics_def)

text \<open>A sequence of calls of the transport.\<close>

fun egress_calls :: "(string \<times> egress_request \<times> http_result \<times> int) list \<Rightarrow> metrics \<Rightarrow> metrics" where
  "egress_calls [] ml = ml"
| "egress_calls ((urlHost, r, res, elapsed) # calls) ml = egress_calls calls (egress_metrics urlHost r res elapsed ml)"

lemma egress_metrics_counts:
  "counter ClientRequests (egress_metrics u r res e ml) = counter ClientRequests ml + (if res = HPanic then 0 else 1)"
  "counter CacheMisses (egress_metrics u r res e ml) = counter CacheMisses ml"
  "counter CacheHits (egress_metrics u r res e ml) + counter CacheRecords (egress_metrics u r res e ml) \<le>
     counter CacheHits ml + counter CacheRecords ml + (case res of HResp _ \<Rightarrow> 1 | _ \<Rightarrow> 0)"
  using counter_cache by (auto simp: egress_metrics_def Let_def split: http_result.splits)

section \<open>The cache box\<close>

lemma header_get_set [simp]:
  "header_get k (Some (header_set k' v h)) = (if k = k' then v else header_get k (Some h))"
proof -
  have "map_of (filter (\<lambda>p. fst p \<noteq> k') h) k = map_of h k" if "k \<noteq> k'"
    using that by (induction h) auto
  then show ?thesis by (auto simp: header_get_def header_set_def)
qed

lemma header_names [simp]:
  "headerCacheMode \<noteq> headerCacheKey" "headerCacheKey \<noteq> headerCacheMode" "headerCacheMode \<noteq> headerCacheLatencyUs"
  "headerCacheKey \<noteq> headerCacheLatencyUs"
  by (simp_all add: headerCacheMode_def headerCacheKey_def headerCacheLatencyUs_def)

lemma header_get_tagged:
  "header_get headerCacheMode (Some (tagged key us h)) = header_get headerCacheMode (Some h)"
  "header_get headerCacheKey (Some (tagged key us h)) = key"
  by (simp_all add: tagged_def)

lemma passthrough_tag:
  assumes "cacheBoxPassthrough env r base key b s st = (HResp resp', st')" and cap: "small_cap (cb_max_body (bw_box st))"
  obtains resp where "base r = Inr (Some resp)" "rp_body resp' = rp_body resp"
    "if int (length (bd_content (rp_body resp))) \<le> cb_max_body (bw_box st)
     then (\<exists>h. rp_header resp = Some h \<and> rp_header resp' = Some (tagged key (be_observed env) h))
     else rp_header resp' = rp_header resp"
proof -
  from assms(1) obtain resp where base: "base r = Inr (Some resp)"
    by (auto simp: cacheBoxPassthrough_def Let_def split: sum.splits option.splits)
  let ?m = "cb_max_body (bw_box st)"
  obtain p failed rest where rd: "read_limited (?m + 1) (rp_body resp) = (p, failed, rest)" by (metis prod_cases3)
  note S = small_capD [OF cap]
  have pos: "\<not> ?m + 1 < 0" "\<not> max_alloc < ?m + 1" using S(2,3) by simp_all
  have nf: "\<not> failed" using assms(1) base rd S(1) pos by (auto simp: cacheBoxPassthrough_def Let_def)
  have over: "?m < int (length p) \<longleftrightarrow> ?m < int (length (bd_content (rp_body resp)))"
    using read_limited_over(1) [OF rd S(2)] .
  show ?thesis
  proof (cases "?m < int (length p)")
    case True
    then have "resp' = resp"
      using assms(1) base rd S(1) pos nf multi_reader_read [OF rd]
      by (simp add: cacheBoxPassthrough_def Let_def)
    with that base over True show ?thesis by auto
  next
    case False
    then have le: "int (length p) \<le> ?m" by simp
    note F = read_limited_fits [OF rd nf le S(2)]
    from assms(1) base rd S(1) pos nf le obtain h where "rp_header resp = Some h"
      "resp' = resp\<lparr>rp_body := bytes_body p, rp_header := Some (tagged key (be_observed env) h)\<rparr>"
      by (auto simp: cacheBoxPassthrough_def Let_def tagged_def split: option.splits)
    with that base F(2) over False show ?thesis by auto
  qed
qed

text \<open>A downstream service that does not use these headers.\<close>

definition clean_base :: "round_tripper \<Rightarrow> bool" where
  "clean_base base \<longleftrightarrow> (\<forall>r resp. base r = Inr (Some resp) \<longrightarrow>
     header_get headerCacheMode (rp_header resp) = [] \<and> header_get headerCacheKey (rp_header resp) = [])"

definition cache_ops :: "http_result \<Rightarrow> metrics" where
  "cache_ops res = (case res of HResp resp \<Rightarrow> cache_metrics resp | _ \<Rightarrow> [])"

lemma passthrough_metrics:
  assumes run: "cacheBoxPassthrough env r base key b s st = (res, st')" and cap: "small_cap (cb_max_body (bw_box st))"
    and clean: "clean_base base" and key: "key \<noteq> []"
  shows "cache_ops res =
     (case res of HResp resp \<Rightarrow> if int (length (bd_content (rp_body resp))) \<le> cb_max_body (bw_box st)
                               then [Inc CacheRecords []] else [] | _ \<Rightarrow> [])"
proof (cases res)
  case (HResp resp')
  from run [unfolded HResp] cap obtain resp where base: "base r = Inr (Some resp)" and b: "rp_body resp' = rp_body resp"
    and h: "if int (length (bd_content (rp_body resp))) \<le> cb_max_body (bw_box st)
     then (\<exists>h. rp_header resp = Some h \<and> rp_header resp' = Some (tagged key (be_observed env) h))
     else rp_header resp' = rp_header resp" by (rule passthrough_tag)
  have c: "header_get headerCacheMode (rp_header resp) = []" "header_get headerCacheKey (rp_header resp) = []"
    using clean base by (auto simp: clean_base_def)
  show ?thesis
  proof (cases "int (length (bd_content (rp_body resp))) \<le> cb_max_body (bw_box st)")
    case True
    with h obtain h0 where h0: "rp_header resp = Some h0" "rp_header resp' = Some (tagged key (be_observed env) h0)" by auto
    then have "header_get headerCacheMode (rp_header resp') = []" "header_get headerCacheKey (rp_header resp') = key"
      using c h0(1) by (simp_all add: header_get_tagged)
    with key True b HResp show ?thesis by (simp add: cache_ops_def cache_metrics_def)
  next
    case False
    with h c b HResp show ?thesis by (simp add: cache_ops_def cache_metrics_def)
  qed
qed (simp_all add: cache_ops_def)

lemma served_metrics:
  assumes "action = CacheBoxReplay \<or> action = CacheBoxReplayDelay"
  shows "cache_ops (HResp (fst (cacheBoxServe env e key action delay s st))) = [Inc CacheHits []]"
  using assms by (auto simp: cacheBoxServe_def Let_def cache_ops_def cache_metrics_def action_String_def)

lemma lookup_sent: "lookup_state now key st = (e, st') \<Longrightarrow> bw_sent st' = bw_sent st \<and> cb_max_body (bw_box st') = cb_max_body (bw_box st)"
  by (auto simp: lookup_state_def Lookup_def split_beta Let_def)

lemma box_action_metrics:
  assumes run: "box_action env r base action key b s st = (res, st')" and cap: "small_cap (cb_max_body (bw_box st))"
    and clean: "clean_base base" and key: "key \<noteq> []" and act: "action \<in> {CacheBoxPassthrough, CacheBoxReplay, CacheBoxReplayDelay}"
  shows "cache_ops res =
     (case res of
        HResp resp \<Rightarrow>
          if bw_sent st' = bw_sent st then [Inc CacheHits []]
          else if int (length (bd_content (rp_body resp))) \<le> cb_max_body (bw_box st) then [Inc CacheRecords []] else []
      | _ \<Rightarrow> [])"
proof -
  have pass: ?thesis if "cacheBoxPassthrough env r base key b s st1 = (res, st')" "bw_sent st1 = bw_sent st"
    "cb_max_body (bw_box st1) = cb_max_body (bw_box st)" for st1
  proof -
    have "bw_sent st' = bw_sent st @ [r]" using passthrough_sent(1) [of env r base key b s st1] that by simp
    with passthrough_metrics [OF that(1) _ clean key] cap that(3) show ?thesis by (auto split: http_result.splits)
  qed
  have miss: ?thesis
    if "cacheBoxPassthrough env r base key b s (box_log x st1) = (res, st')" "lookup_state (be_now env) key st = (e, st1)" for x st1 e
    using pass [OF that(1)] lookup_sent [OF that(2)] by simp
  obtain e st1 where lk: "lookup_state (be_now env) key st = (e, st1)" by fastforce
  note L = lookup_sent [OF lk]
  show ?thesis
  proof (cases "action = CacheBoxPassthrough")
    case True
    with run pass [of st] show ?thesis by (simp add: box_action_def)
  next
    case False
    with act have re: "action = CacheBoxReplay \<or> action = CacheBoxReplayDelay" by auto
    show ?thesis
    proof (cases e)
      case None
      have "cacheBoxPassthrough env r base key b s (box_log (SpanEvent s EventCacheBoxMiss [(AttrCacheBoxKey, key)]) st1) = (res, st')"
        using run re lk None by (auto simp: box_action_def Let_def)
      from miss [OF this lk] show ?thesis .
    next
      case (Some en)
      have "(res = HErr ContextError) \<or> (\<exists>delay st2. res = HResp (fst (cacheBoxServe env en key action delay s st2)) \<and>
          st' = snd (cacheBoxServe env en key action delay s st2) \<and> bw_sent st2 = bw_sent st)"
        using run re lk Some L by (auto simp: box_action_def Let_def split_beta split: if_splits) (metis | force)+
      then show ?thesis
      proof
        assume "res = HErr ContextError"
        then show ?thesis by (simp add: cache_ops_def)
      next
        assume "\<exists>delay st2. res = HResp (fst (cacheBoxServe env en key action delay s st2)) \<and>
          st' = snd (cacheBoxServe env en key action delay s st2) \<and> bw_sent st2 = bw_sent st"
        then obtain delay st2 where x: "res = HResp (fst (cacheBoxServe env en key action delay s st2))"
          "st' = snd (cacheBoxServe env en key action delay s st2)" "bw_sent st2 = bw_sent st" by blast
        have "bw_sent st' = bw_sent st" using x(2,3) by (simp add: cacheBoxServe_def Let_def)
        with served_metrics [OF re] x(1) show ?thesis by simp
      qed
    qed
  qed
qed

section \<open>Properties\<close>

text \<open>
  The status the server metrics carry is the one on the wire when the handler's first call is
  neither an informational header nor a flush, and the recorder hands every call through.
\<close>

theorem recorded_status_exact:
  assumes "plain_start ops"
  shows "sr_statusCode (record_ops True ops) = wire_status ops \<and> sr_forwarded (record_ops True ops) = ops"
  using record_ops_status [of True ops] record_ops_forwarded [of True ops new_recorder] status_plain [OF assms]
  by (simp add: record_ops_def new_recorder_def)

theorem recorded_status_exact_witness:
  "sr_statusCode (record_ops True [WriteBytes ''ok'', WriteHeader 500]) = 200"
  using recorded_status_exact [of "[WriteBytes ''ok'', WriteHeader 500]"] by (simp add: plain_start_def)

text \<open>
  Otherwise they differ: after an informational header the metrics carry that header's status whatever the
  handler answers, and after a flush, which sends 200, that of a later header that is not sent.
\<close>

theorem recorded_status_wrong:
  assumes "informational c"
  shows "sr_statusCode (record_ops True (WriteHeader c # ops)) = c \<and> wire_status (WriteHeader c # ops) = wire_status ops \<and>
     sr_statusCode (record_ops True (Flush # WriteHeader d # ops)) = d \<and> wire_status (Flush # WriteHeader d # ops) = 200"
  using assms by (simp add: record_ops_status informational_def)

theorem recorded_status_wrong_witness:
  "sr_statusCode (record_ops True [WriteHeader 103, WriteHeader 404]) = 103 \<and> wire_status [WriteHeader 103, WriteHeader 404] = 404"
  using recorded_status_wrong [of 103 "[WriteHeader 404]"] by (simp add: informational_def)

text \<open>
  Over any sequence of calls the counters stay consistent: each call that returns counts once, hits and
  records together at most once for each response, and misses never.
\<close>

theorem egress_counters:
  "let ml = egress_calls calls [] in
     counter ClientRequests ml = length (filter (\<lambda>(_, _, res, _). res \<noteq> HPanic) calls) \<and>
     counter CacheHits ml + counter CacheRecords ml \<le> length (filter (\<lambda>(_, _, res, _). case res of HResp _ \<Rightarrow> True | _ \<Rightarrow> False) calls) \<and>
     counter CacheMisses ml = 0"
proof -
  have "counter ClientRequests (egress_calls calls ml) =
      counter ClientRequests ml + length (filter (\<lambda>(_, _, res, _). res \<noteq> HPanic) calls) \<and>
     counter CacheHits (egress_calls calls ml) + counter CacheRecords (egress_calls calls ml) \<le>
      counter CacheHits ml + counter CacheRecords ml +
      length (filter (\<lambda>(_, _, res, _). case res of HResp _ \<Rightarrow> True | _ \<Rightarrow> False) calls) \<and>
     counter CacheMisses (egress_calls calls ml) = counter CacheMisses ml" for ml
  proof (induction calls arbitrary: ml)
    case (Cons c calls)
    obtain u r res e where c: "c = (u, r, res, e)" by (metis prod_cases4)
    from Cons.IH [of "egress_metrics u r res e ml"] egress_metrics_counts [of u r res e ml] c
    show ?case by (cases res) auto
  qed simp
  from this [of "[]"] show ?thesis by (simp add: Let_def)
qed

text \<open>
  The cache counters follow what the cache box did, when the downstream service does not use the
  cache box's headers: one hit when the response was served from the store, one record when it was
  forwarded and its body fits the cap, nothing for an oversize body or an error.
\<close>

theorem cache_metrics_exact:
  assumes "handleCacheBox env r base req d st = (res, st')" and "small_cap (cb_max_body (bw_box st))" and "clean_base base"
    and "box_key (bw_box st) r \<noteq> []" and "d_cachebox d \<in> {CacheBoxPassthrough, CacheBoxReplay, CacheBoxReplayDelay}"
  shows "cache_ops res =
     (case res of
        HResp resp \<Rightarrow>
          if bw_sent st' = bw_sent st then [Inc CacheHits []]
          else if int (length (bd_content (rp_body resp))) \<le> cb_max_body (bw_box st) then [Inc CacheRecords []] else []
      | _ \<Rightarrow> [])"
proof -
  obtain s st3 st4 where st3: "bw_box st3 = bw_box st" "bw_sent st3 = bw_sent st"
    and act: "box_action env (forwarded (bw_box st) r) base (d_cachebox d)
       (box_key (bw_box st) r) (fst (captured_body (bw_box st) r)) s st3 = (res, st4)"
    and st': "st' = box_log (SpanEnd s) st4"
    by (rule handleCacheBoxE [OF assms(1)])
  have "small_cap (cb_max_body (bw_box st3))" using assms(2) st3(1) by simp
  from box_action_metrics [OF act this assms(3,4,5)] show ?thesis unfolding st' box_log_fields st3 .
qed

theorem cache_metrics_exact_witness:
  "\<exists>resp. fst (handleCacheBox sample_env (sample_get ''a=1'') (\<lambda>_. Inr (Some sample_response)) sample_request
      (sample_decision CacheBoxPassthrough) sample_world) = HResp resp \<and>
     cache_ops (HResp resp) \<in> {[Inc CacheHits []], [Inc CacheRecords []]}"
proof -
  obtain res st where run: "handleCacheBox sample_env (sample_get ''a=1'') (\<lambda>_. Inr (Some sample_response)) sample_request
      (sample_decision CacheBoxPassthrough) sample_world = (res, st)" by fastforce
  have small: "int (length (bd_content (rp_body sample_response))) \<le> cb_max_body (bw_box sample_world)"
    by (simp add: sample_response_def bytes_body_def sample_world_def CacheBox_New_def sample_cfg_def Let_def)
  have pass: "d_cachebox (sample_decision CacheBoxPassthrough) = CacheBoxPassthrough" by (simp add: sample_decision_def)
  have res: "res = HResp (sample_response\<lparr>rp_header := Some (tagged (box_key (bw_box sample_world) (sample_get ''a=1''))
      (be_observed sample_env) [])\<rparr>)"
    by (rule passthrough_settled(1) [OF sample_world_ready(1) pass _ sample_world_ready(2) small _ _ run])
      (simp_all add: sample_response_def bytes_body_def)
  have clean: "clean_base (\<lambda>_. Inr (Some sample_response))"
    by (simp add: clean_base_def sample_response_def header_get_def)
  have key: "box_key (bw_box sample_world) (sample_get ''a=1'') \<noteq> []"
    by (simp add: box_key_def sample_world_def CacheBox_New_def sample_cfg_def Let_def KeyFuncFor_def KeyStrategyExact_def
        exactKey_append key_view_def sample_get_def)
  from cache_metrics_exact [OF run sample_world_ready(2) clean key] run res small show ?thesis
    by (simp add: sample_decision_def)
qed

text \<open>
  A response whose downstream service answered from its own cache box counts as a hit of this
  one, although no rule matched and the request was forwarded.
\<close>

theorem foreign_hit_counted:
  assumes "it_eval i \<lparr>er_point = Egress, er_labels = extractHTTPLabels (http_request.truncate r)\<rparr> = None"
    and "base r = Inr (Some resp)" and "header_get headerCacheMode (rp_header resp) \<noteq> []"
  shows "\<exists>res st'. EgressTransport i os early env base r st = (([CallNext], res), st') \<and> bw_sent st' = bw_sent st @ [r] \<and>
     counter CacheHits (egress_metrics u r res e ml) = counter CacheHits ml + 1"
  using assms by (simp add: EgressTransport_def Let_def egress_metrics_def cache_metrics_def)

theorem foreign_hit_counted_witness:
  "\<exists>res. counter CacheHits (egress_metrics [] (sample_get []) res 7 []) = 1"
proof -
  let ?resp = "sample_response\<lparr>rp_header := Some [(headerCacheMode, [''replay''])]\<rparr>"
  have e: "it_eval (Interceptor_New None []) \<lparr>er_point = Egress, er_labels = extractHTTPLabels (http_request.truncate (sample_get []))\<rparr> = None"
    by (simp add: Interceptor_New_def noopEval_def)
  have h: "header_get headerCacheMode (rp_header ?resp) \<noteq> []" by (simp add: header_get_def)
  from foreign_hit_counted [OF e _ h, of "\<lambda>_. Inr (Some ?resp)" "\<lambda>_. None" False sample_env sample_world "[]" 7 "[]"]
  show ?thesis by auto
qed

end
