(* ===== verification/Bootstrap.thy ===== *)
theory Bootstrap
  imports Interceptor Go_Stdlib
begin

text \<open>
  Setting up the library: the options (\<open>options.go\<close>), the configuration file (\<open>config_file.go\<close>) and
  \<open>Init\<close> (\<open>init.go\<close>), the package-level spans (\<open>span.go\<close>) and the span of the tracing back end
  (\<open>internal/trace/trace.go\<close>). What OpenTelemetry and the YAML package answer, the files and the
  environment are inputs; what the code sets globally is a log.
\<close>

section \<open>Options\<close>

text \<open>A sampler or a provider of the application is known by a number.\<close>

datatype sampler = AlwaysSample | NeverSample | TraceIDRatioBased float64 | OwnSampler nat

record otel_config =
  oc_serviceName :: string
  oc_serviceVersion :: string
  oc_environment :: string
  oc_endpoint :: string
  oc_insecure :: bool
  oc_sampler :: "sampler option"
  oc_provider :: "nat option"

definition defaultConfig :: otel_config where
  "defaultConfig = \<lparr>oc_serviceName = ''unknown'', oc_serviceVersion = [], oc_environment = ''development'', oc_endpoint = [],
     oc_insecure = True, oc_sampler = None, oc_provider = None\<rparr>"

datatype init_option =
    WithServiceName string | WithServiceVersion string | WithEnvironment string | WithEndpoint string
  | WithInsecure bool | WithSampler "sampler option" | WithTracerProvider "nat option"

fun apply_init_option :: "init_option \<Rightarrow> otel_config \<Rightarrow> otel_config" where
  "apply_init_option (WithServiceName s) c = c\<lparr>oc_serviceName := s\<rparr>"
| "apply_init_option (WithServiceVersion s) c = c\<lparr>oc_serviceVersion := s\<rparr>"
| "apply_init_option (WithEnvironment s) c = c\<lparr>oc_environment := s\<rparr>"
| "apply_init_option (WithEndpoint s) c = c\<lparr>oc_endpoint := s\<rparr>"
| "apply_init_option (WithInsecure b) c = c\<lparr>oc_insecure := b\<rparr>"
| "apply_init_option (WithSampler s) c = c\<lparr>oc_sampler := s\<rparr>"
| "apply_init_option (WithTracerProvider p) c = c\<lparr>oc_provider := p\<rparr>"

definition apply_init_options :: "init_option list \<Rightarrow> otel_config" where
  "apply_init_options opts = fold apply_init_option opts defaultConfig"

section \<open>Init\<close>

text \<open>The environment, and whether the exporter and the resource can be built.\<close>

record init_env =
  ie_otlp :: string
  ie_collector :: string
  ie_exporter_ok :: bool
  ie_resource_ok :: bool

datatype otel_effect =
    SetPropagator
  | SetOwnProvider nat
  | SetProvider string bool "string list" sampler

datatype init_error = ReadConfig | ParseConfig | ExporterFailed | ResourceFailed

text \<open>\<open>NoShutdown\<close> is the empty shutdown function for a provider of the application.\<close>

datatype shutdown = NoShutdown | ShutdownProvider

definition resolve_endpoint :: "init_env \<Rightarrow> otel_config \<Rightarrow> string" where
  "resolve_endpoint env cfg =
     (let endpoint = oc_endpoint cfg;
          endpoint = (if endpoint = [] then ie_otlp env else endpoint);
          endpoint = (if endpoint = [] then ie_collector env else endpoint)
      in if endpoint = [] then ''localhost:4317'' else endpoint)"

definition Init :: "init_env \<Rightarrow> init_option list \<Rightarrow> (init_error + shutdown) \<times> otel_effect list" where
  "Init env opts =
     (let cfg = apply_init_options opts
      in case oc_provider cfg of
           Some p \<Rightarrow> (Inr NoShutdown, [SetPropagator, SetOwnProvider p])
         | None \<Rightarrow>
             if \<not> ie_exporter_ok env then (Inl ExporterFailed, [SetPropagator])
             else if \<not> ie_resource_ok env then (Inl ResourceFailed, [SetPropagator])
             else (let smp = (case oc_sampler cfg of None \<Rightarrow> AlwaysSample | Some s \<Rightarrow> s)
                   in (Inr ShutdownProvider,
                       [SetPropagator,
                        SetProvider (resolve_endpoint env cfg) (oc_insecure cfg)
                          [oc_serviceName cfg, oc_serviceVersion cfg, oc_environment cfg] smp])))"

section \<open>The configuration file\<close>

record file_config =
  fi_name :: string
  fi_version :: string
  fi_environment :: string
  fi_endpoint :: string
  fi_insecure :: bool
  fi_strategy :: string
  fi_ratio :: float64

text \<open>
  What is found at a path: nothing, something that cannot be read, or a file with its contents. The function
  argument \<open>unmarshal\<close> is \<open>yaml.Unmarshal\<close>.
\<close>

datatype path_entry = Missing | Unreadable | Contents string

type_synonym files = "string \<Rightarrow> path_entry"

definition ReadFile :: "files \<Rightarrow> string \<Rightarrow> string option" where
  "ReadFile fs path = (case fs path of Contents d \<Rightarrow> Some d | _ \<Rightarrow> None)"

definition LoadConfig :: "files \<Rightarrow> (string \<Rightarrow> file_config option) \<Rightarrow> string \<Rightarrow> init_error + file_config" where
  "LoadConfig fs unmarshal path =
     and_then (or_error ReadConfig (ReadFile fs path)) (\<lambda>data. or_error ParseConfig (unmarshal data))"

definition DiscoverConfig :: "files \<Rightarrow> (string \<Rightarrow> file_config option) \<Rightarrow> string \<Rightarrow> init_error + file_config option" where
  "DiscoverConfig fs unmarshal ATROPOS_CONFIG =
     (if ATROPOS_CONFIG \<noteq> [] then and_then (LoadConfig fs unmarshal ATROPOS_CONFIG) (\<lambda>fc. Inr (Some fc))
      else if fs ''atropos.yaml'' \<noteq> Missing then and_then (LoadConfig fs unmarshal ''atropos.yaml'') (\<lambda>fc. Inr (Some fc))
      else Inr None)"

definition ToOptions :: "file_config \<Rightarrow> init_option list" where
  "ToOptions fc =
     (if fi_name fc \<noteq> [] then [WithServiceName (fi_name fc)] else []) @
     (if fi_version fc \<noteq> [] then [WithServiceVersion (fi_version fc)] else []) @
     (if fi_environment fc \<noteq> [] then [WithEnvironment (fi_environment fc)] else []) @
     (if fi_endpoint fc \<noteq> [] then [WithEndpoint (fi_endpoint fc), WithInsecure (fi_insecure fc)] else []) @
     (if fi_strategy fc = ''always_on'' \<or> fi_strategy fc = [] then [WithSampler (Some AlwaysSample)]
      else if fi_strategy fc = ''never'' then [WithSampler (Some NeverSample)]
      else if fi_strategy fc = ''ratio'' then [WithSampler (Some (TraceIDRatioBased (fi_ratio fc)))]
      else [])"

definition InitFromConfig ::
    "files \<Rightarrow> (string \<Rightarrow> file_config option) \<Rightarrow> string \<Rightarrow> init_env \<Rightarrow> string \<Rightarrow> init_option list \<Rightarrow>
     (init_error + shutdown) \<times> otel_effect list" where
  "InitFromConfig fs unmarshal ATROPOS_CONFIG env path opts =
     (case (if path \<noteq> [] then and_then (LoadConfig fs unmarshal path) (\<lambda>fc. Inr (Some fc))
            else DiscoverConfig fs unmarshal ATROPOS_CONFIG) of
        Inl e \<Rightarrow> (Inl e, [])
      | Inr fc \<Rightarrow> Init env ((case fc of None \<Rightarrow> [] | Some fc \<Rightarrow> ToOptions fc) @ opts))"

section \<open>Spans\<close>

definition Span :: "string \<Rightarrow> labels \<Rightarrow> world \<Rightarrow> nat \<times> world" where
  "Span name attrs w = tracer_Start (SpanHookPrefix @ name) attrs w"

text \<open>
  \<open>SpanWithFault\<close>: the attributes, with their rendered values, are stored in the labels map, that of the
  caller when it is not nil, before \<open>Hook\<close> of the default interceptor.
\<close>

definition SpanWithFault ::
  "interceptor \<Rightarrow> (fault \<Rightarrow> fault_error option) \<Rightarrow> bool \<Rightarrow> (check_error \<Rightarrow> string) \<Rightarrow> string \<Rightarrow> labels option \<Rightarrow> labels \<Rightarrow>
   world \<Rightarrow> (nat \<times> labels \<times> (check_error + check_result)) \<times> world" where
  "SpanWithFault i os early err_text name labels attrs w =
     (let ls = fold (\<lambda>(k, v) m. go_store k v m) attrs (case labels of None \<Rightarrow> [] | Some l \<Rightarrow> l)
      in Hook i os early err_text name (Some ls) w)"

text \<open>The calls of the span of the back end; \<open>text\<close> renders the duration.\<close>

datatype otel_call =
    OtelAttributes labels | OtelStatusError string | OtelStatusOk | OtelRecordError string | OtelEnd

definition otel_RecordResult :: "int \<Rightarrow> string \<Rightarrow> string option \<Rightarrow> string option \<Rightarrow> otel_call list" where
  "otel_RecordResult actualDuration duration_text err detail =
     [OtelAttributes [(''atropos.fault.duration_ms'', format_int (actualDuration sdiv Millisecond)),
                      (''atropos.fault.actual_duration'', duration_text)]] @
     (case err of Some e \<Rightarrow> [OtelStatusError e, OtelRecordError e] | None \<Rightarrow> [OtelStatusOk]) @
     (case detail of Some d \<Rightarrow> [OtelAttributes [(''atropos.fault.detail'', d)]] | None \<Rightarrow> []) @ [OtelEnd]"

definition otel_EndWithError :: "string \<Rightarrow> otel_call list" where
  "otel_EndWithError err = [OtelStatusError err, OtelRecordError err, OtelEnd]"

section \<open>The option that wins\<close>

text \<open>The value the last option of a kind gives, if there is one.\<close>

definition last_of :: "(init_option \<Rightarrow> 'a option) \<Rightarrow> init_option list \<Rightarrow> 'a option" where
  "last_of sel opts = (case rev (List.map_filter sel opts) of [] \<Rightarrow> None | x # _ \<Rightarrow> Some x)"

definition given :: "'a \<Rightarrow> 'a option \<Rightarrow> 'a" where
  "given d x = (case x of None \<Rightarrow> d | Some v \<Rightarrow> v)"

lemma given_simps [simp]: "given d None = d" "given d (Some v) = v"
  by (simp_all add: given_def)

lemma last_of_simps [simp]:
  "last_of sel [] = None"
  "last_of sel (xs @ ys) = (case last_of sel ys of None \<Rightarrow> last_of sel xs | Some v \<Rightarrow> Some v)"
  by (simp_all add: last_of_def List.map_filter_def map_filter_simps split: list.splits)

lemma last_of_Cons: "last_of sel (x # xs) = (case last_of sel xs of None \<Rightarrow> sel x | Some v \<Rightarrow> Some v)"
  using last_of_simps(2) [of sel "[x]" xs] by (simp add: last_of_def List.map_filter_def split: option.splits)

definition name_option :: "init_option \<Rightarrow> string option" where
  "name_option x = (case x of WithServiceName s \<Rightarrow> Some s | _ \<Rightarrow> None)"
definition version_option :: "init_option \<Rightarrow> string option" where
  "version_option x = (case x of WithServiceVersion s \<Rightarrow> Some s | _ \<Rightarrow> None)"
definition environment_option :: "init_option \<Rightarrow> string option" where
  "environment_option x = (case x of WithEnvironment s \<Rightarrow> Some s | _ \<Rightarrow> None)"
definition endpoint_option :: "init_option \<Rightarrow> string option" where
  "endpoint_option x = (case x of WithEndpoint s \<Rightarrow> Some s | _ \<Rightarrow> None)"
definition insecure_option :: "init_option \<Rightarrow> bool option" where
  "insecure_option x = (case x of WithInsecure b \<Rightarrow> Some b | _ \<Rightarrow> None)"
definition sampler_option :: "init_option \<Rightarrow> sampler option option" where
  "sampler_option x = (case x of WithSampler s \<Rightarrow> Some s | _ \<Rightarrow> None)"
definition provider_option :: "init_option \<Rightarrow> nat option option" where
  "provider_option x = (case x of WithTracerProvider p \<Rightarrow> Some p | _ \<Rightarrow> None)"

lemmas option_selectors = name_option_def version_option_def environment_option_def
  endpoint_option_def insecure_option_def sampler_option_def provider_option_def

lemma apply_init_options_last:
  "oc_serviceName (fold apply_init_option opts c) = given (oc_serviceName c) (last_of name_option opts)"
  "oc_endpoint (fold apply_init_option opts c) = given (oc_endpoint c) (last_of endpoint_option opts)"
  "oc_insecure (fold apply_init_option opts c) = given (oc_insecure c) (last_of insecure_option opts)"
  "oc_sampler (fold apply_init_option opts c) = given (oc_sampler c) (last_of sampler_option opts)"
  "oc_serviceVersion (fold apply_init_option opts c) = given (oc_serviceVersion c) (last_of version_option opts)"
  "oc_environment (fold apply_init_option opts c) = given (oc_environment c) (last_of environment_option opts)"
  "oc_provider (fold apply_init_option opts c) = given (oc_provider c) (last_of provider_option opts)"
proof (induction opts arbitrary: c)
  case (Cons x opts)
  { case 1 show ?case by (cases x) (simp_all add: Cons.IH last_of_Cons option_selectors given_def split: option.splits) }
  { case 2 show ?case by (cases x) (simp_all add: Cons.IH last_of_Cons option_selectors given_def split: option.splits) }
  { case 3 show ?case by (cases x) (simp_all add: Cons.IH last_of_Cons option_selectors given_def split: option.splits) }
  { case 4 show ?case by (cases x) (simp_all add: Cons.IH last_of_Cons option_selectors given_def split: option.splits) }
  { case 6 show ?case by (cases x) (simp_all add: Cons.IH last_of_Cons option_selectors given_def split: option.splits) }
  { case 7 show ?case by (cases x) (simp_all add: Cons.IH last_of_Cons option_selectors given_def split: option.splits) }
  { case 5 show ?case by (cases x) (simp_all add: Cons.IH last_of_Cons option_selectors given_def split: option.splits) }
qed simp_all

definition file_sampler :: "file_config \<Rightarrow> sampler option" where
  "file_sampler fc =
     (if fi_strategy fc \<in> {''always_on'', []} then Some AlwaysSample
      else if fi_strategy fc = ''never'' then Some NeverSample
      else if fi_strategy fc = ''ratio'' then Some (TraceIDRatioBased (fi_ratio fc)) else None)"

lemma ToOptions_last:
  "last_of name_option (ToOptions fc) = (if fi_name fc = [] then None else Some (fi_name fc))"
  "last_of endpoint_option (ToOptions fc) = (if fi_endpoint fc = [] then None else Some (fi_endpoint fc))"
  "last_of insecure_option (ToOptions fc) = (if fi_endpoint fc = [] then None else Some (fi_insecure fc))"
  "last_of sampler_option (ToOptions fc) = map_option Some (file_sampler fc)"
  "last_of version_option (ToOptions fc) = (if fi_version fc = [] then None else Some (fi_version fc))"
  "last_of environment_option (ToOptions fc) = (if fi_environment fc = [] then None else Some (fi_environment fc))"
  "last_of provider_option (ToOptions fc) = None"
  by (simp_all add: ToOptions_def last_of_Cons option_selectors file_sampler_def)

section \<open>Properties\<close>

text \<open>
  Options of the program override the file, the file the environment, the environment the defaults. A file
  with a collector endpoint also decides about TLS, even when it does not say so, which then means TLS; a
  sampling strategy the file misspells samples everything.
\<close>

theorem init_precedence:
  assumes "fs path = Contents data" and "unmarshal data = Some fc" and "path \<noteq> []" and "ie_exporter_ok env" and "ie_resource_ok env"
    and "last_of provider_option opts = None"
  shows
    "InitFromConfig fs unmarshal var env path opts = (Inr ShutdownProvider,
       [SetPropagator,
        SetProvider
          (let e = given (fi_endpoint fc) (last_of endpoint_option opts)
           in if e \<noteq> [] then e else if ie_otlp env \<noteq> [] then ie_otlp env
              else if ie_collector env \<noteq> [] then ie_collector env else ''localhost:4317'')
          (given (if fi_endpoint fc = [] then True else fi_insecure fc) (last_of insecure_option opts))
          [given (if fi_name fc = [] then ''unknown'' else fi_name fc) (last_of name_option opts),
           given (fi_version fc) (last_of version_option opts),
           given (if fi_environment fc = [] then ''development'' else fi_environment fc) (last_of environment_option opts)]
          (given AlwaysSample (given (file_sampler fc) (last_of sampler_option opts)))])"
proof -
  let ?c = "apply_init_options (ToOptions fc @ opts)"
  have load: "LoadConfig fs unmarshal path = Inr fc" by (simp add: LoadConfig_def ReadFile_def assms(1,2))
  have c: "oc_provider ?c = None"
    "oc_endpoint ?c = given (fi_endpoint fc) (last_of endpoint_option opts)"
    "oc_insecure ?c = given (if fi_endpoint fc = [] then True else fi_insecure fc) (last_of insecure_option opts)"
    "oc_serviceName ?c = given (if fi_name fc = [] then ''unknown'' else fi_name fc) (last_of name_option opts)"
    "oc_serviceVersion ?c = given (fi_version fc) (last_of version_option opts)"
    "oc_environment ?c = given (if fi_environment fc = [] then ''development'' else fi_environment fc) (last_of environment_option opts)"
    "oc_sampler ?c = given (file_sampler fc) (last_of sampler_option opts)"
    unfolding apply_init_options_def apply_init_options_last last_of_simps(2) ToOptions_last
    by (simp_all add: assms(6) defaultConfig_def given_def split: option.splits)
  have "(case oc_sampler ?c of None \<Rightarrow> AlwaysSample | Some s \<Rightarrow> s) = given AlwaysSample (oc_sampler ?c)"
    by (simp add: given_def)
  then show ?thesis using assms(3-5) load c
    by (simp add: InitFromConfig_def Init_def resolve_endpoint_def Let_def)
qed

theorem init_precedence_witness:
  "InitFromConfig ((\<lambda>_. Missing)(''a.yaml'' := Contents ''x'')) (\<lambda>_. Some \<lparr>fi_name = ''svc'', fi_version = [], fi_environment = [], fi_endpoint = ''c:1'',
       fi_insecure = False, fi_strategy = ''ration'', fi_ratio = Fin 0\<rparr>) [] \<lparr>ie_otlp = ''o:2'', ie_collector = [], ie_exporter_ok = True,
       ie_resource_ok = True\<rparr> ''a.yaml'' [WithServiceName ''own''] =
     (Inr ShutdownProvider, [SetPropagator, SetProvider ''c:1'' False [''own'', [], ''development''] AlwaysSample])"
proof -
  let ?fc = "\<lparr>fi_name = ''svc'', fi_version = [], fi_environment = [], fi_endpoint = ''c:1'',
       fi_insecure = False, fi_strategy = ''ration'', fi_ratio = Fin 0\<rparr>"
  let ?env = "\<lparr>ie_otlp = ''o:2'', ie_collector = [], ie_exporter_ok = True, ie_resource_ok = True\<rparr>"
  from init_precedence [of "(\<lambda>_. Missing)(''a.yaml'' := Contents ''x'')" "''a.yaml''" "''x''" "\<lambda>_. Some ?fc" ?fc ?env "[WithServiceName ''own'']" "[]"]
  show ?thesis by (simp add: last_of_Cons option_selectors file_sampler_def)
qed

text \<open>
  A failing \<open>InitFromConfig\<close> installs no provider: an unreadable or malformed file changes nothing at all, and
  when the exporter or the resource fails only the propagators are set.
\<close>

theorem init_failure_effects:
  assumes "InitFromConfig fs unmarshal var env path opts = (Inl e, effects)"
  shows "(e \<in> {ReadConfig, ParseConfig} \<longrightarrow> effects = []) \<and> (e \<in> {ExporterFailed, ResourceFailed} \<longrightarrow> effects = [SetPropagator])"
  using assms
  by (auto simp: InitFromConfig_def Init_def DiscoverConfig_def LoadConfig_def Let_def and_then_def or_error_def
      split: sum.splits option.splits if_splits)

theorem init_failure_effects_witness:
  "snd (InitFromConfig (\<lambda>_. Missing) (\<lambda>_. None) [] \<lparr>ie_otlp = [], ie_collector = [], ie_exporter_ok = True, ie_resource_ok = True\<rparr> ''x'' []) = []"
proof -
  have "InitFromConfig (\<lambda>_. Missing) (\<lambda>_. None) [] \<lparr>ie_otlp = [], ie_collector = [], ie_exporter_ok = True, ie_resource_ok = True\<rparr> ''x'' [] =
      (Inl ReadConfig, [])"
    by (simp add: InitFromConfig_def LoadConfig_def ReadFile_def)
  from init_failure_effects [OF this] this show ?thesis by simp
qed

text \<open>
  The attributes of \<open>SpanWithFault\<close> reach the evaluator as labels, over those of the caller, and stay in
  the map the caller passed.
\<close>

theorem SpanWithFault_labels:
  "case SpanWithFault i os early err_text name labels attrs w of
     ((s, ls, res), w') \<Rightarrow>
       map_of ls = ((case labels of None \<Rightarrow> Map.empty | Some l \<Rightarrow> map_of l) ++ map_of (rev attrs))(AttrHookName \<mapsto> name)"
proof -
  have "map_of (fold (\<lambda>(k, v) m. go_store k v m) attrs l) = map_of l ++ map_of (rev attrs)" for l
  proof (induction attrs arbitrary: l)
    case (Cons a attrs)
    obtain k v where a: "a = (k, v)" by fastforce
    have "(map_of l)(k \<mapsto> v) ++ map_of (rev attrs) = map_of l ++ map_of (rev (a # attrs))"
      by (auto simp: a map_add_def fun_eq_iff split: option.splits)
    then show ?case using Cons.IH [of "go_store k v l"] by (simp add: a fun_upd_def)
  qed simp
  then show ?thesis
    by (auto simp: SpanWithFault_def Hook_def Let_def split_beta split: sum.splits option.splits)
qed

text \<open>
  A result ends its span exactly once, with its last call, and marks it as failed exactly
  when the fault's result has an error.
\<close>

theorem otel_result_ends:
  "length (filter (\<lambda>x. x = OtelEnd) (otel_RecordResult d t err detail)) = 1 \<and> last (otel_RecordResult d t err detail) = OtelEnd \<and>
   ((\<exists>e. OtelStatusError e \<in> set (otel_RecordResult d t err detail)) \<longleftrightarrow> err \<noteq> None)"
  by (auto simp: otel_RecordResult_def split: option.splits)

end
