(* ===== verification/Proxy_Lifecycle.thy ===== *)
theory Proxy_Lifecycle
  imports Network_Proxy
begin

text \<open>
  The goroutines of the TCP proxy fault (\<open>proxy.go\<close>, \<open>conn.go\<close>): the accept loop, the one that closes the
  listener, a goroutine for each connection and two for each stream, as a step relation. A stream is piped by
  the toxics of \<open>Network_Proxy\<close>, one round of a read, its wait and its write at a time. What waits for a
  peer, a read or a write that returns, is a step labelled with that peer's stream; dials and timers end by
  themselves.
\<close>

section \<open>Sockets and events\<close>

text \<open>
  The two streams of a connection. A socket is named by the stream that writes to it: \<open>Down\<close> is the
  client's, \<open>Up\<close> that of the upstream.
\<close>

datatype stream = Up | Down

record socket =
  so_open :: bool
  so_fin :: bool
  so_linger0 :: bool

definition new_socket :: socket where
  "new_socket = \<lparr>so_open = True, so_fin = False, so_linger0 = False\<rparr>"

definition no_socket :: socket where
  "no_socket = \<lparr>so_open = False, so_fin = False, so_linger0 = False\<rparr>"

text \<open>Calls on a closed socket fail, and the code drops their errors.\<close>

definition CloseWrite :: "socket \<Rightarrow> socket" where
  "CloseWrite s = (if so_open s then s\<lparr>so_fin := True\<rparr> else s)"

definition close_socket :: "socket \<Rightarrow> socket" where
  "close_socket s = s\<lparr>so_open := False\<rparr>"

definition SetLinger0 :: "socket \<Rightarrow> socket" where
  "SetLinger0 s = (if so_open s then s\<lparr>so_linger0 := True\<rparr> else s)"

text \<open>\<open>applyRST\<close> on both sockets; one that is not there yet is not open.\<close>

definition is_rst :: "pipe_end \<Rightarrow> bool" where
  "is_rst e = (case e of PipeRST reason n \<Rightarrow> True | _ \<Rightarrow> False)"

definition applyRST :: "pipe_end option \<Rightarrow> (stream \<Rightarrow> socket) \<Rightarrow> stream \<Rightarrow> socket" where
  "applyRST e socks = (case e of Some e \<Rightarrow> if is_rst e then SetLinger0 \<circ> socks else socks | None \<Rightarrow> socks)"

text \<open>The events, with the connection's number; durations are left out.\<close>

datatype net_event =
    ConnAccepted int string bool
  | ToxicHijack int bool toxic
  | UpstreamDial int string bool
  | ConnError int "(pipe_end \<times> stream) option"
  | ConnClosed int "string option"

section \<open>Stream workers\<close>

text \<open>
  A worker pipes: the rounds so far, and whether it is inside \<open>Read\<close> or at the head of its loop. Then its
  pipe has returned, the error is reported, the reset applied, and the destination's write side closed.
\<close>

datatype worker =
  Piping bool "pipe_round list" | Returned pipe_end | Reported pipe_end | ResetDone pipe_end | Finished pipe_end

definition pipe_next :: "(int \<Rightarrow> nat \<Rightarrow> int) \<Rightarrow> toxic option \<Rightarrow> pipe_round list \<Rightarrow> pipe_round \<Rightarrow> worker" where
  "pipe_next tx t rs r =
     (let e = fst (pipe_of tx t (rs @ [r])) in if e = PipeOpen then Piping False (rs @ [r]) else Returned e)"

text \<open>
  \<open>passthrough\<close> and \<open>Blackhole\<close> leave the copying to a goroutine of its own and wait for the context too; the
  other toxics look at it at the head of the loop, except \<open>Latency\<close>, and then read.
\<close>

fun interruptible :: "toxic option \<Rightarrow> bool" where
  "interruptible None = True"
| "interruptible (Some t) = (t = BlackholeToxic)"

fun checks_ctx :: "toxic option \<Rightarrow> bool" where
  "checks_ctx (Some (LossToxic rate retransmit threshold)) = True"
| "checks_ctx (Some (DripToxic chunk interval)) = True"
| "checks_ctx (Some (RSTToxic afterBytes afterDuration)) = True"
| "checks_ctx (Some (ThrottleToxic bps)) = True"
| "checks_ctx _ = False"

definition idle_round :: pipe_round where
  "idle_round = \<lparr>pr_ctx = False, pr_timer = False, pr_data = [], pr_end = None, pr_lost = False, pr_time = 0,
     pr_stop = None, pr_fail = None\<rparr>"

text \<open>
  The steps of \<open>Pipe\<close>, without the peers (\<open>False\<close>) or by their doing (\<open>True\<close>). A wait in a round is cut
  short only when the context is done.
\<close>

inductive worker_step ::
  "(int \<Rightarrow> nat \<Rightarrow> int) \<Rightarrow> toxic option \<Rightarrow> bool \<Rightarrow> bool \<Rightarrow> worker \<Rightarrow> worker \<Rightarrow> bool"
  for tx t ctx where
  begin_read: "\<not> ctx \<or> \<not> checks_ctx t \<Longrightarrow> worker_step tx t ctx False (Piping False rs) (Piping True rs)"
| sees_ctx: "ctx \<Longrightarrow> interruptible t \<or> checks_ctx t \<and> \<not> reading \<Longrightarrow>
    worker_step tx t ctx False (Piping reading rs) (pipe_next tx t rs (idle_round\<lparr>pr_ctx := True\<rparr>))"
| sees_timer: "t = Some (RSTToxic afterBytes afterDuration) \<Longrightarrow> afterDuration > 0 \<Longrightarrow>
    worker_step tx t ctx False (Piping False rs) (pipe_next tx t rs (idle_round\<lparr>pr_timer := True\<rparr>))"
| read_returns: "\<not> pr_ctx r \<Longrightarrow> \<not> pr_timer r \<Longrightarrow> pr_stop r \<noteq> None \<longrightarrow> ctx \<Longrightarrow>
    worker_step tx t ctx True (Piping True rs) (pipe_next tx t rs r)"

section \<open>Connections\<close>

text \<open>
  Where \<open>handleAffected\<close> or \<open>handlePassthrough\<close> is: \<open>HoldPre\<close> and \<open>HoldPost\<close> inside a \<open>Hijack\<close> that took the
  connection, \<open>Streaming\<close> and \<open>Copying\<close> in \<open>wg.Wait\<close>.
\<close>

datatype conn_phase = Accepted | HoldPre | Dialing | Dialed | HoldPost | Streaming | Copying | ConnDone

record conn =
  cn_id :: int
  cn_affected :: bool
  cn_phase :: conn_phase
  cn_worker :: "stream \<Rightarrow> worker"
  cn_sock :: "stream \<Rightarrow> socket"

definition new_conn :: "int \<Rightarrow> bool \<Rightarrow> conn" where
  "new_conn n affected =
     \<lparr>cn_id = n, cn_affected = affected, cn_phase = (if affected then Accepted else Dialing),
      cn_worker = (\<lambda>_. Piping False []), cn_sock = (\<lambda>_. no_socket)(Down := new_socket)\<rparr>"

text \<open>The deferred calls at the end of a connection's goroutine.\<close>

definition conn_done :: "conn \<Rightarrow> conn" where
  "conn_done c = c\<lparr>cn_phase := ConnDone, cn_sock := close_socket \<circ> cn_sock c\<rparr>"

definition set_worker :: "stream \<Rightarrow> worker \<Rightarrow> conn \<Rightarrow> conn" where
  "set_worker d w c = c\<lparr>cn_worker := (cn_worker c)(d := w)\<rparr>"

definition toxic_of :: "net_config \<Rightarrow> stream \<Rightarrow> toxic option" where
  "toxic_of cfg d = (case d of Up \<Rightarrow> fst (split_toxics (nc_toxics cfg)) | Down \<Rightarrow> snd (split_toxics (nc_toxics cfg)))"

definition hijack_events :: "conn \<Rightarrow> bool \<Rightarrow> toxic list \<Rightarrow> net_event list" where
  "hijack_events c post ts = map (ToxicHijack (cn_id c) post) ts"

datatype conn_act = Internal | Peer stream

inductive conn_step ::
  "(int \<Rightarrow> nat \<Rightarrow> int) \<Rightarrow> net_config \<Rightarrow> bool \<Rightarrow> conn \<Rightarrow> conn_act \<Rightarrow> net_event list \<Rightarrow> conn \<Rightarrow> bool"
  for tx cfg ctx c where
  pre_clear: "cn_phase c = Accepted \<Longrightarrow> checkHijackers False fired (nc_toxics cfg) = (ts, None) \<Longrightarrow>
    conn_step tx cfg ctx c Internal (hijack_events c False ts) (c\<lparr>cn_phase := Dialing\<rparr>)"
| pre_taken: "cn_phase c = Accepted \<Longrightarrow> checkHijackers False fired (nc_toxics cfg) = (ts, Some err) \<Longrightarrow>
    conn_step tx cfg ctx c Internal (hijack_events c False ts) (c\<lparr>cn_phase := HoldPre\<rparr>)"
| pre_done: "cn_phase c = HoldPre \<Longrightarrow> ctx \<Longrightarrow>
    conn_step tx cfg ctx c Internal [ConnClosed (cn_id c) (Some ''hijack_pre_dial'')] (conn_done c)"
| dial_failed: "cn_phase c = Dialing \<Longrightarrow>
    conn_step tx cfg ctx c Internal
      (if cn_affected c then [UpstreamDial (cn_id c) (nc_upstream cfg) True, ConnError (cn_id c) None] else [])
      (conn_done c)"
| dial_ok: "cn_phase c = Dialing \<Longrightarrow>
    conn_step tx cfg ctx c Internal
      (if cn_affected c then [UpstreamDial (cn_id c) (nc_upstream cfg) False] else [])
      (c\<lparr>cn_phase := if cn_affected c then Dialed else Copying,
         cn_worker := \<lambda>_. Piping (\<not> cn_affected c) [], cn_sock := (cn_sock c)(Up := new_socket)\<rparr>)"
| post_clear: "cn_phase c = Dialed \<Longrightarrow> checkHijackers True fired (nc_toxics cfg) = (ts, None) \<Longrightarrow>
    conn_step tx cfg ctx c Internal (hijack_events c True ts) (c\<lparr>cn_phase := Streaming\<rparr>)"
| post_taken: "cn_phase c = Dialed \<Longrightarrow> checkHijackers True fired (nc_toxics cfg) = (ts, Some err) \<Longrightarrow>
    conn_step tx cfg ctx c Internal (hijack_events c True ts) (c\<lparr>cn_phase := HoldPost\<rparr>)"
| post_done: "cn_phase c = HoldPost \<Longrightarrow> snd (checkHijackers True fired (nc_toxics cfg)) = Some err \<Longrightarrow>
    err = Some PipeCtx \<longrightarrow> ctx \<Longrightarrow>
    conn_step tx cfg ctx c Internal [ConnClosed (cn_id c) (Some ''hijack_post_dial'')]
      (conn_done (c\<lparr>cn_sock := applyRST err (cn_sock c)\<rparr>))"
| piping: "cn_phase c = Streaming \<Longrightarrow> worker_step tx (toxic_of cfg d) ctx peer (cn_worker c d) w \<Longrightarrow>
    conn_step tx cfg ctx c (if peer then Peer d else Internal) [] (set_worker d w c)"
| report: "cn_phase c = Streaming \<Longrightarrow> cn_worker c d = Returned e \<Longrightarrow>
    conn_step tx cfg ctx c Internal (if e \<noteq> PipeNil then [ConnError (cn_id c) (Some (e, d))] else [])
      (set_worker d (Reported e) c)"
| reset: "cn_phase c = Streaming \<Longrightarrow> cn_worker c d = Reported e \<Longrightarrow>
    conn_step tx cfg ctx c Internal []
      ((set_worker d (ResetDone e) c)\<lparr>cn_sock := applyRST (Some e) (cn_sock c)\<rparr>)"
| half_close: "cn_phase c = Streaming \<Longrightarrow> cn_worker c d = ResetDone e \<Longrightarrow>
    conn_step tx cfg ctx c Internal []
      ((set_worker d (Finished e) c)\<lparr>cn_sock := (cn_sock c)(d := CloseWrite (cn_sock c d))\<rparr>)"
| streams_done: "cn_phase c = Streaming \<Longrightarrow> (\<And>d. \<exists>e. cn_worker c d = Finished e) \<Longrightarrow>
    conn_step tx cfg ctx c Internal [ConnClosed (cn_id c) None] (conn_done c)"
| copy_ends: "cn_phase c = Copying \<Longrightarrow> cn_worker c d = Piping True rs \<Longrightarrow>
    conn_step tx cfg ctx c (if so_open (cn_sock c d) then Peer d else Internal) []
      ((set_worker d (Finished PipeNil) c)\<lparr>cn_sock := (cn_sock c)(d := CloseWrite (cn_sock c d))\<rparr>)"
| copy_cut: "cn_phase c = Copying \<Longrightarrow> ctx \<Longrightarrow> so_open (cn_sock c Up) \<Longrightarrow>
    conn_step tx cfg ctx c Internal [] (c\<lparr>cn_sock := close_socket \<circ> cn_sock c\<rparr>)"
| copy_done: "cn_phase c = Copying \<Longrightarrow> (\<And>d. \<exists>e. cn_worker c d = Finished e) \<Longrightarrow>
    conn_step tx cfg ctx c Internal [] (conn_done c)"

inductive_cases worker_stepE: "worker_step tx t ctx peer w w'"
inductive_cases conn_stepE: "conn_step tx cfg ctx c a evs c'"

section \<open>The proxy\<close>

text \<open>
  \<open>px_ctx\<close>: the context is done, by its deadline or by \<open>Stop\<close>. \<open>px_accepting\<close>: the accept loop has not been left.
  \<open>px_accepts\<close> is the history of what \<open>AcceptTCP\<close> returned, \<open>px_sent\<close> the result of the fault.
\<close>

record proxy =
  px_ctx :: bool
  px_listening :: bool
  px_accepting :: bool
  px_counts :: proxy_counts
  px_conns :: "conn list"
  px_events :: "net_event list"
  px_accepts :: "accepted list"
  px_sent :: "proxy_counts option"

definition no_counts :: proxy_counts where
  "no_counts = \<lparr>pc_total = 0, pc_affected = 0, pc_passthrough = 0\<rparr>"

definition proxy_init :: proxy where
  "proxy_init = \<lparr>px_ctx = False, px_listening = True, px_accepting = True, px_counts = no_counts, px_conns = [],
     px_events = [], px_accepts = [], px_sent = None\<rparr>"

text \<open>\<open>emitEvent\<close> with and without an emitter.\<close>

definition net_emit :: "bool \<Rightarrow> net_event list \<Rightarrow> proxy \<Rightarrow> proxy" where
  "net_emit emitter evs s = (if emitter then s\<lparr>px_events := px_events s @ evs\<rparr> else s)"

text \<open>One accepted connection, with the draw \<open>q\<close> and the remote address.\<close>

definition accept_conn :: "net_config \<Rightarrow> bool \<Rightarrow> rat \<Rightarrow> string \<Rightarrow> proxy \<Rightarrow> proxy" where
  "accept_conn cfg emitter q remote s =
     (let connID = pc_total (px_counts s) + 1; applyToxics = flt_less (Fin q) (effectiveScope cfg)
      in net_emit emitter [ConnAccepted connID remote applyToxics]
           (s\<lparr>px_counts :=
               (if applyToxics
                then px_counts s\<lparr>pc_total := connID, pc_affected := pc_affected (px_counts s) + 1\<rparr>
                else px_counts s\<lparr>pc_total := connID, pc_passthrough := pc_passthrough (px_counts s) + 1\<rparr>),
              px_conns := px_conns s @ [new_conn connID applyToxics], px_accepts := px_accepts s @ [Conn q]\<rparr>))"

text \<open>An error of \<open>AcceptTCP\<close> ends the loop when the context is done or the error is permanent.\<close>

definition accept_error :: "bool \<Rightarrow> proxy \<Rightarrow> proxy" where
  "accept_error permanent s =
     s\<lparr>px_accepting := \<not> (px_ctx s \<or> permanent), px_accepts := px_accepts s @ [AcceptError (px_ctx s) permanent]\<rparr>"

definition all_done :: "proxy \<Rightarrow> bool" where
  "all_done s \<longleftrightarrow> list_all (\<lambda>c. cn_phase c = ConnDone) (px_conns s)"

text \<open>The end of \<open>run\<close>: the result and the deferred \<open>Close\<close> and \<open>cancel\<close>.\<close>

definition proxy_send :: "proxy \<Rightarrow> proxy" where
  "proxy_send s = s\<lparr>px_sent := Some (px_counts s), px_listening := False, px_ctx := True\<rparr>"

text \<open>Steps by the proxy itself, by the context, by clients that connect, and by the peers of a stream.\<close>

datatype proxy_act = Own | Expires | Arrives | PeerActs nat stream

definition proxy_act_of :: "nat \<Rightarrow> conn_act \<Rightarrow> proxy_act" where
  "proxy_act_of i a = (case a of Internal \<Rightarrow> Own | Peer d \<Rightarrow> PeerActs i d)"

inductive proxy_step ::
  "(int \<Rightarrow> nat \<Rightarrow> int) \<Rightarrow> net_config \<Rightarrow> bool \<Rightarrow> proxy \<Rightarrow> proxy_act \<Rightarrow> proxy \<Rightarrow> bool"
  for tx cfg emitter s where
  expires: "proxy_step tx cfg emitter s Expires (s\<lparr>px_ctx := True\<rparr>)"
| unblock: "px_ctx s \<Longrightarrow> px_listening s \<Longrightarrow> proxy_step tx cfg emitter s Own (s\<lparr>px_listening := False\<rparr>)"
| accepts: "px_accepting s \<Longrightarrow> px_listening s \<Longrightarrow>
    proxy_step tx cfg emitter s Arrives (accept_conn cfg emitter q remote s)"
| accept_fails: "px_accepting s \<Longrightarrow> px_listening s \<Longrightarrow> proxy_step tx cfg emitter s Arrives (accept_error permanent s)"
| accept_closed: "px_accepting s \<Longrightarrow> \<not> px_listening s \<Longrightarrow> proxy_step tx cfg emitter s Own (accept_error True s)"
| connection: "i < length (px_conns s) \<Longrightarrow> conn_step tx cfg (px_ctx s) (px_conns s ! i) a evs c \<Longrightarrow>
    proxy_step tx cfg emitter s (proxy_act_of i a) (net_emit emitter evs (s\<lparr>px_conns := (px_conns s)[i := c]\<rparr>))"
| sends: "\<not> px_accepting s \<Longrightarrow> all_done s \<Longrightarrow> px_sent s = None \<Longrightarrow>
    proxy_step tx cfg emitter s Own (proxy_send s)"

inductive_cases proxy_stepE: "proxy_step tx cfg emitter s a s'"

inductive proxy_steps ::
  "(int \<Rightarrow> nat \<Rightarrow> int) \<Rightarrow> net_config \<Rightarrow> bool \<Rightarrow> proxy \<Rightarrow> proxy_act list \<Rightarrow> proxy \<Rightarrow> bool"
  for tx cfg emitter where
  none: "proxy_steps tx cfg emitter s [] s"
| more: "proxy_step tx cfg emitter s a s' \<Longrightarrow> proxy_steps tx cfg emitter s' as s'' \<Longrightarrow>
    proxy_steps tx cfg emitter s (a # as) s''"

section \<open>\<open>Start\<close> and the external proxy\<close>

datatype proxy_start = Invalid fault_error | ListenFailed | StartedExternal | Started proxy

definition proxy_Start :: "net_config \<Rightarrow> bool \<Rightarrow> proxy_start" where
  "proxy_Start cfg listen_ok =
     (case net_Validate cfg of
        Some e \<Rightarrow> Invalid e
      | None \<Rightarrow> if nc_external cfg then StartedExternal
                else if \<not> listen_ok then ListenFailed else Started proxy_init)"

text \<open>
  \<open>runExternal\<close>: the calls of the backend, and the error of the result; the arguments are the errors of the
  two calls.
\<close>

datatype external_call = ExternalApply string string "toxic_link list" | ExternalRemove

definition runExternal :: "net_config \<Rightarrow> string option \<Rightarrow> string option \<Rightarrow> external_call list \<times> string option" where
  "runExternal cfg apply_err remove_err =
     (let call = ExternalApply (nc_listen cfg) (nc_upstream cfg) (nc_toxics cfg)
      in case apply_err of
           Some e \<Rightarrow> ([call], Some e)
         | None \<Rightarrow> ([call, ExternalRemove], None))"

section \<open>Rounds that end a pipe\<close>

text \<open>A pipe that is still open goes on with the next round, which a done context or the timer ends.\<close>

lemmas pipe_round_simps = prepend_def write_all_def after_read_def wait_for_def

lemma drip_pieces_end: "drip_pieces chunk iv r k data = (Some e, out, ws) \<Longrightarrow> e \<in> {PipeCtx, PipeWriteErr}"
  using drip_pieces_prefix [where chunk = chunk and interval = iv and r = r and k = k and data = data]
  by (cases "chunk = 0") (simp_all add: drip_pieces.simps [of 0])

lemma loss_ctx: "fst (loss_pipe rt th c rs) = PipeOpen \<Longrightarrow> pr_ctx r \<Longrightarrow> fst (loss_pipe rt th c (rs @ [r])) = PipeCtx"
  by (induction rs arbitrary: c)
    (auto simp: pipe_round_simps Let_def split: option.splits read_end.splits if_splits)

lemma drip_ctx: "fst (drip_pipe ch iv rs) = PipeOpen \<Longrightarrow> pr_ctx r \<Longrightarrow> fst (drip_pipe ch iv (rs @ [r])) = PipeCtx"
proof (induction rs)
  case (Cons x rs)
  obtain e out ws where "drip_pieces ch iv x 0 (pr_data x) = (e, out, ws)" by (metis prod_cases3)
  with Cons show ?case
    by (cases e) (auto simp: pipe_round_simps dest: drip_pieces_end split: option.splits read_end.splits if_splits)
qed simp

lemma rst_ctx: "fst (rst_pipe ab ad f rs) = PipeOpen \<Longrightarrow> pr_ctx r \<Longrightarrow> fst (rst_pipe ab ad f (rs @ [r])) = PipeCtx"
  by (induction rs arbitrary: f)
    (auto simp: pipe_round_simps Let_def split: option.splits read_end.splits if_splits)

lemma rst_timer: "fst (rst_pipe ab ad f rs) = PipeOpen \<Longrightarrow> \<not> pr_ctx r \<Longrightarrow> pr_timer r \<Longrightarrow> ad > 0 \<Longrightarrow>
    is_rst (fst (rst_pipe ab ad f (rs @ [r])))"
  by (induction rs arbitrary: f)
    (auto simp: pipe_round_simps Let_def is_rst_def split: option.splits read_end.splits if_splits)

lemma throttle_ctx: "fst (throttle_pipe x rs) = PipeOpen \<Longrightarrow> pr_ctx r \<Longrightarrow> fst (throttle_pipe x (rs @ [r])) = PipeCtx"
  by (induction rs) (auto simp: pipe_round_simps Let_def split: option.splits read_end.splits if_splits)

lemma passthrough_ctx: "fst (passthrough_pipe rs) = PipeOpen \<Longrightarrow> pr_ctx r \<Longrightarrow> fst (passthrough_pipe (rs @ [r])) = PipeCtx"
  by (induction rs) (auto simp: pipe_round_simps split: option.splits read_end.splits if_splits)

lemma pipe_ctx_ends:
  "fst (pipe_of tx t rs) = PipeOpen \<Longrightarrow> interruptible t \<or> checks_ctx t \<Longrightarrow> pr_ctx r \<Longrightarrow>
   fst (pipe_of tx t (rs @ [r])) = PipeCtx"
  by (cases "(tx, t, rs)" rule: pipe_of.cases)
    (auto simp: loss_ctx drip_ctx rst_ctx throttle_ctx passthrough_ctx blackhole_pipe_def)

lemma pipe_empty [simp]: "fst (pipe_of tx t []) = PipeOpen"
  by (cases "(tx, t, [] :: pipe_round list)" rule: pipe_of.cases) (auto simp: blackhole_pipe_def)

text \<open>What a worker can be: an open pipe, or an end.\<close>

fun worker_ok :: "(int \<Rightarrow> nat \<Rightarrow> int) \<Rightarrow> toxic option \<Rightarrow> worker \<Rightarrow> bool" where
  "worker_ok tx t (Piping reading rs) = (fst (pipe_of tx t rs) = PipeOpen)"
| "worker_ok tx t (Returned e) = (e \<noteq> PipeOpen)"
| "worker_ok tx t (Reported e) = (e \<noteq> PipeOpen)"
| "worker_ok tx t (ResetDone e) = (e \<noteq> PipeOpen)"
| "worker_ok tx t (Finished e) = (e \<noteq> PipeOpen)"

lemma worker_step_ok: "worker_step tx t ctx peer w w' \<Longrightarrow> worker_ok tx t w \<Longrightarrow> worker_ok tx t w'"
  by (induction rule: worker_step.induct) (auto simp: pipe_next_def Let_def)

text \<open>A step of its own takes a worker closer to its end.\<close>

fun worker_measure :: "worker \<Rightarrow> nat" where
  "worker_measure (Piping reading rs) = (if reading then 5 else 6)"
| "worker_measure (Returned e) = 4"
| "worker_measure (Reported e) = 3"
| "worker_measure (ResetDone e) = 2"
| "worker_measure (Finished e) = 1"

lemma worker_step_measure:
  assumes "worker_step tx t ctx False w w'" and "worker_ok tx t w"
  shows "worker_measure w' < worker_measure w"
  using assms
proof (cases rule: worker_step.cases)
  case (sees_ctx reading rs)
  then show ?thesis using assms(2) pipe_ctx_ends [of tx t rs "idle_round\<lparr>pr_ctx := True\<rparr>"]
    by (auto simp: pipe_next_def)
next
  case (sees_timer ab ad rs)
  then show ?thesis using assms(2) rst_timer [of ab ad 0 rs "idle_round\<lparr>pr_timer := True\<rparr>"]
    by (auto simp: pipe_next_def idle_round_def is_rst_def split: pipe_end.splits)
qed auto

section \<open>What a connection keeps\<close>

text \<open>The end of a worker whose \<open>applyRST\<close> is behind it, and of one that closed its write side.\<close>

fun reset_seen :: "worker \<Rightarrow> bool" where
  "reset_seen (ResetDone e) = is_rst e"
| "reset_seen (Finished e) = is_rst e"
| "reset_seen _ = False"

fun worker_finished :: "worker \<Rightarrow> bool" where
  "worker_finished (Finished e) = True"
| "worker_finished _ = False"

lemma worker_finished_iff: "worker_finished w \<longleftrightarrow> (\<exists>e. w = Finished e)"
  by (cases w) auto

definition phase_ok :: "net_config \<Rightarrow> conn \<Rightarrow> bool" where
  "phase_ok cfg c \<longleftrightarrow>
     (cn_phase c \<in> {Accepted, HoldPre, Dialed, HoldPost, Streaming} \<longrightarrow> cn_affected c) \<and>
     (cn_phase c = Copying \<longrightarrow> \<not> cn_affected c) \<and>
     (cn_phase c = HoldPost \<longrightarrow> (\<exists>fired. snd (checkHijackers True fired (nc_toxics cfg)) \<noteq> None))"

definition sockets_ok :: "conn \<Rightarrow> bool" where
  "sockets_ok c \<longleftrightarrow>
     (case cn_phase c of
        ConnDone \<Rightarrow> \<not> so_open (cn_sock c Up) \<and> \<not> so_open (cn_sock c Down)
      | Copying \<Rightarrow> so_open (cn_sock c Up) = so_open (cn_sock c Down)
      | p \<Rightarrow> so_open (cn_sock c Down) \<and> so_open (cn_sock c Up) = (p \<in> {Dialed, HoldPost, Streaming}) \<and>
             (p \<noteq> Streaming \<longrightarrow> (\<forall>d. \<not> so_fin (cn_sock c d))))"

definition workers_ok :: "(int \<Rightarrow> nat \<Rightarrow> int) \<Rightarrow> net_config \<Rightarrow> conn \<Rightarrow> bool" where
  "workers_ok tx cfg c \<longleftrightarrow>
     (case cn_phase c of
        Streaming \<Rightarrow>
          (\<forall>d. worker_ok tx (toxic_of cfg d) (cn_worker c d) \<and>
               (worker_finished (cn_worker c d) \<longrightarrow> so_fin (cn_sock c d)) \<and>
               (\<forall>d'. reset_seen (cn_worker c d) \<longrightarrow> so_linger0 (cn_sock c d')))
      | Copying \<Rightarrow> (\<forall>d. cn_worker c d \<in> {Piping True [], Finished PipeNil})
      | Dialed \<Rightarrow> (\<forall>d. cn_worker c d = Piping False [])
      | _ \<Rightarrow> True)"

definition conn_ok :: "(int \<Rightarrow> nat \<Rightarrow> int) \<Rightarrow> net_config \<Rightarrow> conn \<Rightarrow> bool" where
  "conn_ok tx cfg c \<longleftrightarrow> phase_ok cfg c \<and> sockets_ok c \<and> workers_ok tx cfg c"

lemmas conn_ok_defs = conn_ok_def phase_ok_def sockets_ok_def workers_ok_def

lemmas conn_defs = conn_done_def set_worker_def close_socket_def CloseWrite_def SetLinger0_def applyRST_def new_socket_def

lemma new_conn_ok: "conn_ok tx cfg (new_conn n a)"
  by (simp add: conn_ok_defs new_conn_def no_socket_def new_socket_def)

lemma worker_step_piping:
  "worker_step tx t ctx peer w w' \<Longrightarrow> \<not> worker_finished w' \<and> \<not> reset_seen w' \<and> (\<exists>reading rs. w = Piping reading rs)"
  by (induction rule: worker_step.induct) (auto simp: pipe_next_def Let_def)

lemma conn_step_ok:
  assumes "conn_step tx cfg ctx c a evs c'" and "conn_ok tx cfg c"
  shows "conn_ok tx cfg c'"
  using assms(1)
proof (cases rule: conn_step.cases)
  case (piping d peer w)
  then show ?thesis using assms(2) worker_step_ok [OF piping(5)] worker_step_piping [OF piping(5)]
    by (auto simp: conn_ok_defs set_worker_def)
next
  case (copy_ends d rs)
  then show ?thesis using assms(2)
    by (auto simp: conn_ok_defs conn_defs)
next
  case (reset d e)
  then have "worker_ok tx (toxic_of cfg d) (Reported e)"
    using assms(2) by (force simp: conn_ok_defs dest: spec [of _ d])
  moreover have "so_open (cn_sock c d')" for d' using assms(2) reset by (cases d') (auto simp: conn_ok_defs)
  ultimately show ?thesis using reset assms(2)
    by (auto simp: conn_ok_defs conn_defs split: if_splits)
next
  case (report d e)
  then have "worker_ok tx (toxic_of cfg d) (Returned e)"
    using assms(2) by (force simp: conn_ok_defs dest: spec [of _ d])
  then show ?thesis using report assms(2)
    by (auto simp: conn_ok_defs conn_defs split: if_splits)
next
  case (post_taken fired ts err)
  from post_taken(5) have "\<exists>fired y. snd (checkHijackers True fired (nc_toxics cfg)) = Some y"
    by (intro exI [of _ fired]) simp
  with post_taken(1-4) assms(2) show ?thesis by (simp add: conn_ok_defs)
next
  case (half_close d e)
  from half_close assms(2) have "worker_ok tx (toxic_of cfg d) (ResetDone e)"
    "\<And>d'. is_rst e \<Longrightarrow> so_linger0 (cn_sock c d')"
    by (force simp: conn_ok_defs dest: spec [of _ d])+
  moreover have "so_open (cn_sock c d')" for d' using assms(2) half_close by (cases d') (auto simp: conn_ok_defs)
  ultimately show ?thesis using half_close assms(2)
    by (auto simp: conn_ok_defs conn_defs split: if_splits)
qed (use assms(2) in \<open>auto simp: conn_ok_defs conn_defs split: if_splits\<close>)

section \<open>What ends a connection\<close>

fun phase_measure :: "conn_phase \<Rightarrow> nat" where
  "phase_measure Accepted = 20"
| "phase_measure Dialing = 19"
| "phase_measure Dialed = 18"
| "phase_measure ConnDone = 0"
| "phase_measure _ = 1"

definition conn_measure :: "conn \<Rightarrow> nat" where
  "conn_measure c =
     phase_measure (cn_phase c) +
     (if cn_phase c \<in> {Streaming, Copying} then worker_measure (cn_worker c Up) + worker_measure (cn_worker c Down) else 0) +
     (if cn_phase c = Copying \<and> so_open (cn_sock c Up) then 1 else 0)"

lemma conn_step_measure:
  assumes "conn_step tx cfg ctx c Internal evs c'" and "conn_ok tx cfg c"
  shows "conn_measure c' < conn_measure c"
  using assms(1)
proof (cases rule: conn_step.cases)
  case (piping d peer w)
  then have "worker_measure w < worker_measure (cn_worker c d)"
    using assms(2) by (auto simp: conn_ok_defs intro!: worker_step_measure split: if_splits)
  then show ?thesis using piping by (cases d) (auto simp: conn_measure_def set_worker_def)
next
  case (report d e)
  then show ?thesis by (cases d) (auto simp: conn_measure_def set_worker_def)
next
  case (reset d e)
  then show ?thesis by (cases d) (auto simp: conn_measure_def set_worker_def)
next
  case (half_close d e)
  then show ?thesis by (cases d) (auto simp: conn_measure_def set_worker_def)
next
  case (copy_ends d rs)
  then show ?thesis by (cases d) (auto simp: conn_measure_def conn_defs)
next
  case post_clear
  then show ?thesis using assms(2) by (simp add: conn_measure_def conn_ok_defs)
qed (auto simp: conn_measure_def conn_defs)

text \<open>A worker that waits for its peer inside a read the context does not interrupt.\<close>

definition blocked_in_read :: "net_config \<Rightarrow> conn \<Rightarrow> stream \<Rightarrow> bool" where
  "blocked_in_read cfg c d \<longleftrightarrow>
     cn_phase c = Streaming \<and> \<not> interruptible (toxic_of cfg d) \<and> (\<exists>rs. cn_worker c d = Piping True rs)"

lemma all_streams: "(\<forall>d. P d) \<longleftrightarrow> P Up \<and> P Down"
  by (metis stream.exhaust)

lemma streaming_progress:
  assumes "cn_phase c = Streaming" and "ctx"
  shows "(\<exists>evs c'. conn_step tx cfg ctx c Internal evs c') \<or> (\<exists>d. blocked_in_read cfg c d)"
proof (cases "\<forall>d. \<exists>e. cn_worker c d = Finished e")
  case True
  then show ?thesis using streams_done [OF assms(1)] by blast
next
  case False
  then obtain d where d: "\<not> worker_finished (cn_worker c d)" by (auto simp: worker_finished_iff)
  show ?thesis
  proof (cases "cn_worker c d")
    case (Piping reading rs)
    then have "(\<exists>w. worker_step tx (toxic_of cfg d) ctx False (cn_worker c d) w) \<or> blocked_in_read cfg c d"
      using assms begin_read [of ctx "toxic_of cfg d" tx rs] sees_ctx [of ctx "toxic_of cfg d" reading tx rs]
      by (cases reading) (auto simp: blocked_in_read_def)
    then show ?thesis using piping [OF assms(1), of tx cfg d ctx False] by auto
  qed (use d assms(1) in \<open>auto intro: report reset half_close\<close>)
qed

lemma conn_progress:
  assumes "conn_ok tx cfg c" and "ctx" and "cn_phase c \<noteq> ConnDone"
  shows "(\<exists>evs c'. conn_step tx cfg ctx c Internal evs c') \<or> (\<exists>d. blocked_in_read cfg c d)"
proof (cases "cn_phase c")
  case Accepted
  obtain ts r where "checkHijackers False False (nc_toxics cfg) = (ts, r)" by fastforce
  then show ?thesis using pre_clear [OF Accepted] pre_taken [OF Accepted] by (cases r) blast+
next
  case Dialed
  obtain ts r where "checkHijackers True False (nc_toxics cfg) = (ts, r)" by fastforce
  then show ?thesis using post_clear [OF Dialed] post_taken [OF Dialed] by (cases r) blast+
next
  case HoldPost
  with assms obtain fired err where "snd (checkHijackers True fired (nc_toxics cfg)) = Some err"
    by (auto simp: conn_ok_defs)
  then show ?thesis using post_done [OF HoldPost] assms(2) by blast
next
  case Streaming
  then show ?thesis using streaming_progress assms(2) by blast
next
  case Copying
  show ?thesis
  proof (cases "so_open (cn_sock c Up)")
    case True
    then show ?thesis using copy_cut [OF Copying assms(2)] by blast
  next
    case False
    then have "\<not> so_open (cn_sock c d)" for d using assms(1) Copying by (cases d) (auto simp: conn_ok_defs)
    moreover have w: "\<And>d. cn_worker c d = Piping True [] \<or> cn_worker c d = Finished PipeNil"
      using assms(1) Copying by (auto simp: conn_ok_defs)
    ultimately have "\<exists>evs c'. conn_step tx cfg ctx c Internal evs c'" if "cn_worker c d = Piping True []" for d
      using copy_ends [OF Copying that, of tx cfg ctx] by auto
    moreover have "\<exists>evs c'. conn_step tx cfg ctx c Internal evs c'" if "\<And>d. cn_worker c d \<noteq> Piping True []"
      using copy_done [OF Copying, of tx cfg ctx] w that by blast
    ultimately show ?thesis by blast
  qed
qed (use assms pre_done dial_failed in blast)+

section \<open>What the proxy keeps\<close>

definition goes_on :: "accepted \<Rightarrow> bool" where
  "goes_on x = (case x of Conn q \<Rightarrow> True | AcceptError ctx permanent \<Rightarrow> \<not> ctx \<and> \<not> permanent)"

lemma accept_loop_append:
  "list_all goes_on xs \<Longrightarrow> accept_loop scope (xs @ ys) c = accept_loop scope ys (accept_loop scope xs c)"
  by (induction scope xs c rule: accept_loop.induct) (auto simp: goes_on_def Let_def)

text \<open>An event that ends a connection for whoever follows its number.\<close>

definition terminal :: "int \<Rightarrow> net_event \<Rightarrow> bool" where
  "terminal n e = (case e of ConnClosed m r \<Rightarrow> m = n | ConnError m None \<Rightarrow> m = n | _ \<Rightarrow> False)"

definition terminals :: "int \<Rightarrow> net_event list \<Rightarrow> nat" where
  "terminals n evs = length (filter (terminal n) evs)"

lemma terminals_simps [simp]:
  "terminals n [] = 0" "terminals n (xs @ ys) = terminals n xs + terminals n ys"
  "terminals n (e # evs) = (if terminal n e then 1 else 0) + terminals n evs"
  by (simp_all add: terminals_def)

lemma terminals_hijack [simp]: "terminals n (hijack_events c post ts) = 0"
  by (simp add: terminals_def hijack_events_def terminal_def filter_empty_conv)

lemma conn_step_events:
  assumes "conn_step tx cfg ctx c a evs c'" and "conn_ok tx cfg c"
  shows "cn_id c' = cn_id c" "cn_affected c' = cn_affected c" "cn_phase c \<noteq> ConnDone"
    "terminals n evs = (if n = cn_id c \<and> cn_affected c \<and> cn_phase c' = ConnDone then 1 else 0)"
  using assms by (cases rule: conn_step.cases; auto simp: conn_ok_defs conn_defs terminal_def)+

definition conns_ok :: "(int \<Rightarrow> nat \<Rightarrow> int) \<Rightarrow> net_config \<Rightarrow> bool \<Rightarrow> proxy \<Rightarrow> bool" where
  "conns_ok tx cfg emitter s \<longleftrightarrow>
     (\<forall>i < length (px_conns s). conn_ok tx cfg (px_conns s ! i) \<and> cn_id (px_conns s ! i) = int i + 1 \<and>
        (emitter \<longrightarrow> terminals (int i + 1) (px_events s) =
           (if cn_affected (px_conns s ! i) \<and> cn_phase (px_conns s ! i) = ConnDone then 1 else 0))) \<and>
     (\<forall>n > int (length (px_conns s)). terminals n (px_events s) = 0)"

definition counts_ok :: "net_config \<Rightarrow> proxy \<Rightarrow> bool" where
  "counts_ok cfg s \<longleftrightarrow>
     px_counts s = proxy_run cfg (px_accepts s) \<and> pc_total (px_counts s) = int (length (px_conns s)) \<and>
     (px_accepting s \<longrightarrow> list_all goes_on (px_accepts s)) \<and>
     (case px_sent s of None \<Rightarrow> True | Some n \<Rightarrow> \<not> px_accepting s \<and> all_done s \<and> n = px_counts s)"

lemma proxy_run_snoc:
  "list_all goes_on xs \<Longrightarrow> proxy_run cfg (xs @ [x]) = accept_loop (effectiveScope cfg) [x] (proxy_run cfg xs)"
  by (simp add: proxy_run_def accept_loop_append)

lemma net_emit_simps [simp]:
  "px_ctx (net_emit b evs s) = px_ctx s" "px_listening (net_emit b evs s) = px_listening s"
  "px_accepting (net_emit b evs s) = px_accepting s" "px_counts (net_emit b evs s) = px_counts s"
  "px_conns (net_emit b evs s) = px_conns s" "px_accepts (net_emit b evs s) = px_accepts s"
  "px_sent (net_emit b evs s) = px_sent s"
  "px_events (net_emit b evs s) = px_events s @ (if b then evs else [])"
  by (simp_all add: net_emit_def)

lemma accept_conn_simps:
  "px_conns (accept_conn cfg b q r s) = px_conns s @ [new_conn (pc_total (px_counts s) + 1) (flt_less (Fin q) (effectiveScope cfg))]"
  "px_events (accept_conn cfg b q r s) = px_events s @
     (if b then [ConnAccepted (pc_total (px_counts s) + 1) r (flt_less (Fin q) (effectiveScope cfg))] else [])"
  "px_counts (accept_conn cfg b q r s) = accept_loop (effectiveScope cfg) [Conn q] (px_counts s)"
  "px_accepts (accept_conn cfg b q r s) = px_accepts s @ [Conn q]"
  "px_sent (accept_conn cfg b q r s) = px_sent s" "px_accepting (accept_conn cfg b q r s) = px_accepting s"
  by (simp_all add: accept_conn_def Let_def)

lemma accept_total: "pc_total (accept_loop scope [Conn q] c) = pc_total c + 1"
  by (simp add: Let_def)

lemma conns_ok_accept:
  assumes "conns_ok tx cfg b s" and "pc_total (px_counts s) = int (length (px_conns s))"
  shows "conns_ok tx cfg b (accept_conn cfg b q r s)"
  using assms
  by (auto simp: conns_ok_def accept_conn_simps nth_append less_Suc_eq new_conn_ok terminal_def)
    (simp_all add: new_conn_def)

lemma conns_ok_step:
  assumes ok: "conns_ok tx cfg b s" and i: "i < length (px_conns s)"
    and step: "conn_step tx cfg ctx (px_conns s ! i) a evs c"
  shows "conns_ok tx cfg b (net_emit b evs (s\<lparr>px_conns := (px_conns s)[i := c]\<rparr>))"
proof -
  from ok i have c: "conn_ok tx cfg (px_conns s ! i)" "cn_id (px_conns s ! i) = int i + 1" by (auto simp: conns_ok_def)
  note ev = conn_step_events [OF step c(1)]
  from ok i show ?thesis unfolding conns_ok_def
    using conn_step_ok [OF step c(1)] ev c(2) by (auto simp: nth_list_update)
qed

lemma proxy_step_ok:
  assumes "proxy_step tx cfg b s a s'" and "conns_ok tx cfg b s" and "counts_ok cfg s"
  shows "conns_ok tx cfg b s' \<and> counts_ok cfg s'"
  using assms(1)
proof (cases rule: proxy_step.cases)
  case (accepts q remote)
  have n: "pc_total (px_counts s) = int (length (px_conns s))" using assms(3) unfolding counts_ok_def by blast
  have "px_sent s = None" using assms(3) accepts by (auto simp: counts_ok_def split: option.splits)
  then have "counts_ok cfg (accept_conn cfg b q remote s)" using assms(3) accepts n
    unfolding counts_ok_def accept_conn_simps by (simp add: proxy_run_snoc accept_total goes_on_def del: accept_loop.simps)
  then show ?thesis using accepts conns_ok_accept [OF assms(2) n] by simp
next
  case (accept_fails permanent)
  then show ?thesis using assms(2,3)
    by (auto simp: counts_ok_def conns_ok_def accept_error_def proxy_run_snoc goes_on_def split: option.splits)
next
  case accept_closed
  then show ?thesis using assms(2,3)
    by (auto simp: counts_ok_def conns_ok_def accept_error_def proxy_run_snoc goes_on_def split: option.splits)
next
  case (connection i a evs c)
  have "all_done s \<Longrightarrow> False" using connection assms(2) conn_step_events(3) [OF connection(4)]
    by (auto simp: all_done_def conns_ok_def list_all_length)
  then have "px_sent s = None" using assms(3) by (auto simp: counts_ok_def split: option.splits)
  then show ?thesis using connection assms(3) conns_ok_step [OF assms(2) connection(3,4)]
    by (auto simp: counts_ok_def)
qed (use assms(2,3) in \<open>auto simp: counts_ok_def conns_ok_def proxy_send_def all_done_def split: option.splits\<close>)

lemma proxy_init_ok: "conns_ok tx cfg b proxy_init \<and> counts_ok cfg proxy_init"
  by (simp add: conns_ok_def counts_ok_def proxy_init_def proxy_run_def no_counts_def)

lemma proxy_steps_ok:
  "proxy_steps tx cfg b s as s' \<Longrightarrow> conns_ok tx cfg b s \<and> counts_ok cfg s \<Longrightarrow> conns_ok tx cfg b s' \<and> counts_ok cfg s'"
  by (induction rule: proxy_steps.induct) (auto dest: proxy_step_ok)

lemmas reachable_ok = proxy_steps_ok [OF _ proxy_init_ok]

section \<open>Winding down\<close>

definition proxy_measure :: "proxy \<Rightarrow> nat" where
  "proxy_measure s =
     sum_list (map conn_measure (px_conns s)) + (if px_listening s then 1 else 0) +
     (if px_accepting s then 1 else 0) + (if px_sent s = None then 1 else 0)"

lemma sum_list_decrease:
  "i < length xs \<Longrightarrow> f y < f (xs ! i) \<Longrightarrow> sum_list (map f (xs[i := y])) < sum_list (map f xs :: nat list)"
proof (induction xs arbitrary: i)
  case (Cons x xs)
  then show ?case by (cases i) auto
qed simp

lemma own_step_measure:
  assumes "proxy_step tx cfg b s Own s'" and "conns_ok tx cfg b s"
  shows "proxy_measure s' < proxy_measure s"
  using assms(1)
proof (cases rule: proxy_step.cases)
  case (connection i a evs c)
  then have step: "conn_step tx cfg (px_ctx s) (px_conns s ! i) Internal evs c"
    by (cases a) (auto simp: proxy_act_of_def)
  have "conn_measure c < conn_measure (px_conns s ! i)"
    using conn_step_measure [OF step] assms(2) connection(3) by (auto simp: conns_ok_def)
  then show ?thesis using connection sum_list_decrease [OF connection(3)] by (simp add: proxy_measure_def)
qed (auto simp: proxy_measure_def accept_error_def proxy_send_def)

lemma own_step_ctx: "proxy_step tx cfg b s a s' \<Longrightarrow> px_ctx s \<Longrightarrow> px_ctx s'"
  by (erule proxy_stepE) (auto simp: accept_conn_def accept_error_def proxy_send_def Let_def)

lemma proxy_progress:
  assumes "conns_ok tx cfg b s" and "px_ctx s" and "px_sent s = None"
  shows "(\<exists>s'. proxy_step tx cfg b s Own s') \<or> (\<exists>i < length (px_conns s). \<exists>d. blocked_in_read cfg (px_conns s ! i) d)"
proof -
  consider "px_listening s" | "\<not> px_listening s" "px_accepting s" | "\<not> px_accepting s" "all_done s"
    | i where "i < length (px_conns s)" "cn_phase (px_conns s ! i) \<noteq> ConnDone"
    by (auto simp: all_done_def list_all_length)
  then show ?thesis
  proof cases
    case 4
    with assms(1,2) have "(\<exists>evs c. conn_step tx cfg (px_ctx s) (px_conns s ! i) Internal evs c) \<or>
        (\<exists>d. blocked_in_read cfg (px_conns s ! i) d)"
      using conn_progress by (auto simp: conns_ok_def)
    then show ?thesis using 4(1) connection [of i s tx cfg Internal _ _ b] by (auto simp: proxy_act_of_def)
  qed (use assms unblock accept_closed sends in blast)+
qed

lemma winds_down:
  "conns_ok tx cfg b s \<and> counts_ok cfg s \<Longrightarrow> px_ctx s \<Longrightarrow>
   \<exists>n s'. proxy_steps tx cfg b s (replicate n Own) s' \<and>
     (px_sent s' \<noteq> None \<or> (\<exists>i < length (px_conns s'). \<exists>d. blocked_in_read cfg (px_conns s' ! i) d))"
proof (induction "proxy_measure s" arbitrary: s rule: less_induct)
  case less
  show ?case
  proof (cases "px_sent s \<noteq> None \<or> (\<exists>i < length (px_conns s). \<exists>d. blocked_in_read cfg (px_conns s ! i) d)")
    case True
    then show ?thesis using proxy_steps.none [of tx cfg b s] by (intro exI [of _ 0] exI [of _ s]) simp
  next
    case False
    then obtain s' where step: "proxy_step tx cfg b s Own s'" using proxy_progress less.prems by blast
    have "conns_ok tx cfg b s' \<and> counts_ok cfg s'" using proxy_step_ok [OF step] less.prems(1) by simp
    with less.hyps [OF own_step_measure [OF step]] less.prems own_step_ctx [OF step] obtain n s''
      where "proxy_steps tx cfg b s' (replicate n Own) s''"
        "px_sent s'' \<noteq> None \<or> (\<exists>i < length (px_conns s''). \<exists>d. blocked_in_read cfg (px_conns s'' ! i) d)" by blast
    then show ?thesis using proxy_steps.more [OF step] by (intro exI [of _ "Suc n"] exI [of _ s'']) simp
  qed
qed

lemma own_run_bounded:
  "proxy_steps tx cfg b s as s' \<Longrightarrow> set as \<subseteq> {Own} \<Longrightarrow> conns_ok tx cfg b s \<and> counts_ok cfg s \<Longrightarrow>
   length as + proxy_measure s' \<le> proxy_measure s"
proof (induction rule: proxy_steps.induct)
  case (more s a s' as s'')
  then show ?case using own_step_measure [of tx cfg b s s'] proxy_step_ok [OF more(1)] by auto
qed simp

section \<open>A read that nothing interrupts\<close>

lemma conn_step_blocked:
  assumes "conn_step tx cfg ctx c a evs c'" and "blocked_in_read cfg c d" and "a \<noteq> Peer d"
  shows "blocked_in_read cfg c' d"
  using assms(1)
proof (cases rule: conn_step.cases)
  case (piping d' peer w)
  show ?thesis
  proof (cases "d' = d")
    case True
    then show ?thesis using piping(5) assms(2,3) piping(1)
      by (auto simp: blocked_in_read_def elim: worker_step.cases)
  next
    case False
    then show ?thesis using piping assms(2) by (simp add: blocked_in_read_def set_worker_def)
  qed
next
  case streams_done
  then show ?thesis using assms(2) by (metis blocked_in_read_def worker.distinct(7))
qed (use assms(2) in \<open>auto simp: blocked_in_read_def set_worker_def\<close>)

lemma proxy_step_blocked:
  assumes "proxy_step tx cfg b s a s'" and "counts_ok cfg s" and "i < length (px_conns s)"
    and "blocked_in_read cfg (px_conns s ! i) d" and "a \<noteq> PeerActs i d"
  shows "i < length (px_conns s') \<and> blocked_in_read cfg (px_conns s' ! i) d"
  using assms(1)
proof (cases rule: proxy_step.cases)
  case (connection j x evs c)
  then show ?thesis using assms(3-5) conn_step_blocked [OF connection(4)]
    by (cases "j = i") (auto simp: proxy_act_of_def split: conn_act.splits)
qed (use assms in \<open>auto simp: accept_conn_simps accept_error_def proxy_send_def nth_append\<close>)

lemma blocked_not_sent:
  assumes "counts_ok cfg s" and "i < length (px_conns s)" and "blocked_in_read cfg (px_conns s ! i) d"
  shows "px_sent s = None"
  using assms by (auto simp: counts_ok_def all_done_def list_all_length blocked_in_read_def split: option.splits)

lemma blocked_run:
  "proxy_steps tx cfg b s as s' \<Longrightarrow> conns_ok tx cfg b s \<and> counts_ok cfg s \<Longrightarrow> i < length (px_conns s) \<Longrightarrow>
   blocked_in_read cfg (px_conns s ! i) d \<Longrightarrow> PeerActs i d \<notin> set as \<Longrightarrow>
   px_sent s' = None \<and> i < length (px_conns s') \<and> blocked_in_read cfg (px_conns s' ! i) d"
proof (induction rule: proxy_steps.induct)
  case (none s)
  then show ?case using blocked_not_sent by blast
next
  case (more s a s' as s'')
  have "i < length (px_conns s') \<and> blocked_in_read cfg (px_conns s' ! i) d"
    using proxy_step_blocked [OF more(1)] more.prems by auto
  then show ?case using more.IH more.prems proxy_step_ok [OF more(1)] by simp
qed

section \<open>How a stream is closed\<close>

lemma closes_how:
  assumes "conn_step tx cfg ctx c a evs c'" and "conn_ok tx cfg c" and "cn_phase c' = ConnDone"
  shows "(cn_phase c = Streaming \<longrightarrow> (\<forall>d. so_fin (cn_sock c' d) \<and> (reset_seen (cn_worker c d) \<longrightarrow> (\<forall>d'. so_linger0 (cn_sock c' d'))))) \<and>
     (cn_phase c = HoldPost \<longrightarrow> (\<forall>d. \<not> so_fin (cn_sock c' d)))"
  using assms
  by (cases rule: conn_step.cases) (auto simp: conn_ok_defs conn_defs worker_finished_iff split: option.splits)

section \<open>Properties\<close>

text \<open>
  C25. The result of the proxy. It is sent only after the accept loop is left and every connection is over, with
  both sockets closed; the counts it carries are those of the accept loop over what \<open>AcceptTCP\<close> returned, and
  their total is the number of connections.
\<close>

theorem proxy_result:
  assumes "proxy_steps tx cfg emitter proxy_init acts s" and "px_sent s = Some n"
  shows "n = proxy_run cfg (px_accepts s) \<and> pc_total n = int (length (px_conns s)) \<and> \<not> px_accepting s \<and>
     (\<forall>c \<in> set (px_conns s). cn_phase c = ConnDone \<and> (\<forall>d. \<not> so_open (cn_sock c d)))"
proof -
  note ok = reachable_ok [OF assms(1)]
  from ok assms(2) have n: "n = px_counts s" "\<not> px_accepting s" "all_done s" by (auto simp: counts_ok_def)
  have "cn_phase c = ConnDone \<and> (\<forall>d. \<not> so_open (cn_sock c d))" if "c \<in> set (px_conns s)" for c
  proof -
    from that n(3) have "cn_phase c = ConnDone" by (auto simp: all_done_def list_all_iff)
    moreover have "conn_ok tx cfg c" using that ok by (auto simp: conns_ok_def in_set_conv_nth)
    ultimately show ?thesis by (simp add: conn_ok_defs all_streams)
  qed
  with n ok show ?thesis unfolding counts_ok_def by auto
qed

definition sample_net :: "toxic_link list \<Rightarrow> net_config" where
  "sample_net toxics = \<lparr>nc_base = \<lparr>fc_duration = Second, fc_ramp_up = 0, fc_ramp_down = 0\<rparr>, nc_listen = '':1'',
     nc_upstream = ''u:2'', nc_scope = Fin 0, nc_toxics = toxics, nc_external = False\<rparr>"

lemma sample_net_simps [simp]:
  "nc_scope (sample_net toxics) = Fin 0" "nc_toxics (sample_net toxics) = toxics" "nc_upstream (sample_net toxics) = ''u:2''"
  by (simp_all add: sample_net_def)

lemma proxy_steps_one: "proxy_step tx cfg b s a s' \<Longrightarrow> proxy_steps tx cfg b s [a] s'"
  by (rule proxy_steps.more [OF _ proxy_steps.none])

lemma proxy_steps_snoc:
  "proxy_steps tx cfg b s as s' \<Longrightarrow> proxy_step tx cfg b s' a s'' \<Longrightarrow> proxy_steps tx cfg b s (as @ [a]) s''"
  by (induction rule: proxy_steps.induct) (auto intro: proxy_steps.intros)

text \<open>A run of the only connection, from its accept on.\<close>

definition with_conn :: "net_config \<Rightarrow> conn \<Rightarrow> proxy \<Rightarrow> bool" where
  "with_conn cfg c s \<longleftrightarrow> (\<exists>acts. proxy_steps (\<lambda>_ _. 0) cfg True proxy_init acts s) \<and> px_conns s = [c] \<and>
     px_sent s = None \<and> px_listening s \<and> px_accepting s \<and> \<not> px_ctx s"

lemma with_conn_accept:
  assumes "nc_scope cfg = Fin 0"
  obtains s where "with_conn cfg (new_conn 1 True) s"
proof -
  have "proxy_step (\<lambda>_ _. 0) cfg True proxy_init Arrives (accept_conn cfg True 0 ''peer'' proxy_init)"
    by (rule accepts) (simp_all add: proxy_init_def)
  from proxy_steps_one [OF this] show ?thesis
    by (intro that) (auto simp: with_conn_def accept_conn_def proxy_init_def no_counts_def effectiveScope_def assms)
qed

lemma with_conn_step:
  assumes "with_conn cfg c s" and "conn_step (\<lambda>_ _. 0) cfg False c a evs c'"
  obtains s' where "with_conn cfg c' s'"
proof -
  from assms(1) obtain acts where run: "proxy_steps (\<lambda>_ _. 0) cfg True proxy_init acts s" and s: "px_conns s = [c]" "px_sent s = None"
    "px_listening s" "px_accepting s" "\<not> px_ctx s"
    by (auto simp: with_conn_def)
  have "proxy_step (\<lambda>_ _. 0) cfg True s (proxy_act_of 0 a) (net_emit True evs (s\<lparr>px_conns := (px_conns s)[0 := c']\<rparr>))"
    by (rule connection) (simp_all add: s assms(2))
  from proxy_steps_snoc [OF run this] show ?thesis by (intro that) (auto simp: with_conn_def s)
qed

theorem proxy_result_witness:
  "\<exists>acts s n. proxy_steps (\<lambda>_ _. 0) (sample_net [\<lparr>tl_toxic = LatencyToxic 5 0, tl_direction = Upstream\<rparr>]) True proxy_init acts s \<and>
     px_sent s = Some n \<and> pc_total n = 1 \<and> \<not> px_accepting s"
proof -
  let ?cfg = "sample_net [\<lparr>tl_toxic = LatencyToxic 5 0, tl_direction = Upstream\<rparr>]"
  obtain s where "with_conn ?cfg (new_conn 1 True) s" by (rule with_conn_accept [OF sample_net_simps(1)])
  moreover have "conn_step (\<lambda>_ _. 0) ?cfg False (new_conn 1 True) Internal [] ((new_conn 1 True)\<lparr>cn_phase := Dialing\<rparr>)"
    using pre_clear [of "new_conn 1 True" False ?cfg "[]"] by (simp add: new_conn_def hijack_events_def)
  ultimately obtain s1 where s1: "with_conn ?cfg ((new_conn 1 True)\<lparr>cn_phase := Dialing\<rparr>) s1" by (rule with_conn_step)
  obtain s2 where "with_conn ?cfg (conn_done ((new_conn 1 True)\<lparr>cn_phase := Dialing\<rparr>)) s2"
    by (rule with_conn_step [OF s1 dial_failed]) simp_all
  then obtain acts where run: "proxy_steps (\<lambda>_ _. 0) ?cfg True proxy_init acts s2"
    and s2: "px_conns s2 = [conn_done ((new_conn 1 True)\<lparr>cn_phase := Dialing\<rparr>)]" "px_sent s2 = None" "px_listening s2" "px_accepting s2"
    by (auto simp: with_conn_def)
  have "proxy_step (\<lambda>_ _. 0) ?cfg True s2 Arrives (accept_error True s2)" by (rule accept_fails) (simp_all add: s2)
  note run1 = proxy_steps_snoc [OF run this]
  have "proxy_step (\<lambda>_ _. 0) ?cfg True (accept_error True s2) Own (proxy_send (accept_error True s2))"
    by (rule sends) (simp_all add: s2 accept_error_def all_done_def conn_done_def)
  note run2 = proxy_steps_snoc [OF run1 this]
  have sent: "px_sent (proxy_send (accept_error True s2)) = Some (px_counts (accept_error True s2))" by (simp add: proxy_send_def)
  from proxy_result [OF run2 sent] run2 sent s2(1) show ?thesis
    by (intro exI [of _ "acts @ [Arrives] @ [Own]"] exI [of _ "proxy_send (accept_error True s2)"])
      (auto simp: proxy_send_def accept_error_def)
qed

text \<open>
  C19. Once its context is done the proxy winds down by its own steps, of which a run has a bounded number, until it
  has sent its result or the only thing left to wait for is a peer: a worker of a toxic other than \<open>Blackhole\<close>
  sits in a read that the context does not interrupt.
\<close>

theorem proxy_winds_down:
  assumes "proxy_steps tx cfg emitter proxy_init acts s" and "px_ctx s"
  shows "(\<exists>n s'. proxy_steps tx cfg emitter s (replicate n Own) s' \<and>
       ((\<exists>r. px_sent s' = Some r) \<or> (\<exists>i < length (px_conns s'). \<exists>d. blocked_in_read cfg (px_conns s' ! i) d))) \<and>
     (\<forall>n s'. proxy_steps tx cfg emitter s (replicate n Own) s' \<longrightarrow> n \<le> proxy_measure s)"
proof -
  note ok = reachable_ok [OF assms(1)]
  from winds_down [OF ok assms(2)] obtain n s' where "proxy_steps tx cfg emitter s (replicate n Own) s'"
    "px_sent s' \<noteq> None \<or> (\<exists>i < length (px_conns s'). \<exists>d. blocked_in_read cfg (px_conns s' ! i) d)" by blast
  moreover have "n \<le> proxy_measure s" if run: "proxy_steps tx cfg emitter s (replicate n Own) s'" for n s'
  proof -
    have "set (replicate n Own) \<subseteq> {Own}" by auto
    from own_run_bounded [OF run this ok] show ?thesis by simp
  qed
  ultimately show ?thesis by blast
qed

lemma own_steps_empty: "proxy_steps tx cfg b s as s' \<Longrightarrow> set as \<subseteq> {Own} \<Longrightarrow> px_conns s = [] \<Longrightarrow> px_conns s' = []"
proof (induction rule: proxy_steps.induct)
  case (more s a s' as s'')
  from more.hyps(1) more.prems have "px_conns s' = []"
    by (auto elim!: proxy_stepE simp: accept_error_def proxy_send_def Let_def)
  with more show ?case by auto
qed simp

text \<open>Without a connection the result is sent.\<close>

theorem proxy_winds_down_witness:
  "\<exists>n s'. n \<le> proxy_measure (proxy_init\<lparr>px_ctx := True\<rparr>) \<and>
     proxy_steps (\<lambda>_ _. 0) (sample_net []) True (proxy_init\<lparr>px_ctx := True\<rparr>) (replicate n Own) s' \<and> px_sent s' \<noteq> None"
proof -
  let ?s = "proxy_init\<lparr>px_ctx := True\<rparr>"
  note W = proxy_winds_down [OF proxy_steps_one [OF expires], of "\<lambda>_ _. 0" "sample_net []" True, simplified]
  then obtain n s' where run: "proxy_steps (\<lambda>_ _. 0) (sample_net []) True ?s (replicate n Own) s'"
    and e: "(\<exists>r. px_sent s' = Some r) \<or> (\<exists>i < length (px_conns s'). \<exists>d. blocked_in_read (sample_net []) (px_conns s' ! i) d)"
    by blast
  have "px_conns s' = []" by (rule own_steps_empty [OF run]) (auto simp: proxy_init_def)
  with run e W show ?thesis by (intro exI [of _ n] exI [of _ s']) auto
qed

text \<open>
  C13. Such a worker keeps the whole fault from ending. While its peer neither sends nor closes, no run, the expiry of
  the duration and \<open>Stop\<close> included, sends a result or closes the connection's sockets.
\<close>

theorem idle_peer_blocks_result:
  assumes "proxy_steps tx cfg emitter proxy_init acts s" and "i < length (px_conns s)"
    and "blocked_in_read cfg (px_conns s ! i) d"
    and "proxy_steps tx cfg emitter s acts' s'" and "PeerActs i d \<notin> set acts'"
  shows "px_sent s' = None \<and> blocked_in_read cfg (px_conns s' ! i) d \<and> (\<forall>d'. so_open (cn_sock (px_conns s' ! i) d'))"
proof -
  note ok = reachable_ok [OF assms(1)]
  from blocked_run [OF assms(4) ok assms(2,3,5)]
  have b: "px_sent s' = None" "i < length (px_conns s')" "blocked_in_read cfg (px_conns s' ! i) d" by simp_all
  from b(2) proxy_steps_ok [OF assms(4) ok] have "conn_ok tx cfg (px_conns s' ! i)" by (auto simp: conns_ok_def)
  with b show ?thesis by (auto simp: conn_ok_defs blocked_in_read_def all_streams)
qed

theorem idle_peer_blocks_result_witness:
  "\<exists>s. px_ctx s \<and> (\<exists>acts. proxy_steps (\<lambda>_ _. 0) (sample_net [\<lparr>tl_toxic = LatencyToxic 5 0, tl_direction = Upstream\<rparr>]) True
     proxy_init acts s) \<and> px_sent s = None \<and> (\<forall>d. so_open (cn_sock (px_conns s ! 0) d))"
proof -
  let ?cfg = "sample_net [\<lparr>tl_toxic = LatencyToxic 5 0, tl_direction = Upstream\<rparr>]"
  let ?c1 = "(new_conn 1 True)\<lparr>cn_phase := Dialing\<rparr>"
  let ?c2 = "?c1\<lparr>cn_phase := Dialed, cn_worker := \<lambda>_. Piping False [], cn_sock := (cn_sock ?c1)(Up := new_socket)\<rparr>"
  let ?c4 = "set_worker Up (Piping True []) (?c2\<lparr>cn_phase := Streaming\<rparr>)"
  obtain s where s: "with_conn ?cfg (new_conn 1 True) s" by (rule with_conn_accept [OF sample_net_simps(1)])
  have "conn_step (\<lambda>_ _. 0) ?cfg False (new_conn 1 True) Internal [] ?c1"
    using pre_clear [of "new_conn 1 True" False ?cfg "[]"] by (simp add: new_conn_def hijack_events_def)
  with s obtain s1 where s1: "with_conn ?cfg ?c1 s1" by (rule with_conn_step)
  have "conn_step (\<lambda>_ _. 0) ?cfg False ?c1 Internal [UpstreamDial 1 ''u:2'' False] ?c2"
    using dial_ok [of ?c1 "\<lambda>_ _. 0" ?cfg False] by (simp add: new_conn_def)
  with s1 obtain s2 where s2: "with_conn ?cfg ?c2 s2" by (rule with_conn_step)
  have "conn_step (\<lambda>_ _. 0) ?cfg False ?c2 Internal [] (?c2\<lparr>cn_phase := Streaming\<rparr>)"
    using post_clear [of ?c2 False ?cfg "[]"] by (simp add: hijack_events_def)
  with s2 obtain s3 where s3: "with_conn ?cfg (?c2\<lparr>cn_phase := Streaming\<rparr>) s3" by (rule with_conn_step)
  have "worker_step (\<lambda>_ _. 0) (toxic_of ?cfg Up) False False (Piping False []) (Piping True [])" by (rule begin_read) simp
  then have "conn_step (\<lambda>_ _. 0) ?cfg False (?c2\<lparr>cn_phase := Streaming\<rparr>) Internal [] ?c4"
    using piping [of "?c2\<lparr>cn_phase := Streaming\<rparr>" "\<lambda>_ _. 0" ?cfg Up False False "Piping True []"] by simp
  with s3 obtain s4 where s4: "with_conn ?cfg ?c4 s4" by (rule with_conn_step)
  then obtain acts where run: "proxy_steps (\<lambda>_ _. 0) ?cfg True proxy_init acts s4" and c: "px_conns s4 = [?c4]"
    by (auto simp: with_conn_def)
  have b: "blocked_in_read ?cfg (px_conns s4 ! 0) Up"
    by (simp add: c blocked_in_read_def set_worker_def toxic_of_def split_toxics_def)
  note step = proxy_steps_one [OF expires [of "\<lambda>_ _. 0" ?cfg True s4]]
  from idle_peer_blocks_result [OF run _ b step] proxy_steps_snoc [OF run expires] c show ?thesis
    by (intro exI [of _ "s4\<lparr>px_ctx := True\<rparr>"]) auto
qed

text \<open>
  How a connection is reset. When a toxic asks for the reset in the middle of a stream, both directions have
  had their write side closed in order before the reset is sent, so the peers see a clean end of the stream first;
  only a connection taken after the dial is reset without.
\<close>

theorem reset_after_fin:
  assumes "proxy_steps tx cfg emitter proxy_init acts s" and "i < length (px_conns s)"
    and "conn_step tx cfg ctx (px_conns s ! i) a evs c" and "cn_phase c = ConnDone"
  shows "(cn_phase (px_conns s ! i) = Streaming \<longrightarrow>
       (\<forall>d. so_fin (cn_sock c d) \<and> (reset_seen (cn_worker (px_conns s ! i) d) \<longrightarrow> (\<forall>d'. so_linger0 (cn_sock c d'))))) \<and>
     (cn_phase (px_conns s ! i) = HoldPost \<longrightarrow> (\<forall>d. \<not> so_fin (cn_sock c d)))"
proof -
  from reachable_ok [OF assms(1)] assms(2) have "conn_ok tx cfg (px_conns s ! i)" by (auto simp: conns_ok_def)
  from closes_how [OF assms(3) this assms(4)] show ?thesis .
qed

theorem reset_after_fin_witness:
  "\<exists>c :: conn. cn_phase c = ConnDone \<and> so_linger0 (cn_sock c Down) \<and> \<not> so_fin (cn_sock c Down)"
proof -
  let ?cfg = "sample_net [\<lparr>tl_toxic = RSTToxic 0 0, tl_direction = Downstream\<rparr>]"
  let ?c1 = "(new_conn 1 True)\<lparr>cn_phase := Dialing\<rparr>"
  let ?c2 = "?c1\<lparr>cn_phase := Dialed, cn_worker := \<lambda>_. Piping False [], cn_sock := (cn_sock ?c1)(Up := new_socket)\<rparr>"
  let ?c3 = "?c2\<lparr>cn_phase := HoldPost\<rparr>"
  let ?c4 = "conn_done (?c3\<lparr>cn_sock := applyRST (Some (PipeRST ''immediate'' 0)) (cn_sock ?c3)\<rparr>)"
  obtain s where s: "with_conn ?cfg (new_conn 1 True) s" by (rule with_conn_accept [OF sample_net_simps(1)])
  have "conn_step (\<lambda>_ _. 0) ?cfg False (new_conn 1 True) Internal (hijack_events (new_conn 1 True) False [RSTToxic 0 0]) ?c1"
    by (rule pre_clear [of _ False]) (simp_all add: new_conn_def)
  with s obtain s1 where s1: "with_conn ?cfg ?c1 s1" by (rule with_conn_step)
  have "conn_step (\<lambda>_ _. 0) ?cfg False ?c1 Internal [UpstreamDial 1 ''u:2'' False] ?c2"
    using dial_ok [of ?c1 "\<lambda>_ _. 0" ?cfg False] by (simp add: new_conn_def)
  with s1 obtain s2 where s2: "with_conn ?cfg ?c2 s2" by (rule with_conn_step)
  have "conn_step (\<lambda>_ _. 0) ?cfg False ?c2 Internal (hijack_events ?c2 True [RSTToxic 0 0]) ?c3"
    by (rule post_taken [of _ False _ _ "Some (PipeRST ''immediate'' 0)"]) simp_all
  with s2 obtain s3 where s3: "with_conn ?cfg ?c3 s3" by (rule with_conn_step)
  then obtain acts where run: "proxy_steps (\<lambda>_ _. 0) ?cfg True proxy_init acts s3" and c: "px_conns s3 = [?c3]"
    by (auto simp: with_conn_def)
  have step: "conn_step (\<lambda>_ _. 0) ?cfg False (px_conns s3 ! 0) Internal [ConnClosed 1 (Some ''hijack_post_dial'')] ?c4"
    using post_done [of ?c3 False ?cfg "Some (PipeRST ''immediate'' 0)" False "\<lambda>_ _. 0"] by (simp add: c new_conn_def)
  have over: "cn_phase ?c4 = ConnDone" by (simp add: conn_done_def)
  have fin: "\<not> so_fin (cn_sock ?c4 Down)" using reset_after_fin [OF run _ step over] c by simp
  have linger: "so_linger0 (cn_sock ?c4 Down)" by (simp add: conn_defs is_rst_def new_conn_def)
  show ?thesis by (rule exI [of _ ?c4]) (intro conjI over linger fin)
qed

text \<open>
  Every affected connection is accounted for once: after its events at most one is the last for its number,
  and there is one exactly when the connection is over.
\<close>

theorem one_terminal_event:
  assumes "proxy_steps tx cfg True proxy_init acts s" and "i < length (px_conns s)" and "cn_affected (px_conns s ! i)"
  shows "terminals (int i + 1) (px_events s) = (if cn_phase (px_conns s ! i) = ConnDone then 1 else 0)"
  using reachable_ok [OF assms(1)] assms(2,3) by (auto simp: conns_ok_def)

theorem one_terminal_event_witness:
  "\<exists>acts s. proxy_steps (\<lambda>_ _. 0) (sample_net []) True proxy_init acts s \<and> terminals 1 (px_events s) = 0"
proof -
  obtain s where "with_conn (sample_net []) (new_conn 1 True) s" by (rule with_conn_accept [OF sample_net_simps(1)])
  then obtain acts where run: "proxy_steps (\<lambda>_ _. 0) (sample_net []) True proxy_init acts s" and c: "px_conns s = [new_conn 1 True]"
    by (auto simp: with_conn_def)
  from one_terminal_event [OF run, of 0] run c show ?thesis by (auto simp: new_conn_def)
qed

text \<open>The ways a start ends: an invalid configuration and a failing listener are errors, an external proxy never listens.\<close>

theorem proxy_start_outcome:
  "(proxy_Start cfg listen_ok = StartedExternal \<longleftrightarrow> nc_external cfg \<and> FaultConfig_Validate (nc_base cfg) = None) \<and>
   (proxy_Start cfg listen_ok = ListenFailed \<longrightarrow> \<not> nc_external cfg \<and> \<not> listen_ok \<and> nc_toxics cfg \<noteq> []) \<and>
   (snd (runExternal cfg apply_err remove_err) = apply_err) \<and>
   (ExternalRemove \<in> set (fst (runExternal cfg apply_err remove_err)) \<longleftrightarrow> apply_err = None)"
  by (auto simp: proxy_Start_def net_Validate_def runExternal_def Let_def split: option.splits if_splits)

end
