(* ===== verification/Go_Encoding.thy ===== *)
theory Go_Encoding
  imports Go_Stdlib "HOL-Library.Monad_Syntax"
begin

text \<open>
  How Go's \<open>encoding/json\<close> writes strings, byte slices and instants, and reads them back: the replacement of
  bytes that are no UTF-8, standard base64, and RFC 3339 with the proleptic Gregorian calendar.
\<close>

section \<open>UTF-8\<close>

definition byte_in :: "nat \<Rightarrow> nat \<Rightarrow> char \<Rightarrow> bool" where
  "byte_in lo hi c \<longleftrightarrow> lo \<le> of_char c \<and> of_char c \<le> hi"

text \<open>The length of the rune at the start of a string, 0 when there is none that is well formed.\<close>

definition starts_in :: "(nat \<times> nat) list \<Rightarrow> string \<Rightarrow> bool" where
  "starts_in bs s \<longleftrightarrow> length bs \<le> length s \<and> list_all2 (\<lambda>(lo, hi) c. byte_in lo hi c) bs (take (length bs) s)"

definition rune_len :: "string \<Rightarrow> nat" where
  "rune_len s =
     (let cont = (0x80, 0xBF)
      in if starts_in [(0, 0x7F)] s then 1
         else if starts_in [(0xC2, 0xDF), cont] s then 2
         else if starts_in [(0xE0, 0xE0), (0xA0, 0xBF), cont] s \<or> starts_in [(0xE1, 0xEC), cont, cont] s \<or>
                 starts_in [(0xED, 0xED), (0x80, 0x9F), cont] s \<or> starts_in [(0xEE, 0xEF), cont, cont] s then 3
         else if starts_in [(0xF0, 0xF0), (0x90, 0xBF), cont, cont] s \<or> starts_in [(0xF1, 0xF3), cont, cont, cont] s \<or>
                 starts_in [(0xF4, 0xF4), (0x80, 0x8F), cont, cont] s then 4
         else 0)"

lemma rune_len_Nil [simp]: "rune_len [] = 0"
  by (simp add: rune_len_def starts_in_def Let_def)

lemma rune_len_ascii: "(of_char c :: nat) < 128 \<Longrightarrow> rune_len (c # s) = 1"
  by (simp add: rune_len_def starts_in_def byte_in_def)

text \<open>A byte that starts no rune becomes U+FFFD.\<close>

definition replacement :: string where
  "replacement = [CHR 0xEF, CHR 0xBF, CHR 0xBD]"

function coerce_utf8 :: "string \<Rightarrow> string" where
  "coerce_utf8 s =
     (if s = [] then []
      else if rune_len s = 0 then replacement @ coerce_utf8 (tl s)
      else take (rune_len s) s @ coerce_utf8 (drop (rune_len s) s))"
  by pat_completeness auto
termination by (relation "measure length") auto

declare coerce_utf8.simps [simp del]

function valid_utf8 :: "string \<Rightarrow> bool" where
  "valid_utf8 s = (if s = [] then True else if rune_len s = 0 then False else valid_utf8 (drop (rune_len s) s))"
  by pat_completeness auto
termination by (relation "measure length") auto

declare valid_utf8.simps [simp del]

lemma coerce_valid: "valid_utf8 s \<Longrightarrow> coerce_utf8 s = s"
proof (induction s rule: valid_utf8.induct)
  case (1 s)
  show ?case
  proof (cases "s = []")
    case False
    with 1(2) have "rune_len s \<noteq> 0" "valid_utf8 (drop (rune_len s) s)" by (subst (asm) valid_utf8.simps, simp split: if_splits)+
    with 1(1) False show ?thesis by (subst coerce_utf8.simps) simp
  qed (simp add: coerce_utf8.simps)
qed

lemma valid_utf8_ascii: "list_all (\<lambda>c. (of_char c :: nat) < 128) s \<Longrightarrow> valid_utf8 s"
proof (induction s)
  case (Cons c s)
  then have "rune_len (c # s) = 1" by (simp add: rune_len_ascii)
  with Cons show ?case by (subst valid_utf8.simps) simp
qed (simp add: valid_utf8.simps)

section \<open>Base64\<close>

definition b64_alphabet :: string where
  "b64_alphabet = ''ABCDEFGHIJKLMNOPQRSTUVWXYZabcdefghijklmnopqrstuvwxyz0123456789+/''"

definition b64_char :: "nat \<Rightarrow> char" where
  "b64_char n = b64_alphabet ! n"

definition b64_val :: "char \<Rightarrow> nat option" where
  "b64_val c = map_of (zip b64_alphabet [0..<64]) c"

fun b64_encode :: "string \<Rightarrow> string" where
  "b64_encode [] = []"
| "b64_encode [a] =
     (let x = of_char a in [b64_char (x div 4), b64_char (x mod 4 * 16), CHR ''='', CHR ''=''])"
| "b64_encode [a, b] =
     (let x = of_char a; y = of_char b
      in [b64_char (x div 4), b64_char (x mod 4 * 16 + y div 16), b64_char (y mod 16 * 4), CHR ''=''])"
| "b64_encode (a # b # c # r) =
     (let x = of_char a; y = of_char b; z = of_char c
      in [b64_char (x div 4), b64_char (x mod 4 * 16 + y div 16), b64_char (y mod 16 * 4 + z div 64), b64_char (z mod 64)]
         @ b64_encode r)"

text \<open>Four characters at a time; the decoder skips line breaks and does not look at the bits padding leaves over.\<close>

fun b64_quads :: "string \<Rightarrow> string option" where
  "b64_quads [] = Some []"
| "b64_quads (p # q # r # s # rest) =
     (case (b64_val p, b64_val q) of
        (Some w, Some x) \<Rightarrow>
          (let a = char_of (w * 4 + x div 16)
           in if s = CHR ''='' then
                (if rest \<noteq> [] then None
                 else if r = CHR ''='' then Some [a]
                 else (case b64_val r of Some y \<Rightarrow> Some [a, char_of (x mod 16 * 16 + y div 4)] | None \<Rightarrow> None))
              else (case (b64_val r, b64_val s, b64_quads rest) of
                      (Some y, Some z, Some t) \<Rightarrow>
                        Some (a # char_of (x mod 16 * 16 + y div 4) # char_of (y mod 4 * 64 + z) # t)
                    | _ \<Rightarrow> None))
      | _ \<Rightarrow> None)"
| "b64_quads _ = None"

definition b64_decode :: "string \<Rightarrow> string option" where
  "b64_decode s = b64_quads (filter (\<lambda>c. of_char c \<noteq> (10::nat) \<and> of_char c \<noteq> (13::nat)) s)"

lemma b64_table: "n < 64 \<Longrightarrow> b64_val (b64_char n) = Some n \<and> b64_char n \<noteq> CHR ''='' \<and>
    of_char (b64_char n) \<noteq> (10::nat) \<and> of_char (b64_char n) \<noteq> (13::nat)"
proof -
  have "list_all (\<lambda>n. b64_val (b64_char n) = Some n \<and> b64_char n \<noteq> CHR ''='' \<and>
    of_char (b64_char n) \<noteq> (10::nat) \<and> of_char (b64_char n) \<noteq> (13::nat)) [0..<64]" by code_simp
  then show "n < 64 \<Longrightarrow> ?thesis" by (simp add: list_all_iff)
qed

lemma byte_bound: "(of_char c :: nat) < 256"
  by simp

lemma digit_glue: "(q::nat) < m \<Longrightarrow> (a * m + q) mod m = q" "q < m \<Longrightarrow> (a * m + q) div m = a"
  by simp_all

lemma b64_bounds:
  fixes x y z :: nat
  assumes "x < 256" "y < 256" "z < 256"
  shows "x div 4 < 64" "x mod 4 * 16 < 64" "x mod 4 * 16 + y div 16 < 64" "y mod 16 * 4 < 64" "y mod 16 * 4 + z div 64 < 64" "z mod 64 < 64"
proof -
  have "x mod 4 < 4" "y mod 16 < 16" "y div 16 < 16" "z div 64 < 4" "x div 4 < 64" "z mod 64 < 64"
    using assms by (simp_all add: less_mult_imp_div_less)
  then show "x div 4 < 64" "x mod 4 * 16 < 64" "x mod 4 * 16 + y div 16 < 64" "y mod 16 * 4 < 64"
    "y mod 16 * 4 + z div 64 < 64" "z mod 64 < 64" by linarith+
qed

lemma b64_first: "(y::nat) < 256 \<Longrightarrow> x div 4 * 4 + (x mod 4 * 16 + y div 16) div 16 = x"
  using digit_glue(2) [of "y div 16" 16 "x mod 4"] by simp

lemma b64_second:
  assumes "(y::nat) < 256" and "z < 256"
  shows "(x mod 4 * 16 + y div 16) mod 16 * 16 + (y mod 16 * 4 + z div 64) div 4 = y"
  using digit_glue(1) [of "y div 16" 16 "x mod 4"] digit_glue(2) [of "z div 64" 4 "y mod 16"] assms by simp

lemma b64_third: "(z::nat) < 256 \<Longrightarrow> (y mod 16 * 4 + z div 64) mod 4 * 64 + z mod 64 = z"
  using digit_glue(1) [of "z div 64" 4 "y mod 16"] by simp

lemmas b64_pieces = b64_bounds b64_first b64_first [where y = 0, simplified] b64_second b64_second [where z = 0, simplified] b64_third

lemma b64_encode_chars: "c \<in> set (b64_encode s) \<Longrightarrow> of_char c \<noteq> (10::nat) \<and> of_char c \<noteq> (13::nat)"
proof (induction s rule: b64_encode.induct)
  case (4 a b c r)
  then show ?case using b64_table b64_bounds [OF byte_bound byte_bound byte_bound] by (auto simp: Let_def)
qed (use b64_table b64_bounds [OF byte_bound byte_bound byte_bound] in \<open>auto simp: Let_def\<close>)

lemma b64_quads_encode: "b64_quads (b64_encode s) = Some s"
proof (induction s rule: b64_encode.induct)
  case (2 a)
  note B = b64_bounds [OF byte_bound [of a] byte_bound byte_bound]
  show ?case using b64_table [OF B(1)] b64_table [OF B(2)] by (simp add: Let_def)
next
  case (3 a b)
  note B = b64_bounds [OF byte_bound [of a] byte_bound [of b] byte_bound]
  show ?case using b64_table [OF B(1)] b64_table [OF B(3)] b64_table [OF B(4)] b64_first [OF byte_bound [of b], of "of_char a"]
      b64_second [OF byte_bound [of b], of 0 "of_char a"] by (simp add: Let_def)
next
  case (4 a b c r)
  note B = b64_bounds [OF byte_bound [of a] byte_bound [of b] byte_bound [of c]]
  show ?case using 4 b64_table [OF B(1)] b64_table [OF B(3)] b64_table [OF B(5)] b64_table [OF B(6)]
      b64_first [OF byte_bound [of b], of "of_char a"] b64_second [OF byte_bound [of b] byte_bound [of c], of "of_char a"]
      b64_third [OF byte_bound [of c], of "of_char b"] by (simp add: Let_def)
qed simp

lemma b64_round_trip: "b64_decode (b64_encode s) = Some s"
proof -
  have "filter (\<lambda>c. of_char c \<noteq> (10::nat) \<and> of_char c \<noteq> (13::nat)) (b64_encode s) = b64_encode s"
    using b64_encode_chars by (simp add: filter_id_conv)
  then show ?thesis by (simp add: b64_decode_def b64_quads_encode)
qed

section \<open>The calendar\<close>

text \<open>The index and the rest of a number in consecutive intervals of the given lengths.\<close>

fun locate :: "nat list \<Rightarrow> nat \<Rightarrow> nat \<times> nat" where
  "locate [] n = (0, n)"
| "locate (l # ls) n = (if n < l then (0, n) else (let (i, r) = locate ls (n - l) in (Suc i, r)))"

lemma locate_exact:
  "locate ls n = (i, r) \<Longrightarrow> n < sum_list ls \<Longrightarrow> i < length ls \<and> r < ls ! i \<and> sum_list (take i ls) + r = n"
proof (induction ls n arbitrary: i r rule: locate.induct)
  case (2 l ls n)
  show ?case
  proof (cases "n < l")
    case False
    obtain j q where jq: "locate ls (n - l) = (j, q)" by fastforce
    moreover have "j < length ls \<and> q < ls ! j \<and> sum_list (take j ls) + q = n - l"
      using 2(1) [OF False jq] 2(3) False by simp
    ultimately show ?thesis using 2(2) False by auto
  qed (use 2 in auto)
qed simp

definition is_leap :: "nat \<Rightarrow> bool" where
  "is_leap y \<longleftrightarrow> y mod 4 = 0 \<and> (y mod 100 \<noteq> 0 \<or> y mod 400 = 0)"

definition month_lengths :: "nat \<Rightarrow> nat list" where
  "month_lengths y = [31, if is_leap y then 29 else 28, 31, 30, 31, 30, 31, 31, 30, 31, 30, 31]"

text \<open>The calendar repeats every 400 years, which have 146097 days.\<close>

definition year_lengths :: "nat list" where
  "year_lengths = map (\<lambda>y. sum_list (month_lengths y)) [0..<400]"

definition civil :: "nat \<Rightarrow> nat \<times> nat \<times> nat" where
  "civil d =
     (let (yi, n) = locate year_lengths (d mod 146097); y = 400 * (d div 146097) + yi; (mi, r) = locate (month_lengths y) n
      in (y, mi + 1, r + 1))"

definition days_of :: "nat \<Rightarrow> nat \<Rightarrow> nat \<Rightarrow> nat" where
  "days_of y m day =
     146097 * (y div 400) + sum_list (take (y mod 400) year_lengths) + sum_list (take (m - 1) (month_lengths y)) + (day - 1)"

lemma year_length: "sum_list (month_lengths y) = (if is_leap y then 366 else 365)"
  by (simp add: month_lengths_def)

text \<open>The four centuries, one by one: the first has 25 leap years, the others 24.\<close>

lemma century_days:
  "(\<Sum>y\<leftarrow>[0..<100]. sum_list (month_lengths y)) = 36525" "(\<Sum>y\<leftarrow>[100..<200]. sum_list (month_lengths y)) = 36524"
  "(\<Sum>y\<leftarrow>[200..<300]. sum_list (month_lengths y)) = 36524" "(\<Sum>y\<leftarrow>[300..<400]. sum_list (month_lengths y)) = 36524"
  unfolding year_length is_leap_def by (simp_all add: upt_conv_Cons del: upt_Suc)

lemma year_lengths_sum: "sum_list year_lengths = 146097"
proof -
  have "[0..<400] = [0..<100] @ [100..<200] @ [200..<300] @ [300..<400::nat]"
    using upt_add_eq_append [of 0 100 300] upt_add_eq_append [of 100 200 200] upt_add_eq_append [of 200 300 100] by simp
  then show ?thesis unfolding year_lengths_def by (simp only: map_append sum_list_append century_days)
qed

lemma length_year_lengths [simp]: "length year_lengths = 400"
  by (simp add: year_lengths_def)

lemma length_month_lengths [simp]: "length (month_lengths y) = 12"
  by (simp add: month_lengths_def)

lemma month_lengths_cycle: "month_lengths (400 * c + y) = month_lengths y"
proof -
  have "(400 * c + y) mod 4 = y mod 4" using mod_mult_self3 [of "100 * c" 4 y] by (simp add: mult.assoc [symmetric])
  moreover have "(400 * c + y) mod 100 = y mod 100" using mod_mult_self3 [of "4 * c" 100 y] by (simp add: mult.assoc [symmetric])
  ultimately show ?thesis by (simp add: month_lengths_def is_leap_def)
qed

lemma civil_days:
  assumes "civil d = (y, m, day)"
  shows "days_of y m day = d \<and> 1 \<le> m \<and> m \<le> 12 \<and> 1 \<le> day \<and> day \<le> month_lengths y ! (m - 1)"
proof -
  obtain yi n where yi: "locate year_lengths (d mod 146097) = (yi, n)" by fastforce
  from locate_exact [OF this] have Y: "yi < 400" "n < year_lengths ! yi" "sum_list (take yi year_lengths) + n = d mod 146097"
    by (simp_all add: year_lengths_sum)
  let ?y = "400 * (d div 146097) + yi"
  obtain mi r where mi: "locate (month_lengths ?y) n = (mi, r)" by fastforce
  have "year_lengths ! yi = sum_list (month_lengths ?y)"
    using Y(1) by (simp add: year_lengths_def month_lengths_cycle)
  with locate_exact [OF mi] Y(2) have M: "mi < 12" "r < month_lengths ?y ! mi" "sum_list (take mi (month_lengths ?y)) + r = n"
    by simp_all
  have e: "y = ?y" "m = mi + 1" "day = r + 1" using assms by (simp_all add: civil_def yi mi)
  have "?y div 400 = d div 146097" "?y mod 400 = yi" using Y(1) by simp_all
  then have "days_of y m day = 146097 * (d div 146097) + d mod 146097"
    unfolding e Y(3) [symmetric] M(3) [symmetric] by (simp only: days_of_def add_diff_cancel_right' add.assoc)
  then show ?thesis using M e by simp
qed

section \<open>RFC 3339\<close>

definition digit_char :: "nat \<Rightarrow> char" where
  "digit_char n = char_of (48 + n mod 10)"

fun pad :: "nat \<Rightarrow> nat \<Rightarrow> string" where
  "pad 0 n = []"
| "pad (Suc k) n = pad k (n div 10) @ [digit_char n]"

definition trim_zeros :: "string \<Rightarrow> string" where
  "trim_zeros s = rev (dropWhile (\<lambda>c. c = CHR ''0'') (rev s))"

text \<open>\<open>Time.MarshalJSON\<close> of an instant in a zone of whole minutes: an error outside the years 0 to 9999.\<close>

definition zone_text :: "int \<Rightarrow> string" where
  "zone_text z =
     (if z = 0 then ''Z''
      else (if z < 0 then CHR ''-'' else CHR ''+'') # pad 2 (nat \<bar>z\<bar> div 60) @ '':'' @ pad 2 (nat \<bar>z\<bar> mod 60))"

definition unix_day :: nat where
  "unix_day = 719528"

definition marshal_time :: "int \<Rightarrow> int \<Rightarrow> string option" where
  "marshal_time z t =
     (let l = t + z * 60 * Second; ns = nat (l mod Second); secs = l div Second; d = secs div 86400 + int unix_day;
          sod = nat (secs mod 86400); (y, m, day) = civil (nat d)
      in if d < 0 \<or> 9999 < y then None
         else Some (pad 4 y @ ''-'' @ pad 2 m @ ''-'' @ pad 2 day @ ''T'' @
                    pad 2 (sod div 3600) @ '':'' @ pad 2 (sod div 60 mod 60) @ '':'' @ pad 2 (sod mod 60) @
                    (if ns = 0 then [] else CHR ''.'' # trim_zeros (pad 9 ns)) @ zone_text z))"

text \<open>\<open>Time.UnmarshalJSON\<close> of a string.\<close>

definition read_num :: "nat \<Rightarrow> nat \<Rightarrow> nat \<Rightarrow> string \<Rightarrow> (nat \<times> string) option" where
  "read_num k lo hi s =
     (let v = nat (digits_val 0 (take k s))
      in if k \<le> length s \<and> list_all is_digit (take k s) \<and> lo \<le> v \<and> v \<le> hi then Some (v, drop k s) else None)"

definition read_char :: "char \<Rightarrow> string \<Rightarrow> string option" where
  "read_char c s = (case s of [] \<Rightarrow> None | x # r \<Rightarrow> if x = c then Some r else None)"

definition read_fraction :: "string \<Rightarrow> nat \<times> string" where
  "read_fraction s =
     (case s of
        c # d # r \<Rightarrow>
          if c = CHR ''.'' \<and> is_digit d
          then (let ds = take 9 (takeWhile is_digit (d # r))
                in (nat (digits_val 0 ds) * 10 ^ (9 - length ds), dropWhile is_digit (d # r)))
          else (0, s)
      | _ \<Rightarrow> (0, s))"

definition read_zone :: "string \<Rightarrow> int option" where
  "read_zone s =
     (if s = ''Z'' then Some 0
      else case s of
        [] \<Rightarrow> None
      | c # r \<Rightarrow>
          (if c \<noteq> CHR ''-'' \<and> c \<noteq> CHR ''+'' then None
           else do {
             (h, r) \<leftarrow> read_num 2 0 23 r; r \<leftarrow> read_char (CHR '':'') r; (m, r) \<leftarrow> read_num 2 0 59 r;
             if r \<noteq> [] then None else Some ((if c = CHR ''-'' then - 1 else 1) * int (h * 60 + m))
           }))"

definition unmarshal_time :: "string \<Rightarrow> int option" where
  "unmarshal_time s = do {
     (y, s) \<leftarrow> read_num 4 0 9999 s; s \<leftarrow> read_char (CHR ''-'') s;
     (m, s) \<leftarrow> read_num 2 1 12 s; s \<leftarrow> read_char (CHR ''-'') s;
     (day, s) \<leftarrow> read_num 2 1 (month_lengths y ! (m - 1)) s; s \<leftarrow> read_char (CHR ''T'') s;
     (h, s) \<leftarrow> read_num 2 0 23 s; s \<leftarrow> read_char (CHR '':'') s;
     (mi, s) \<leftarrow> read_num 2 0 59 s; s \<leftarrow> read_char (CHR '':'') s;
     (sec, s) \<leftarrow> read_num 2 0 59 s;
     let (ns, s) = read_fraction s;
     z \<leftarrow> read_zone s;
     Some (((int (days_of y m day) - int unix_day) * 86400 + int (h * 3600 + mi * 60 + sec) - z * 60) * Second + int ns)
   }"

lemma digit_char_facts: "is_digit (digit_char n)" "digit_val (digit_char n) = int (n mod 10)"
  using is_digit_char_of [of "n mod 10"] by (simp_all add: digit_char_def)

lemma pad_facts: "length (pad k n) = k \<and> list_all is_digit (pad k n) \<and> (n < 10 ^ k \<longrightarrow> digits_val 0 (pad k n) = int n)"
proof (induction k arbitrary: n)
  case (Suc k)
  have "digits_val 0 (pad (Suc k) n) = int n" if "n < 10 ^ Suc k"
  proof -
    from that have "n div 10 < 10 ^ k" by (simp add: less_mult_imp_div_less mult.commute)
    with Suc have "digits_val 0 (pad k (n div 10)) = int (n div 10)" by blast
    moreover have "int (n div 10) * 10 + int (n mod 10) = int n" by presburger
    ultimately show ?thesis by (simp add: digits_val_append) (simp add: digits_val_def digit_char_facts)
  qed
  with Suc show ?case by (simp add: digit_char_facts)
qed (simp add: digits_val_def)

declare pad.simps [simp del]

lemma read_num_pad: "n < 10 ^ k \<Longrightarrow> lo \<le> n \<Longrightarrow> n \<le> hi \<Longrightarrow> read_num k lo hi (pad k n @ rest) = Some (n, rest)"
  using pad_facts [of k n] by (simp add: read_num_def)

lemma trim_zeros_split: "\<exists>j. s = trim_zeros s @ replicate j (CHR ''0'')"
proof -
  let ?z = "takeWhile (\<lambda>c. c = CHR ''0'') (rev s)"
  have "replicate (length (rev ?z)) (CHR ''0'') = rev ?z"
    by (rule replicate_length_same) (auto dest: set_takeWhileD)
  moreover have "trim_zeros s @ rev ?z = s"
    by (simp add: trim_zeros_def rev_append [symmetric] del: rev_append)
  ultimately show ?thesis by (intro exI [of _ "length (rev ?z)"]) simp
qed

lemma digits_val_zeros: "digits_val x (replicate j (CHR ''0'')) = x * 10 ^ j"
proof (induction j arbitrary: x)
  case (Suc j)
  have "digits_val x (replicate (Suc j) (CHR ''0'')) = digits_val (x * 10) (replicate j (CHR ''0''))"
    by (simp add: digits_val_def digit_val_def)
  with Suc [of "x * 10"] show ?case by simp
qed (simp add: digits_val_def)

lemma read_fraction_trim:
  assumes "0 < ns" and "ns < 10 ^ 9" and "rest \<noteq> []" and "\<not> is_digit (hd rest)"
  shows "read_fraction (CHR ''.'' # trim_zeros (pad 9 ns) @ rest) = (ns, rest)"
proof -
  obtain j where j: "pad 9 ns = trim_zeros (pad 9 ns) @ replicate j (CHR ''0'')" using trim_zeros_split by blast
  let ?ds = "trim_zeros (pad 9 ns)"
  have P: "length (pad 9 ns) = 9" "list_all is_digit (pad 9 ns)" "digits_val 0 (pad 9 ns) = int ns"
    using pad_facts [of 9 ns] assms(2) by blast+
  have ds: "list_all is_digit ?ds" using P(2) j by (metis list_all_append)
  have len: "length ?ds + j = 9" using P(1) j by (metis length_append length_replicate)
  have v: "digits_val 0 ?ds * 10 ^ j = int ns"
    using P(3) j digits_val_append [of 0 ?ds "replicate j (CHR ''0'')"] digits_val_zeros by metis
  with assms(1) have ne: "?ds \<noteq> []" by (auto simp: digits_val_def)
  have n: "nat (digits_val 0 ?ds) * 10 ^ j = ns"
    using arg_cong [OF v, of nat] digits_val_mono [OF ds, of 0] by (simp add: nat_mult_distrib nat_power_eq)
  have tw: "takeWhile is_digit (?ds @ rest) = ?ds" "dropWhile is_digit (?ds @ rest) = rest"
    using ds assms(3,4) by (cases rest; simp add: takeWhile_append dropWhile_append list_all_iff)+
  obtain d r where d: "?ds = d # r" using ne by (cases ?ds) auto
  have "is_digit d" "9 - length ?ds = j" "take 9 ?ds = ?ds" using ds len d by simp_all
  with tw n d show ?thesis by (simp add: read_fraction_def)
qed

lemma read_zone_signed:
  assumes "h < 24" and "m < 60" and "c = CHR ''-'' \<or> c = CHR ''+''"
  shows "read_zone (c # pad 2 h @ '':'' @ pad 2 m) = Some ((if c = CHR ''-'' then - 1 else 1) * int (h * 60 + m))"
proof -
  have "c # pad 2 h @ '':'' @ pad 2 m \<noteq> ''Z''" using assms(3) by auto
  moreover have "read_num 2 0 59 (pad 2 m) = Some (m, [])" using read_num_pad [of m 2 0 59 "[]"] assms(2) by simp
  ultimately show ?thesis using assms read_num_pad [of h 2 0 23] by (simp add: read_zone_def read_char_def)
qed

lemma split_hms: "n div 3600 * 3600 + n div 60 mod 60 * 60 + n mod 60 = (n :: nat)"
proof -
  have "n div 3600 = n div 60 div 60" by (simp add: div_mult2_eq [symmetric])
  then show ?thesis using div_mult_mod_eq [of n 60] div_mult_mod_eq [of "n div 60" 60] by linarith
qed

lemma read_zone_text:
  assumes "\<bar>z\<bar> < 1440"
  shows "read_zone (zone_text z) = Some z" and "zone_text z \<noteq> []" and "\<not> is_digit (hd (zone_text z))" and "hd (zone_text z) \<noteq> CHR ''.''"
proof -
  let ?a = "nat \<bar>z\<bar>"
  have a: "?a div 60 < 24" "?a mod 60 < 60" using assms by (simp_all add: less_mult_imp_div_less)
  have "int (?a div 60) * 60 + int (?a mod 60) = int ?a"
    by (metis div_mult_mod_eq of_nat_add of_nat_mult of_nat_numeral)
  then have e: "int (?a div 60) * 60 + int (?a mod 60) = \<bar>z\<bar>" by (simp del: of_nat_div of_nat_mod)
  show "read_zone (zone_text z) = Some z"
  proof (cases "z = 0")
    case False
    have "zone_text z = (if z < 0 then CHR ''-'' else CHR ''+'') # pad 2 (?a div 60) @ '':'' @ pad 2 (?a mod 60)"
      using False by (simp add: zone_text_def)
    moreover have "read_zone \<dots> = Some ((if z < 0 then - 1 else 1) * \<bar>z\<bar>)"
      using read_zone_signed [OF a, of "if z < 0 then CHR ''-'' else CHR ''+''"] e by (cases "z < 0") simp_all
    ultimately show ?thesis by (cases "z < 0") simp_all
  qed (simp add: zone_text_def read_zone_def)
  show "zone_text z \<noteq> []" "\<not> is_digit (hd (zone_text z))" "hd (zone_text z) \<noteq> CHR ''.''"
    by (simp_all add: zone_text_def is_digit_def)
qed

lemma unmarshal_parts:
  assumes "y \<le> 9999" "1 \<le> m" "m \<le> 12" "1 \<le> day" "day \<le> month_lengths y ! (m - 1)" "day < 100"
    and "h < 24" "mi < 60" "sec < 60" and "read_fraction f = (ns, zt)" and "read_zone zt = Some z"
  shows "unmarshal_time (pad 4 y @ ''-'' @ pad 2 m @ ''-'' @ pad 2 day @ ''T'' @ pad 2 h @ '':'' @ pad 2 mi @ '':'' @ pad 2 sec @ f) =
     Some (((int (days_of y m day) - int unix_day) * 86400 + int (h * 3600 + mi * 60 + sec) - z * 60) * Second + int ns)"
  using assms by (simp add: unmarshal_time_def read_num_pad read_char_def)

lemma time_round_trip:
  assumes "\<bar>z\<bar> < 1440" and "marshal_time z t = Some s"
  shows "unmarshal_time s = Some t"
proof -
  let ?l = "t + z * 60 * Second"
  let ?ns = "nat (?l mod Second)" and ?secs = "?l div Second"
  let ?d = "?secs div 86400 + int unix_day" and ?sod = "nat (?secs mod 86400)"
  obtain y m day where c: "civil (nat ?d) = (y, m, day)" by (metis prod_cases3)
  from assms(2) have d: "0 \<le> ?d" "y \<le> 9999" and s: "s = pad 4 y @ ''-'' @ pad 2 m @ ''-'' @ pad 2 day @ ''T'' @
      pad 2 (?sod div 3600) @ '':'' @ pad 2 (?sod div 60 mod 60) @ '':'' @ pad 2 (?sod mod 60) @
      (if ?ns = 0 then [] else CHR ''.'' # trim_zeros (pad 9 ?ns)) @ zone_text z"
    by (simp_all add: marshal_time_def c Let_def split: if_splits)
  note C = civil_days [OF c]
  have len: "month_lengths y ! (m - 1) \<le> 31"
  proof -
    have "m - 1 < 12" using C by auto
    then show ?thesis by (simp add: month_lengths_def nth_Cons split: nat.splits)
  qed
  have M: "1 \<le> m" "m \<le> 12" and D: "1 \<le> day" "day \<le> month_lengths y ! (m - 1)" "day < 100" using C len by auto
  have sod: "?sod < 86400" by (simp add: nat_less_iff)
  have r: "?sod div 3600 < 24" "?sod div 60 mod 60 < 60" "?sod mod 60 < 60" using sod by (simp_all add: less_mult_imp_div_less)
  have hms: "?sod div 3600 * 3600 + ?sod div 60 mod 60 * 60 + ?sod mod 60 = ?sod"
    by (rule split_hms)
  have ns: "?ns < 10 ^ 9" "int ?ns = ?l mod Second" by (simp_all add: Second_def nat_less_iff)
  have frac: "read_fraction ((if ?ns = 0 then [] else CHR ''.'' # trim_zeros (pad 9 ?ns)) @ zone_text z) = (?ns, zone_text z)"
  proof (cases "?ns = 0")
    case True
    then show ?thesis using read_zone_text(4) [OF assms(1)]
      by (cases "zone_text z") (auto simp: read_fraction_def split: list.splits)
  next
    case False
    then show ?thesis using read_fraction_trim [OF _ ns(1) read_zone_text(2,3) [OF assms(1)]] by simp
  qed
  have "unmarshal_time s = Some (((int (days_of y m day) - int unix_day) * 86400 +
      int (?sod div 3600 * 3600 + ?sod div 60 mod 60 * 60 + ?sod mod 60) - z * 60) * Second + int ?ns)"
    unfolding s by (rule unmarshal_parts [OF d(2) M D r frac read_zone_text(1) [OF assms(1)]])
  also have "\<dots> = Some t"
  proof -
    have "int (days_of y m day) = ?d" using C d(1) by simp
    moreover have "int ?sod = ?secs mod 86400" by simp
    ultimately have "(int (days_of y m day) - int unix_day) * 86400 + int ?sod = ?secs" by simp
    then show ?thesis unfolding hms ns(2) using div_mult_mod_eq [of ?l Second] by (simp add: left_diff_distrib)
  qed
  finally show ?thesis .
qed

end
