(* ===== verification/Cache_Wire.thy ===== *)
theory Cache_Wire
  imports Cachebox_Key Cachebox_Delay Go_Encoding "HOL-Library.AList"
begin

text \<open>
  Entries as JSON: what the push client sends (\<open>post\<close> of \<open>cache_push.go\<close>) and what \<open>Seed\<close> of
  \<open>cache_seed.go\<close> reads back, with the tags of \<open>WireEntry\<close> in \<open>internal/cachebox/wire.go\<close>. The order in
  which the encoder sorts the keys of a header is left out, since no decoder sees it.
\<close>

section \<open>Encoding\<close>

definition json_string :: "string \<Rightarrow> json" where
  "json_string s = JStr (coerce_utf8 s)"

definition header_json :: "header \<Rightarrow> json" where
  "header_json h = JObj (map (\<lambda>(k, vs). (coerce_utf8 k, JArr (map json_string vs))) h)"

text \<open>\<open>zone\<close> is the offset of the local zone, in minutes, at an instant.\<close>

definition wire_json :: "(int \<Rightarrow> int) \<Rightarrow> wire_entry \<Rightarrow> json option" where
  "wire_json zone w =
     map_option (\<lambda>ts. JObj
       ([(''key'', json_string (we_key w)), (''status_code'', JNum (format_int (we_status w)))] @
        (case we_header w of Some (m # h) \<Rightarrow> [(''header'', header_json (m # h))] | _ \<Rightarrow> []) @
        (if we_body w = [] then [] else [(''body'', JStr (b64_encode (we_body w)))]) @
        [(''observed_latency_us'', JNum (format_int (we_latency_us w))), (''recorded_at'', JStr ts)]))
     (marshal_time (zone (we_recorded w)) (we_recorded w))"

definition ingest_json :: "(int \<Rightarrow> int) \<Rightarrow> string \<Rightarrow> string \<Rightarrow> wire_entry list \<Rightarrow> json option" where
  "ingest_json zone service inst ws =
     map_option (\<lambda>js. JObj [(''service'', json_string service), (''instance'', json_string inst), (''entries'', JArr js)])
       (those (map (wire_json zone) ws))"

section \<open>Decoding\<close>

text \<open>Into a map or a slice, where \<open>null\<close> is nil, unlike for a string or a number.\<close>

fun assign_nil :: "(json \<Rightarrow> 'a option) \<Rightarrow> 'a \<Rightarrow> json list \<Rightarrow> 'a \<Rightarrow> 'a option" where
  "assign_nil conv zero [] a = Some a"
| "assign_nil conv zero (v # vs) a =
     (if v = JNull then assign_nil conv zero vs zero
      else case conv v of None \<Rightarrow> None | Some b \<Rightarrow> assign_nil conv zero vs b)"

definition elem_string :: "json \<Rightarrow> string option" where
  "elem_string v = (case v of JStr s \<Rightarrow> Some s | JNull \<Rightarrow> Some [] | _ \<Rightarrow> None)"

definition header_values :: "json \<Rightarrow> string list option" where
  "header_values v = (case v of JArr vs \<Rightarrow> those (map elem_string vs) | JNull \<Rightarrow> Some [] | _ \<Rightarrow> None)"

fun header_members :: "(string \<times> json) list \<Rightarrow> header \<Rightarrow> header option" where
  "header_members [] h = Some h"
| "header_members ((k, v) # ms) h =
     (case header_values v of None \<Rightarrow> None | Some vs \<Rightarrow> header_members ms (AList.update k vs h))"

text \<open>A second object is decoded into the map the first one left.\<close>

fun assign_header :: "json list \<Rightarrow> header option \<Rightarrow> header option option" where
  "assign_header [] h = Some h"
| "assign_header (JNull # vs) h = assign_header vs None"
| "assign_header (JObj ms # vs) h =
     (case header_members ms (case h of None \<Rightarrow> [] | Some h \<Rightarrow> h) of None \<Rightarrow> None | Some h \<Rightarrow> assign_header vs (Some h))"
| "assign_header _ h = None"

text \<open>A byte slice is base64 text or an array of small numbers.\<close>

definition byte_conv :: "json \<Rightarrow> char option" where
  "byte_conv v =
     (case v of
        JNum s \<Rightarrow> (case ParseUint s of Some n \<Rightarrow> if n < 256 then Some (char_of (nat n)) else None | None \<Rightarrow> None)
      | JNull \<Rightarrow> Some (char_of (0 :: nat)) | _ \<Rightarrow> None)"

definition bytes_conv :: "json \<Rightarrow> string option" where
  "bytes_conv v = (case v of JStr s \<Rightarrow> b64_decode s | JArr vs \<Rightarrow> those (map byte_conv vs) | _ \<Rightarrow> None)"

definition time_conv :: "json \<Rightarrow> int option" where
  "time_conv v = (case v of JStr s \<Rightarrow> unmarshal_time s | _ \<Rightarrow> None)"

text \<open>\<open>time.Time{}\<close> is the start of year 1.\<close>

definition zero_time :: int where
  "zero_time = (int (days_of 1 1 1) - int unix_day) * 86400 * Second"

definition wire_of_json :: "json \<Rightarrow> wire_entry option" where
  "wire_of_json doc = do {
     key \<leftarrow> str_field ''key'' doc;
     status \<leftarrow> int_field ''status_code'' doc;
     hs \<leftarrow> field_values doc ''header'';
     hdr \<leftarrow> assign_header hs None;
     bs \<leftarrow> field_values doc ''body'';
     body \<leftarrow> assign_nil bytes_conv [] bs [];
     latency \<leftarrow> int_field ''observed_latency_us'' doc;
     recorded \<leftarrow> json_field time_conv zero_time ''recorded_at'' doc;
     Some \<lparr>we_key = key, we_status = status, we_header = hdr, we_body = body, we_latency_us = latency,
           we_recorded = recorded\<rparr>
   }"

definition entries_conv :: "json \<Rightarrow> wire_entry list option" where
  "entries_conv v = (case v of JArr vs \<Rightarrow> those (map wire_of_json vs) | _ \<Rightarrow> None)"

definition seed_response :: "json \<Rightarrow> wire_entry list option" where
  "seed_response doc = Option.bind (field_values doc ''entries'') (\<lambda>vs. assign_nil entries_conv [] vs [])"

section \<open>\<open>Seed\<close>\<close>

text \<open>
  The outcome of the request: an error, or a status and the bytes of the body up to its end or a failure of the
  connection, which the code does not look at.
\<close>

datatype seed_outcome = DoFails | Answers int string

datatype seed_error = SeedNewRequest | SeedRequestFailed | SeedServerReturned int string | SeedDecode

definition seed_limit :: nat where
  "seed_limit = 64 * 2 ^ 20"

definition seed_url :: "string \<Rightarrow> string \<Rightarrow> string" where
  "seed_url baseURL service = baseURL @ ''/api/v1/cache/entries?service='' @ service"

text \<open>\<open>url_ok\<close> says which URLs make a request, \<open>parse_json\<close> which document a text is.\<close>

definition Seed ::
  "(string \<Rightarrow> bool) \<Rightarrow> (string \<Rightarrow> json option) \<Rightarrow> (string \<Rightarrow> entry option \<Rightarrow> 's \<Rightarrow> 's) \<Rightarrow> string \<Rightarrow> string \<Rightarrow>
   seed_outcome \<Rightarrow> 's \<Rightarrow> (seed_error + int) \<times> 's" where
  "Seed url_ok parse_json put baseURL service out s =
     (if \<not> url_ok (seed_url baseURL service) then (Inl SeedNewRequest, s)
      else case out of
        DoFails \<Rightarrow> (Inl SeedRequestFailed, s)
      | Answers status data \<Rightarrow>
          (let body = take seed_limit data
           in if status \<noteq> 200 then (Inl (SeedServerReturned status body), s)
              else case Option.bind (parse_json body) seed_response of
                     None \<Rightarrow> (Inl SeedDecode, s)
                   | Some ws \<Rightarrow> (case seed_entries put ws s of (n, s') \<Rightarrow> (Inr n, s'))))"

section \<open>An entry on the wire and back\<close>

lemma wire_names:
  "fold_name ''key'' = ''KEY''" "fold_name ''status_code'' = ''STATUS_CODE''" "fold_name ''header'' = ''HEADER''"
  "fold_name ''body'' = ''BODY''" "fold_name ''observed_latency_us'' = ''OBSERVED_LATENCY_US''"
  "fold_name ''recorded_at'' = ''RECORDED_AT''" "fold_name ''entries'' = ''ENTRIES''"
  by (simp_all add: to_upper_def less_eq_char_def char_of_def bit_0)

text \<open>The fields of an encoded entry; the header and the body may be left out.\<close>

definition wire_members :: "json \<Rightarrow> json \<Rightarrow> json list \<Rightarrow> json list \<Rightarrow> json \<Rightarrow> json \<Rightarrow> (string \<times> json) list" where
  "wire_members k st hv bv l r =
     [(''key'', k), (''status_code'', st)] @ map (\<lambda>v. (''header'', v)) hv @ map (\<lambda>v. (''body'', v)) bv @
     [(''observed_latency_us'', l), (''recorded_at'', r)]"

lemma wire_fields:
  "field_values (JObj (wire_members k st hv bv l r)) ''key'' = Some [k]"
  "field_values (JObj (wire_members k st hv bv l r)) ''status_code'' = Some [st]"
  "field_values (JObj (wire_members k st hv bv l r)) ''header'' = Some hv"
  "field_values (JObj (wire_members k st hv bv l r)) ''body'' = Some bv"
  "field_values (JObj (wire_members k st hv bv l r)) ''observed_latency_us'' = Some [l]"
  "field_values (JObj (wire_members k st hv bv l r)) ''recorded_at'' = Some [r]"
  by (simp_all add: field_values_def wire_members_def wire_names filter_map comp_def del: fold_name.simps)

text \<open>
  The encoder turns strings into valid UTF-8, the names of a header too; these are distinct in a map, and \<open>header_valid\<close> says
  that they stay so.
\<close>

definition header_valid :: "header \<Rightarrow> bool" where
  "header_valid h \<longleftrightarrow> distinct (map (coerce_utf8 \<circ> fst) h)"

definition coerced_header :: "header \<Rightarrow> header" where
  "coerced_header h = map (\<lambda>(k, vs). (coerce_utf8 k, map coerce_utf8 vs)) h"

lemma those_map_Some: "(\<And>x. x \<in> set xs \<Longrightarrow> f x = Some (g x)) \<Longrightarrow> those (map f xs) = Some (map g xs)"
  by (induction xs) auto

lemma header_values_json: "header_values (JArr (map json_string vs)) = Some (map coerce_utf8 vs)"
  using those_map_Some [of vs "elem_string \<circ> json_string" coerce_utf8]
  by (simp add: header_values_def elem_string_def json_string_def)

lemma header_members_json:
  "distinct (map fst acc @ map (coerce_utf8 \<circ> fst) h) \<Longrightarrow>
   header_members (map (\<lambda>(k, vs). (coerce_utf8 k, JArr (map json_string vs))) h) acc = Some (acc @ coerced_header h)"
proof (induction h arbitrary: acc)
  case (Cons m h)
  obtain k vs where m: "m = (k, vs)" by fastforce
  from Cons.prems m have k: "coerce_utf8 k \<notin> fst ` set acc" by auto
  then have "AList.update (coerce_utf8 k) (map coerce_utf8 vs) acc = acc @ [(coerce_utf8 k, map coerce_utf8 vs)]"
    by (induction acc) auto
  with Cons.IH [of "acc @ [(coerce_utf8 k, map coerce_utf8 vs)]"] Cons.prems m show ?case
    by (auto simp: header_values_json coerced_header_def)
qed (simp add: coerced_header_def)

definition entry_valid :: "wire_entry \<Rightarrow> bool" where
  "entry_valid w \<longleftrightarrow> i64 (we_status w) \<and> i64 (we_latency_us w) \<and>
     (case we_header w of None \<Rightarrow> True | Some h \<Rightarrow> header_valid h)"

definition seeded_header :: "header option \<Rightarrow> header option" where
  "seeded_header h = (case h of Some (m # ms) \<Rightarrow> Some (coerced_header (m # ms)) | _ \<Rightarrow> None)"

definition seeded_wire :: "wire_entry \<Rightarrow> wire_entry" where
  "seeded_wire w = w\<lparr>we_key := coerce_utf8 (we_key w), we_header := seeded_header (we_header w)\<rparr>"

lemma wire_json_members:
  assumes "wire_json zone w = Some doc"
  obtains ts where "marshal_time (zone (we_recorded w)) (we_recorded w) = Some ts"
    "doc = JObj (wire_members (json_string (we_key w)) (JNum (format_int (we_status w)))
       (case we_header w of Some (m # h) \<Rightarrow> [header_json (m # h)] | _ \<Rightarrow> [])
       (if we_body w = [] then [] else [JStr (b64_encode (we_body w))])
       (JNum (format_int (we_latency_us w))) (JStr ts))"
  using assms by (auto simp: wire_json_def wire_members_def split: option.splits list.splits)

lemma wire_json_key: "wire_json zone w = Some doc \<Longrightarrow> str_field ''key'' doc = Some (coerce_utf8 (we_key w))"
  by (erule wire_json_members) (simp add: str_field_def json_field_def wire_fields str_conv_def json_string_def)

lemma wire_json_back:
  assumes "entry_valid w" and "\<bar>zone (we_recorded w)\<bar> < 1440" and "wire_json zone w = Some doc"
  shows "wire_of_json doc = Some (seeded_wire w)"
proof -
  define hv where "hv = (case we_header w of Some (m # h) \<Rightarrow> [header_json (m # h)] | _ \<Rightarrow> [])"
  define bv where "bv = (if we_body w = [] then [] else [JStr (b64_encode (we_body w))])"
  from assms(3) obtain ts where ts: "marshal_time (zone (we_recorded w)) (we_recorded w) = Some ts"
    and doc: "doc = JObj (wire_members (json_string (we_key w)) (JNum (format_int (we_status w))) hv bv
      (JNum (format_int (we_latency_us w))) (JStr ts))"
    unfolding hv_def bv_def by (rule wire_json_members)
  note T = time_round_trip [OF assms(2) ts]
  have n: "ParseInt (format_int (we_status w)) = Some (we_status w)"
    "ParseInt (format_int (we_latency_us w)) = Some (we_latency_us w)"
    using assms(1) by (simp_all add: entry_valid_def ParseInt_format)
  have "header_members (map (\<lambda>(k, vs). (coerce_utf8 k, JArr (map json_string vs))) h) [] = Some (coerced_header h)"
    if "we_header w = Some h" for h
    using header_members_json [of "[]" h] assms(1) that by (simp add: entry_valid_def header_valid_def)
  then have "assign_header hv None = Some (we_header (seeded_wire w))"
    by (auto simp: hv_def seeded_wire_def seeded_header_def header_json_def split: option.splits list.splits)
  moreover have "assign_nil bytes_conv [] bv [] = Some (we_body (seeded_wire w))"
    by (simp add: bv_def seeded_wire_def bytes_conv_def b64_round_trip)
  ultimately show ?thesis using n T
    by (simp add: wire_of_json_def doc str_field_def int_field_def json_field_def wire_fields str_conv_def int_conv_def
        time_conv_def json_string_def seeded_wire_def)
qed

section \<open>From the push client to the store of another instance\<close>

text \<open>
  What a seeded entry is: that of the sender with its key and header in valid UTF-8, an empty header nil, the latency in whole
  microseconds and no hits. What is \<open>pushable\<close> has 64-bit numbers and a header whose names stay distinct.
\<close>

definition seeded :: "entry \<Rightarrow> entry" where
  "seeded e = e\<lparr>e_key := coerce_utf8 (e_key e), e_header := seeded_header (e_header e),
     e_latency := (e_latency e sdiv Microsecond) * Microsecond, e_hits := 0\<rparr>"

definition pushable :: "entry \<Rightarrow> bool" where
  "pushable e \<longleftrightarrow> i64 (e_status e) \<and> i64 (e_latency e) \<and> (case e_header e of None \<Rightarrow> True | Some h \<Rightarrow> header_valid h)"

lemma sdiv_micro_i64: "i64 t \<Longrightarrow> i64 (t sdiv Microsecond)"
proof (cases "t = - (2 ^ 63)")
  case True
  then show ?thesis by (simp add: Microsecond_def i64_def signed_divide_int_def)
next
  case False
  assume t: "i64 t"
  have "\<bar>t sdiv Microsecond\<bar> \<le> \<bar>(t sdiv Microsecond) * Microsecond\<bar>"
    by (simp add: Microsecond_def abs_mult)
  also have "\<dots> \<le> \<bar>t\<bar>" by (rule sdiv_mult_bound(1)) (simp add: Microsecond_def)
  finally show ?thesis using t False by (blast intro: i64_abs_le)
qed

lemma seeded_entry: "i64 (e_latency e) \<Longrightarrow> WireToEntry (seeded_wire (EntryToWire e)) = seeded e"
  by (auto simp: WireToEntry_def seeded_wire_def EntryToWire_def seeded_def latency_micros)

lemma those_map_eqD: "those (map f xs) = Some ys \<Longrightarrow> length ys = length xs \<and> (\<forall>i < length xs. f (xs ! i) = Some (ys ! i))"
proof (induction xs arbitrary: ys)
  case (Cons x xs)
  then obtain y zs where y: "f x = Some y" "those (map f xs) = Some zs" "ys = y # zs"
    by (auto split: option.splits)
  from Cons.IH [OF y(2)] y show ?case by (auto simp: nth_Cons split: nat.splits)
qed simp

lemma those_pointwise:
  assumes "length ys = length zs" and "\<And>i. i < length ys \<Longrightarrow> f (ys ! i) = Some (zs ! i)"
  shows "those (map f ys) = Some zs"
  using assms
proof (induction ys zs rule: list_induct2)
  case (Cons y ys z zs)
  have "f y = Some z" using Cons.prems [of 0] by simp
  moreover have "those (map f ys) = Some zs" using Cons.prems [of "Suc i" for i] by (intro Cons.IH) auto
  ultimately show ?case by simp
qed simp

lemma pushed_entries:
  assumes "\<forall>e \<in> set es. pushable e" and "\<And>t. \<bar>zone t\<bar> < 1440"
    and "those (map (wire_json zone) (map EntryToWire es)) = Some js"
  shows "those (map wire_of_json js) = Some (map (seeded_wire \<circ> EntryToWire) es)"
proof (rule those_pointwise)
  from those_map_eqD [OF assms(3)] have len: "length js = length es"
    and js: "\<And>i. i < length es \<Longrightarrow> wire_json zone (EntryToWire (es ! i)) = Some (js ! i)" by auto
  show "length js = length (map (seeded_wire \<circ> EntryToWire) es)" using len by simp
  fix i assume "i < length js"
  then have i: "i < length es" using len by simp
  then have "pushable (es ! i)" using assms(1) by simp
  then have "entry_valid (EntryToWire (es ! i))"
    by (simp add: pushable_def entry_valid_def EntryToWire_def sdiv_micro_i64)
  from wire_json_back [OF this assms(2) js [OF i]] i show "wire_of_json (js ! i) = Some (map (seeded_wire \<circ> EntryToWire) es ! i)"
    by simp
qed

lemma seed_response_entries: "seed_response (JObj [(''entries'', JArr js)]) = those (map wire_of_json js)"
  by (simp add: seed_response_def field_values_def entries_conv_def wire_names split: option.splits del: fold_name.simps)

lemma seed_entries_pushed:
  assumes "\<forall>e \<in> set es. pushable e"
  shows "seed_entries put (map (seeded_wire \<circ> EntryToWire) es) s =
     (int (length es), fold (\<lambda>e. put (e_key (seeded e)) (Some (seeded e))) es s)"
proof -
  have "fold (\<lambda>w. let entry = WireToEntry w in put (e_key entry) (Some entry)) (map (seeded_wire \<circ> EntryToWire) es) s =
      fold (\<lambda>e. put (e_key (seeded e)) (Some (seeded e))) es s"
    using assms
  proof (induction es arbitrary: s)
    case (Cons e es)
    then have "WireToEntry (seeded_wire (EntryToWire e)) = seeded e" by (simp add: pushable_def seeded_entry)
    with Cons show ?case by (simp add: seeded_def)
  qed simp
  then show ?thesis by (simp add: seed_entries_def)
qed

lemma Seed_pushed:
  assumes "\<forall>e \<in> set es. pushable e" and "\<And>t. \<bar>zone t\<bar> < 1440"
    and "ingest_json zone sender inst (map EntryToWire es) = Some (JObj [a, b, (''entries'', JArr js)])"
    and "parse_json body = Some (JObj [(''entries'', JArr js)])" and "length body \<le> seed_limit"
    and "url_ok (seed_url baseURL service)"
  shows "Seed url_ok parse_json put baseURL service (Answers 200 body) s =
     (Inr (int (length es)), fold (\<lambda>e. put (e_key (seeded e)) (Some (seeded e))) es s)"
proof -
  from assms(3) have "those (map (wire_json zone) (map EntryToWire es)) = Some js" by (auto simp: ingest_json_def)
  from pushed_entries [OF assms(1,2) this] assms(4-6) seed_entries_pushed [OF assms(1), of put s]
  show ?thesis by (simp add: Seed_def seed_response_entries)
qed

lemma coerce_length: "length s \<le> length (coerce_utf8 s)"
proof (induction s rule: coerce_utf8.induct)
  case (1 s)
  show ?case
  proof (cases "s = [] \<or> rune_len s = 0")
    case True
    with 1 show ?thesis by (subst coerce_utf8.simps) (cases s; auto simp: replacement_def)
  next
    case False
    with 1(2) show ?thesis by (subst coerce_utf8.simps) simp
  qed
qed

lemma coerce_exact: "coerce_utf8 s = s \<longleftrightarrow> valid_utf8 s"
proof
  show "coerce_utf8 s = s \<Longrightarrow> valid_utf8 s"
  proof (induction s rule: coerce_utf8.induct)
    case (1 s)
    show ?case
    proof (cases "s = []")
      case False
      have "rune_len s \<noteq> 0"
      proof
        assume z: "rune_len s = 0"
        then have "coerce_utf8 s = replacement @ coerce_utf8 (tl s)" using False by (subst coerce_utf8.simps) simp
        then have "length (coerce_utf8 s) = 3 + length (coerce_utf8 (tl s))" by (simp add: replacement_def)
        then have "length s = 3 + length (coerce_utf8 (tl s))" using "1.prems" by (simp only:)
        with coerce_length [of "tl s"] show False by simp
      qed
      moreover from this False have "take (rune_len s) s @ coerce_utf8 (drop (rune_len s) s) = s"
        using "1.prems" by (subst (asm) coerce_utf8.simps) simp
      then have "coerce_utf8 (drop (rune_len s) s) = drop (rune_len s) s"
        by (metis append_take_drop_id same_append_eq)
      ultimately show ?thesis using 1(2) False by (subst valid_utf8.simps) simp
    qed (simp add: valid_utf8.simps)
  qed
qed (rule coerce_valid)

lemma coerce_ascii: "(of_char c :: nat) < 128 \<Longrightarrow> coerce_utf8 (c # s) = c # coerce_utf8 s"
  by (subst coerce_utf8.simps) (simp add: rune_len_ascii)

lemma coerce_ascii_append: "list_all (\<lambda>c. (of_char c :: nat) < 128) a \<Longrightarrow> coerce_utf8 (a @ s) = a @ coerce_utf8 s"
  by (induction a) (simp_all add: coerce_ascii)

lemma coerce_lone_byte: "128 \<le> (of_char x :: nat) \<Longrightarrow> coerce_utf8 [x] = replacement"
  by (subst coerce_utf8.simps) (simp add: rune_len_def starts_in_def byte_in_def coerce_utf8.simps [of "[]"])

section \<open>Properties\<close>

lemma mem_last_put:
  assumes "mem_inv s"
  shows "fst (mem_get now k (mem.put_all (es @ [(k, e)]) s)) = (if mem_live s now e then Some (bump_hits e) else None)"
  using mem.get_result [of "mem.put_all (es @ [(k, e)]) s" now k] mem.put_peek [of "mem.put_all es s" k e]
    mem.put_all_invar [OF assms] mem.put_all_live [OF assms, of "es @ [(k, e)]"] mem.put_invar
  by simp

text \<open>
  C2. What one instance pushes, another seeds, whatever the bytes of the entries and the zone of the sender. When the control
  plane answers with the entries of a push, in a response of at most 64 MiB, \<open>Seed\<close> puts every one of them, in order: status,
  body and instant are the sender's, the latency is cut to whole microseconds, the hits start at zero and an empty header is nil;
  the strings of the header and the key have replacement characters for bytes that are no UTF-8. The last entry is what a look-up
  under its seeded key finds in the store, unless it has expired by then; and that key is the sender's exactly when this is valid
  UTF-8. Entries with two header names that only differ in bytes that are no UTF-8 are left out.
\<close>

theorem push_seed_round_trip:
  assumes "\<forall>e \<in> set (es @ [x]). pushable e" and "\<forall>t. \<bar>zone t\<bar> < 1440"
    and "ingest_json zone sender inst (map EntryToWire (es @ [x])) = Some (JObj [a, b, (''entries'', JArr js)])"
    and "parse_json body = Some (JObj [(''entries'', JArr js)])" and "length body \<le> seed_limit"
    and "url_ok (seed_url baseURL service)" and "mem_inv s"
  shows "\<exists>s'. Seed url_ok parse_json mem_put baseURL service (Answers 200 body) s = (Inr (int (length es) + 1), s') \<and>
     s' = fold (\<lambda>e. mem_put (e_key (seeded e)) (Some (seeded e))) (es @ [x]) s \<and>
     fst (mem_get now (e_key (seeded x)) s') = (if mem_live s now (seeded x) then Some (bump_hits (seeded x)) else None) \<and>
     (e_key (seeded x) = e_key x \<longleftrightarrow> valid_utf8 (e_key x))"
proof -
  let ?kes = "map (\<lambda>e. (e_key (seeded e), seeded e)) es"
  have "fold (\<lambda>e. mem_put (e_key (seeded e)) (Some (seeded e))) (es @ [x]) s = mem.put_all (?kes @ [(e_key (seeded x), seeded x)]) s"
    by (simp add: mem.put_all_def fold_map comp_def)
  moreover have "fst (mem_get now (e_key (seeded x)) (mem.put_all (?kes @ [(e_key (seeded x), seeded x)]) s)) =
      (if mem_live s now (seeded x) then Some (bump_hits (seeded x)) else None)"
    by (rule mem_last_put [OF assms(7)])
  moreover have "Seed url_ok parse_json mem_put baseURL service (Answers 200 body) s =
      (Inr (int (length (es @ [x]))), fold (\<lambda>e. mem_put (e_key (seeded e)) (Some (seeded e))) (es @ [x]) s)"
    by (rule Seed_pushed [where zone = zone]) (use assms in blast)+
  moreover have "e_key (seeded x) = e_key x \<longleftrightarrow> valid_utf8 (e_key x)" by (simp add: seeded_def coerce_exact)
  ultimately show ?thesis by simp
qed

text \<open>A moment of the first of January 2000.\<close>

lemma sample_time:
  assumes "z = 0 \<or> z = 330" shows "\<exists>ts. marshal_time z 946684800123000000 = Some ts"
proof -
  obtain rest where yl: "year_lengths = 366 # rest"
  proof
    have "[0..<400] = 0 # [Suc 0..<400]" by (rule upt_conv_Cons) simp
    then show "year_lengths = 366 # map (\<lambda>y. sum_list (month_lengths y)) [Suc 0..<400]"
      unfolding year_lengths_def by (simp only: list.map year_length is_leap_def) simp
  qed
  have "civil 730485 = (2000, 1, 1)" by (simp add: civil_def yl month_lengths_def)
  then show ?thesis using assms by (auto simp: marshal_time_def Second_def unix_day_def Let_def)
qed

definition sample_entry :: entry where
  "sample_entry = \<lparr>e_key = ''exact:GET|/'', e_status = 200, e_header = Some [(''A'', [''b''])], e_body = ''hi'', e_latency = 1999,
     e_recorded = 946684800123000000, e_hits = 3\<rparr>"

theorem push_seed_round_trip_witness:
  "\<exists>js s'. Seed (\<lambda>_. True) (\<lambda>_. Some (JObj [(''entries'', JArr js)])) mem_put ''http://m'' ''svc'' (Answers 200 ''x'') (NewMemStore 8 1000) =
     (Inr 1, s') \<and> fst (mem_get 946684800123000000 ''exact:GET|/'' s') = Some (bump_hits (seeded sample_entry))"
proof -
  let ?body = "''x''"
  obtain ts where ts: "marshal_time 330 946684800123000000 = Some ts" using sample_time by blast
  have "\<exists>doc. wire_json (\<lambda>_. 330) (EntryToWire sample_entry) = Some doc"
    using ts by (simp add: wire_json_def EntryToWire_def sample_entry_def)
  then obtain doc where doc: "wire_json (\<lambda>_. 330) (EntryToWire sample_entry) = Some doc" by blast
  have ok: "pushable sample_entry"
    by (simp add: pushable_def sample_entry_def i64_def header_valid_def)
  have key: "e_key (seeded sample_entry) = ''exact:GET|/''"
    by (simp add: seeded_def sample_entry_def coerce_valid valid_utf8_ascii)
  have live: "mem_live (NewMemStore 8 1000) 946684800123000000 (seeded sample_entry)"
    by (simp add: mem_live_def expired_def NewMemStore_def time_sub_def seeded_def sample_entry_def)
  have "\<exists>s'. Seed (\<lambda>_. True) (\<lambda>_. Some (JObj [(''entries'', JArr [doc])])) mem_put ''http://m'' ''svc'' (Answers 200 ?body) (NewMemStore 8 1000) =
      (Inr (int (length ([] :: entry list)) + 1), s') \<and>
      s' = fold (\<lambda>e. mem_put (e_key (seeded e)) (Some (seeded e))) ([] @ [sample_entry]) (NewMemStore 8 1000) \<and>
      fst (mem_get 946684800123000000 (e_key (seeded sample_entry)) s') =
        (if mem_live (NewMemStore 8 1000) 946684800123000000 (seeded sample_entry) then Some (bump_hits (seeded sample_entry)) else None) \<and>
      (e_key (seeded sample_entry) = e_key sample_entry \<longleftrightarrow> valid_utf8 (e_key sample_entry))"
    by (rule push_seed_round_trip [where zone = "\<lambda>_. 330" and sender = "''s''" and inst = "''i''"])
      (use ok NewMemStore_correct(1) in \<open>simp_all add: ingest_json_def doc seed_limit_def\<close>)
  with key live show ?thesis by auto
qed

text \<open>
  \<open>Seed\<close> is all or nothing: an error leaves the store as it was, and a count is the number of entries of
  a response with status 200 that were put.
\<close>

theorem seed_all_or_nothing:
  "(\<forall>e s'. Seed url_ok parse_json put baseURL service out s = (Inl e, s') \<longrightarrow> s' = s) \<and>
   (\<forall>n s'. Seed url_ok parse_json put baseURL service out s = (Inr n, s') \<longrightarrow>
      (\<exists>data ws. out = Answers 200 data \<and> Option.bind (parse_json (take seed_limit data)) seed_response = Some ws \<and>
         n = int (length ws) \<and> s' = fold (\<lambda>w. put (we_key w) (Some (WireToEntry w))) ws s))"
proof -
  have "(\<lambda>w. let entry = WireToEntry w in put (e_key entry) (Some entry)) = (\<lambda>w. put (we_key w) (Some (WireToEntry w)))"
    by (simp add: WireToEntry_def)
  then show ?thesis by (auto simp: Seed_def seed_entries_def Let_def split: if_splits seed_outcome.splits option.splits)
qed

theorem seed_all_or_nothing_witness:
  "\<exists>n s'. Seed (\<lambda>_. True) (\<lambda>_. Some (JObj [(''entries'', JArr [JNull])])) (\<lambda>k e l. k # l) ''http://m'' ''svc'' (Answers 200 ''x'') [] = (Inr n, s') \<and>
     n = 1 \<and> s' = [[]]"
proof -
  let ?S = "Seed (\<lambda>_. True) (\<lambda>_. Some (JObj [(''entries'', JArr [JNull])])) (\<lambda>k e l. k # l) ''http://m'' ''svc'' (Answers 200 ''x'') []"
  have w: "map_option (map we_key) (seed_response (JObj [(''entries'', JArr [JNull])])) = Some [[]]"
    by (simp add: seed_response_entries wire_of_json_def str_field_def int_field_def json_field_def field_values_def)
  obtain n s' where S: "?S = (Inr n, s')" using w by (auto simp: Seed_def seed_entries_def split: option.splits)
  from seed_all_or_nothing [of "\<lambda>_. True" "\<lambda>_. Some (JObj [(''entries'', JArr [JNull])])" "\<lambda>k e l. k # l" "''http://m''" "''svc''"
      "Answers 200 ''x''" "[]"] S w show ?thesis by (auto simp: map_eq_Cons_conv)
qed

text \<open>
  Bytes that are no UTF-8 do not survive. Two requests that differ in the last byte of their path, which are two
  entries of a store, reach the control plane under the same key.
\<close>

theorem pushed_keys_merge:
  assumes "list_all (\<lambda>c. (of_char c :: nat) < 128) (rq_method r)" and "list_all (\<lambda>c. (of_char c :: nat) < 128) p"
    and "rq_query r = []" and "128 \<le> (of_char x :: nat)" and "128 \<le> (of_char y :: nat)" and "x \<noteq> y"
    and "we_key v = exactKey (r\<lparr>rq_path := p @ [x]\<rparr>) b" and "we_key w = exactKey (r\<lparr>rq_path := p @ [y]\<rparr>) b"
    and "wire_json zone v = Some d" and "wire_json zone w = Some d'"
  shows "we_key v \<noteq> we_key w \<and> str_field ''key'' d = str_field ''key'' d'"
proof -
  have ascii: "list_all (\<lambda>c. (of_char c :: nat) < 128) (''exact:'' @ rq_method r @ CHR ''|'' # p)"
    using assms(1,2) by simp
  have k: "exactKey (r\<lparr>rq_path := p @ [z]\<rparr>) b = (''exact:'' @ rq_method r @ CHR ''|'' # p) @ [z]" for z
    using assms(3) by (simp add: exactKey_append writeQueryPart_def)
  have c: "coerce_utf8 (exactKey (r\<lparr>rq_path := p @ [z]\<rparr>) b) = (''exact:'' @ rq_method r @ CHR ''|'' # p) @ replacement"
    if "128 \<le> (of_char z :: nat)" for z
    unfolding k coerce_ascii_append [OF ascii] coerce_lone_byte [OF that] ..
  show ?thesis using wire_json_key [OF assms(9)] wire_json_key [OF assms(10)] assms(4-8) by (simp add: c) (simp add: k)
qed

theorem pushed_keys_merge_witness:
  "\<exists>d d'. str_field ''key'' d = str_field ''key'' d' \<and> d \<noteq> JNull \<and> exactKey \<lparr>rq_method = ''GET'', rq_host = [], rq_path = [CHR ''/'', CHR 0xE8],
     rq_query = []\<rparr> [] \<noteq> exactKey \<lparr>rq_method = ''GET'', rq_host = [], rq_path = [CHR ''/'', CHR 0xE9], rq_query = []\<rparr> []"
proof -
  let ?r = "\<lparr>rq_method = ''GET'', rq_host = [], rq_path = ''/'', rq_query = []\<rparr>"
  let ?w = "\<lambda>x. \<lparr>we_key = exactKey (?r\<lparr>rq_path := ''/'' @ [x]\<rparr>) [], we_status = 200, we_header = None, we_body = [], we_latency_us = 1,
     we_recorded = 946684800123000000\<rparr>"
  obtain ts where ts: "marshal_time 0 946684800123000000 = Some ts" using sample_time by blast
  have "\<exists>d. wire_json (\<lambda>_. 0) (?w x) = Some d" for x using ts by (simp add: wire_json_def)
  then obtain d d' where d: "wire_json (\<lambda>_. 0) (?w (CHR 0xE8)) = Some d" "wire_json (\<lambda>_. 0) (?w (CHR 0xE9)) = Some d'" by blast
  have "we_key (?w (CHR 0xE8)) \<noteq> we_key (?w (CHR 0xE9)) \<and> str_field ''key'' d = str_field ''key'' d'"
    by (rule pushed_keys_merge [of ?r "''/''" "CHR 0xE8" "CHR 0xE9" _ "[]"]) (use d in simp_all)
  moreover have "d \<noteq> JNull" using d(1) by (auto simp: wire_json_def)
  ultimately show ?thesis by auto
qed

end
