(* ===== verification/Package_Middleware.thy ===== *)
theory Package_Middleware
  imports Request_Metrics
begin

text \<open>
  The package-level state of \<open>atropos.go\<close> and the middleware constructors of \<open>middleware.go\<close> over it: which
  interceptor a middleware gets, and a request through the metrics, the tracing wrapper and the interceptor. The
  wrapper of the tracing library hands calls and answers through.
\<close>

section \<open>Construction\<close>

text \<open>\<open>WithInterceptor\<close> can be given nil; an interceptor does not change once it is built.\<close>

datatype middleware_option = WithInterceptor "interceptor option"

fun applyMiddleware :: "middleware_option \<Rightarrow> interceptor option \<Rightarrow> interceptor option" where
  "applyMiddleware (WithInterceptor i) c = i"

definition middlewareConfig :: "interceptor \<Rightarrow> middleware_option list \<Rightarrow> interceptor option" where
  "middlewareConfig defaultInterceptor opts = fold applyMiddleware opts (Some defaultInterceptor)"

text \<open>The default interceptor, and the interceptors of the middleware built so far.\<close>

record package =
  pk_default :: interceptor
  pk_built :: "interceptor option list"

definition package_init :: package where
  "package_init = \<lparr>pk_default = Interceptor_New None [], pk_built = []\<rparr>"

datatype package_call = Configures "configure_option option list" | Builds "middleware_option list"

fun package_op :: "package_call \<Rightarrow> package \<Rightarrow> package" where
  "package_op (Configures opts) p = p\<lparr>pk_default := Configure opts\<rparr>"
| "package_op (Builds opts) p = p\<lparr>pk_built := pk_built p @ [middlewareConfig (pk_default p) opts]\<rparr>"

definition package_run :: "package_call list \<Rightarrow> package \<Rightarrow> package" where
  "package_run ops p = fold package_op ops p"

section \<open>Requests\<close>

text \<open>
  \<open>IngressMiddleware\<close> on a request: the actions of the interceptor's middleware, the calls \<open>answer\<close> the
  wrapped handler makes on its writer, and the metrics. A nil interceptor panics when it is used.
\<close>

definition serve_ingress ::
  "interceptor option \<Rightarrow> (fault \<Rightarrow> fault_error option) \<Rightarrow> bool \<Rightarrow> string \<Rightarrow> string \<Rightarrow> bool \<Rightarrow> writer_op list \<Rightarrow> bool \<Rightarrow> int \<Rightarrow>
   http_request \<Rightarrow> world \<Rightarrow> metrics \<Rightarrow> mw_action list \<times> world \<times> metrics" where
  "serve_ingress m os early serviceName reqMethod flusher answer panics elapsed r w ml =
     (case m of
        None \<Rightarrow> ([], w, ml)
      | Some i \<Rightarrow>
          (let (acts, w') = IngressMiddleware i os early r w
           in (acts, w', ingress_metrics serviceName reqMethod flusher answer panics elapsed ml)))"

text \<open>\<open>EgressTransport\<close>; without a base it forwards through \<open>http.DefaultTransport\<close>.\<close>

definition send_egress ::
  "interceptor option \<Rightarrow> (fault \<Rightarrow> fault_error option) \<Rightarrow> bool \<Rightarrow> box_env \<Rightarrow> round_tripper \<Rightarrow> round_tripper option \<Rightarrow> string \<Rightarrow>
   int \<Rightarrow> egress_request \<Rightarrow> box_world \<Rightarrow> metrics \<Rightarrow> (mw_action list \<times> http_result) \<times> box_world \<times> metrics" where
  "send_egress m os early env DefaultTransport base urlHost elapsed r st ml =
     (case m of
        None \<Rightarrow> (([], HPanic), st, ml)
      | Some i \<Rightarrow>
          (let ((acts, res), st') =
             EgressTransport i os early env (case base of None \<Rightarrow> DefaultTransport | Some b \<Rightarrow> b) r st
           in ((acts, res), st', egress_metrics urlHost r res elapsed ml)))"

section \<open>What a middleware keeps\<close>

lemma package_run_append: "package_run (ops @ ops') p = package_run ops' (package_run ops p)"
  by (simp add: package_run_def)

lemma built_kept: "i < length (pk_built p) \<Longrightarrow> pk_built (package_run ops p) ! i = pk_built p ! i \<and> i < length (pk_built (package_run ops p))"
proof (induction ops arbitrary: p)
  case (Cons x ops)
  have "i < length (pk_built (package_op x p)) \<and> pk_built (package_op x p) ! i = pk_built p ! i"
    using Cons.prems by (cases x) (auto simp: nth_append)
  with Cons.IH [of "package_op x p"] show ?case by (simp add: package_run_def)
qed (simp add: package_run_def)

lemma middlewareConfig_last:
  "middlewareConfig d [] = Some d" "middlewareConfig d (opts @ [WithInterceptor i]) = i"
  by (simp_all add: middlewareConfig_def)

lemma noop_ingress:
  assumes "it_eval i = noopEval"
  shows "IngressMiddleware i os early r w = ([CallNext], w)"
  using assms by (simp add: IngressMiddleware_def Check_def noopEval_def check_actions_def empty_result_def Let_def)

definition sample_ingress :: http_request where
  "sample_ingress = \<lparr>hr_method = ''GET'', hr_path = ''/'', hr_host = ''h'', hr_query = [], hr_user_agent = [], hr_baggage = []\<rparr>"

section \<open>Properties\<close>

text \<open>
  C38. A middleware keeps the interceptor that was the default when it was built. What is built before the first
  \<open>Configure\<close> never injects a fault, whatever is configured afterwards: every request goes straight to the
  handler.
\<close>

theorem built_before_configure:
  assumes "list_all (\<lambda>x. \<exists>o'. x = Builds o') pre"
    and "m = pk_built (package_run post (package_op (Builds []) (package_run pre package_init))) ! length pre"
  shows "\<exists>ml'. serve_ingress m os early serviceName reqMethod flusher answer panics elapsed r w ml = ([CallNext], w, ml')"
proof -
  have pre: "length (pk_built (package_run pre p)) = length (pk_built p) + length pre \<and> pk_default (package_run pre p) = pk_default p" for p
    using assms(1)
  proof (induction pre arbitrary: p)
    case (Cons x pre)
    then obtain opts where x: "x = Builds opts" by auto
    with Cons.IH [of "package_op x p"] Cons.prems show ?case by (simp add: package_run_def)
  qed (simp add: package_run_def)
  let ?p = "package_op (Builds []) (package_run pre package_init)"
  have l: "length (pk_built (package_run pre package_init)) = length pre"
    using pre [of package_init] by (simp add: package_init_def)
  have "length pre < length (pk_built ?p)" "pk_built ?p ! length pre = Some (Interceptor_New None [])"
    using l pre [of package_init] by (simp_all add: nth_append middlewareConfig_last package_init_def)
  with built_kept [of "length pre" ?p post] assms(2) have m: "m = Some (Interceptor_New None [])" by simp
  have "it_eval (Interceptor_New None []) = noopEval" by (simp add: Interceptor_New_def)
  from noop_ingress [OF this] show ?thesis by (simp add: serve_ingress_def m)
qed

theorem built_before_configure_witness:
  "\<exists>ml'. serve_ingress (pk_built (package_run [Configures [Some (WithEvaluator (Some (\<lambda>_. Some cpu_rule)))]]
       (package_op (Builds []) (package_run [] package_init))) ! 0) (\<lambda>_. None) False ''svc'' ''GET'' True [] False 5
     sample_ingress NewFaultRegistry [] = ([CallNext], NewFaultRegistry, ml')"
  by (rule built_before_configure [of "[]", simplified]) simp

text \<open>
  The last \<open>WithInterceptor\<close> wins over the default, also when it is nil; then every request panics before the
  handler is called, and is not counted.
\<close>

theorem nil_interceptor_panics:
  assumes "m = middlewareConfig d (opts @ [WithInterceptor None])"
  shows "serve_ingress m os early serviceName reqMethod flusher answer panics elapsed r w ml = ([], w, ml) \<and>
     send_egress m os early env dt base urlHost elapsed q st ml = (([], HPanic), st, ml)"
  using assms by (simp add: middlewareConfig_last serve_ingress_def send_egress_def)

theorem nil_interceptor_panics_witness:
  "fst (serve_ingress (middlewareConfig (Interceptor_New None []) [WithInterceptor None]) (\<lambda>_. None) False ''svc'' ''GET'' True [] False 5
     sample_ingress NewFaultRegistry []) = []"
  using nil_interceptor_panics [of "middlewareConfig (Interceptor_New None []) [WithInterceptor None]" "Interceptor_New None []" "[]"] by simp

text \<open>
  The whole path of a request that is sent: the metrics change nothing of what the interceptor's transport does, and
  without a base it forwards to the default transport. A request whose evaluator has no rule is sent once, answered
  as the transport answers it, and counted once with the status of the answer.
\<close>

theorem egress_composition:
  assumes "it_eval i \<lparr>er_point = Egress, er_labels = extractHTTPLabels (http_request.truncate r)\<rparr> = None"
    and "dt r = Inr (Some resp)"
  shows "\<exists>ml'. send_egress (Some i) os early env dt None urlHost elapsed r st ml =
       (([CallNext], HResp resp), st\<lparr>bw_sent := bw_sent st @ [r]\<rparr>,
        ml @ [Observe ClientDuration [hr_method r, format_int (rp_status resp), if urlHost = [] then hr_host r else urlHost] (Seconds elapsed),
              Inc ClientRequests [hr_method r, format_int (rp_status resp), if urlHost = [] then hr_host r else urlHost]] @ ml') \<and>
     counter CacheHits ml' + counter CacheRecords ml' \<le> 1"
  using assms counter_cache(1) [of resp]
  by (auto simp: send_egress_def EgressTransport_def egress_metrics_def Let_def)

theorem egress_composition_witness:
  "\<exists>st' ml'. send_egress (Some (Interceptor_New None [])) (\<lambda>_. None) False sample_env (\<lambda>_. Inr (Some sample_response)) None [] 7
     (sample_get []) sample_world [] = (([CallNext], HResp sample_response), st', ml')"
proof -
  have "it_eval (Interceptor_New None []) \<lparr>er_point = Egress, er_labels = extractHTTPLabels (http_request.truncate (sample_get []))\<rparr> = None"
    by (simp add: Interceptor_New_def noopEval_def)
  from egress_composition [OF this, of "\<lambda>_. Inr (Some sample_response)" sample_response "\<lambda>_. None" False sample_env "[]" 7 sample_world "[]"]
  show ?thesis by auto
qed

end
