(* ===== verification/Phase_Emitter.thy ===== *)
theory Phase_Emitter
  imports Resource_Ramp
begin

text \<open>
  The goroutine \<open>emitPhaseEvents\<close> of a running CPU, disk or I/O fault (\<open>stress.go\<close> of the
  three packages under \<open>internal/fault/resource\<close>): the events it sends from one select to the next, and the
  timeline they follow.
\<close>

datatype emitter_pc = EmitStart | EmitUp | EmitSustain | EmitDown | EmitOver

text \<open>
  The emitter: the events it sends until its next select, where it is then and how long its timer runs.
\<close>

definition stress_event :: "string \<times> attr_value \<Rightarrow> fault_config \<Rightarrow> phase_event \<Rightarrow> resource_event" where
  "stress_event target b ev =
     (ev, case ev of
            RampUpStart \<Rightarrow> [target, (''atropos.resource.ramp_up_ms'', IntAttr (Milliseconds (fc_ramp_up b)))]
          | SustainStart \<Rightarrow> [target]
          | RampDownStart \<Rightarrow> [(''atropos.resource.ramp_down_ms'', IntAttr (Milliseconds (fc_ramp_down b)))]
          | _ \<Rightarrow> [])"

definition emit_down :: "fault_config \<Rightarrow> phase_event list \<times> emitter_pc \<times> int" where
  "emit_down b = ([RampDownStart], EmitDown, fc_ramp_down b)"

definition emit_sustain :: "fault_config \<Rightarrow> phase_event list \<times> emitter_pc \<times> int" where
  "emit_sustain b =
     (let rampDownStart = wrap64 (fc_duration b - fc_ramp_down b)
      in if fc_ramp_down b > 0
         then (let sustainDuration = wrap64 (rampDownStart - fc_ramp_up b)
               in if sustainDuration > 0 then ([SustainStart], EmitSustain, sustainDuration)
                  else (let (evs, next) = emit_down b in (SustainStart # evs, next)))
         else ([SustainStart], EmitOver, 0))"

definition emitter_move :: "fault_config \<Rightarrow> emitter_pc \<Rightarrow> phase_event list \<times> emitter_pc \<times> int" where
  "emitter_move b pc =
     (case pc of
        EmitStart \<Rightarrow>
          if fc_ramp_up b > 0 then ([RampUpStart], EmitUp, fc_ramp_up b) else emit_sustain b
      | EmitUp \<Rightarrow> (let (evs, next) = emit_sustain b in (RampUpComplete # evs, next))
      | EmitSustain \<Rightarrow> emit_down b
      | EmitDown \<Rightarrow> ([RampDownComplete], EmitOver, 0)
      | EmitOver \<Rightarrow> ([], EmitOver, 0))"

text \<open>
  A move of the emitter: it starts, its timer fires, or the context is done. The third component is the time of its next
  timer.
\<close>

definition emitter_step ::
    "fault_config \<Rightarrow> bool \<Rightarrow> int \<Rightarrow> bool \<Rightarrow> emitter_pc \<Rightarrow> int \<Rightarrow> (phase_event list \<times> emitter_pc \<times> int) option" where
  "emitter_step b over now fired pc until =
     (if pc = EmitOver then None
      else if pc = EmitStart \<or> fired \<and> until \<le> now
      then (let (evs, pc', wait) = emitter_move b pc in Some (evs, pc', now + wait))
      else if over \<and> \<not> fired then Some ([], EmitOver, until)
      else None)"

text \<open>The phase events sent so far: by the clock, and by where the emitter is and when its timer fires.\<close>

definition up_events :: "fault_config \<Rightarrow> phase_event list" where
  "up_events b = (if fc_ramp_up b > 0 then [RampUpStart, RampUpComplete] else [])"

definition emit_by :: "fault_config \<Rightarrow> int \<Rightarrow> int \<Rightarrow> phase_event list \<Rightarrow> bool" where
  "emit_by b t0 now evs \<longleftrightarrow>
     t0 \<le> now \<and>
     (RampUpComplete \<in> set evs \<longrightarrow> t0 + fc_ramp_up b \<le> now) \<and>
     (RampDownStart \<in> set evs \<longrightarrow> t0 + fc_duration b - fc_ramp_down b \<le> now) \<and>
     (RampDownComplete \<in> set evs \<longrightarrow> t0 + fc_duration b \<le> now)"

definition emit_at :: "fault_config \<Rightarrow> bool \<Rightarrow> int \<Rightarrow> emitter_pc \<Rightarrow> int \<Rightarrow> phase_event list \<Rightarrow> bool" where
  "emit_at b emit t0 pc t evs \<longleftrightarrow>
     (let up = fc_ramp_up b; down = fc_ramp_down b; dur = fc_duration b
      in (pc \<noteq> EmitOver \<longrightarrow> phase_tracking emit b) \<and>
         (case pc of
            EmitStart \<Rightarrow> evs = []
          | EmitUp \<Rightarrow> 0 < up \<and> evs = [RampUpStart] \<and> t0 + up \<le> t
          | EmitSustain \<Rightarrow> 0 < down \<and> evs = up_events b @ [SustainStart] \<and> t0 + dur - down \<le> t
          | EmitDown \<Rightarrow> 0 < down \<and> evs = up_events b @ [SustainStart, RampDownStart] \<and> t0 + dur \<le> t
          | EmitOver \<Rightarrow> (if phase_tracking emit b then \<exists>x y z. evs = emitPhaseEvents b x y z else evs = [])))"

lemma emit_by_mono: "emit_by b t0 now evs \<Longrightarrow> now \<le> now' \<Longrightarrow> emit_by b t0 now' evs"
  by (auto simp: emit_by_def)

text \<open>The events of a valid configuration, by the timers that fire.\<close>

lemma emitPhaseEvents_ok:
  assumes "ramps_ok (fc_duration b) (fc_ramp_up b) (fc_ramp_down b)"
  shows "emitPhaseEvents b up sustain down =
     (if fc_ramp_up b > 0 \<and> \<not> up then [RampUpStart]
      else (if fc_ramp_up b > 0 then [RampUpStart, RampUpComplete] else []) @ [SustainStart] @
        (if fc_ramp_down b > 0 \<and> sustain then [RampDownStart] @ (if down then [RampDownComplete] else []) else []))"
proof -
  have "wrap64 (fc_duration b - fc_ramp_down b - fc_ramp_up b) = fc_duration b - fc_ramp_down b - fc_ramp_up b"
    using assms by (intro wrap64_id) (auto simp: ramps_ok_def i64_def)
  with ramps_ok_wrap [OF assms] assms show ?thesis by (auto simp: emitPhaseEvents_def Let_def ramps_ok_def)
qed

lemma emit_sustain_ok:
  assumes "ramps_ok (fc_duration b) (fc_ramp_up b) (fc_ramp_down b)"
  shows "emit_sustain b =
     (if fc_ramp_down b > 0
      then ([SustainStart], EmitSustain, fc_duration b - fc_ramp_down b - fc_ramp_up b)
      else ([SustainStart], EmitOver, 0))"
proof -
  have "wrap64 (fc_duration b - fc_ramp_down b - fc_ramp_up b) = fc_duration b - fc_ramp_down b - fc_ramp_up b"
    using assms by (intro wrap64_id) (auto simp: ramps_ok_def i64_def)
  with ramps_ok_wrap [OF assms] assms show ?thesis
    by (auto simp: emit_sustain_def Let_def ramps_ok_def)
qed

lemma emit_at_abort:
  assumes "ramps_ok (fc_duration b) (fc_ramp_up b) (fc_ramp_down b)" and "emit_at b emit t0 pc t evs" and "pc \<noteq> EmitStart"
  shows "emit_at b emit t0 EmitOver t' evs"
proof -
  note E = emitPhaseEvents_ok [OF assms(1)]
  have "(\<exists>x y z. evs = emitPhaseEvents b x y z) \<or> pc = EmitOver"
  proof (cases pc)
    case EmitUp
    with assms(2) have "evs = emitPhaseEvents b False True True" by (simp add: emit_at_def E Let_def)
    then show ?thesis by blast
  next
    case EmitSustain
    with assms(2) have "evs = emitPhaseEvents b True False True" by (simp add: emit_at_def up_events_def E Let_def)
    then show ?thesis by blast
  next
    case EmitDown
    with assms(2) have "evs = emitPhaseEvents b True True False" by (simp add: emit_at_def up_events_def E Let_def)
    then show ?thesis by blast
  qed (use assms(3) in auto)
  then show ?thesis using assms(2) by (auto simp: emit_at_def Let_def split: emitter_pc.splits)
qed

lemma emit_at_move:
  assumes "ramps_ok (fc_duration b) (fc_ramp_up b) (fc_ramp_down b)" and "emit_at b emit t0 pc t evs" and "emit_by b t0 now evs"
    and "pc = EmitStart \<or> fired \<and> t \<le> now"
    and "emitter_move b pc = (evs', pc', wait)"
  shows "emit_at b emit t0 pc' (now + wait) (evs @ evs') \<and> emit_by b t0 now (evs @ evs')"
proof -
  note E = emitPhaseEvents_ok [OF assms(1)] and S = emit_sustain_ok [OF assms(1)]
  have all: "\<exists>x y z. emitPhaseEvents b True True True = emitPhaseEvents b x y z" by blast
  have r: "0 \<le> fc_ramp_up b" "0 \<le> fc_ramp_down b"
    "fc_ramp_up b + fc_ramp_down b < fc_duration b"
    using assms(1) by (auto simp: ramps_ok_def)
  show ?thesis
  proof (cases pc)
    case EmitOver
    with assms(2,3,5) show ?thesis by (simp add: emitter_move_def emit_at_def)
  next
    case EmitDown
    with assms(2-5) r all show ?thesis
      by (auto simp: emitter_move_def emit_at_def emit_by_def up_events_def E Let_def)
  next
    case EmitSustain
    with assms(2-5) r show ?thesis
      by (auto simp: emitter_move_def emit_down_def emit_at_def emit_by_def up_events_def Let_def)
  next
    case EmitUp
    with assms(2-5) r show ?thesis
      by (auto simp: emitter_move_def S emit_at_def emit_by_def up_events_def E Let_def split: if_splits)
  next
    case EmitStart
    with assms(2-5) r show ?thesis
      by (auto simp: emitter_move_def S emit_at_def emit_by_def up_events_def E Let_def split: if_splits)
  qed
qed

lemma emitter_step_ok:
  assumes "ramps_ok (fc_duration b) (fc_ramp_up b) (fc_ramp_down b)" and "emit_at b emit t0 pc t evs" and "emit_by b t0 now evs"
    and "emitter_step b over now fired pc t = Some (evs', pc', t')"
  shows "emit_at b emit t0 pc' t' (evs @ evs')" and "emit_by b t0 now (evs @ evs')"
proof -
  have "emit_at b emit t0 pc' t' (evs @ evs') \<and> emit_by b t0 now (evs @ evs')"
  proof (cases "pc = EmitStart \<or> fired \<and> t \<le> now")
    case True
    obtain evs1 pc1 wait where m: "emitter_move b pc = (evs1, pc1, wait)" by (metis surj_pair)
    with True assms(4) have "evs' = evs1" "pc' = pc1" "t' = now + wait" by (auto simp: emitter_step_def split: if_splits)
    with emit_at_move [OF assms(1-3) True m] show ?thesis by simp
  next
    case False
    with assms(3,4) emit_at_abort [OF assms(1,2)] show ?thesis by (auto simp: emitter_step_def split: if_splits)
  qed
  then show "emit_at b emit t0 pc' t' (evs @ evs')" and "emit_by b t0 now (evs @ evs')" by simp_all
qed

primrec emitter_measure :: "emitter_pc \<Rightarrow> nat" where
  "emitter_measure EmitStart = 4" | "emitter_measure EmitUp = 3" | "emitter_measure EmitSustain = 2"
| "emitter_measure EmitDown = 1" | "emitter_measure EmitOver = 0"

lemma emitter_measure_step: "emitter_step b over now fired pc t = Some (evs, pc', t') \<Longrightarrow> emitter_measure pc' < emitter_measure pc"
  by (cases pc) (auto simp: emitter_step_def emitter_move_def emit_sustain_def emit_down_def Let_def split: if_splits)

lemma emitter_step_over [simp]: "emitter_step b over now fired EmitOver t = None"
  by (simp add: emitter_step_def)

lemma emitter_step_enabled: "pc \<noteq> EmitOver \<Longrightarrow> \<exists>x. emitter_step b True now False pc t = Some x"
  by (auto simp: emitter_step_def Let_def split: prod.splits)

end
