(* ===== verification/Stress_Lifecycle.thy ===== *)
theory Stress_Lifecycle
  imports Stress_Start Phase_Emitter
begin

text \<open>
  The goroutines of a running disk or I/O fault (\<open>internal/fault/resource/disk/stress.go\<close> and
  \<open>internal/fault/resource/io/stress.go\<close>): the workers and the ramp share a token bucket, the emitter sends the phase
  events, and the fault's own goroutine waits for them all, sends the result and runs its deferred calls. The two
  faults differ in what a worker does with its tokens, which is a parameter. A label says which goroutine
  moves and what the system, the clock and the timers answer.
\<close>

section \<open>The state\<close>

text \<open>Where a worker is: before the look at the context, in \<open>acquire\<close>, at its lock, in its timer, with its tokens.\<close>

datatype worker_pc = LoopTop | Acquiring | Locking | Polling | Holding | Returned

datatype ramp_pc = RampSelect | RampSet int | RampOver

datatype deferred = CancelCtx | RemoveTemp | CloseFile

text \<open>The goroutine of the fault: joining, with the elapsed time, and with the deferred calls that are left.\<close>

datatype main_pc = Joining | Sending int | Deferred "deferred list"

record ('o, 'w) stress_code =
  sc_base :: fault_config
  sc_emit :: bool
  sc_target :: "string \<times> attr_value"
  sc_size :: int
  sc_body :: "'o \<Rightarrow> 'w \<Rightarrow> 'w \<times> bool"
  sc_rate :: "int \<Rightarrow> int"
  sc_start :: int
  sc_deadline :: int
  sc_defers :: "deferred list"

text \<open>
  \<open>st_parent\<close> and \<open>st_ctx\<close> are the errors of the caller's context and of the one with the timeout. The result holds
  what the workers have counted.
\<close>

record 'w stress_state =
  st_now :: int
  st_parent :: "ctx_error option"
  st_ctx :: "ctx_error option"
  st_bucket :: token_bucket
  st_workers :: "(worker_pc \<times> 'w) list"
  st_ramp :: ramp_pc
  st_emitter :: emitter_pc
  st_until :: int
  st_events :: "resource_event list"
  st_main :: main_pc
  st_open :: bool
  st_temp :: bool
  st_sent :: "(int \<times> 'w list \<times> ctx_error option) option"

definition stress_begin :: "('o, 'w) stress_code \<Rightarrow> token_bucket \<Rightarrow> 'w list \<Rightarrow> 'w stress_state" where
  "stress_begin c tb ws =
     \<lparr>st_now = sc_start c, st_parent = None, st_ctx = None, st_bucket = tb, st_workers = map (Pair LoopTop) ws,
      st_ramp = RampSelect, st_emitter = (if phase_tracking (sc_emit c) (sc_base c) then EmitStart else EmitOver),
      st_until = sc_start c, st_events = [], st_main = Joining, st_open = True, st_temp = True, st_sent = None\<rparr>"

section \<open>The goroutines\<close>

text \<open>
  A worker: \<open>fired\<close> says that its timer fires, and \<open>o'\<close> is what its system calls do. A select whose context and timer
  are both ready may take either.
\<close>

definition worker_move ::
  "('o, 'w) stress_code \<Rightarrow> bool \<Rightarrow> int \<Rightarrow> bool \<Rightarrow> 'o \<Rightarrow> worker_pc \<times> 'w \<Rightarrow> token_bucket \<Rightarrow> ((worker_pc \<times> 'w) \<times> token_bucket) option" where
  "worker_move c over now fired o' g tb =
     (case g of
        (LoopTop, w) \<Rightarrow> Some ((if over then Returned else Acquiring, w), tb)
      | (Acquiring, w) \<Rightarrow> Some ((if over then Returned else Locking, w), tb)
      | (Locking, w) \<Rightarrow>
          (let (ok, tb') = try_acquire now (sc_size c) tb
           in Some ((if ok then Holding else Polling, w), tb'))
      | (Polling, w) \<Rightarrow>
          if fired then Some ((Acquiring, w), tb) else if over then Some ((Returned, w), tb) else None
      | (Holding, w) \<Rightarrow>
          (let (w', goes_on) = sc_body c o' w
           in Some ((if goes_on then LoopTop else Returned, w'), tb))
      | (Returned, w) \<Rightarrow> None)"

text \<open>The ramp takes a tick: the time since the start is read before the bucket is locked.\<close>

definition ramp_tick :: "('o, 'w) stress_code \<Rightarrow> int \<Rightarrow> ramp_pc \<Rightarrow> ramp_pc option" where
  "ramp_tick c now pc =
     (if pc = RampSelect \<and> \<not> (fc_ramp_up (sc_base c) = 0 \<and> fc_ramp_down (sc_base c) = 0)
      then Some (RampSet (sc_rate c (now - sc_start c))) else None)"

definition ramp_move :: "bool \<Rightarrow> ramp_pc \<Rightarrow> token_bucket \<Rightarrow> (ramp_pc \<times> token_bucket) option" where
  "ramp_move over pc tb =
     (case pc of
        RampSelect \<Rightarrow> if over then Some (RampOver, tb) else None
      | RampSet r \<Rightarrow> Some (RampSelect, setRate r tb)
      | RampOver \<Rightarrow> None)"

section \<open>Steps\<close>

text \<open>
  The labels of the environment: time, a call of \<open>Stop\<close>, the deadline, the end of the caller's context and a tick
  of the ramp's ticker; the other labels are moves of the goroutines.
\<close>

datatype 'o stress_act =
    Elapse int | StopCall | Deadline | ParentEnds ctx_error | Tick
  | WorkerMove nat bool 'o | RampMove | EmitterMove bool | MainMove bool

definition ended :: "ctx_error \<Rightarrow> ctx_error option \<Rightarrow> ctx_error option" where
  "ended e ctx = (case ctx of None \<Rightarrow> Some e | Some e' \<Rightarrow> Some e')"

definition all_over :: "'w stress_state \<Rightarrow> bool" where
  "all_over s \<longleftrightarrow> list_all (\<lambda>g. fst g = Returned) (st_workers s) \<and> st_ramp s = RampOver \<and> st_emitter s = EmitOver"

text \<open>A deferred call; \<open>ok\<close> says that a file can be removed, and the code drops the error.\<close>

definition run_deferred :: "deferred \<Rightarrow> bool \<Rightarrow> 'w stress_state \<Rightarrow> 'w stress_state" where
  "run_deferred d ok s =
     (case d of
        CancelCtx \<Rightarrow> s\<lparr>st_ctx := ended Canceled (st_ctx s)\<rparr>
      | RemoveTemp \<Rightarrow> s\<lparr>st_temp := st_temp s \<and> \<not> ok\<rparr>
      | CloseFile \<Rightarrow> s\<lparr>st_open := False\<rparr>)"

text \<open>Deferred calls run in the reverse of their order.\<close>

definition main_move :: "('o, 'w) stress_code \<Rightarrow> bool \<Rightarrow> 'w stress_state \<Rightarrow> 'w stress_state option" where
  "main_move c ok s =
     (case st_main s of
        Joining \<Rightarrow> if all_over s then Some (s\<lparr>st_main := Sending (st_now s - sc_start c)\<rparr>) else None
      | Sending elapsed \<Rightarrow>
          Some (s\<lparr>st_sent := Some (elapsed, map snd (st_workers s), stress_err (st_parent s) (st_ctx s)),
                  st_main := Deferred (rev (sc_defers c))\<rparr>)
      | Deferred [] \<Rightarrow> None
      | Deferred (d # ds) \<Rightarrow> Some ((run_deferred d ok s)\<lparr>st_main := Deferred ds\<rparr>))"

fun stress_step :: "('o, 'w) stress_code \<Rightarrow> 'o stress_act \<Rightarrow> 'w stress_state \<Rightarrow> 'w stress_state option" where
  "stress_step c (Elapse d) s = (if 0 \<le> d then Some (s\<lparr>st_now := st_now s + d\<rparr>) else None)"
| "stress_step c StopCall s = Some (s\<lparr>st_ctx := ended Canceled (st_ctx s)\<rparr>)"
| "stress_step c Deadline s =
     (if sc_deadline c \<le> st_now s then Some (s\<lparr>st_ctx := ended DeadlineExceeded (st_ctx s)\<rparr>) else None)"
| "stress_step c (ParentEnds e) s =
     (if st_parent s = None then Some (s\<lparr>st_parent := Some e, st_ctx := ended e (st_ctx s)\<rparr>) else None)"
| "stress_step c Tick s = map_option (\<lambda>pc. s\<lparr>st_ramp := pc\<rparr>) (ramp_tick c (st_now s) (st_ramp s))"
| "stress_step c (WorkerMove i fired o') s =
     (if i < length (st_workers s)
      then map_option (\<lambda>(g, tb). s\<lparr>st_workers := (st_workers s)[i := g], st_bucket := tb\<rparr>)
             (worker_move c (st_ctx s \<noteq> None) (st_now s) fired o' (st_workers s ! i) (st_bucket s))
      else None)"
| "stress_step c RampMove s =
     map_option (\<lambda>(pc, tb). s\<lparr>st_ramp := pc, st_bucket := tb\<rparr>) (ramp_move (st_ctx s \<noteq> None) (st_ramp s) (st_bucket s))"
| "stress_step c (EmitterMove fired) s =
     map_option (\<lambda>(evs, pc, t). s\<lparr>st_events := st_events s @ map (stress_event (sc_target c) (sc_base c)) evs, st_emitter := pc,
                                      st_until := t\<rparr>)
       (emitter_step (sc_base c) (st_ctx s \<noteq> None) (st_now s) fired (st_emitter s) (st_until s))"
| "stress_step c (MainMove ok) s = main_move c ok s"

primrec stress_run :: "('o, 'w) stress_code \<Rightarrow> 'o stress_act list \<Rightarrow> 'w stress_state \<Rightarrow> 'w stress_state option" where
  "stress_run c [] s = Some s"
| "stress_run c (a # acts) s = (case stress_step c a s of None \<Rightarrow> None | Some s' \<Rightarrow> stress_run c acts s')"

section \<open>The two faults\<close>

text \<open>What a worker of the disk fault does with its tokens, once; it goes on if there is no error.\<close>

definition write_chunk :: "int \<Rightarrow> int \<Rightarrow> write_round \<Rightarrow> disk_run \<Rightarrow> disk_run \<times> bool" where
  "write_chunk maxDisk chunkSize r s =
     (let over = wrap64 (dr_fileSize s + chunkSize) > maxDisk
      in if over \<and> \<not> wr_seek_ok r then (s, False)
         else (let s1 = (if over then s\<lparr>dr_fileSize := 0, dr_offset := 0\<rparr> else s)
               in if \<not> wr_write_ok r then (file_write (wr_partial r) s1, False)
                  else (let s2 = file_write chunkSize s1
                        in (s2\<lparr>dr_fileSize := wrap64 (dr_fileSize s2 + chunkSize),
                              dr_written := wrap64 (dr_written s2 + chunkSize),
                              dr_ops := wrap64 (dr_ops s2 + 1)\<rparr>, True))))"

definition disk_code :: "disk_config \<Rightarrow> bool \<Rightarrow> int \<Rightarrow> int \<Rightarrow> int \<Rightarrow> (write_round, disk_run) stress_code" where
  "disk_code c emit ovf start deadline =
     (let base = dc_base c; writeRate = EffectiveWriteRate c; chunkSize = disk_EffectiveChunkSize c
      in \<lparr>sc_base = base, sc_emit = emit, sc_target = (''atropos.resource.target_rate'', IntAttr writeRate),
          sc_size = chunkSize, sc_body = write_chunk (EffectiveMaxDiskUsage c) chunkSize,
          sc_rate = effective_rate ovf writeRate (fc_duration base) (fc_ramp_up base) (fc_ramp_down base),
          sc_start = start, sc_deadline = deadline, sc_defers = [CancelCtx, RemoveTemp, CloseFile]\<rparr>)"

definition disk_begin :: "disk_config \<Rightarrow> bool \<Rightarrow> int \<Rightarrow> int \<Rightarrow> int \<Rightarrow> disk_run stress_state" where
  "disk_begin c emit ovf start deadline =
     stress_begin (disk_code c emit ovf start deadline)
       (newTokenBucket start (EffectiveWriteRate c) (disk_EffectiveChunkSize c)) [new_file]"

text \<open>What a reader does with its tokens, once.\<close>

definition read_file :: "nat \<Rightarrow> read_round \<Rightarrow> read_run \<Rightarrow> read_run \<times> bool" where
  "read_file n r s =
     (if \<not> rr_open_ok r then (s, False)
      else (s\<lparr>rd_total := wrap64 (rd_total s + rr_read r), rd_ops := wrap64 (rd_ops s + 1),
              rd_idx := (rd_idx s + 1) mod n, rd_opened := rd_opened s @ [rd_idx s]\<rparr>, True))"

definition io_code :: "io_config \<Rightarrow> string list \<Rightarrow> bool \<Rightarrow> int \<Rightarrow> int \<Rightarrow> int \<Rightarrow> (read_round, read_run) stress_code" where
  "io_code c files emit ovf start deadline =
     (let base = ic_base c; readRate = EffectiveReadRate c
      in \<lparr>sc_base = base, sc_emit = emit, sc_target = (''atropos.resource.target_rate'', IntAttr readRate),
          sc_size = EffectiveFileSize c, sc_body = read_file (length files),
          sc_rate = effective_rate ovf readRate (fc_duration base) (fc_ramp_up base) (fc_ramp_down base),
          sc_start = start, sc_deadline = deadline, sc_defers = [CancelCtx, RemoveTemp]\<rparr>)"

definition io_begin :: "io_config \<Rightarrow> string list \<Rightarrow> bool \<Rightarrow> int \<Rightarrow> int \<Rightarrow> int \<Rightarrow> read_run stress_state" where
  "io_begin c files emit ovf start deadline =
     stress_begin (io_code c files emit ovf start deadline)
       (newTokenBucket start (EffectiveReadRate c) (EffectiveFileSize c))
       (map (\<lambda>w. \<lparr>rd_idx = w mod length files, rd_total = 0, rd_ops = 0, rd_opened = []\<rparr>) [0..<nat (EffectiveWorkers c)])"

section \<open>Runs\<close>

lemma stress_run_append:
  "stress_run c (acts @ acts') s = (case stress_run c acts s of None \<Rightarrow> None | Some s' \<Rightarrow> stress_run c acts' s')"
  by (induction acts arbitrary: s) (auto split: option.split)

lemma stress_run_invariant:
  assumes "\<And>s a s'. stress_step c a s = Some s' \<Longrightarrow> Q s \<Longrightarrow> P a \<Longrightarrow> Q s'"
  shows "stress_run c acts s = Some s' \<Longrightarrow> Q s \<Longrightarrow> list_all P acts \<Longrightarrow> Q s'"
proof (induction acts arbitrary: s)
  case (Cons a acts)
  then show ?case using assms by (auto split: option.splits)
qed simp

lemma stress_run_keeps:
  assumes "\<And>s a s'. stress_step c a s = Some s' \<Longrightarrow> Q s \<Longrightarrow> Q s'" and "stress_run c acts s = Some s'" and "Q s"
  shows "Q s'"
  using stress_run_invariant [of c Q "\<lambda>_. True", OF _ assms(2,3)] assms(1) by (simp add: list_all_iff)

text \<open>What a step can change, by its label.\<close>

lemmas step_cases = worker_move_def ramp_tick_def ramp_move_def main_move_def run_deferred_def ended_def

lemma step_now: "stress_step c a s = Some s' \<Longrightarrow> st_now s \<le> st_now s'"
  by (cases a) (auto simp: step_cases Let_def split: if_splits prod.splits main_pc.splits deferred.splits list.splits)

lemma ended_some [simp]: "ended e ctx \<noteq> None" "ctx \<noteq> None \<Longrightarrow> ended e ctx = ctx"
  by (auto simp: ended_def split: option.splits)

lemma step_ctx: "stress_step c a s = Some s' \<Longrightarrow> st_ctx s \<noteq> None \<Longrightarrow> st_ctx s' = st_ctx s"
  by (cases a) (auto simp: main_move_def run_deferred_def Let_def
      split: if_splits prod.splits main_pc.splits deferred.splits list.splits)

lemma run_ctx: "stress_run c acts s = Some s' \<Longrightarrow> st_ctx s \<noteq> None \<Longrightarrow> st_ctx s' = st_ctx s"
proof -
  assume "stress_run c acts s = Some s'" and "st_ctx s \<noteq> None"
  with stress_run_keeps [where Q = "\<lambda>x. st_ctx x = st_ctx s \<and> st_ctx x \<noteq> None"] step_ctx show ?thesis by (metis (no_types, lifting))
qed

text \<open>A step of a goroutine other than the fault's own leaves what that one looks at once all are over.\<close>

lemma over_stays:
  assumes "stress_step c a s = Some s'" and "all_over s"
  shows "all_over s' \<and> st_workers s' = st_workers s"
proof (cases a)
  case (WorkerMove i fired o')
  with assms have "i < length (st_workers s)" "fst (st_workers s ! i) = Returned"
    by (auto simp: all_over_def list_all_length split: if_splits)
  with assms(1) WorkerMove show ?thesis by (cases "st_workers s ! i") (auto simp: worker_move_def)
qed (use assms in \<open>auto simp: all_over_def ramp_tick_def ramp_move_def main_move_def run_deferred_def Let_def
      split: if_splits main_pc.splits deferred.splits list.splits\<close>)

section \<open>The result\<close>

definition join_inv :: "('o, 'w) stress_code \<Rightarrow> 'w stress_state \<Rightarrow> bool" where
  "join_inv c s \<longleftrightarrow>
     (st_ramp s = RampOver \<longrightarrow> st_ctx s \<noteq> None) \<and>
     (st_ctx s = Some DeadlineExceeded \<and> st_parent s = None \<longrightarrow> sc_deadline c \<le> st_now s) \<and>
     (st_main s \<noteq> Joining \<longrightarrow> all_over s) \<and>
     (\<forall>e. st_main s = Sending e \<longrightarrow>
        (st_ctx s = Some DeadlineExceeded \<and> st_parent s = None \<longrightarrow> sc_deadline c \<le> sc_start c + e)) \<and>
     (st_sent s = None \<longleftrightarrow> (\<forall>ds. st_main s \<noteq> Deferred ds)) \<and>
     (\<forall>e ws err. st_sent s = Some (e, ws, err) \<longrightarrow>
        ws = map snd (st_workers s) \<and> (err = None \<or> err = st_parent s \<and> st_ctx s = Some Canceled) \<and>
        (st_ctx s = Some DeadlineExceeded \<and> st_parent s = None \<longrightarrow> sc_deadline c \<le> sc_start c + e))"

lemma join_inv_begin: "join_inv c (stress_begin c tb ws)"
  by (simp add: join_inv_def stress_begin_def)

lemma step_frame:
  assumes "stress_step c a s = Some s'" and "\<forall>ok. a \<noteq> MainMove ok"
  shows "st_main s' = st_main s" "st_sent s' = st_sent s" "st_open s' = st_open s" "st_temp s' = st_temp s"
  using assms by (cases a; auto simp: Let_def split: if_splits prod.splits)+

lemma step_parent: "stress_step c a s = Some s' \<Longrightarrow> st_parent s \<noteq> None \<Longrightarrow> st_parent s' = st_parent s"
  by (cases a) (auto simp: main_move_def run_deferred_def Let_def split: if_splits prod.splits main_pc.splits deferred.splits list.splits)

lemma step_deadline:
  assumes "stress_step c a s = Some s'" and "st_ctx s' = Some DeadlineExceeded" and "st_parent s' = None"
  shows "st_ctx s = Some DeadlineExceeded \<or> sc_deadline c \<le> st_now s'"
  using assms by (cases a) (auto simp: main_move_def run_deferred_def ended_def Let_def
      split: if_splits prod.splits main_pc.splits deferred.splits list.splits option.splits)

lemma step_ramp_over:
  "stress_step c a s = Some s' \<Longrightarrow> st_ramp s' = RampOver \<Longrightarrow> st_ramp s = RampOver \<or> st_ctx s \<noteq> None"
  by (cases a) (auto simp: ramp_tick_def ramp_move_def main_move_def run_deferred_def Let_def
      split: if_splits prod.splits main_pc.splits deferred.splits list.splits ramp_pc.splits)

lemma join_inv_step:
  assumes "stress_step c a s = Some s'" and "join_inv c s"
  shows "join_inv c s'"
proof -
  note inv = assms(2) [unfolded join_inv_def]
  have ramp: "st_ramp s' = RampOver \<longrightarrow> st_ctx s' \<noteq> None"
    using step_ramp_over [OF assms(1)] step_ctx [OF assms(1)] inv by metis
  have late: "st_ctx s' = Some DeadlineExceeded \<and> st_parent s' = None \<longrightarrow> sc_deadline c \<le> st_now s'"
    using step_deadline [OF assms(1)] step_parent [OF assms(1)] step_now [OF assms(1)] inv by (metis order_trans)
  have main: "all_over s' \<and> st_workers s' = st_workers s \<and> st_ctx s' = st_ctx s \<and> st_ctx s \<noteq> None" if "all_over s"
    using over_stays [OF assms(1) that] step_ctx [OF assms(1)] inv that by (auto simp: all_over_def)
  show ?thesis
  proof (cases "\<exists>ok. a = MainMove ok")
    case False
    then have f: "st_main s' = st_main s" "st_sent s' = st_sent s" using step_frame [OF assms(1)] by auto
    show ?thesis
    proof (cases "st_main s = Joining")
      case True
      with inv f ramp late show ?thesis by (simp add: join_inv_def)
    next
      case False
      with inv main have m: "all_over s'" "st_workers s' = st_workers s" "st_ctx s' = st_ctx s" by auto
      have p: "st_parent s' = None \<Longrightarrow> st_parent s = None" "st_parent s \<noteq> None \<Longrightarrow> st_parent s' = st_parent s"
        using step_parent [OF assms(1)] by (cases "st_parent s", auto)
      from inv m f ramp late p show ?thesis unfolding join_inv_def by (cases "st_parent s") auto
    qed
  next
    case True
    then obtain ok where s': "main_move c ok s = Some s'" using assms(1) by auto
    show ?thesis
    proof (cases "st_main s")
      case Joining
      with s' inv main ramp late show ?thesis by (auto simp: join_inv_def main_move_def split: if_splits)
    next
      case (Sending e)
      from Sending inv have "all_over s" "st_sent s = None" by simp_all
      with main have m: "all_over s'" "st_workers s' = st_workers s" "st_ctx s' = st_ctx s" by simp_all
      have s'_f: "st_sent s' = Some (e, map snd (st_workers s), stress_err (st_parent s) (st_ctx s))"
        "st_parent s' = st_parent s" "\<exists>ds. st_main s' = Deferred ds" "\<And>e. st_main s' \<noteq> Sending e" "st_main s' \<noteq> Joining"
        using s' Sending by (auto simp: main_move_def)
      from inv Sending have late_e: "st_ctx s = Some DeadlineExceeded \<and> st_parent s = None \<longrightarrow> sc_deadline c \<le> sc_start c + e"
        by blast
      from m s'_f ramp late late_e show ?thesis unfolding join_inv_def by (auto simp: stress_err_def)
    next
      case (Deferred ds)
      with s' obtain ds' where s'_f: "st_sent s' = st_sent s" "st_parent s' = st_parent s" "st_main s' = Deferred ds'"
        by (auto simp: main_move_def run_deferred_def split: list.splits deferred.splits)
      from Deferred inv have "all_over s" by simp
      with main have m: "all_over s'" "st_workers s' = st_workers s" "st_ctx s' = st_ctx s" by simp_all
      from inv Deferred have "st_sent s \<noteq> None" by blast
      with inv m s'_f ramp late show ?thesis unfolding join_inv_def by simp
    qed
  qed
qed

lemma reachable_join: "stress_run c acts (stress_begin c tb ws) = Some s \<Longrightarrow> join_inv c s"
  by (rule stress_run_keeps [where Q = "join_inv c"]) (auto intro: join_inv_step join_inv_begin)

section \<open>The temporary file\<close>

text \<open>The deferred calls of the disk fault that are left, and what is left of its file.\<close>

definition temp_inv :: "('o, 'w) stress_code \<Rightarrow> 'w stress_state \<Rightarrow> bool" where
  "temp_inv c s \<longleftrightarrow>
     (case st_main s of
        Deferred ds \<Rightarrow> (\<exists>ran. rev (sc_defers c) = ran @ ds \<and> st_temp s = (RemoveTemp \<notin> set ran) \<and> st_open s = (CloseFile \<notin> set ran))
      | _ \<Rightarrow> st_temp s \<and> st_open s)"

lemma temp_inv_step:
  assumes "stress_step c a s = Some s'" and "temp_inv c s" and "a \<noteq> MainMove False"
  shows "temp_inv c s'"
proof (cases "\<exists>ok. a = MainMove ok")
  case False
  then show ?thesis using step_frame [OF assms(1)] assms(2) by (simp add: temp_inv_def cong: main_pc.case_cong)
next
  case True
  with assms(1,3) have s': "main_move c True s = Some s'" by (metis (full_types) stress_step.simps(9))
  show ?thesis
  proof (cases "st_main s")
    case (Deferred ds)
    with s' obtain d ds' where ds: "ds = d # ds'" and s'_eq: "s' = (run_deferred d True s)\<lparr>st_main := Deferred ds'\<rparr>"
      by (auto simp: main_move_def split: list.splits)
    from assms(2) Deferred obtain ran where "rev (sc_defers c) = ran @ ds" "st_temp s = (RemoveTemp \<notin> set ran)"
      "st_open s = (CloseFile \<notin> set ran)" by (auto simp: temp_inv_def)
    then have "rev (sc_defers c) = (ran @ [d]) @ ds' \<and> st_temp s' = (RemoveTemp \<notin> set (ran @ [d])) \<and>
        st_open s' = (CloseFile \<notin> set (ran @ [d]))"
      using ds s'_eq by (cases d) (auto simp: run_deferred_def)
    then show ?thesis using s'_eq by (auto simp: temp_inv_def)
  qed (use s' assms(2) in \<open>auto simp: temp_inv_def main_move_def split: if_splits\<close>)
qed

lemma reachable_temp:
  assumes "stress_run c acts (stress_begin c tb ws) = Some s" and "list_all (\<lambda>a. a \<noteq> MainMove False) acts"
  shows "temp_inv c s"
  by (rule stress_run_invariant [where Q = "temp_inv c", OF temp_inv_step assms(1) _ assms(2)])
    (auto simp: temp_inv_def stress_begin_def)

lemma reachable_defers:
  assumes "stress_run c acts (stress_begin c tb ws) = Some s" and "st_main s = Deferred ds"
  shows "\<exists>ran. rev (sc_defers c) = ran @ ds"
proof -
  let ?Q = "\<lambda>s. \<forall>ds. st_main s = Deferred ds \<longrightarrow> (\<exists>ran. rev (sc_defers c) = ran @ ds)"
  have "?Q s"
  proof (rule stress_run_keeps [where Q = ?Q, OF _ assms(1)])
    fix s a s' assume st: "stress_step c a s = Some s'" "?Q s"
    show "?Q s'"
    proof (cases "\<exists>ok. a = MainMove ok")
      case False
      with step_frame(1) [OF st(1)] st(2) show ?thesis by auto
    next
      case True
      with st(1) have s': "\<exists>ok. main_move c ok s = Some s'" by auto
      show ?thesis
      proof (cases "st_main s")
        case (Deferred ds)
        with s' obtain d ds' where ds: "ds = d # ds'" "st_main s' = Deferred ds'"
          by (cases ds) (auto simp: main_move_def)
        from st(2) Deferred obtain ran where "rev (sc_defers c) = ran @ ds" by blast
        with ds have "rev (sc_defers c) = (ran @ [d]) @ ds'" by simp
        with ds(2) show ?thesis by (intro allI impI exI [of _ "ran @ [d]"]) simp
      qed (use s' in \<open>auto simp: main_move_def split: if_splits\<close>)
    qed
  qed (simp add: stress_begin_def)
  with assms(2) show ?thesis by blast
qed

section \<open>The workers one by one\<close>

text \<open>The rounds of one worker, until one of them ends it.\<close>

primrec body_run :: "('o \<Rightarrow> 'w \<Rightarrow> 'w \<times> bool) \<Rightarrow> 'o list \<Rightarrow> 'w \<Rightarrow> 'w \<times> bool" where
  "body_run body [] w = (w, True)"
| "body_run body (x # xs) w = (let (w', goes_on) = body x w in if goes_on then body_run body xs w' else (w', False))"

lemma body_run_snoc: "body_run body (xs @ [x]) w = (let (w', b) = body_run body xs w in if b then body x w' else (w', False))"
  by (induction xs arbitrary: w) (auto split: prod.splits simp: Let_def)

text \<open>What holds of the system calls of every worker.\<close>

primrec act_all :: "('o \<Rightarrow> bool) \<Rightarrow> 'o stress_act \<Rightarrow> bool" where
  "act_all P (Elapse d) = True" | "act_all P StopCall = True" | "act_all P Deadline = True"
| "act_all P (ParentEnds e) = True" | "act_all P Tick = True" | "act_all P (WorkerMove i f x) = P x"
| "act_all P RampMove = True" | "act_all P (EmitterMove f) = True" | "act_all P (MainMove ok) = True"

text \<open>The outcomes worker \<open>i\<close> uses up in a run: those of its moves with the tokens in its hand.\<close>

definition takes :: "nat \<Rightarrow> 'o stress_act \<Rightarrow> 'w stress_state \<Rightarrow> 'o list" where
  "takes i a s =
     (case a of
        WorkerMove j fired x \<Rightarrow> if j = i \<and> j < length (st_workers s) \<and> fst (st_workers s ! j) = Holding then [x] else []
      | _ \<Rightarrow> [])"

primrec taken :: "nat \<Rightarrow> ('o, 'w) stress_code \<Rightarrow> 'o stress_act list \<Rightarrow> 'w stress_state \<Rightarrow> 'o list" where
  "taken i c [] s = []"
| "taken i c (a # acts) s = takes i a s @ (case stress_step c a s of None \<Rightarrow> [] | Some s' \<Rightarrow> taken i c acts s')"


definition ran_as :: "('o, 'w) stress_code \<Rightarrow> 'o list \<Rightarrow> 'w \<Rightarrow> worker_pc \<times> 'w \<Rightarrow> bool" where
  "ran_as c os w0 g \<longleftrightarrow>
     fst (body_run (sc_body c) os w0) = snd g \<and> (snd (body_run (sc_body c) os w0) \<or> fst g = Returned)"

lemma ran_as_move:
  assumes "worker_move c over now fired o' g tb = Some (g', tb')" and "ran_as c os w0 g"
  shows "ran_as c (os @ (if fst g = Holding then [o'] else [])) w0 g'"
proof -
  obtain pc w where g: "g = (pc, w)" by fastforce
  from assms(2) g obtain b where os: "body_run (sc_body c) os w0 = (w, b)" "b \<or> pc = Returned"
    by (cases "body_run (sc_body c) os w0") (auto simp: ran_as_def)
  show ?thesis
  proof (cases "pc = Holding")
    case False
    with assms(1) g have "snd g' = w" "pc \<noteq> Returned"
      by (auto simp: worker_move_def Let_def split: worker_pc.splits if_splits prod.splits)
    with os g False show ?thesis by (simp add: ran_as_def)
  next
    case True
    obtain w' b' where body: "sc_body c o' w = (w', b')" by fastforce
    with True assms(1) g have g': "g' = (if b' then LoopTop else Returned, w')" by (auto simp: worker_move_def)
    have "body_run (sc_body c) (os @ [o']) w0 = (w', b')" using os True body by (simp add: body_run_snoc)
    with g g' True show ?thesis by (simp add: ran_as_def)
  qed
qed

lemma ran_as_step:
  assumes "stress_step c a s = Some s'" and "i < length (st_workers s)" and "ran_as c os w0 (st_workers s ! i)"
  shows "length (st_workers s') = length (st_workers s) \<and> ran_as c (os @ takes i a s) w0 (st_workers s' ! i)"
proof (cases a)
  case (WorkerMove j fired o')
  with assms(1) obtain g tb where j: "j < length (st_workers s)"
    "worker_move c (st_ctx s \<noteq> None) (st_now s) fired o' (st_workers s ! j) (st_bucket s) = Some (g, tb)"
    "st_workers s' = (st_workers s)[j := g]" by (auto split: if_splits)
  show ?thesis
  proof (cases "j = i")
    case True
    with ran_as_move [OF j(2)] assms(2,3) j(3) WorkerMove show ?thesis by (simp add: takes_def)
  qed (use j(3) assms(2,3) WorkerMove in \<open>simp add: takes_def\<close>)
qed (use assms in \<open>auto simp: takes_def main_move_def run_deferred_def Let_def
      split: if_splits prod.splits main_pc.splits deferred.splits list.splits\<close>)

lemma ran_as_run:
  "stress_run c acts s = Some s' \<Longrightarrow> i < length (st_workers s) \<Longrightarrow> ran_as c os w0 (st_workers s ! i) \<Longrightarrow>
   length (st_workers s') = length (st_workers s) \<and> ran_as c (os @ taken i c acts s) w0 (st_workers s' ! i)"
proof (induction acts arbitrary: s os)
  case (Cons a acts)
  then obtain t where t: "stress_step c a s = Some t" "stress_run c acts t = Some s'" by (auto split: option.splits)
  from ran_as_step [OF t(1) Cons.prems(2,3)] Cons.prems(2) Cons.IH [OF t(2), of "os @ takes i a s"] t(1) show ?case by simp
qed simp

lemma run_workers: "stress_run c acts s = Some s' \<Longrightarrow> length (st_workers s') = length (st_workers s)"
proof (induction acts arbitrary: s)
  case (Cons a acts)
  then obtain t where t: "stress_step c a s = Some t" "stress_run c acts t = Some s'" by (auto split: option.splits)
  have "length (st_workers t) = length (st_workers s)"
    using t(1) by (cases a) (auto simp: main_move_def run_deferred_def Let_def
      split: if_splits prod.splits main_pc.splits deferred.splits list.splits)
  with Cons.IH [OF t(2)] show ?case by simp
qed simp

lemma reachable_ran_as:
  assumes "stress_run c acts (stress_begin c tb ws) = Some s"
  shows "length (st_workers s) = length ws"
    and "i < length ws \<Longrightarrow> snd (st_workers s ! i) = fst (body_run (sc_body c) (taken i c acts (stress_begin c tb ws)) (ws ! i))"
proof -
  show len: "length (st_workers s) = length ws" using run_workers [OF assms] by (simp add: stress_begin_def)
  assume i: "i < length ws"
  have "ran_as c [] (ws ! i) (st_workers (stress_begin c tb ws) ! i)" using i by (simp add: ran_as_def stress_begin_def)
  from ran_as_run [OF assms _ this] i
  show "snd (st_workers s ! i) = fst (body_run (sc_body c) (taken i c acts (stress_begin c tb ws)) (ws ! i))"
    by (auto simp: ran_as_def stress_begin_def)
qed

text \<open>The bodies are the rounds of \<open>Resource_Stress\<close> that are not ended by the context.\<close>

definition granted_write :: "write_round \<Rightarrow> write_round" where
  "granted_write r = r\<lparr>wr_done := False, wr_acquired := True\<rparr>"

definition granted_read :: "read_round \<Rightarrow> read_round" where
  "granted_read r = r\<lparr>rr_done := False, rr_acquired := True\<rparr>"

lemma writeWorker_body: "writeWorker m n (map granted_write rs) s = fst (body_run (write_chunk m n) rs s)"
proof (induction rs arbitrary: s)
  case (Cons r rs)
  then show ?case by (simp add: write_chunk_def granted_write_def Let_def)
qed simp

lemma read_loop_body: "read_loop n (map granted_read rs) s = fst (body_run (read_file n) rs s)"
proof (induction rs arbitrary: s)
  case (Cons r rs)
  then show ?case by (simp add: read_file_def granted_read_def Let_def)
qed simp

text \<open>Each round without an error counts one operation and one chunk.\<close>

lemma wrap64_add: "wrap64 (wrap64 x + y) = wrap64 (x + y)"
proof -
  have "(wrap64 x + y + 2 ^ 63) mod 2 ^ 64 = ((x + 2 ^ 63) mod 2 ^ 64 + y) mod 2 ^ 64" by (simp add: wrap64_def)
  also have "\<dots> = (x + y + 2 ^ 63) mod 2 ^ 64" by (simp only: mod_add_left_eq) (simp only: ac_simps)
  finally show ?thesis by (simp only: wrap64_def)
qed

lemma writeWorker_counts:
  assumes "list_all (\<lambda>r. wr_seek_ok r \<and> wr_write_ok r) rs"
  shows "wrap64 (dr_written (writeWorker m n (map granted_write rs) s)) = wrap64 (dr_written s + n * int (length rs)) \<and>
     wrap64 (dr_ops (writeWorker m n (map granted_write rs) s)) = wrap64 (dr_ops s + int (length rs))"
  using assms
proof (induction rs arbitrary: s)
  case (Cons r rs)
  then obtain s' where s': "writeWorker m n (map granted_write (r # rs)) s = writeWorker m n (map granted_write rs) s'"
    "dr_written s' = wrap64 (dr_written s + n)" "dr_ops s' = wrap64 (dr_ops s + 1)"
    by (simp add: granted_write_def Let_def file_write_def split del: if_split) (auto split: if_splits)
  from Cons.IH [of s'] Cons.prems s'(2,3) wrap64_add [of "dr_written s + n" "n * int (length rs)"]
    wrap64_add [of "dr_ops s + 1" "int (length rs)"]
  show ?case unfolding s'(1) by (simp add: distrib_left ac_simps)
qed simp

lemma writeWorker_wrapped:
  "wrap64 (dr_written s) = dr_written s \<Longrightarrow> wrap64 (dr_ops s) = dr_ops s \<Longrightarrow>
   wrap64 (dr_written (writeWorker m n rs s)) = dr_written (writeWorker m n rs s) \<and>
   wrap64 (dr_ops (writeWorker m n rs s)) = dr_ops (writeWorker m n rs s)"
  by (induction m n rs s rule: writeWorker.induct) (simp add: Let_def file_write_def)+


lemma disk_rounds:
  assumes "stress_run (disk_code c emit ovf start deadline) acts (disk_begin c emit ovf start deadline) = Some s"
  shows "map snd (st_workers s) = [writeWorker (EffectiveMaxDiskUsage c) (disk_EffectiveChunkSize c)
     (map granted_write (taken 0 (disk_code c emit ovf start deadline) acts (disk_begin c emit ovf start deadline))) new_file]"
proof -
  have b: "sc_body (disk_code c emit ovf start deadline) = write_chunk (EffectiveMaxDiskUsage c) (disk_EffectiveChunkSize c)"
    by (simp add: disk_code_def Let_def)
  note R = reachable_ran_as [OF assms [unfolded disk_begin_def], folded disk_begin_def]
  from R(1) obtain g where g: "st_workers s = [g]" by (cases "st_workers s") auto
  with R(2) [of 0] b show ?thesis by (simp add: writeWorker_body)
qed

lemma io_rounds:
  assumes "stress_run (io_code c files emit ovf start deadline) acts (io_begin c files emit ovf start deadline) = Some s"
  shows "map snd (st_workers s) = io_run c files written
     (map (\<lambda>i. map granted_read (taken i (io_code c files emit ovf start deadline) acts (io_begin c files emit ovf start deadline)))
        [0..<nat (EffectiveWorkers c)])"
proof -
  have b: "sc_body (io_code c files emit ovf start deadline) = read_file (length files)" by (simp add: io_code_def Let_def)
  note R = reachable_ran_as [OF assms [unfolded io_begin_def], folded io_begin_def]
  show ?thesis
    using R(1) R(2) b by (intro nth_equalityI) (simp_all add: io_run_def readWorker_def read_loop_body)
qed

section \<open>Where the result comes from\<close>

text \<open>
  A run that has done \<open>acts1\<close> when the fault's goroutine, in the state \<open>s1\<close>, gets past the join and reads the clock, and
  that sends the result in the state \<open>s2\<close>.
\<close>

definition sends_from ::
  "('o, 'w) stress_code \<Rightarrow> 'o stress_act list \<Rightarrow> 'w stress_state \<Rightarrow> 'o stress_act list \<Rightarrow> 'w stress_state \<Rightarrow> 'w stress_state \<Rightarrow> bool" where
  "sends_from c acts s0 acts1 s1 s2 \<longleftrightarrow>
     (\<exists>ok acts2 ok' acts3. acts = acts1 @ MainMove ok # acts2 @ MainMove ok' # acts3 \<and>
        stress_run c acts1 s0 = Some s1 \<and> st_main s1 = Joining \<and> all_over s1 \<and>
        stress_run c (acts1 @ MainMove ok # acts2) s0 = Some s2 \<and> st_main s2 = Sending (st_now s1 - sc_start c))"

text \<open>The first move out of a place of the fault's goroutine.\<close>

lemma main_leaves:
  assumes "stress_run c acts s = Some s'" and "st_main s' \<noteq> st_main s"
  shows "\<exists>acts1 ok acts2 s1 t1. acts = acts1 @ MainMove ok # acts2 \<and> stress_run c acts1 s = Some s1 \<and>
     st_main s1 = st_main s \<and> st_sent s1 = st_sent s \<and> main_move c ok s1 = Some t1 \<and> stress_run c acts2 t1 = Some s'"
  using assms
proof (induction acts arbitrary: s)
  case (Cons a acts)
  then obtain t where t: "stress_step c a s = Some t" "stress_run c acts t = Some s'" by (auto split: option.splits)
  show ?case
  proof (cases "\<exists>ok. a = MainMove ok")
    case True
    then obtain ok where a: "a = MainMove ok" by blast
    with t show ?thesis by (intro exI [of _ "[]"] exI [of _ ok] exI [of _ acts] exI [of _ s] exI [of _ t]) simp
  next
    case False
    with step_frame [OF t(1)] have f: "st_main t = st_main s" "st_sent t = st_sent s" by auto
    from Cons.IH [OF t(2)] Cons.prems(2) f obtain acts1 ok acts2 s1 t1 where
      "acts = acts1 @ MainMove ok # acts2" "stress_run c acts1 t = Some s1" "st_main s1 = st_main s" "st_sent s1 = st_sent s"
      "main_move c ok s1 = Some t1" "stress_run c acts2 t1 = Some s'" by auto
    with t(1) show ?thesis by (intro exI [of _ "a # acts1"] exI [of _ ok] exI [of _ acts2] exI [of _ s1] exI [of _ t1]) simp
  qed
qed simp

lemma sent_stays:
  assumes "stress_run c acts s = Some s'" and "\<exists>ds. st_main s = Deferred ds"
  shows "st_sent s' = st_sent s"
proof -
  have "(\<exists>ds. st_main s' = Deferred ds) \<and> st_sent s' = st_sent s"
  proof (rule stress_run_keeps [where Q = "\<lambda>x. (\<exists>ds. st_main x = Deferred ds) \<and> st_sent x = st_sent s", OF _ assms(1)])
    fix x a y assume st: "stress_step c a x = Some y" "(\<exists>ds. st_main x = Deferred ds) \<and> st_sent x = st_sent s"
    show "(\<exists>ds. st_main y = Deferred ds) \<and> st_sent y = st_sent s"
    proof (cases "\<exists>ok. a = MainMove ok")
      case True
      with st show ?thesis by (auto simp: main_move_def run_deferred_def split: list.splits deferred.splits)
    qed (use step_frame [OF st(1)] st(2) in auto)
  qed (use assms(2) in simp)
  then show ?thesis by simp
qed

lemma workers_stay: "stress_run c acts s = Some s' \<Longrightarrow> all_over s \<Longrightarrow> st_workers s' = st_workers s"
proof -
  assume r: "stress_run c acts s = Some s'" and o: "all_over s"
  have "all_over s' \<and> st_workers s' = st_workers s"
    by (rule stress_run_keeps [where Q = "\<lambda>x. all_over x \<and> st_workers x = st_workers s", OF _ r]) (use over_stays o in \<open>metis, simp\<close>)
  then show ?thesis ..
qed

lemma result_from:
  assumes "stress_run c acts (stress_begin c tb ws) = Some s" and "st_sent s = Some (elapsed, counts, err)"
  obtains acts1 s1 s2 where "sends_from c acts (stress_begin c tb ws) acts1 s1 s2" "elapsed = st_now s1 - sc_start c"
    "counts = map snd (st_workers s1)" "err = stress_err (st_parent s2) (st_ctx s2)"
proof -
  let ?s0 = "stress_begin c tb ws"
  have begins: "st_main ?s0 = Joining" by (simp add: stress_begin_def)
  from reachable_join [OF assms(1)] assms(2) obtain ds where ds: "st_main s = Deferred ds" by (auto simp: join_inv_def)
  with begins main_leaves [OF assms(1)] obtain acts1 ok acts' s1 t1 where 1: "acts = acts1 @ MainMove ok # acts'"
    "stress_run c acts1 ?s0 = Some s1" "st_main s1 = Joining" "main_move c ok s1 = Some t1" "stress_run c acts' t1 = Some s" by auto
  from 1(3,4) have o: "all_over s1" and t1: "t1 = s1\<lparr>st_main := Sending (st_now s1 - sc_start c)\<rparr>"
    by (auto simp: main_move_def split: if_splits)
  from main_leaves [OF 1(5)] ds t1 obtain acts2 ok' acts3 s2 t2 where 2: "acts' = acts2 @ MainMove ok' # acts3"
    "stress_run c acts2 t1 = Some s2" "st_main s2 = Sending (st_now s1 - sc_start c)" "main_move c ok' s2 = Some t2"
    "stress_run c acts3 t2 = Some s" by auto
  have "stress_run c (acts1 @ MainMove ok # acts2) ?s0 = Some s2" using 1(2,4) 2(2) by (simp add: stress_run_append)
  with 1 2 o have "sends_from c acts ?s0 acts1 s1 s2" unfolding sends_from_def by blast
  moreover from 2(3,4) have "st_sent t2 = Some (st_now s1 - sc_start c, map snd (st_workers s2), stress_err (st_parent s2) (st_ctx s2))"
    "\<exists>ds. st_main t2 = Deferred ds" by (auto simp: main_move_def)
  with sent_stays [OF 2(5)] assms(2) have "elapsed = st_now s1 - sc_start c" "counts = map snd (st_workers s2)"
    "err = stress_err (st_parent s2) (st_ctx s2)" by auto
  moreover have "st_workers s2 = st_workers s1" using workers_stay [OF 2(2)] o t1 by (simp add: all_over_def)
  ultimately show ?thesis using that by simp
qed

section \<open>The timeline of the events\<close>

definition emit_inv :: "('o, 'w) stress_code \<Rightarrow> 'w stress_state \<Rightarrow> bool" where
  "emit_inv c s \<longleftrightarrow> (\<exists>evs. st_events s = map (stress_event (sc_target c) (sc_base c)) evs \<and> emit_by (sc_base c) (sc_start c) (st_now s) evs \<and> emit_at (sc_base c) (sc_emit c) (sc_start c) (st_emitter s) (st_until s) evs)"

lemma emit_inv_begin: "emit_inv c (stress_begin c tb ws)"
  by (simp add: emit_inv_def emit_by_def emit_at_def stress_begin_def)

definition code_ok :: "('o, 'w) stress_code \<Rightarrow> bool" where
  "code_ok c \<longleftrightarrow> ramps_ok (fc_duration (sc_base c)) (fc_ramp_up (sc_base c)) (fc_ramp_down (sc_base c))"

lemma emitter_untouched:
  assumes "stress_step c a s = Some s'" and "\<forall>f. a \<noteq> EmitterMove f"
  shows "st_events s' = st_events s" "st_emitter s' = st_emitter s" "st_until s' = st_until s"
  using assms by (cases a; auto simp: main_move_def run_deferred_def Let_def
      split: if_splits prod.splits main_pc.splits deferred.splits list.splits)+

lemma emit_inv_step:
  assumes "code_ok c" and "stress_step c a s = Some s'" and "emit_inv c s"
  shows "emit_inv c s'"
proof -
  from assms(3) obtain evs where evs: "st_events s = map (stress_event (sc_target c) (sc_base c)) evs" "emit_by (sc_base c) (sc_start c) (st_now s) evs"
    "emit_at (sc_base c) (sc_emit c) (sc_start c) (st_emitter s) (st_until s) evs" by (auto simp: emit_inv_def)
  show ?thesis
  proof (cases "\<exists>f. a = EmitterMove f")
    case False
    with emitter_untouched [OF assms(2)] evs emit_by_mono [OF evs(2) step_now [OF assms(2)]] show ?thesis
      by (auto simp: emit_inv_def)
  next
    case True
    then obtain f where a: "a = EmitterMove f" by blast
    then obtain evs' pc' t' where m: "emitter_step (sc_base c) (st_ctx s \<noteq> None) (st_now s) f (st_emitter s) (st_until s) = Some (evs', pc', t')"
      and s': "s' = s\<lparr>st_events := st_events s @ map (stress_event (sc_target c) (sc_base c)) evs', st_emitter := pc', st_until := t'\<rparr>"
      using assms(2) by auto
    from emitter_step_ok [OF assms(1) [unfolded code_ok_def] evs(3,2) m] evs(1) show ?thesis
      unfolding emit_inv_def by (intro exI [of _ "evs @ evs'"]) (simp add: s')
  qed
qed

lemma reachable_emit:
  "code_ok c \<Longrightarrow> stress_run c acts (stress_begin c tb ws) = Some s \<Longrightarrow> emit_inv c s"
  by (rule stress_run_keeps [where Q = "emit_inv c", OF emit_inv_step]) (auto intro: emit_inv_begin)

section \<open>Winding down\<close>

primrec worker_measure :: "worker_pc \<Rightarrow> nat" where
  "worker_measure LoopTop = 1" | "worker_measure Acquiring = 1" | "worker_measure Locking = 3"
| "worker_measure Polling = 2" | "worker_measure Holding = 2" | "worker_measure Returned = 0"

primrec ramp_measure :: "ramp_pc \<Rightarrow> nat" where
  "ramp_measure RampSelect = 1" | "ramp_measure (RampSet r) = 2" | "ramp_measure RampOver = 0"

definition main_measure :: "('o, 'w) stress_code \<Rightarrow> main_pc \<Rightarrow> nat" where
  "main_measure c pc =
     (case pc of Joining \<Rightarrow> length (sc_defers c) + 2 | Sending e \<Rightarrow> length (sc_defers c) + 1 | Deferred ds \<Rightarrow> length ds)"

definition stress_measure :: "('o, 'w) stress_code \<Rightarrow> 'w stress_state \<Rightarrow> nat" where
  "stress_measure c s =
     sum_list (map (worker_measure \<circ> fst) (st_workers s)) + ramp_measure (st_ramp s) + emitter_measure (st_emitter s) +
     main_measure c (st_main s)"

text \<open>A move of a goroutine, as opposed to the environment.\<close>

primrec goroutine :: "'o stress_act \<Rightarrow> bool" where
  "goroutine (Elapse d) = False" | "goroutine StopCall = False" | "goroutine Deadline = False"
| "goroutine (ParentEnds e) = False" | "goroutine Tick = False" | "goroutine (WorkerMove i f x) = True"
| "goroutine RampMove = True" | "goroutine (EmitterMove f) = True" | "goroutine (MainMove ok) = True"

lemma sum_list_exchange:
  "i < length xs \<Longrightarrow> sum_list (xs[i := y]) + xs ! i = sum_list xs + (y::'a::comm_monoid_add)"
  by (induction xs arbitrary: i) (auto simp: ac_simps split: nat.splits)

lemma measure_goroutine:
  assumes "stress_step c a s = Some s'" and "st_ctx s \<noteq> None" and "goroutine a"
  shows "stress_measure c s' < stress_measure c s"
proof (cases a)
  case (WorkerMove i fired o')
  with assms(1) obtain g tb where i: "i < length (st_workers s)"
    "worker_move c (st_ctx s \<noteq> None) (st_now s) fired o' (st_workers s ! i) (st_bucket s) = Some (g, tb)"
    "s' = s\<lparr>st_workers := (st_workers s)[i := g], st_bucket := tb\<rparr>" by (auto split: if_splits)
  have "worker_measure (fst g) < worker_measure (fst (st_workers s ! i))"
    using i(2) assms(2) by (auto simp: worker_move_def Let_def split: prod.splits worker_pc.splits if_splits)
  with i(1,3) sum_list_exchange [of i "map (worker_measure \<circ> fst) (st_workers s)" "worker_measure (fst g)"]
  show ?thesis by (simp add: stress_measure_def map_update)
next
  case (EmitterMove f)
  with assms(1) show ?thesis by (auto simp: stress_measure_def dest: emitter_measure_step)
next
  case (MainMove ok)
  with assms(1) show ?thesis
    by (auto simp: stress_measure_def main_measure_def main_move_def run_deferred_def
        split: main_pc.splits if_splits list.splits deferred.splits)
qed (use assms in \<open>auto simp: stress_measure_def ramp_move_def split: ramp_pc.splits if_splits\<close>)

lemma measure_environment:
  assumes "stress_step c a s = Some s'" and "\<not> goroutine a"
  shows "stress_measure c s' = stress_measure c s + (if a = Tick then 1 else 0)"
  using assms by (cases a) (auto simp: stress_measure_def ramp_tick_def split: if_splits)

lemma goroutine_moves:
  assumes "stress_run c acts s = Some s'" and "st_ctx s \<noteq> None"
  shows "length (filter goroutine acts) + stress_measure c s' \<le> stress_measure c s + length (filter (\<lambda>a. a = Tick) acts)"
  using assms
proof (induction acts arbitrary: s)
  case (Cons a acts)
  then obtain t where t: "stress_step c a s = Some t" "stress_run c acts t = Some s'" by (auto split: option.splits)
  from step_ctx [OF t(1) Cons.prems(2)] Cons.prems(2) have "st_ctx t \<noteq> None" by simp
  from Cons.IH [OF t(2) this] measure_goroutine [OF t(1) Cons.prems(2)] measure_environment [OF t(1)]
  show ?case by (cases "goroutine a") (auto split: if_splits)
qed simp

lemma goroutine_enabled:
  assumes "st_ctx s \<noteq> None" and "st_main s \<noteq> Deferred []"
  shows "\<exists>a. goroutine a \<and> stress_step c a s \<noteq> None"
proof (cases "st_main s = Joining \<and> \<not> all_over s")
  case True
  then consider i where "i < length (st_workers s)" "fst (st_workers s ! i) \<noteq> Returned"
    | "st_ramp s \<noteq> RampOver" | "st_emitter s \<noteq> EmitOver" by (auto simp: all_over_def list_all_length)
  then show ?thesis
  proof cases
    case 1
    then have "stress_step c (WorkerMove i True undefined) s \<noteq> None"
      by (cases "st_workers s ! i") (auto simp: worker_move_def Let_def split: worker_pc.splits prod.splits)
    then show ?thesis by (intro exI [of _ "WorkerMove i True undefined"]) simp
  next
    case 2
    with assms(1) have "stress_step c RampMove s \<noteq> None" by (cases "st_ramp s") (auto simp: ramp_move_def)
    then show ?thesis by (intro exI [of _ RampMove]) simp
  next
    case 3
    obtain x where "emitter_step (sc_base c) True (st_now s) False (st_emitter s) (st_until s) = Some x"
      using emitter_step_enabled [OF 3] by blast
    with assms(1) have "stress_step c (EmitterMove False) s \<noteq> None" by simp
    then show ?thesis by (intro exI [of _ "EmitterMove False"]) simp
  qed
next
  case False
  with assms(2) have "main_move c True s \<noteq> None"
    by (auto simp: main_move_def split: main_pc.splits list.splits)
  then show ?thesis by (intro exI [of _ "MainMove True"]) simp
qed

section \<open>What the workers are granted\<close>

text \<open>
  A worker's body for a bucket: with the tokens for \<open>size\<close> bytes it counts at most \<open>size\<close> more. \<open>fits\<close> is what the
  system calls keep to.
\<close>

locale metered_body =
  fixes body :: "'o \<Rightarrow> 'w \<Rightarrow> 'w \<times> bool" and size :: int and count :: "'w \<Rightarrow> int" and fits :: "'o \<Rightarrow> bool"
  assumes size_nonneg: "0 \<le> size"
    and count_body: "fits x \<Longrightarrow> 0 \<le> count w \<Longrightarrow> count w + size < 2 ^ 63 \<Longrightarrow>
      0 \<le> count (fst (body x w)) \<and> count (fst (body x w)) \<le> count w + size"
begin

text \<open>What is counted or held.\<close>

definition charge :: "worker_pc \<times> 'w \<Rightarrow> int" where
  "charge g = count (snd g) + (if fst g = Holding then size else 0)"

definition charges :: "'w stress_state \<Rightarrow> int" where
  "charges s = sum_list (map charge (st_workers s))"

definition meter_inv :: "('o, 'w) stress_code \<Rightarrow> int \<Rightarrow> int \<Rightarrow> 'w stress_state \<Rightarrow> bool" where
  "meter_inv c peak full s \<longleftrightarrow>
     (\<forall>g \<in> set (st_workers s). 0 \<le> count (snd g)) \<and> bucket_good (st_bucket s) \<and> tb_rate (st_bucket s) \<le> peak \<and>
     tb_minCap (st_bucket s) = size \<and> sc_start c \<le> tb_lastTick (st_bucket s) \<and> tb_lastTick (st_bucket s) \<le> st_now s \<and>
     (\<forall>r. st_ramp s = RampSet r \<longrightarrow> 1 \<le> r \<and> r \<le> peak) \<and>
     charges s * Second + tb_tokens (st_bucket s) * Second \<le> full * Second + peak * (tb_lastTick (st_bucket s) - sc_start c)"

lemma charge_le: "\<forall>g \<in> set gs. 0 \<le> count (snd g) \<Longrightarrow> g \<in> set gs \<Longrightarrow> charge g \<le> sum_list (map charge gs)"
proof -
  assume nn: "\<forall>g \<in> set gs. 0 \<le> count (snd g)" and g: "g \<in> set gs"
  have "\<forall>x \<in> set (map charge gs). 0 \<le> x" using nn size_nonneg by (auto simp: charge_def)
  with g show ?thesis by (intro member_le_sum_list) auto
qed

lemma charges_update:
  assumes "i < length (st_workers s)"
  shows "charges (s\<lparr>st_workers := (st_workers s)[i := g], st_bucket := tb\<rparr>) = charges s - charge (st_workers s ! i) + charge g"
  using sum_list_exchange [of i "map charge (st_workers s)" "charge g"] assms by (simp add: charges_def map_update)

lemma meter_charges:
  assumes "meter_inv c peak full s" and "peak * (st_now s - sc_start c) < 2 ^ 62" and "0 \<le> peak" and "full < 2 ^ 62"
  shows "charges s < 2 ^ 63" and "charges s * Second \<le> full * Second + peak * (st_now s - sc_start c)"
proof -
  note inv = assms(1) [unfolded meter_inv_def]
  have "0 \<le> tb_tokens (st_bucket s)" using inv by (simp add: bucket_good_def)
  then have "0 \<le> tb_tokens (st_bucket s) * Second" by (simp add: Second_def)
  moreover have "peak * (tb_lastTick (st_bucket s) - sc_start c) \<le> peak * (st_now s - sc_start c)"
    using inv assms(3) by (intro mult_left_mono) auto
  ultimately show le: "charges s * Second \<le> full * Second + peak * (st_now s - sc_start c)" using inv by linarith
  show "charges s < 2 ^ 63" using le assms(2,4) by (simp add: Second_def)
qed

lemma meter_worker:
  assumes "meter_inv c peak full s" and "peak * (st_now s - sc_start c) < 2 ^ 62" and "1 \<le> peak" and "full < 2 ^ 62"
    and "i < length (st_workers s)" and "fits x" and "sc_body c = body" and "sc_size c = size"
    and "worker_move c over (st_now s) fired x (st_workers s ! i) (st_bucket s) = Some (g, tb)"
  shows "meter_inv c peak full (s\<lparr>st_workers := (st_workers s)[i := g], st_bucket := tb\<rparr>)"
proof -
  let ?g = "st_workers s ! i" and ?b = "st_bucket s" and ?s' = "s\<lparr>st_workers := (st_workers s)[i := g], st_bucket := tb\<rparr>"
  note inv = assms(1) [unfolded meter_inv_def]
  obtain pc w where g: "?g = (pc, w)" by fastforce
  have w: "0 \<le> count w" using inv assms(5) g by (metis nth_mem snd_conv)
  have c: "charge ?g \<le> charges s" using charge_le [of "st_workers s" ?g] inv assms(5) by (simp add: charges_def)
  have up: "set ((st_workers s)[i := g]) \<subseteq> insert g (set (st_workers s))" by (rule set_update_subset_insert)
  note ch = charges_update [OF assms(5), of tb g]
  show ?thesis
  proof (cases "pc = Locking")
    case True
    obtain ok where t: "try_acquire (st_now s) size ?b = (ok, tb)" and g': "g = (if ok then Holding else Polling, w)"
      using True assms(8,9) g by (auto simp: worker_move_def Let_def split: prod.splits)
    let ?d = "st_now s - tb_lastTick ?b"
    have d: "0 \<le> ?d" "?d \<le> st_now s - sc_start c" "0 \<le> tb_rate ?b" "tb_rate ?b \<le> peak"
      using inv by (auto simp: bucket_good_def)
    have "tb_rate ?b * ?d \<le> peak * (st_now s - sc_start c)" using d assms(3) by (intro mult_mono) auto
    moreover have "1 * ?d \<le> peak * (st_now s - sc_start c)" using d assms(3) by (intro mult_mono) auto
    ultimately have adm: "bucket_admissible ?b (st_now s) size"
      using assms(2) size_nonneg by (simp add: bucket_admissible_def)
    have good: "bucket_good ?b" and last: "tb_lastTick ?b \<le> st_now s" using inv by simp_all
    note T = try_acquire_clock [OF last, of size] bucket.take_rate [of "st_now s" size ?b]
      bucket.take_good [OF good adm] bucket.take_level [OF good adm]
    have "tb_rate ?b * ?d \<le> peak * ?d" using d by (intro mult_right_mono) auto
    moreover have "charge g = charge ?g + (if ok then size else 0)" using g g' True by (simp add: charge_def)
    moreover have "peak * (tb_lastTick ?b - sc_start c) + peak * ?d = peak * (st_now s - sc_start c)" by (simp add: algebra_simps)
    ultimately have "charges ?s' * Second + tb_tokens tb * Second \<le> full * Second + peak * (st_now s - sc_start c)"
      using T t ch inv by (auto simp: distrib_right)
    with inv T t up g' w show ?thesis by (auto simp: meter_inv_def)
  next
    case False
    then have tb: "tb = ?b" using assms(9) g by (auto simp: worker_move_def Let_def split: worker_pc.splits if_splits prod.splits)
    have "0 \<le> count (snd g) \<and> charge g \<le> charge ?g"
    proof (cases "pc = Holding")
      case True
      then have "count w + size < 2 ^ 63" using c g meter_charges(1) [OF assms(1,2) _ assms(4)] assms(3) by (simp add: charge_def)
      from count_body [OF assms(6) w this] True assms(7,9) g show ?thesis
        by (auto simp: worker_move_def Let_def charge_def split: prod.splits if_splits)
    next
      case False
      with \<open>pc \<noteq> Locking\<close> assms(9) g w size_nonneg show ?thesis
        by (auto simp: worker_move_def charge_def split: worker_pc.splits if_splits)
    qed
    moreover from this have "charges ?s' * Second \<le> charges s * Second" using ch by (simp add: Second_def)
    ultimately show ?thesis using inv up tb by (auto simp: meter_inv_def)
  qed
qed

lemma meter_other:
  assumes "meter_inv c peak full s" and "st_workers s' = st_workers s" and "st_bucket s' = st_bucket s" and "st_now s \<le> st_now s'"
    and "\<And>r. st_ramp s' = RampSet r \<Longrightarrow> 1 \<le> r \<and> r \<le> peak"
  shows "meter_inv c peak full s'"
  using assms by (auto simp: meter_inv_def charges_def)

lemma meter_step:
  assumes "meter_inv c peak full s" and "stress_step c a s = Some s'" and "act_all fits a"
    and "peak * (st_now s' - sc_start c) < 2 ^ 62" and "1 \<le> peak" and "peak * RefillInterval < 2 ^ 62" and "full < 2 ^ 62" and "size < 2 ^ 62"
    and "sc_body c = body" and "sc_size c = size"
    and rate: "\<And>e. 0 \<le> e \<Longrightarrow> e < 2 ^ 63 \<Longrightarrow> 1 \<le> sc_rate c e \<and> sc_rate c e \<le> peak"
  shows "meter_inv c peak full s'"
proof -
  note inv = assms(1) [unfolded meter_inv_def]
  have now: "st_now s \<le> st_now s'" by (rule step_now [OF assms(2)])
  have set_rate: "1 \<le> r \<and> r \<le> peak" if "st_ramp s = RampSet r" for r using inv that by blast
  have "peak * (st_now s - sc_start c) \<le> peak * (st_now s' - sc_start c)" using now assms(5) by (intro mult_left_mono) auto
  then have t: "peak * (st_now s - sc_start c) < 2 ^ 62" using assms(4) by simp
  show ?thesis
  proof (cases a)
    case (WorkerMove i fired x)
    with assms(2) obtain g tb where i: "i < length (st_workers s)"
      "worker_move c (st_ctx s \<noteq> None) (st_now s) fired x (st_workers s ! i) (st_bucket s) = Some (g, tb)"
      "s' = s\<lparr>st_workers := (st_workers s)[i := g], st_bucket := tb\<rparr>" by (auto split: if_splits)
    from meter_worker [OF assms(1) t assms(5,7) i(1) _ assms(9,10) i(2)] assms(3) WorkerMove i(3) show ?thesis by simp
  next
    case Tick
    have e: "0 \<le> st_now s - sc_start c" using inv by linarith
    have "1 * (st_now s - sc_start c) \<le> peak * (st_now s - sc_start c)" using e assms(5) by (intro mult_right_mono) auto
    with t have "st_now s - sc_start c < 2 ^ 63" by simp
    from rate [OF e this] assms(1,2) Tick show ?thesis
      by (intro meter_other [OF assms(1)]) (auto simp: ramp_tick_def split: if_splits)
  next
    case RampMove
    show ?thesis
    proof (cases "st_ramp s")
      case (RampSet r)
      then have r: "1 \<le> r" "r \<le> peak" using inv by auto
      have "r * RefillInterval \<le> peak * RefillInterval" using r by (intro mult_right_mono) (simp_all add: RefillInterval_def Millisecond_def)
      with r assms(6,8) inv have set: "bucket_settable r (st_bucket s)" by (simp add: bucket_settable_def)
      have "tb_tokens (setRate r (st_bucket s)) * Second \<le> tb_tokens (st_bucket s) * Second"
        using throttle.adjust_level [of r "st_bucket s"] by (simp add: Second_def)
      moreover have "tb_minCap (setRate r (st_bucket s)) = tb_minCap (st_bucket s)" by (simp add: setRate_def Let_def)
      ultimately show ?thesis
        using RampMove RampSet assms(2) inv r throttle.adjust_good [OF _ set] throttle.adjust_rate [of r "st_bucket s"]
          throttle.adjust_clock [of r "st_bucket s"]
        by (auto simp: ramp_move_def meter_inv_def charges_def)
    qed (use RampMove assms(1,2) in \<open>auto simp: ramp_move_def meter_inv_def charges_def split: if_splits\<close>)
  next
    case (EmitterMove f)
    with assms(2) set_rate show ?thesis by (intro meter_other [OF assms(1)]) (auto simp: Let_def split: if_splits prod.splits)
  next
    case (MainMove ok)
    with assms(2) set_rate show ?thesis by (intro meter_other [OF assms(1)])
      (auto simp: main_move_def run_deferred_def split: main_pc.splits if_splits list.splits deferred.splits)
  qed (use assms(2) set_rate now in \<open>auto intro!: meter_other [OF assms(1)] split: if_splits\<close>)
qed

text \<open>In every interleaving, what is counted stays below the first filling and the peak rate.\<close>

lemma metered_run:
  assumes "stress_run c acts (stress_begin c (newTokenBucket (sc_start c) peak size) ws) = Some s" and "list_all (act_all fits) acts"
    and "\<forall>w \<in> set ws. count w = 0"
    and "peak * (st_now s - sc_start c) < 2 ^ 62" and "1 \<le> peak" and "peak * RefillInterval < 2 ^ 62" and "size < 2 ^ 62"
    and "sc_body c = body" and "sc_size c = size"
    and rate: "\<And>e. 0 \<le> e \<Longrightarrow> e < 2 ^ 63 \<Longrightarrow> 1 \<le> sc_rate c e \<and> sc_rate c e \<le> peak"
  shows "\<forall>w \<in> set (map snd (st_workers s)). 0 \<le> count w"
    and "sum_list (map (\<lambda>g. count (snd g)) (st_workers s)) * Second \<le>
      bucketCapacity peak size * Second + peak * (st_now s - sc_start c)"
proof -
  let ?full = "bucketCapacity peak size" and ?tb = "newTokenBucket (sc_start c) peak size"
  have full: "0 < ?full" "?full < 2 ^ 62" using bucketCapacity_range [of peak size] assms by auto
  have good: "bucket_good ?tb" using full assms(5) by (simp add: newTokenBucket_def Let_def bucket_good_def)
  have "sum_list (map (charge \<circ> Pair LoopTop) ws) = 0" using assms(3) by (induction ws) (auto simp: charge_def)
  then have init: "meter_inv c peak ?full (stress_begin c ?tb ws)"
    using good assms(3) by (auto simp: meter_inv_def stress_begin_def charges_def newTokenBucket_def Let_def)
  let ?Q = "\<lambda>s. peak * (st_now s - sc_start c) < 2 ^ 62 \<longrightarrow> meter_inv c peak ?full s"
  have "?Q s"
  proof (rule stress_run_invariant [where Q = ?Q and P = "act_all fits", OF _ assms(1) _ assms(2)])
    fix s a s' assume st: "stress_step c a s = Some s'" "?Q s" "act_all fits a"
    show "?Q s'"
    proof
      assume b: "peak * (st_now s' - sc_start c) < 2 ^ 62"
      have "peak * (st_now s - sc_start c) \<le> peak * (st_now s' - sc_start c)"
        using step_now [OF st(1)] assms(5) by (intro mult_left_mono) auto
      with b st(2) have "meter_inv c peak ?full s" by simp
      from meter_step [OF this st(1,3) b assms(5,6) full(2) assms(7-9) rate] show "meter_inv c peak ?full s'" .
    qed
  qed (use init in simp)
  with assms(4) have inv: "meter_inv c peak ?full s" by simp
  then show nn: "\<forall>w \<in> set (map snd (st_workers s)). 0 \<le> count w" by (auto simp: meter_inv_def)
  have "sum_list (map (\<lambda>g. count (snd g)) (st_workers s)) \<le> charges s"
    unfolding charges_def using size_nonneg by (intro sum_list_mono) (simp add: charge_def)
  then have "sum_list (map (\<lambda>g. count (snd g)) (st_workers s)) * Second \<le> charges s * Second" by (simp add: Second_def)
  also have "\<dots> \<le> ?full * Second + peak * (st_now s - sc_start c)"
    using meter_charges(2) [OF inv assms(4) _ full(2)] assms(5) by simp
  finally show "sum_list (map (\<lambda>g. count (snd g)) (st_workers s)) * Second \<le> ?full * Second + peak * (st_now s - sc_start c)" .
qed

end


definition read_fits :: "io_config \<Rightarrow> read_round \<Rightarrow> bool" where
  "read_fits c r \<longleftrightarrow> 0 \<le> rr_read r \<and> rr_read r \<le> EffectiveFileSize c"

interpretation io_meter: metered_body "read_file n" "EffectiveFileSize c" rd_total "read_fits c" for n c
proof unfold_locales
  have s: "0 < EffectiveFileSize c" by (simp add: EffectiveFileSize_def DefaultFileSize_def)
  then show "0 \<le> EffectiveFileSize c" by simp
  fix x and w :: read_run assume w: "read_fits c x" "0 \<le> rd_total w" "rd_total w + EffectiveFileSize c < 2 ^ 63"
  then have "wrap64 (rd_total w + rr_read x) = rd_total w + rr_read x"
    by (intro wrap64_id i64_nonneg) (auto simp: read_fits_def)
  with w s show "0 \<le> rd_total (fst (read_file n x w)) \<and> rd_total (fst (read_file n x w)) \<le> rd_total w + EffectiveFileSize c"
    by (auto simp: read_file_def read_fits_def)
qed

lemma target_small:
  assumes "1 \<le> r" and "r * RefillInterval < 2 ^ 62" shows "(r :: int) \<le> 2 ^ 53"
proof -
  have "r \<le> 2 ^ 62 div RefillInterval"
    using assms(2) by (simp add: int_le_div_iff RefillInterval_def Millisecond_def)
  moreover have "2 ^ 62 div RefillInterval < 2 ^ 53" by (simp add: RefillInterval_def Millisecond_def)
  ultimately show ?thesis by simp
qed

section \<open>Runs by example\<close>

definition sample_disk :: disk_config where
  "sample_disk = \<lparr>dc_base = \<lparr>fc_duration = 10, fc_ramp_up = 0, fc_ramp_down = 0\<rparr>, dc_write_rate = 10, dc_max_disk = 10,
     dc_chunk_size = 4, dc_path = []\<rparr>"

text \<open>One chunk, the deadline, and the result.\<close>

definition sample_acts :: "write_round stress_act list" where
  "sample_acts = replicate 4 (WorkerMove 0 True good_round) @
     [Elapse 10, Deadline, WorkerMove 0 True good_round, RampMove, MainMove True, MainMove True]"

definition sample_state :: "disk_run stress_state" where
  "sample_state = \<lparr>st_now = 10, st_parent = None, st_ctx = Some DeadlineExceeded,
     st_bucket = \<lparr>tb_tokens = 0, tb_rate = 10, tb_capacity = 4, tb_minCap = 4, tb_lastTick = 0\<rparr>,
     st_workers = [(Returned, \<lparr>dr_fileSize = 4, dr_written = 4, dr_ops = 1, dr_offset = 4, dr_length = 4\<rparr>)],
     st_ramp = RampOver, st_emitter = EmitOver, st_until = 0, st_events = [], st_main = Deferred [CloseFile, RemoveTemp, CancelCtx],
     st_open = True, st_temp = True,
     st_sent = Some (10, [\<lparr>dr_fileSize = 4, dr_written = 4, dr_ops = 1, dr_offset = 4, dr_length = 4\<rparr>], None)\<rparr>"

lemma sample_disk_values:
  "EffectiveWriteRate sample_disk = 10" "EffectiveMaxDiskUsage sample_disk = 10" "disk_EffectiveChunkSize sample_disk = 4"
  "dc_base sample_disk = \<lparr>fc_duration = 10, fc_ramp_up = 0, fc_ramp_down = 0\<rparr>"
  by (simp_all add: sample_disk_def EffectiveWriteRate_def EffectiveMaxDiskUsage_def disk_EffectiveChunkSize_def)

lemma sample_run: "stress_run (disk_code sample_disk True 0 0 10) sample_acts (disk_begin sample_disk True 0 0 10) = Some sample_state"
  by (simp add: sample_acts_def sample_state_def numeral_eq_Suc disk_begin_def disk_code_def stress_begin_def sample_disk_values Let_def
      phase_tracking_def newTokenBucket_def bucketCapacity_def RefillInterval_def Millisecond_def Second_def wrap64_def worker_move_def
      try_acquire_def refill_def time_sub_def write_chunk_def good_round_def new_file_def file_write_def ended_def ramp_move_def
      main_move_def all_over_def stress_err_def)

definition sample_io :: io_config where
  "sample_io = \<lparr>ic_base = \<lparr>fc_duration = 10, fc_ramp_up = 0, fc_ramp_down = 0\<rparr>, ic_read_rate = 10, ic_file_size = 2, ic_file_count = 1,
     ic_workers = 1, ic_path = [], ic_mode = ModeRead\<rparr>"

definition io_acts :: "read_round stress_act list" where
  "io_acts = (let r = \<lparr>rr_done = False, rr_acquired = True, rr_open_ok = True, rr_read = 2\<rparr>
     in replicate 4 (WorkerMove 0 True r) @ [Elapse 10, Deadline, WorkerMove 0 True r, RampMove, MainMove True, MainMove True])"

definition io_state :: "read_run stress_state" where
  "io_state = \<lparr>st_now = 10, st_parent = None, st_ctx = Some DeadlineExceeded,
     st_bucket = \<lparr>tb_tokens = 0, tb_rate = 10, tb_capacity = 2, tb_minCap = 2, tb_lastTick = 0\<rparr>,
     st_workers = [(Returned, \<lparr>rd_idx = 0, rd_total = 2, rd_ops = 1, rd_opened = [0]\<rparr>)],
     st_ramp = RampOver, st_emitter = EmitOver, st_until = 0, st_events = [], st_main = Deferred [RemoveTemp, CancelCtx],
     st_open = True, st_temp = True,
     st_sent = Some (10, [\<lparr>rd_idx = 0, rd_total = 2, rd_ops = 1, rd_opened = [0]\<rparr>], None)\<rparr>"

lemma sample_io_values:
  "EffectiveReadRate sample_io = 10" "EffectiveFileSize sample_io = 2" "EffectiveWorkers sample_io = 1"
  "ic_base sample_io = \<lparr>fc_duration = 10, fc_ramp_up = 0, fc_ramp_down = 0\<rparr>"
  by (simp_all add: sample_io_def EffectiveReadRate_def EffectiveFileSize_def EffectiveWorkers_def)

lemma io_sample_run: "stress_run (io_code sample_io [''f''] True 0 0 10) io_acts (io_begin sample_io [''f''] True 0 0 10) = Some io_state"
  by (simp add: io_acts_def io_state_def numeral_eq_Suc io_begin_def io_code_def stress_begin_def sample_io_values Let_def
      phase_tracking_def newTokenBucket_def bucketCapacity_def RefillInterval_def Millisecond_def Second_def wrap64_def worker_move_def
      try_acquire_def refill_def time_sub_def read_file_def ended_def ramp_move_def main_move_def all_over_def stress_err_def)

section \<open>Properties\<close>

text \<open>
  C29. The fault sends its result once, when its workers, the ramp and the emitter are over, with what the workers have
  counted. It is not sent before the deadline unless somebody ends the fault, also when all its workers have failed;
  and the only error it ever has is that of the caller's context.
\<close>

theorem stress_result:
  assumes "stress_run c acts (stress_begin c tb ws) = Some s" and "st_sent s = Some (elapsed, counts, err)"
  shows "all_over s \<and> counts = map snd (st_workers s) \<and> st_ctx s \<noteq> None \<and>
     (st_ctx s = Some DeadlineExceeded \<and> st_parent s = None \<longrightarrow> sc_deadline c \<le> sc_start c + elapsed) \<and>
     (err = None \<or> err = st_parent s \<and> st_ctx s = Some Canceled)"
proof -
  note inv = reachable_join [OF assms(1), unfolded join_inv_def]
  from inv assms(2) have "st_main s \<noteq> Joining" by auto
  with inv have o: "all_over s" by blast
  then have "st_ramp s = RampOver" by (simp add: all_over_def)
  with inv o assms(2) show ?thesis by auto
qed

theorem stress_result_witness: "all_over sample_state \<and> st_ctx sample_state \<noteq> None"
  using stress_result [OF sample_run [unfolded disk_begin_def]] by (simp add: sample_state_def)

text \<open>
  C28. The result comes before the file is closed and removed: whoever exits on it leaves the file behind. When the fault has run
  to its end the file is gone, if it could be removed.
\<close>

theorem temp_file_lifetime:
  assumes "stress_run (disk_code c emit ovf start deadline) acts (disk_begin c emit ovf start deadline) = Some s"
    and "list_all (\<lambda>a. a \<noteq> MainMove False) acts"
  shows "(st_sent s = None \<longrightarrow> st_temp s \<and> st_open s) \<and>
     (st_main s = Deferred [CloseFile, RemoveTemp, CancelCtx] \<longrightarrow> st_sent s \<noteq> None \<and> st_temp s \<and> st_open s) \<and>
     (st_main s = Deferred [] \<longrightarrow> st_sent s \<noteq> None \<and> \<not> st_temp s \<and> \<not> st_open s)"
proof -
  let ?c = "disk_code c emit ovf start deadline"
  have d: "rev (sc_defers ?c) = [CloseFile, RemoveTemp, CancelCtx]" by (simp add: disk_code_def Let_def)
  note run = assms(1) [unfolded disk_begin_def]
  from reachable_join [OF run] have "st_sent s = None \<longleftrightarrow> (\<forall>ds. st_main s \<noteq> Deferred ds)" by (simp add: join_inv_def)
  with reachable_temp [OF run assms(2)] d show ?thesis by (auto simp: temp_inv_def split: main_pc.splits)
qed

theorem temp_file_lifetime_witness: "st_sent sample_state \<noteq> None \<and> st_temp sample_state \<and> st_open sample_state"
proof -
  have "list_all (\<lambda>a. a \<noteq> MainMove False) sample_acts" by (simp add: sample_acts_def list_all_iff)
  from temp_file_lifetime [OF sample_run this] show ?thesis by (simp add: sample_state_def)
qed

text \<open>
  C18. The result of a running disk fault, however its goroutines interleave. Its time is that from the start to the instant
  the fault's goroutine finds all others over; its error is the one of the caller's context when the result is sent, if the
  fault's own context was then canceled, and none otherwise; and its counts are those of \<open>writeWorker\<close> run alone on
  exactly the outcomes the worker has met, one operation and one chunk for each of them if none fails.
\<close>

theorem disk_run_refines:
  assumes "stress_run (disk_code c emit ovf start deadline) acts (disk_begin c emit ovf start deadline) = Some s"
    and "st_sent s = Some (elapsed, counts, err)"
  shows "\<exists>acts1 s1 s2 w. sends_from (disk_code c emit ovf start deadline) acts (disk_begin c emit ovf start deadline) acts1 s1 s2 \<and>
     counts = [w] \<and> elapsed = st_now s1 - start \<and> err = (if st_ctx s2 = Some Canceled then st_parent s2 else None) \<and>
     (let rounds = taken 0 (disk_code c emit ovf start deadline) acts1 (disk_begin c emit ovf start deadline) in
        disk_result c (map granted_write rounds) (st_now s1 - start) (st_parent s2) (st_ctx s2) =
          (elapsed, \<lparr>dd_bytesWritten = dr_written w, dd_writeOps = dr_ops w, dd_maxDisk = EffectiveMaxDiskUsage c\<rparr>, err) \<and>
        (list_all (\<lambda>r. wr_seek_ok r \<and> wr_write_ok r) rounds \<longrightarrow>
           dr_ops w = wrap64 (int (length rounds)) \<and>
           dr_written w = wrap64 (disk_EffectiveChunkSize c * int (length rounds))))"
proof -
  let ?c = "disk_code c emit ovf start deadline" and ?s0 = "disk_begin c emit ovf start deadline"
  have start: "sc_start ?c = start" by (simp add: disk_code_def Let_def)
  from result_from [OF assms(1) [unfolded disk_begin_def] assms(2), folded disk_begin_def] obtain acts1 s1 s2 where
    S: "sends_from ?c acts ?s0 acts1 s1 s2" "elapsed = st_now s1 - start" "counts = map snd (st_workers s1)"
    "err = stress_err (st_parent s2) (st_ctx s2)" unfolding start by blast
  then have "stress_run ?c acts1 ?s0 = Some s1" by (auto simp: sends_from_def)
  note R = disk_rounds [OF this]
  let ?rounds = "taken 0 ?c acts1 ?s0"
  let ?w = "writeWorker (EffectiveMaxDiskUsage c) (disk_EffectiveChunkSize c) (map granted_write ?rounds) new_file"
  have new: "dr_written new_file = 0" "dr_ops new_file = 0" "wrap64 0 = 0" by (simp_all add: new_file_def wrap64_def)
  have "list_all (\<lambda>r. wr_seek_ok r \<and> wr_write_ok r) ?rounds \<Longrightarrow>
      dr_ops ?w = wrap64 (int (length ?rounds)) \<and> dr_written ?w = wrap64 (disk_EffectiveChunkSize c * int (length ?rounds))"
    using writeWorker_counts [of ?rounds "EffectiveMaxDiskUsage c" "disk_EffectiveChunkSize c" new_file] new
      writeWorker_wrapped [of new_file "EffectiveMaxDiskUsage c" "disk_EffectiveChunkSize c" "map granted_write ?rounds"] by simp
  with S R show ?thesis
    by (intro exI [of _ acts1] exI [of _ s1] exI [of _ s2] exI [of _ ?w]) (simp add: disk_result_def stress_err_def Let_def)
qed

theorem disk_run_refines_witness:
  "\<exists>rounds. disk_result sample_disk (map granted_write rounds) 10 None (Some DeadlineExceeded) =
     (10, \<lparr>dd_bytesWritten = 4, dd_writeOps = 1, dd_maxDisk = 10\<rparr>, None)"
proof -
  have sent: "st_sent sample_state = Some (10, [\<lparr>dr_fileSize = 4, dr_written = 4, dr_ops = 1, dr_offset = 4, dr_length = 4\<rparr>], None)"
    by (simp add: sample_state_def)
  from disk_run_refines [OF sample_run sent] show ?thesis
    by (auto simp: Let_def sample_disk_values disk_result_def stress_err_def)
qed

text \<open>The same for the I/O fault and \<open>io_result\<close>, with the outcomes its workers have met one by one.\<close>

theorem io_run_refines:
  assumes "stress_run (io_code c files emit ovf start deadline) acts (io_begin c files emit ovf start deadline) = Some s"
    and "st_sent s = Some (elapsed, counts, err)"
  shows "\<exists>acts1 s1 s2. sends_from (io_code c files emit ovf start deadline) acts (io_begin c files emit ovf start deadline) acts1 s1 s2 \<and>
     (let rounds = map (\<lambda>i. map granted_read (taken i (io_code c files emit ovf start deadline) acts1 (io_begin c files emit ovf start deadline)))
        [0..<nat (EffectiveWorkers c)];
        r = io_result c files written rounds (st_now s1 - start) (st_parent s2) (st_ctx s2)
      in counts = io_run c files written rounds \<and> fst r = elapsed \<and> snd (snd r) = err)"
proof -
  let ?c = "io_code c files emit ovf start deadline" and ?s0 = "io_begin c files emit ovf start deadline"
  have start: "sc_start ?c = start" by (simp add: io_code_def Let_def)
  from result_from [OF assms(1) [unfolded io_begin_def] assms(2), folded io_begin_def] obtain acts1 s1 s2 where
    S: "sends_from ?c acts ?s0 acts1 s1 s2" "elapsed = st_now s1 - start" "counts = map snd (st_workers s1)"
    "err = stress_err (st_parent s2) (st_ctx s2)" unfolding start by blast
  then have "stress_run ?c acts1 ?s0 = Some s1" by (auto simp: sends_from_def)
  from S io_rounds [OF this, of written] show ?thesis
    by (intro exI [of _ acts1] exI [of _ s1] exI [of _ s2]) (simp add: io_result_def Let_def)
qed

theorem io_run_refines_witness:
  "\<exists>rounds. io_run sample_io [''f''] 2 rounds = [\<lparr>rd_idx = 0, rd_total = 2, rd_ops = 1, rd_opened = [0]\<rparr>]"
proof -
  have "st_sent io_state = Some (10, [\<lparr>rd_idx = 0, rd_total = 2, rd_ops = 1, rd_opened = [0]\<rparr>], None)" by (simp add: io_state_def)
  from io_run_refines [OF io_sample_run this, where written = 2] show ?thesis by (metis (no_types, lifting))
qed

text \<open>
  C8. Once the context is done, by \<open>Stop\<close>, the deadline or the caller, the goroutines end by themselves: between the ticks of
  the ramp they make boundedly many moves, and until the last deferred call one of them can always move.
\<close>

theorem stress_winds_down:
  assumes "stress_run c acts (stress_begin c tb ws) = Some s" and "st_ctx s \<noteq> None" and "stress_run c acts' s = Some s'"
  shows "length (filter goroutine acts') \<le> 3 * length ws + 8 + length (sc_defers c) + length (filter (\<lambda>a. a = Tick) acts') \<and>
     (st_main s' = Deferred [] \<or> (\<exists>a. goroutine a \<and> stress_step c a s' \<noteq> None))"
proof -
  have ctx: "st_ctx s' \<noteq> None" using run_ctx [OF assms(3,2)] assms(2) by simp
  have m: "main_measure c (st_main s) \<le> length (sc_defers c) + 2"
  proof (cases "st_main s")
    case (Deferred ds)
    have "\<exists>ran. rev (sc_defers c) = ran @ ds" using reachable_defers [OF assms(1) Deferred] .
    then have "length ds \<le> length (sc_defers c)" by (metis length_append length_rev le_add2)
    with Deferred show ?thesis by (simp add: main_measure_def)
  qed (simp_all add: main_measure_def)
  note len = reachable_ran_as(1) [OF assms(1)]
  have "worker_measure pc \<le> 3" for pc by (cases pc) simp_all
  then have "sum_list (map (worker_measure \<circ> fst) (st_workers s)) \<le> sum_list (map (\<lambda>_. 3) (st_workers s))"
    by (intro sum_list_mono) simp
  then have w: "sum_list (map (worker_measure \<circ> fst) (st_workers s)) \<le> 3 * length ws" using len by (simp add: sum_list_triv)
  have "ramp_measure (st_ramp s) \<le> 2" by (cases "st_ramp s") simp_all
  moreover have "emitter_measure (st_emitter s) \<le> 4" by (cases "st_emitter s") simp_all
  ultimately have "stress_measure c s \<le> 3 * length ws + 8 + length (sc_defers c)" using w m by (simp add: stress_measure_def)
  with goroutine_moves [OF assms(3,2)] goroutine_enabled [OF ctx, of c] show ?thesis by auto
qed

theorem stress_winds_down_witness:
  "\<exists>a. goroutine a \<and> stress_step (disk_code sample_disk True 0 0 10) a sample_state \<noteq> None"
  using stress_winds_down [OF sample_run [unfolded disk_begin_def], of "[]" sample_state] by (simp add: sample_state_def)



text \<open>The same for the readers of the I/O fault together.\<close>

theorem io_fault_bounded:
  assumes "stress_run (io_code c files emit ovf start deadline) acts (io_begin c files emit ovf start deadline) = Some s"
    and "io_Validate c = None" and "i64 (fc_duration (ic_base c))" and "i64 (fc_ramp_up (ic_base c))"
    and "i64 (fc_ramp_down (ic_base c))" and "fc_ramp_up (ic_base c) + fc_ramp_down (ic_base c) < 2 ^ 63"
    and "EffectiveReadRate c * RefillInterval < 2 ^ 62" and "EffectiveReadRate c * (st_now s - start) < 2 ^ 62"
    and "EffectiveFileSize c < 2 ^ 62" and "list_all (act_all (read_fits c)) acts"
  shows "sum_list (map (\<lambda>g. rd_total (snd g)) (st_workers s)) * Second \<le>
     bucketCapacity (EffectiveReadRate c) (EffectiveFileSize c) * Second + EffectiveReadRate c * (st_now s - start)"
proof -
  let ?c = "io_code c files emit ovf start deadline" and ?r = "EffectiveReadRate c" and ?n = "EffectiveFileSize c"
  have pos: "1 \<le> ?r" by (simp add: EffectiveReadRate_def DefaultReadRate_def)
  have f: "sc_start ?c = start" "sc_size ?c = ?n" "sc_body ?c = read_file (length files)"
    "sc_rate ?c = effective_rate ovf ?r (fc_duration (ic_base c)) (fc_ramp_up (ic_base c)) (fc_ramp_down (ic_base c))"
    by (simp_all add: io_code_def Let_def)
  have v: "FaultConfig_Validate (ic_base c) = None" using assms(2) by (simp add: io_Validate_def split: option.splits)
  note ok = valid_ramps [OF v assms(3-6)]
  let ?ws = "map (\<lambda>w. \<lparr>rd_idx = w mod length files, rd_total = 0, rd_ops = 0, rd_opened = []\<rparr>) [0..<nat (EffectiveWorkers c)]"
  from assms(1) [unfolded io_begin_def]
  have run: "stress_run ?c acts (stress_begin ?c (newTokenBucket (sc_start ?c) ?r ?n) ?ws) = Some s" by (simp add: f)
  show ?thesis
    using io_meter.metered_run(2) [OF run assms(10) _ _ pos assms(7,9) f(3,2)] assms(8)
      effective_rate_bounds [OF ok pos target_small [OF pos assms(7)]] by (auto simp: f)
qed

theorem io_fault_bounded_witness:
  "sum_list (map (\<lambda>g. rd_total (snd g)) (st_workers io_state)) * Second \<le> 2 * Second + 100"
proof -
  have v: "io_Validate sample_io = None" "list_all (act_all (read_fits sample_io)) io_acts" "st_now io_state = 10"
    by (simp_all add: io_Validate_def FaultConfig_Validate_def sample_io_def wrap64_def io_acts_def read_fits_def EffectiveFileSize_def
        list_all_iff io_state_def Let_def)
  have b: "bucketCapacity 10 2 = 2" by (simp add: bucketCapacity_def RefillInterval_def Millisecond_def Second_def wrap64_def Let_def)
  from io_fault_bounded [OF io_sample_run v(1)] v(2,3)
  show ?thesis by (simp add: sample_io_values i64_def RefillInterval_def Millisecond_def b)
qed

text \<open>
  The phase events are those of the timeline with the timers that fired, and none comes early: the end of the ramp-up not
  before its time, the ramp-down not before its start, its end not before the duration is over.
\<close>

theorem phase_timeline:
  assumes "stress_run c acts (stress_begin c tb ws) = Some s"
    and "ramps_ok (fc_duration (sc_base c)) (fc_ramp_up (sc_base c)) (fc_ramp_down (sc_base c))"
  shows "(st_emitter s = EmitOver \<and> phase_tracking (sc_emit c) (sc_base c) \<longrightarrow>
       (\<exists>up sustain down. st_events s = phase_events (sc_target c) (sc_base c) up sustain down)) \<and>
     (RampUpComplete \<in> set (map fst (st_events s)) \<longrightarrow> sc_start c + fc_ramp_up (sc_base c) \<le> st_now s) \<and>
     (RampDownStart \<in> set (map fst (st_events s)) \<longrightarrow> sc_start c + fc_duration (sc_base c) - fc_ramp_down (sc_base c) \<le> st_now s) \<and>
     (RampDownComplete \<in> set (map fst (st_events s)) \<longrightarrow> sc_start c + fc_duration (sc_base c) \<le> st_now s)"
proof -
  from reachable_emit [OF _ assms(1)] assms(2) obtain evs where evs: "st_events s = map (stress_event (sc_target c) (sc_base c)) evs"
    "emit_by (sc_base c) (sc_start c) (st_now s) evs" "emit_at (sc_base c) (sc_emit c) (sc_start c) (st_emitter s) (st_until s) evs" by (auto simp: emit_inv_def code_ok_def)
  have "phase_events (sc_target c) (sc_base c) x y z = map (stress_event (sc_target c) (sc_base c)) (emitPhaseEvents (sc_base c) x y z)" for x y z
    by (simp add: phase_events_def stress_event_def)
  then have "\<exists>x y z. st_events s = phase_events (sc_target c) (sc_base c) x y z"
    if "st_emitter s = EmitOver" "phase_tracking (sc_emit c) (sc_base c)"
    using evs(1,3) that by (auto simp: emit_at_def Let_def)
  moreover have "map fst (st_events s) = evs" by (simp add: evs(1) comp_def stress_event_def)
  ultimately show ?thesis using evs(2) by (simp add: emit_by_def)
qed

theorem phase_timeline_witness:
  "\<exists>s. stress_run (disk_code (sample_disk\<lparr>dc_base := \<lparr>fc_duration = 10, fc_ramp_up = 2, fc_ramp_down = 2\<rparr>\<rparr>) True 0 0 10)
      [EmitterMove True, Elapse 2, EmitterMove True]
      (disk_begin (sample_disk\<lparr>dc_base := \<lparr>fc_duration = 10, fc_ramp_up = 2, fc_ramp_down = 2\<rparr>\<rparr>) True 0 0 10) = Some s \<and>
     map fst (st_events s) = [RampUpStart, RampUpComplete, SustainStart] \<and> 0 + 2 \<le> st_now s"
proof -
  let ?d = "sample_disk\<lparr>dc_base := \<lparr>fc_duration = 10, fc_ramp_up = 2, fc_ramp_down = 2\<rparr>\<rparr>"
  let ?c = "disk_code ?d True 0 0 10" and ?acts = "[EmitterMove True, Elapse 2, EmitterMove True]"
  have b: "sc_base ?c = \<lparr>fc_duration = 10, fc_ramp_up = 2, fc_ramp_down = 2\<rparr>" "sc_start ?c = 0" by (simp_all add: disk_code_def Let_def)
  have e: "sc_emit ?c" by (simp add: disk_code_def Let_def)
  have ok: "ramps_ok 10 2 2" by (simp add: ramps_ok_def)
  then have sus: "emit_sustain (sc_base ?c) = ([SustainStart], EmitSustain, 6)" by (simp add: emit_sustain_ok code_ok_def b)
  have ex: "\<exists>s. stress_run ?c ?acts (stress_begin ?c tb [new_file]) = Some s \<and> map fst (st_events s) = [RampUpStart, RampUpComplete, SustainStart]" for tb
    by (simp add: stress_begin_def b e phase_tracking_def emitter_step_def emitter_move_def sus [unfolded b] stress_event_def)
  from ex [of "newTokenBucket 0 (EffectiveWriteRate ?d) (disk_EffectiveChunkSize ?d)"]
  obtain s where s: "stress_run ?c ?acts (disk_begin ?d True 0 0 10) = Some s" "map fst (st_events s) = [RampUpStart, RampUpComplete, SustainStart]"
    unfolding disk_begin_def by (elim exE conjE)
  from phase_timeline [OF s(1) [unfolded disk_begin_def]] b s(2) ok have "0 + 2 \<le> st_now s" by simp
  with s show ?thesis by (intro exI [of _ s] conjI) simp_all
qed

end
