(* ===== verification/Trace_Backend.thy ===== *)
theory Trace_Backend
  imports Bootstrap
begin

text \<open>
  The tracing back ends: \<open>OTelTracer\<close> and \<open>otelSpan\<close> of \<open>internal/trace/trace.go\<close> and the tracer of \<open>noop.go\<close>, as what each
  makes of the span operations the interceptor logs. OpenTelemetry itself is the list of calls it gets.
\<close>

section \<open>The two back ends\<close>

datatype trace_call =
    OtelStart nat string labels
  | OtelCall nat otel_call
  | OtelAddEvent nat string labels

text \<open>The result recorded on a span: its duration, its text, the error and the detail.\<close>

type_synonym span_result = "int \<times> string \<times> string option \<times> string option"

text \<open>
  \<open>res\<close> and \<open>err\<close> are the results and errors recorded on the spans. To hand a fault an emitter calls nothing yet.
\<close>

fun otel_calls :: "(nat \<Rightarrow> span_result) \<Rightarrow> (nat \<Rightarrow> string) \<Rightarrow> span_op \<Rightarrow> trace_call list" where
  "otel_calls res err (SpanStart s name attrs) = [OtelStart s name attrs]"
| "otel_calls res err (SpanAttrs s attrs) = [OtelCall s (OtelAttributes attrs)]"
| "otel_calls res err (SpanEvent s name attrs) = [OtelAddEvent s name attrs]"
| "otel_calls res err (SpanEmitter s) = []"
| "otel_calls res err (SpanEndError s) = map (OtelCall s) (otel_EndWithError (err s))"
| "otel_calls res err (SpanResult s) =
     (let (actualDuration, text, e, detail) = res s in map (OtelCall s) (otel_RecordResult actualDuration text e detail))"
| "otel_calls res err (SpanEnd s) = [OtelCall s OtelEnd]"

definition noop_calls :: "span_op \<Rightarrow> trace_call list" where
  "noop_calls op' = []"

primrec op_span :: "span_op \<Rightarrow> nat" where
  "op_span (SpanStart s n a) = s" | "op_span (SpanAttrs s a) = s" | "op_span (SpanEvent s n a) = s" | "op_span (SpanEmitter s) = s"
| "op_span (SpanEndError s) = s" | "op_span (SpanResult s) = s" | "op_span (SpanEnd s) = s"

primrec op_ends :: "span_op \<Rightarrow> bool" where
  "op_ends (SpanStart s n a) = False" | "op_ends (SpanAttrs s a) = False" | "op_ends (SpanEvent s n a) = False"
| "op_ends (SpanEmitter s) = False" | "op_ends (SpanEndError s) = True" | "op_ends (SpanResult s) = True" | "op_ends (SpanEnd s) = True"

primrec call_span :: "trace_call \<Rightarrow> nat" where
  "call_span (OtelStart s n a) = s" | "call_span (OtelCall s c) = s" | "call_span (OtelAddEvent s n a) = s"

definition call_ends :: "trace_call \<Rightarrow> bool" where
  "call_ends c \<longleftrightarrow> (\<exists>s. c = OtelCall s OtelEnd)"

text \<open>
  What the interceptor relies on: an operation calls its own span, only the three that end a span end it, once, and
  with their last call.
\<close>

locale span_backend =
  fixes calls :: "span_op \<Rightarrow> trace_call list"
  assumes own_span: "x \<in> set (calls op') \<Longrightarrow> call_span x = op_span op'"
    and no_end: "\<not> op_ends op' \<Longrightarrow> filter call_ends (calls op') = []"
    and one_end: "length (filter call_ends (calls op')) \<le> 1"
    and end_last: "filter call_ends (calls op') \<noteq> [] \<Longrightarrow> call_ends (last (calls op'))"
begin

definition trace :: "span_op list \<Rightarrow> trace_call list" where
  "trace ops = concat (map calls ops)"

lemma trace_simps [simp]: "trace [] = []" "trace (x # xs) = calls x @ trace xs" "trace (xs @ ys) = trace xs @ trace ys"
  by (simp_all add: trace_def)

lemma trace_ends: "length (filter call_ends (trace ops)) \<le> length (filter op_ends ops)"
proof (induction ops)
  case (Cons x ops)
  with one_end [of x] no_end [of x] show ?case by (cases "op_ends x") auto
qed simp

lemma trace_own: "\<forall>x \<in> set ops. op_span x = s \<Longrightarrow> \<forall>c \<in> set (trace ops). call_span c = s"
  by (auto simp: trace_def dest: own_span)

end

lemma otel_end_calls:
  "\<exists>cs. otel_RecordResult d t e x = cs @ [OtelEnd] \<and> OtelEnd \<notin> set cs"
  "\<exists>cs. otel_EndWithError m = cs @ [OtelEnd] \<and> OtelEnd \<notin> set cs"
  by (auto simp: otel_RecordResult_def otel_EndWithError_def split: option.splits)

lemma filter_ends: "filter call_ends (map (OtelCall s) cs) = map (OtelCall s) (filter (\<lambda>c. c = OtelEnd) cs)"
  by (induction cs) (auto simp: call_ends_def)

lemma otel_ends_shape:
  assumes "op_ends x" shows "\<exists>cs. otel_calls res err x = map (OtelCall (op_span x)) cs @ [OtelCall (op_span x) OtelEnd] \<and> OtelEnd \<notin> set cs"
proof (cases x)
  case (SpanEndError s)
  with otel_end_calls(2) [of "err s"] show ?thesis by auto
next
  case (SpanResult s)
  obtain d t e y where r: "res s = (d, t, e, y)" by (metis surj_pair)
  with SpanResult otel_end_calls(1) [of d t e y] show ?thesis by auto
next
  case (SpanEnd s)
  then show ?thesis by (auto intro!: exI [of _ "[]"])
qed (use assms in simp_all)

lemma otel_ends_once:
  "filter call_ends (otel_calls res err x) = (if op_ends x then [OtelCall (op_span x) OtelEnd] else [])"
  "op_ends x \<Longrightarrow> last (otel_calls res err x) = OtelCall (op_span x) OtelEnd \<and> otel_calls res err x \<noteq> []"
proof -
  show "op_ends x \<Longrightarrow> last (otel_calls res err x) = OtelCall (op_span x) OtelEnd \<and> otel_calls res err x \<noteq> []"
    using otel_ends_shape [of x res err] by auto
  show "filter call_ends (otel_calls res err x) = (if op_ends x then [OtelCall (op_span x) OtelEnd] else [])"
  proof (cases "op_ends x")
    case True
    from otel_ends_shape [OF this, of res err] obtain cs where cs:
      "otel_calls res err x = map (OtelCall (op_span x)) cs @ [OtelCall (op_span x) OtelEnd]" "OtelEnd \<notin> set cs" by blast
    from cs(2) have "filter (\<lambda>c. c = OtelEnd) cs = []" by (auto simp: filter_empty_conv)
    with cs(1) True show ?thesis by (simp add: filter_ends) (simp add: call_ends_def)
  qed (cases x; auto simp: call_ends_def)
qed

interpretation otel: span_backend "otel_calls res err" for res err
proof unfold_locales
  fix x op' assume "x \<in> set (otel_calls res err op')"
  then show "call_span x = op_span op'" by (cases op') (auto split: prod.splits)
qed (auto simp: otel_ends_once call_ends_def split: if_splits)

interpretation noop: span_backend noop_calls
  by unfold_locales (simp_all add: noop_calls_def)

section \<open>The span of a fault\<close>

lemma span_labels_log: "w_log (span_labels s ls w) = w_log w @ map (\<lambda>kv. SpanAttrs s [kv]) ls"
  unfolding span_labels_def by (induction ls arbitrary: w) (simp_all add: log_op_def)

lemma update_handle_log [simp]: "w_log (update_handle h f w) = w_log w"
  by (simp add: update_handle_def)

definition fault_attrs :: "string \<Rightarrow> injection_point \<Rightarrow> string \<Rightarrow> labels" where
  "fault_attrs t point reason =
     [(AttrFaultType, t), (AttrFaultInjectionPoint, point_String point), (AttrFaultReason, reason)]"

lemma start_under_log:
  "w_log (snd (start_under os early f s w)) = w_log w @ (if event_aware f then [SpanEmitter s] else []) @
     (if fault_Start os f = None then [] else [SpanEndError s])"
  by (auto simp: start_under_def NewHandle_def SetOnResult_def Send_def Let_def split: option.splits)

lemma fault_span_log:
  "w_log (snd (fault_span t point reason w)) = w_log w @ [SpanStart (w_spans w) SpanFaultInject (fault_attrs t point reason)]"
  by (simp add: fault_span_def tracer_Start_def fault_attrs_def)

lemma traced_start_log:
  "w_log (snd (traced_start os early req t reason f w)) =
     w_log w @ [SpanStart (w_spans w) SpanFaultInject (fault_attrs t (er_point req) reason)] @
     map (\<lambda>kv. SpanAttrs (w_spans w) [kv]) (er_labels req) @ (if event_aware f then [SpanEmitter (w_spans w)] else []) @
     (if fault_Start os f = None then [] else [SpanEndError (w_spans w)])"
  by (simp add: traced_start_eq start_under_log span_labels_log fault_span_log)

text \<open>The operations on the span of a fault before its end, and what a back end of OpenTelemetry makes of them.\<close>

definition fault_ops :: "eval_request \<Rightarrow> decision \<Rightarrow> fault \<Rightarrow> nat \<Rightarrow> span_op list" where
  "fault_ops req d f s =
     SpanStart s SpanFaultInject (fault_attrs (fault_type f) (er_point req) (d_reason d)) #
     map (\<lambda>kv. SpanAttrs s [kv]) (er_labels req) @ (if event_aware f then [SpanEmitter s] else [])"

definition span_life :: "nat \<Rightarrow> labels \<Rightarrow> bool \<Rightarrow> trace_call list \<Rightarrow> bool" where
  "span_life s attrs ended calls \<longleftrightarrow>
     calls \<noteq> [] \<and> hd calls = OtelStart s SpanFaultInject attrs \<and> (\<forall>c \<in> set calls. call_span c = s) \<and>
     filter call_ends calls = (if ended then [OtelCall s OtelEnd] else []) \<and>
     (ended \<longrightarrow> last calls = OtelCall s OtelEnd)"

lemma fault_ops_life:
  assumes "\<forall>x \<in> set tail. op_ends x \<and> op_span x = s" and "length tail \<le> 1"
  shows "span_life s (fault_attrs (fault_type f) (er_point req) (d_reason d)) (tail \<noteq> [])
     (otel.trace res err (fault_ops req d f s @ tail))"
proof -
  let ?pre = "otel.trace res err (fault_ops req d f s)"
  have pre: "?pre \<noteq> []" "hd ?pre = OtelStart s SpanFaultInject (fault_attrs (fault_type f) (er_point req) (d_reason d))"
    "filter call_ends ?pre = []"
    by (auto simp: fault_ops_def otel.trace_def filter_empty_conv call_ends_def)
  have "\<forall>x \<in> set (fault_ops req d f s @ tail). op_span x = s" using assms(1) by (auto simp: fault_ops_def)
  note own = otel.trace_own [OF this, where res = res and err = err]
  from assms(2) consider "tail = []" | x where "tail = [x]" by (cases tail) auto
  then show ?thesis
  proof cases
    case 2
    with assms(1) have "op_ends x" "op_span x = s" by simp_all
    with own pre 2 otel_ends_once [where x = x and res = res and err = err] show ?thesis by (simp add: span_life_def)
  qed (use own pre in \<open>simp add: span_life_def\<close>)
qed

lemma traced_start_ops:
  assumes "traced_start os early req (fault_type f) (d_reason d) f w = (r, w')"
  shows "w_log w' = w_log w @ fault_ops req d f (w_spans w) @ (case r of Inl e \<Rightarrow> [SpanEndError (w_spans w)] | Inr h \<Rightarrow> [])"
proof (cases r)
  case (Inl e)
  with assms start_under_Inl(1) have "fault_Start os f \<noteq> None" by (fastforce simp: traced_start_eq)
  with Inl traced_start_log [of os early req "fault_type f" "d_reason d" f w] assms show ?thesis by (simp add: fault_ops_def)
next
  case (Inr h)
  with traced_start_Inr(2) [OF assms [unfolded Inr]] traced_start_log [of os early req "fault_type f" "d_reason d" f w] assms
  show ?thesis by (simp add: fault_ops_def)
qed

lemma reg_enter_log:
  assumes "reg_enter key policy startFn w = (x, w')" and "x \<noteq> Inr None"
  shows "\<exists>r w1. startFn w = (r, w1) \<and> w_log w' = w_log w1 \<and> isl x = isl r"
  using assms by (auto simp: reg_enter_def split: if_splits prod.splits sum.splits)

lemma startRegistered_log:
  assumes "startRegistered os early req d f t md w = (r, w')" and "r \<noteq> Inr empty_result"
  shows "\<exists>r1 w1. traced_start os early req t (d_reason d) f w = (r1, w1) \<and> w_log w' = w_log w1 \<and> isl r = isl r1 \<and>
     (\<forall>cr. r = Inr cr \<longrightarrow> ck_handle cr \<noteq> None)"
proof -
  obtain x w2 where enter: "reg_enter (if d_name d = [] then t else d_name d) (d_policy d)
      (traced_start os early req t (d_reason d) f) w = (x, w2)" by fastforce
  with assms have x: "x \<noteq> Inr None" and r: "w_log w' = w_log w2" "isl r = isl x" "\<forall>cr. r = Inr cr \<longrightarrow> ck_handle cr \<noteq> None"
    by (auto simp: startRegistered_def StartOrJoin_def SetOnResult_def split: sum.splits option.splits prod.splits)
  with reg_enter_log [OF enter x] show ?thesis by auto
qed

lemma startDirect_log:
  assumes "startDirect os early req d f t md w = (r, w')"
  shows "\<exists>r1. traced_start os early req t (d_reason d) f w = (r1, w') \<and> isl r = isl r1 \<and> (\<forall>cr. r = Inr cr \<longrightarrow> ck_handle cr \<noteq> None)"
  using assms by (auto simp: startDirect_def split: sum.splits prod.splits)

lemma StartFault_log:
  assumes "d_fault d = Some f" and "fault_Validate f = None"
    and "StartFault i os early req (Some d) w = (r, w')" and "r \<noteq> Inr empty_result"
  shows "w_log w' = w_log w @ fault_ops req d f (w_spans w) @ (case r of Inl e \<Rightarrow> [SpanEndError (w_spans w)] | Inr cr \<Rightarrow> [])"
    and "r = Inr cr \<Longrightarrow> ck_handle cr \<noteq> None"
proof -
  let ?md = "if \<not> isInlineFault f then Background else d_mode d"
  have "StartFault i os early req (Some d) w =
      (if it_registry i \<and> \<not> isInlineFault f then startRegistered os early req d f (fault_type f) ?md w
       else startDirect os early req d f (fault_type f) ?md w)"
    using assms(1,2) by (simp add: StartFault_def)
  with assms(3) have "startRegistered os early req d f (fault_type f) ?md w = (r, w') \<or>
      startDirect os early req d f (fault_type f) ?md w = (r, w')" by (metis (full_types))
  then obtain r1 w1 where T: "traced_start os early req (fault_type f) (d_reason d) f w = (r1, w1)" "w_log w' = w_log w1"
    "isl r = isl r1" "\<forall>cr. r = Inr cr \<longrightarrow> ck_handle cr \<noteq> None"
    using startRegistered_log [OF _ assms(4)] startDirect_log by (metis (no_types, lifting))
  then show "w_log w' = w_log w @ fault_ops req d f (w_spans w) @ (case r of Inl e \<Rightarrow> [SpanEndError (w_spans w)] | Inr cr \<Rightarrow> [])"
    using traced_start_ops [OF T(1)] by (cases r; cases r1) auto
  from T(4) show "r = Inr cr \<Longrightarrow> ck_handle cr \<noteq> None" by simp
qed

lemma Send_after_StartFault:
  assumes "d_fault d = Some f" and "fault_Validate f = None"
    and "StartFault i os early req (Some d) w = (Inr cr, w')" and "ck_handle cr = Some h"
  shows "w_log (Send h w') = w_log w' @ (if early \<or> it_registry i \<and> \<not> isInlineFault f then [] else [SpanResult (w_spans w)])"
proof (cases "it_registry i \<and> \<not> isInlineFault f")
  case True
  with assms have "startRegistered os early req d f (fault_type f) Background w = (Inr cr, w')" by (simp add: StartFault_def)
  note H = startRegistered_handles [OF this assms(4)]
  show ?thesis using True H(1,2) by (simp add: Send_def fire_def)
next
  case False
  with assms obtain md where "startDirect os early req d f (fault_type f) md w = (Inr cr, w')"
    by (auto simp: StartFault_def Let_def)
  note H = startDirect_handles [OF this assms(4)]
  show ?thesis using False H(1,2) by (auto simp: Send_def fire_def)
qed

lemma Send_before_callback:
  assumes "reg_enter key policy (traced_start os False req (fault_type f) (d_reason d) f) w = (Inr (Some (h, cb)), w1)"
  shows "w_log (SetOnResult h cb (Send h w1)) = w_log w @ fault_ops req d f (w_spans w) @ [SpanResult (w_spans w)]"
proof -
  let ?start = "traced_start os False req (fault_type f) (d_reason d) f"
  from reg_enter_log [OF assms] obtain r2 w2 where r2: "?start w = (r2, w2)" "\<not> isl r2" and log: "w_log w1 = w_log w2"
    by auto
  then obtain h' where start: "?start w = (Inr h', w2)" by (cases r2) auto
  note T = traced_start_Inr [OF start]
  from reg_enter_Some [OF start assms] T(1,3) have "h = length (w_handles w)" "hc_cb (w_handles w1 ! h) = Some (RecordSpan (w_spans w))"
    "\<not> hc_sent (w_handles w1 ! h)" "h < length (w_handles w1)"
    by (auto simp: update_handle_nth nth_append)
  then show ?thesis using log traced_start_ops [OF start] by (simp add: SetOnResult_def Send_def fire_def)
qed

section \<open>Properties\<close>

text \<open>
  C40. The life of the span of a fault that \<open>StartFault\<close> tries to start, as OpenTelemetry sees it up to the delivery of
  the result. The span is started with the type, the point and the reason of the fault and all calls are for it. It is
  ended once, by its last call, when the fault cannot start or when it runs outside the registry and its result arrives
  after its callback. It is never ended when the result comes before the callback, and never for a fault of the registry
  whose own callback has replaced the one of the span when the result arrives; only a result between the two
  registrations of a callback ends the span of such a fault.
\<close>

theorem fault_span_ended:
  fixes res :: "nat \<Rightarrow> span_result" and err :: "nat \<Rightarrow> string"
  assumes "d_fault d = Some f" and "fault_Validate f = None"
    and "StartFault i os early req (Some d) w = (r, w')" and "r \<noteq> Inr empty_result"
  defines "life ended ops \<equiv> span_life (w_spans w) (fault_attrs (fault_type f) (er_point req) (d_reason d)) ended
     (otel.trace res err (drop (length (w_log w)) ops))"
  shows "life (\<not> (\<exists>cr. r = Inr cr) \<or> \<not> early \<and> \<not> (it_registry i \<and> \<not> isInlineFault f))
       (w_log (case r of Inl e \<Rightarrow> w' | Inr cr \<Rightarrow> Send (the (ck_handle cr)) w')) \<and>
     (\<forall>h cb w1. reg_enter (rule_key d f) (d_policy d) (traced_start os False req (fault_type f) (d_reason d) f) w =
         (Inr (Some (h, cb)), w1) \<longrightarrow> life True (w_log (SetOnResult h cb (Send h w1))))"
proof (intro conjI allI impI)
  let ?s = "w_spans w"
  note L = StartFault_log [OF assms(1-4)]
  let ?tail = "case r of Inl e \<Rightarrow> [SpanEndError ?s]
     | Inr cr \<Rightarrow> if early \<or> it_registry i \<and> \<not> isInlineFault f then [] else [SpanResult ?s]"
  have log: "w_log (case r of Inl e \<Rightarrow> w' | Inr cr \<Rightarrow> Send (the (ck_handle cr)) w') = w_log w @ fault_ops req d f ?s @ ?tail"
  proof (cases r)
    case (Inr cr)
    with L(2) obtain h where h: "ck_handle cr = Some h" by auto
    from Send_after_StartFault [OF assms(1,2) assms(3) [unfolded Inr] h] L(1) Inr h show ?thesis by simp
  qed (simp add: L(1))
  have "?tail \<noteq> [] \<longleftrightarrow> \<not> (\<exists>cr. r = Inr cr) \<or> \<not> early \<and> \<not> (it_registry i \<and> \<not> isInlineFault f)"
    by (cases r) simp_all
  with fault_ops_life [where tail = ?tail and s = ?s and req = req and d = d and f = f and res = res and err = err]
  show "life (\<not> (\<exists>cr. r = Inr cr) \<or> \<not> early \<and> \<not> (it_registry i \<and> \<not> isInlineFault f))
       (w_log (case r of Inl e \<Rightarrow> w' | Inr cr \<Rightarrow> Send (the (ck_handle cr)) w'))"
    unfolding log life_def by (simp split: sum.split)
next
  fix h cb w1
  assume "reg_enter (rule_key d f) (d_policy d) (traced_start os False req (fault_type f) (d_reason d) f) w = (Inr (Some (h, cb)), w1)"
  from Send_before_callback [OF this] show "life True (w_log (SetOnResult h cb (Send h w1)))"
    unfolding life_def
    using fault_ops_life [where tail = "[SpanResult (w_spans w)]" and s = "w_spans w" and req = req and d = d and f = f
        and res = res and err = err] by simp
qed

theorem fault_span_ended_witness:
  "\<exists>cr w'. StartFault full_interceptor (\<lambda>_. None) False sample_request (Some cpu_rule) NewFaultRegistry = (Inr cr, w') \<and>
     filter call_ends (otel.trace (\<lambda>_. (5, ''5ns'', None, None)) (\<lambda>_. []) (w_log (Send (the (ck_handle cr)) w'))) = [] \<and>
   (\<exists>cr w'. StartFault (full_interceptor\<lparr>it_registry := False\<rparr>) (\<lambda>_. None) False sample_request (Some cpu_rule) NewFaultRegistry = (Inr cr, w') \<and>
     last (otel.trace (\<lambda>_. (5, ''5ns'', None, None)) (\<lambda>_. []) (w_log (Send (the (ck_handle cr)) w'))) = OtelCall 0 OtelEnd)"
proof -
  let ?f = "NewCPUStressFault 1000 (Fin (1/2))" and ?start = "\<lambda>i. StartFault i (\<lambda>_. None) False sample_request (Some cpu_rule) NewFaultRegistry"
  obtain cr w' where r: "?start full_interceptor = (Inr cr, w')" "(Inr cr :: check_error + check_result) \<noteq> Inr empty_result"
    by (simp add: sample_defs Let_def)
  obtain cr2 w2 where r2: "?start (full_interceptor\<lparr>it_registry := False\<rparr>) = (Inr cr2, w2)" "(Inr cr2 :: check_error + check_result) \<noteq> Inr empty_result"
    by (simp add: sample_defs Let_def)
  have e: "w_log NewFaultRegistry = []" "w_spans NewFaultRegistry = 0" by (simp_all add: NewFaultRegistry_def)
  have d: "d_fault cpu_rule = Some ?f" "fault_Validate ?f = None" "it_registry full_interceptor" "\<not> isInlineFault ?f"
    by (simp_all add: sample_defs)
  from fault_span_ended [OF d(1,2) r, where res = "\<lambda>_. (5, ''5ns'', None, None)" and err = "\<lambda>_. []"]
    fault_span_ended [OF d(1,2) r2, where res = "\<lambda>_. (5, ''5ns'', None, None)" and err = "\<lambda>_. []"] r r2 d(3,4)
  show ?thesis by (simp add: e span_life_def)
qed

text \<open>
  Whatever back end traces, of those in the code: an operation log with one ending operation for a span ends it at most once.
  The tracer that does nothing never calls anything.
\<close>

lemma backends_end_once:
  "length (filter call_ends (otel.trace res err ops)) \<le> length (filter op_ends ops) \<and> noop.trace ops = []"
  using otel.trace_ends [where res = res and err = err and ops = ops] by (simp add: noop.trace_def noop_calls_def)

end
