(* ===== verification/Health_Wire.thy ===== *)
theory Health_Wire
  imports Manteion_Client Cache_Wire
begin

text \<open>
  What the client says on the wire: the body of a registration (\<open>RegisterRequest\<close> and \<open>registerWith\<close> of \<open>register.go\<close>,
  \<open>register\<close> of \<open>manteion_client.go\<close>) and the answer of the health endpoint (\<open>HealthHandler\<close> of \<open>health.go\<close>), with the
  tags of their structs.
\<close>

section \<open>Encoding\<close>

record register_body =
  rb_id :: string
  rb_service :: string
  rb_version :: string
  rb_address :: string

definition client_body :: "manteion_config \<Rightarrow> register_body" where
  "client_body cfg = \<lparr>rb_id = mf_instanceID cfg, rb_service = mf_serviceName cfg, rb_version = mf_serviceVersion cfg,
     rb_address = mf_address cfg\<rparr>"

definition register_json :: "register_body \<Rightarrow> json" where
  "register_json b = JObj ([(''id'', json_string (rb_id b)), (''service'', json_string (rb_service b))] @
     (if rb_version b = [] then [] else [(''version'', json_string (rb_version b))]) @ [(''address'', json_string (rb_address b))])"

text \<open>\<open>Duration.String\<close> of whole seconds.\<close>

definition seconds_text :: "int \<Rightarrow> string" where
  "seconds_text s =
     (let n = nat \<bar>s\<bar>; h = n div 3600; m = n div 60 mod 60
      in (if s < 0 then ''-'' else []) @
         (if 0 < h then format_dec h @ ''h'' @ format_dec m @ ''m'' else if 0 < m then format_dec m @ ''m'' else []) @
         format_dec (n mod 60) @ ''s'')"

text \<open>
  \<open>omitempty\<close> leaves out empty strings, but never a struct: the time of the last poll is always there. The zero time is in
  UTC, the others in the local zone.
\<close>

definition health_json :: "(int \<Rightarrow> int) \<Rightarrow> health_status \<Rightarrow> json option" where
  "health_json zone h =
     map_option (\<lambda>ts. JObj
       ([(''status'', json_string (hs_status h)), (''rule_version'', JNum (format_dec (hs_version h))),
         (''rule_count'', JNum (format_int (hs_count h)))] @
        (if hs_url h = [] then [] else [(''manteion_url'', json_string (hs_url h))]) @
        [(''last_successful_poll_at'', JStr ts)] @
        (case hs_stale h of None \<Rightarrow> [] | Some s \<Rightarrow> [(''stale_for'', JStr (seconds_text s))])))
     (case hs_lastPoll h of None \<Rightarrow> marshal_time 0 zero_time | Some t \<Rightarrow> marshal_time (zone t) t)"

definition HealthHandler :: "(int \<Rightarrow> int) \<Rightarrow> int \<Rightarrow> client option \<Rightarrow> int \<times> json option" where
  "HealthHandler zone now c = (HealthHandler_code now c, health_json zone (healthFrom now c))"

section \<open>Instants that can be written\<close>

lemma civil_year: "civil d = (y, m, day) \<Longrightarrow> y < 400 * (d div 146097 + 1)"
proof -
  assume c: "civil d = (y, m, day)"
  obtain yi n where yi: "locate year_lengths (d mod 146097) = (yi, n)" by fastforce
  with locate_exact [OF this] have "yi < 400" by (simp add: year_lengths_sum)
  with c yi show ?thesis by (auto simp: civil_def Let_def split: prod.splits)
qed

text \<open>An instant counted in nanoseconds lies between the years 1677 and 2262.\<close>

lemma marshal_time_i64:
  assumes "i64 t" and "\<bar>z\<bar> < 1440" shows "\<exists>ts. marshal_time z t = Some ts"
proof -
  let ?d = "(t + z * 60 * Second) div Second div 86400 + int unix_day"
  obtain y m day where c: "civil (nat ?d) = (y, m, day)" by (metis surj_pair)
  have t: "- (2 ^ 63) \<le> t" "t < 2 ^ 63" "- 1440 \<le> z" "z \<le> 1440" using assms by (auto simp: i64_def)
  have "- 106753 \<le> (t + z * 60 * Second) div Second div 86400" "(t + z * 60 * Second) div Second div 86400 \<le> 106753"
    using t by (simp_all add: Second_def)
  then have d: "0 \<le> ?d" "nat ?d \<le> 826281" by (simp_all add: unix_day_def)
  then have "nat ?d div 146097 \<le> 826281 div 146097" by (intro div_le_mono)
  then have "y < 2400" using civil_year [OF c] by simp
  with d(1) c show ?thesis by (simp add: marshal_time_def Let_def)
qed

lemma year_lengths_head: "\<exists>rest. year_lengths = 366 # 365 # rest"
proof -
  have "[0..<400] = 0 # 1 # [2..<400]" by (simp add: upt_conv_Cons numeral_2_eq_2)
  then have "year_lengths = 366 # 365 # map (\<lambda>y. sum_list (month_lengths y)) [2..<400]"
    unfolding year_lengths_def by (simp only: list.map year_length is_leap_def) simp
  then show ?thesis by blast
qed

lemma zero_time_text: "marshal_time 0 zero_time = Some ''0001-01-01T00:00:00Z''"
proof -
  obtain rest where yl: "year_lengths = 366 # 365 # rest" using year_lengths_head by blast
  have d: "days_of 1 1 1 = 366" by (simp add: days_of_def yl)
  have c: "civil 366 = (1, 1, 1)" by (simp add: civil_def yl month_lengths_def)
  have z: "zero_time = - 719162 * 86400 * Second" unfolding zero_time_def d by (simp add: unix_day_def)
  have n: "4 = Suc (Suc (Suc (Suc 0)))" "2 = Suc (Suc 0)" by simp_all
  have dc: "digit_char 0 = CHR ''0''" "digit_char 1 = CHR ''1''" by (simp_all add: digit_char_def char_of_def bit_0)
  have q: "(1::nat) div 10 = 0" "(0::nat) div 10 = 0" by simp_all
  have p: "pad 4 1 = ''0001''" "pad 2 1 = ''01''" "pad 2 0 = ''00''"
    unfolding n pad.simps q dc by simp_all
  have "(0::int) mod Second = 0" "(- 719162 * 86400 * Second + 0 * 60 * Second) mod Second = 0"
    "(- 719162 * 86400 * Second + 0 * 60 * Second) div Second = - 719162 * 86400" by (simp_all add: Second_def)
  then show ?thesis by (simp add: marshal_time_def z unix_day_def c zone_text_def p [simplified] Let_def)
qed

section \<open>Field names\<close>

lemma health_names:
  "fold_name ''status'' = ''STATUS''" "fold_name ''rule_version'' = ''RULE_VERSION''" "fold_name ''rule_count'' = ''RULE_COUNT''"
  "fold_name ''manteion_url'' = ''MANTEION_URL''" "fold_name ''last_successful_poll_at'' = ''LAST_SUCCESSFUL_POLL_AT''"
  "fold_name ''stale_for'' = ''STALE_FOR''" "fold_name ''id'' = ''ID''" "fold_name ''service'' = ''SERVICE''"
  "fold_name ''version'' = ''VERSION''" "fold_name ''address'' = ''ADDRESS''"
  by (simp_all add: to_upper_def less_eq_char_def char_of_def bit_0)

lemma str_field_one:
  "field_values doc name = Some [JStr s] \<Longrightarrow> str_field name doc = Some s"
  "field_values doc name = Some [] \<Longrightarrow> str_field name doc = Some []"
  by (simp_all add: str_field_def json_field_def str_conv_def)

section \<open>Properties\<close>

text \<open>
  The registration on the wire is what the configuration says: a reader gets the four strings, with the bytes that are no UTF-8
  replaced, and an empty version for one that is left out.
\<close>

theorem register_body_reads_back:
  assumes "doc = register_json (client_body cfg)"
  shows "str_field ''id'' doc = Some (coerce_utf8 (mf_instanceID cfg)) \<and> str_field ''service'' doc = Some (coerce_utf8 (mf_serviceName cfg)) \<and>
     str_field ''version'' doc = Some (coerce_utf8 (mf_serviceVersion cfg)) \<and> str_field ''address'' doc = Some (coerce_utf8 (mf_address cfg))"
proof -
  have c: "coerce_utf8 [] = []" by (subst coerce_utf8.simps) simp
  have "field_values doc ''id'' = Some [JStr (coerce_utf8 (mf_instanceID cfg))]"
    "field_values doc ''service'' = Some [JStr (coerce_utf8 (mf_serviceName cfg))]"
    "field_values doc ''version'' = Some (if mf_serviceVersion cfg = [] then [] else [JStr (coerce_utf8 (mf_serviceVersion cfg))])"
    "field_values doc ''address'' = Some [JStr (coerce_utf8 (mf_address cfg))]"
    by (simp_all add: assms register_json_def client_body_def field_values_def health_names json_string_def del: fold_name.simps)
  with c show ?thesis by (cases "mf_serviceVersion cfg = []") (simp_all add: str_field_one)
qed

theorem register_body_reads_back_witness:
  "str_field ''version'' (register_json (client_body shop_config)) = Some []"
  using register_body_reads_back [OF refl, of shop_config] coerce_valid [of "[]"] valid_utf8_ascii [of "[]"] by (simp add: shop_config_def)

text \<open>
  The health endpoint answers 503 exactly when the status is disconnected, and its answer always has the time of the last poll,
  also when there was none: then it is the start of the year 1. A reader gets that time back. The age is there exactly
  while the client is degraded after a poll.
\<close>

theorem health_answer:
  assumes "\<And>t. \<bar>zone t\<bar> < 1440" and "\<And>cl. c = Some cl \<Longrightarrow> i64 (cl_lastPoll cl)"
  shows "let h = healthFrom now c in
     \<exists>ms. HealthHandler zone now c = (if hs_status h = ''disconnected'' then 503 else 200, Some (JObj ms)) \<and>
       (hs_lastPoll h = None \<longrightarrow> map_of ms ''last_successful_poll_at'' = Some (JStr ''0001-01-01T00:00:00Z'')) \<and>
       json_field time_conv zero_time ''last_successful_poll_at'' (JObj ms) =
         Some (case hs_lastPoll h of None \<Rightarrow> zero_time | Some t \<Rightarrow> t) \<and>
       (''stale_for'' \<in> fst ` set ms \<longleftrightarrow> (\<exists>cl. c = Some cl \<and> cl_status cl = ManteionDegraded \<and> cl_lastPoll cl \<noteq> 0))"
proof -
  let ?h = "healthFrom now c"
  define t z where "t = (case hs_lastPoll ?h of None \<Rightarrow> zero_time | Some t \<Rightarrow> t)"
    and "z = (case hs_lastPoll ?h of None \<Rightarrow> 0 | Some t \<Rightarrow> zone t)"
  have m: "(case hs_lastPoll ?h of None \<Rightarrow> marshal_time 0 zero_time | Some t \<Rightarrow> marshal_time (zone t) t) = marshal_time z t"
    by (simp add: t_def z_def split: option.splits)
  have zb: "\<bar>z\<bar> < 1440" using assms(1) by (simp add: z_def split: option.splits)
  obtain ts where ts: "marshal_time z t = Some ts"
  proof (cases "hs_lastPoll ?h")
    case (Some t')
    then have "i64 t'" using assms(2) by (auto simp: healthFrom_def split: option.splits if_splits)
    with marshal_time_i64 [OF this assms(1) [of t']] Some that show ?thesis by (auto simp: t_def z_def)
  qed (use zero_time_text that in \<open>auto simp: t_def z_def\<close>)
  let ?st = "case hs_stale ?h of None \<Rightarrow> [] | Some s \<Rightarrow> [(''stale_for'', JStr (seconds_text s))]"
  let ?url = "if hs_url ?h = [] then [] else [(''manteion_url'', json_string (hs_url ?h))]"
  define ms where "ms = [(''status'', json_string (hs_status ?h)), (''rule_version'', JNum (format_dec (hs_version ?h))),
    (''rule_count'', JNum (format_int (hs_count ?h)))] @ ?url @ [(''last_successful_poll_at'', JStr ts)] @ ?st"
  have doc: "health_json zone ?h = Some (JObj ms)" by (simp add: health_json_def m ts ms_def)
  have url: "map_of ?url ''last_successful_poll_at'' = None" by simp
  have last: "map_of ms ''last_successful_poll_at'' = Some (JStr ts)"
    using url by (simp add: ms_def map_add_def)
  have field: "field_values (JObj ms) ''last_successful_poll_at'' = Some [JStr ts]"
    by (simp add: ms_def field_values_def health_names del: fold_name.simps split: option.split)
  have "unmarshal_time ts = Some t" by (rule time_round_trip [OF zb ts])
  with field have read: "json_field time_conv zero_time ''last_successful_poll_at'' (JObj ms) = Some t"
    by (simp add: json_field_def time_conv_def)
  have zero: "hs_lastPoll ?h = None \<Longrightarrow> ts = ''0001-01-01T00:00:00Z''" using ts zero_time_text by (simp add: t_def z_def)
  have stale: "''stale_for'' \<in> fst ` set ms \<longleftrightarrow> hs_stale ?h \<noteq> None"
    by (cases "hs_stale ?h") (simp_all add: ms_def)
  have "hs_stale ?h \<noteq> None \<longleftrightarrow> (\<exists>cl. c = Some cl \<and> cl_status cl = ManteionDegraded \<and> cl_lastPoll cl \<noteq> 0)"
    by (auto simp: healthFrom_def split: option.splits)
  with doc last read zero stale show ?thesis
    by (simp add: HealthHandler_def HealthHandler_code_def Let_def t_def [symmetric])
qed

theorem health_answer_witness:
  "\<exists>ms. HealthHandler (\<lambda>_. 0) 9 None = (200, Some (JObj ms)) \<and>
     map_of ms ''last_successful_poll_at'' = Some (JStr ''0001-01-01T00:00:00Z'')"
  using health_answer [of "\<lambda>_. 0" None 9] by (auto simp: healthFrom_def Let_def)

end
