(* ===== verification/Fault_Clock.thy ===== *)
theory Fault_Clock
  imports Resource_Stress
begin

text \<open>
  What the running faults share: the clock with the contexts that end them (the caller's, and the one with the timeout
  that \<open>Start\<close> derives from it), runs of a system of goroutines over labels, and the contract of a fault that
  winds down once its context is done.
\<close>

section \<open>The clock and the contexts\<close>

record fault_clock =
  ck_now :: int
  ck_parent :: "ctx_error option"
  ck_ctx :: "ctx_error option"
  ck_deadline :: int

text \<open>Time passes, \<open>Stop\<close> is called, the deadline fires, the caller's context ends.\<close>

datatype clock_act = Passes int | StopCalled | DeadlineFires | CallerEnds ctx_error

text \<open>The first error of a context stays.\<close>

definition ctx_ends :: "ctx_error \<Rightarrow> fault_clock \<Rightarrow> fault_clock" where
  "ctx_ends e k = (case ck_ctx k of None \<Rightarrow> k\<lparr>ck_ctx := Some e\<rparr> | Some _ \<Rightarrow> k)"

fun clock_step :: "clock_act \<Rightarrow> fault_clock \<Rightarrow> fault_clock option" where
  "clock_step (Passes d) k = (if 0 \<le> d then Some (k\<lparr>ck_now := ck_now k + d\<rparr>) else None)"
| "clock_step StopCalled k = Some (ctx_ends Canceled k)"
| "clock_step DeadlineFires k = (if ck_deadline k \<le> ck_now k then Some (ctx_ends DeadlineExceeded k) else None)"
| "clock_step (CallerEnds e) k =
     (if ck_parent k = None then Some (ctx_ends e (k\<lparr>ck_parent := Some e\<rparr>)) else None)"

definition clock_begin :: "int \<Rightarrow> int \<Rightarrow> fault_clock" where
  "clock_begin start deadline = \<lparr>ck_now = start, ck_parent = None, ck_ctx = None, ck_deadline = deadline\<rparr>"

lemma ctx_ends_simps [simp]:
  "ck_now (ctx_ends e k) = ck_now k" "ck_parent (ctx_ends e k) = ck_parent k"
  "ck_deadline (ctx_ends e k) = ck_deadline k" "ck_ctx (ctx_ends e k) \<noteq> None"
  "ck_ctx k \<noteq> None \<Longrightarrow> ctx_ends e k = k"
  by (auto simp: ctx_ends_def split: option.splits)

lemma clock_step_now: "clock_step a k = Some k' \<Longrightarrow> ck_now k \<le> ck_now k'"
  by (cases a) (auto split: if_splits)

lemma clock_step_ctx: "clock_step a k = Some k' \<Longrightarrow> ck_ctx k \<noteq> None \<Longrightarrow> ck_ctx k' = ck_ctx k"
  by (cases a) (auto split: if_splits)

text \<open>A timeout is reported only at the deadline, but for a caller whose own context timed out.\<close>

definition clock_ok :: "fault_clock \<Rightarrow> bool" where
  "clock_ok k \<longleftrightarrow>
     (ck_ctx k = None \<longrightarrow> ck_parent k = None) \<and>
     (ck_ctx k = Some DeadlineExceeded \<and> ck_parent k = None \<longrightarrow> ck_deadline k \<le> ck_now k)"

lemma clock_ok_begin [simp]: "clock_ok (clock_begin start deadline)"
  by (simp add: clock_ok_def clock_begin_def)

lemma clock_ok_ends [simp]: "clock_ok k \<Longrightarrow> clock_ok (ctx_ends Canceled k)"
  by (auto simp: clock_ok_def ctx_ends_def split: option.splits)

lemma clock_ok_step: "clock_step a k = Some k' \<Longrightarrow> clock_ok k \<Longrightarrow> clock_ok k'"
  by (cases a) (auto simp: clock_ok_def ctx_ends_def split: if_splits option.splits)

text \<open>
  What holds of a result once the context is done, and goes on to hold: a fault that its own deadline ended has lasted
  till then, and an error is that of the caller's context, with the fault's own cancelled.
\<close>

definition late_by :: "fault_clock \<Rightarrow> int \<Rightarrow> int \<Rightarrow> bool" where
  "late_by k start elapsed \<longleftrightarrow>
     (ck_ctx k = Some DeadlineExceeded \<and> ck_parent k = None \<longrightarrow> ck_deadline k \<le> start + elapsed)"

definition outside_err :: "fault_clock \<Rightarrow> ctx_error option \<Rightarrow> bool" where
  "outside_err k err \<longleftrightarrow> err = None \<or> err = ck_parent k \<and> ck_ctx k = Some Canceled"

lemma late_by_now: "clock_ok k \<Longrightarrow> late_by k start (ck_now k - start)"
  by (simp add: clock_ok_def late_by_def)

lemma outside_err_stress [simp]: "ck_ctx k = x \<Longrightarrow> outside_err k (stress_err (ck_parent k) x)"
  by (simp add: outside_err_def stress_err_def)

lemma late_by_step: "clock_step a k = Some k' \<Longrightarrow> ck_ctx k \<noteq> None \<Longrightarrow> late_by k start e \<Longrightarrow> late_by k' start e"
  by (cases a) (auto simp: late_by_def split: if_splits)

lemma outside_err_step: "clock_step a k = Some k' \<Longrightarrow> ck_ctx k \<noteq> None \<Longrightarrow> outside_err k err \<Longrightarrow> outside_err k' err"
  by (cases a) (auto simp: outside_err_def split: if_splits)

section \<open>Runs\<close>

primrec run_of :: "('a \<Rightarrow> 's \<Rightarrow> 's option) \<Rightarrow> 'a list \<Rightarrow> 's \<Rightarrow> 's option" where
  "run_of step [] s = Some s"
| "run_of step (a # acts) s = (case step a s of None \<Rightarrow> None | Some s' \<Rightarrow> run_of step acts s')"

lemma run_of_append:
  "run_of step (acts @ acts') s = (case run_of step acts s of None \<Rightarrow> None | Some s' \<Rightarrow> run_of step acts' s')"
  by (induction acts arbitrary: s) (auto split: option.split)

lemma run_of_invariant:
  assumes "\<And>s a s'. step a s = Some s' \<Longrightarrow> Q s \<Longrightarrow> P a \<Longrightarrow> Q s'"
  shows "run_of step acts s = Some s' \<Longrightarrow> Q s \<Longrightarrow> list_all P acts \<Longrightarrow> Q s'"
proof (induction acts arbitrary: s)
  case (Cons a acts)
  then show ?case using assms by (auto split: option.splits)
qed simp

lemma run_of_keeps:
  assumes "\<And>s a s'. step a s = Some s' \<Longrightarrow> Q s \<Longrightarrow> Q s'" and "run_of step acts s = Some s'" and "Q s"
  shows "Q s'"
  using run_of_invariant [of step Q "\<lambda>_. True", OF _ assms(2,3)] assms(1) by (simp add: list_all_iff)

text \<open>
  The contract of a fault that winds down: once its context is done it stays done, every move of a goroutine
  makes the remaining work smaller, nothing else makes it larger, and until all is over some goroutine can move.
\<close>

locale winding_down =
  fixes step :: "'a \<Rightarrow> 's \<Rightarrow> 's option"
    and good :: "'s \<Rightarrow> bool"
    and own :: "'a \<Rightarrow> bool"
    and work :: "'s \<Rightarrow> nat"
    and finished :: "'s \<Rightarrow> bool"
  assumes good_step: "step a s = Some s' \<Longrightarrow> good s \<Longrightarrow> good s'"
    and own_step: "step a s = Some s' \<Longrightarrow> good s \<Longrightarrow> own a \<Longrightarrow> work s' < work s"
    and other_step: "step a s = Some s' \<Longrightarrow> good s \<Longrightarrow> \<not> own a \<Longrightarrow> work s' \<le> work s"
    and enabled: "good s \<Longrightarrow> \<not> finished s \<Longrightarrow> \<exists>a. own a \<and> step a s \<noteq> None"
begin

lemma good_run: "run_of step acts s = Some s' \<Longrightarrow> good s \<Longrightarrow> good s'"
  by (rule run_of_keeps [where step = step]) (rule good_step)

lemma moves_bounded: "run_of step acts s = Some s' \<Longrightarrow> good s \<Longrightarrow> length (filter own acts) + work s' \<le> work s"
proof (induction acts arbitrary: s)
  case (Cons a acts)
  then obtain t where t: "step a s = Some t" "run_of step acts t = Some s'" by (auto split: option.splits)
  with Cons.IH [OF t(2) good_step [OF t(1) Cons.prems(2)]] own_step [OF t(1) Cons.prems(2)] other_step [OF t(1) Cons.prems(2)]
  show ?case by (cases "own a") auto
qed simp

lemma ends_by_itself:
  assumes "run_of step acts s = Some s'" and "good s"
  shows "length (filter own acts) \<le> work s" and "finished s' \<or> (\<exists>a. own a \<and> step a s' \<noteq> None)"
  using moves_bounded [OF assms] enabled [OF good_run [OF assms]] by auto

text \<open>So the moves of its goroutines alone end it.\<close>

lemma can_finish: "good s \<Longrightarrow> \<exists>acts s'. list_all own acts \<and> run_of step acts s = Some s' \<and> finished s'"
proof (induction "work s" arbitrary: s rule: less_induct)
  case less
  show ?case
  proof (cases "finished s")
    case True
    then show ?thesis by (intro exI [of _ "[]"]) simp
  next
    case False
    then obtain a t where a: "own a" "step a s = Some t" using enabled [OF less.prems] by auto
    from less.hyps [OF own_step [OF a(2) less.prems a(1)] good_step [OF a(2) less.prems]]
    obtain acts s' where "list_all own acts" "run_of step acts t = Some s'" "finished s'" by blast
    with a show ?thesis by (intro exI [of _ "a # acts"]) auto
  qed
qed

end

end
