(* ===== verification/Memory_Lifecycle.thy ===== *)
theory Memory_Lifecycle
  imports Fault_Clock Memory_Stress
begin

text \<open>
  The goroutines of a running memory fault (\<open>internal/fault/resource/memory/stress.go\<close>): its own, which
  allocates, holds and releases the chunks, and the workers that thrash. They share one array of chunks: the workers
  read its slots and write into the chunks while the ramp-down clears the slots. Reads and writes of a slot are single
  steps here. A chunk is a buffer of an explicit store, so that one that was released but is still being walked can be
  told from one that nobody holds.
\<close>

section \<open>The state\<close>

text \<open>
  Where the goroutine of the fault is: at the head of the allocation loop, in the timer before an allocation, at the
  allocation; in the hold; before the ramp-down, at the head of its loop with the interval, between the two statements
  that release a chunk, in its timer; at the label \<open>cleanup\<close>, waiting for the workers; at the label
  \<open>done\<close>, with the result, and in its deferred call.
\<close>

datatype memory_pc =
    AllocTop nat | AllocWait nat | Allocating nat | HoldWait
  | ReleaseStart | ReleaseTop int | Shrinking int | ReleaseWait int
  | Cleanup | JoinThrash | Dropping | ResultReady int | CancelLast | MemoryOver

text \<open>
  A worker knows the length \<open>n\<close> of the slice as it was when it started, the index of its chunk, and in a
  pass the buffer, the offset and, between the load and the store of a byte, the byte.
\<close>

datatype thrash_pc =
    Unstarted nat | ThrashTop nat nat | Looking nat nat | Striding nat nat nat nat | Storing nat nat nat nat "8 word" | Gone

record memory_state =
  me_clock :: fault_clock
  me_heap :: "8 word list list"
  me_slots :: "nat option list"
  me_len :: nat
  me_peak :: "64 word"
  me_until :: int
  me_main :: memory_pc
  me_workers :: "thrash_pc list"
  me_sent :: "(int \<times> memory_detail \<times> ctx_error option) option"

record memory_code =
  my_config :: memory_config
  my_plan :: memory_plan
  my_start :: int

abbreviation my_base :: "memory_code \<Rightarrow> fault_config" where "my_base c \<equiv> mc_base (my_config c)"
abbreviation my_chunk :: "memory_code \<Rightarrow> nat" where "my_chunk c \<equiv> nat (mp_chunkSize (my_plan c))"
abbreviation my_chunks :: "memory_code \<Rightarrow> nat" where "my_chunks c \<equiv> nat (mp_numChunks (my_plan c))"

definition memory_begin :: "memory_code \<Rightarrow> int \<Rightarrow> memory_state" where
  "memory_begin c deadline =
     \<lparr>me_clock = clock_begin (my_start c) deadline, me_heap = [], me_slots = [], me_len = 0, me_peak = 0,
      me_until = my_start c, me_main = AllocTop 0, me_workers = [], me_sent = None\<rparr>"

section \<open>The goroutines\<close>

text \<open>A select of a timer and the context; \<open>fired\<close> says which of the two is taken.\<close>

definition timer_select :: "memory_state \<Rightarrow> bool \<Rightarrow> memory_pc \<Rightarrow> memory_pc \<Rightarrow> memory_state option" where
  "timer_select s fired next stopped =
     (if fired then (if me_until s \<le> ck_now (me_clock s) then Some (s\<lparr>me_main := next\<rparr>) else None)
      else if ck_ctx (me_clock s) \<noteq> None then Some (s\<lparr>me_main := stopped\<rparr>) else None)"

definition arm_timer :: "int \<Rightarrow> memory_pc \<Rightarrow> memory_state \<Rightarrow> memory_state" where
  "arm_timer d pc s = s\<lparr>me_until := ck_now (me_clock s) + d, me_main := pc\<rparr>"

text \<open>Phase 2: the workers start, where there are chunks to thrash, and the hold begins.\<close>

definition begin_hold :: "memory_code \<Rightarrow> memory_state \<Rightarrow> memory_state" where
  "begin_hold c s =
     (let s = s\<lparr>me_workers := (if mc_thrashing (my_config c) \<and> me_len s > 0
                               then map Unstarted [0..<nat (mp_thrashWorkers (my_plan c))] else [])\<rparr>;
          hold = hold_duration (my_base c)
      in if hold > 0 then arm_timer hold HoldWait s else s\<lparr>me_main := ReleaseStart\<rparr>)"

definition memory_main :: "memory_code \<Rightarrow> bool \<Rightarrow> memory_state \<Rightarrow> memory_state option" where
  "memory_main c fired s =
     (let over = ck_ctx (me_clock s) \<noteq> None; interval = alloc_interval (my_base c) (mp_numChunks (my_plan c))
      in case me_main s of
        AllocTop i \<Rightarrow>
          Some (if int i < mp_numChunks (my_plan c)
                then (if over then s\<lparr>me_main := Dropping\<rparr>
                      else if interval > 0 \<and> i > 0 then arm_timer interval (AllocWait i) s
                      else s\<lparr>me_main := Allocating i\<rparr>)
                else begin_hold c s)
      | AllocWait i \<Rightarrow> timer_select s fired (Allocating i) Dropping
      | Allocating i \<Rightarrow>
          Some (s\<lparr>me_heap := me_heap s @ [allocChunk (my_chunk c)], me_slots := me_slots s @ [Some (length (me_heap s))],
                  me_len := me_len s + 1, me_peak := me_peak s + word_of_int (mp_chunkSize (my_plan c)),
                  me_main := AllocTop (i + 1)\<rparr>)
      | HoldWait \<Rightarrow> timer_select s fired ReleaseStart ReleaseStart
      | ReleaseStart \<Rightarrow>
          Some (s\<lparr>me_main := (if fc_ramp_down (my_base c) > 0 \<and> me_len s > 0
                              then ReleaseTop (release_interval (my_base c) (me_len s)) else Cleanup)\<rparr>)
      | ReleaseTop iv \<Rightarrow>
          Some (if me_len s > 0 \<and> \<not> over
                then s\<lparr>me_slots := (me_slots s)[me_len s - 1 := None], me_main := Shrinking iv\<rparr>
                else s\<lparr>me_main := Cleanup\<rparr>)
      | Shrinking iv \<Rightarrow>
          (let s = s\<lparr>me_len := me_len s - 1\<rparr>
           in Some (if iv > 0 \<and> me_len s > 0 then arm_timer iv (ReleaseWait iv) s else s\<lparr>me_main := ReleaseTop iv\<rparr>))
      | ReleaseWait iv \<Rightarrow> timer_select s fired (ReleaseTop iv) Cleanup
      | Cleanup \<Rightarrow> Some (s\<lparr>me_clock := ctx_ends Canceled (me_clock s), me_main := JoinThrash\<rparr>)
      | JoinThrash \<Rightarrow> if list_all (\<lambda>pc. pc = Gone) (me_workers s) then Some (s\<lparr>me_main := Dropping\<rparr>) else None
      | Dropping \<Rightarrow>
          Some (s\<lparr>me_slots := replicate (me_len s) None @ drop (me_len s) (me_slots s), me_len := 0,
                  me_main := ResultReady (ck_now (me_clock s) - my_start c)\<rparr>)
      | ResultReady elapsed \<Rightarrow>
          Some (s\<lparr>me_sent := Some (elapsed,
                    \<lparr>md_available = mp_available (my_plan c), md_targetBytes = mp_targetBytes (my_plan c),
                     md_peak = me_peak s, md_chunks = mp_numChunks (my_plan c), md_thrashing = mc_thrashing (my_config c)\<rparr>,
                    stress_err (ck_parent (me_clock s)) (ck_ctx (me_clock s))),
                  me_main := CancelLast\<rparr>)
      | CancelLast \<Rightarrow> Some (s\<lparr>me_clock := ctx_ends Canceled (me_clock s), me_main := MemoryOver\<rparr>)
      | MemoryOver \<Rightarrow> None)"

text \<open>
  A worker. Its slice is the fault's own variable, read when the worker starts. The slot it looks at is one of the
  shared array; an index outside of it would be a panic, for which there is no move.
\<close>

definition thrash_move :: "memory_state \<Rightarrow> thrash_pc \<Rightarrow> (thrash_pc \<times> 8 word list list) option" where
  "thrash_move s pc =
     (case pc of
        Unstarted w \<Rightarrow> Some (if me_len s = 0 then Gone else ThrashTop (me_len s) (w mod me_len s), me_heap s)
      | ThrashTop n i \<Rightarrow> Some (if ck_ctx (me_clock s) \<noteq> None then Gone else Looking n i, me_heap s)
      | Looking n i \<Rightarrow>
          if i < n \<and> i < length (me_slots s)
          then Some (case me_slots s ! i of
                       None \<Rightarrow> ThrashTop n ((i + 1) mod n)
                     | Some b \<Rightarrow> Striding n i b 0, me_heap s)
          else None
      | Striding n i b off \<Rightarrow>
          Some (if off < length (me_heap s ! b) then Storing n i b off (xor (me_heap s ! b ! off) 0xAA)
                else ThrashTop n ((i + 1) mod n), me_heap s)
      | Storing n i b off v \<Rightarrow>
          if b < length (me_heap s) \<and> off < length (me_heap s ! b)
          then Some (Striding n i b (off + thrashStride), (me_heap s)[b := (me_heap s ! b)[off := v]])
          else None
      | Gone \<Rightarrow> None)"

datatype memory_act = MClock clock_act | MMain bool | MWorker nat

fun memory_step :: "memory_code \<Rightarrow> memory_act \<Rightarrow> memory_state \<Rightarrow> memory_state option" where
  "memory_step c (MClock a) s = map_option (\<lambda>k. s\<lparr>me_clock := k\<rparr>) (clock_step a (me_clock s))"
| "memory_step c (MMain fired) s = memory_main c fired s"
| "memory_step c (MWorker i) s =
     (if i < length (me_workers s)
      then map_option (\<lambda>(pc, heap). s\<lparr>me_workers := (me_workers s)[i := pc], me_heap := heap\<rparr>)
             (thrash_move s (me_workers s ! i))
      else None)"

abbreviation memory_steps :: "memory_code \<Rightarrow> memory_act list \<Rightarrow> memory_state \<Rightarrow> memory_state option" where
  "memory_steps c \<equiv> run_of (memory_step c)"

definition memory_own :: "memory_act \<Rightarrow> bool" where
  "memory_own a = (case a of MClock _ \<Rightarrow> False | _ \<Rightarrow> True)"

section \<open>What is held\<close>

text \<open>The buffers that are reachable: from the array, and from a worker in a pass.\<close>

definition slot_buffers :: "memory_state \<Rightarrow> nat set" where
  "slot_buffers s = {b. Some b \<in> set (me_slots s)}"

fun thrash_holds :: "thrash_pc \<Rightarrow> nat option" where
  "thrash_holds (Striding n i b off) = Some b"
| "thrash_holds (Storing n i b off v) = Some b"
| "thrash_holds _ = None"

definition worker_buffers :: "memory_state \<Rightarrow> nat set" where
  "worker_buffers s = {b. Some b \<in> thrash_holds ` set (me_workers s)}"

definition memory_held :: "memory_state \<Rightarrow> nat set" where
  "memory_held s = slot_buffers s \<union> worker_buffers s"

section \<open>The invariant\<close>

lemma length_allocChunk [simp]: "length (allocChunk n) = n"
  by (simp add: allocChunk_def)

fun alloc_phase :: "memory_pc \<Rightarrow> nat option" where
  "alloc_phase (AllocTop i) = Some i"
| "alloc_phase (AllocWait i) = Some i"
| "alloc_phase (Allocating i) = Some i"
| "alloc_phase _ = None"

definition released_phase :: "memory_pc \<Rightarrow> bool" where
  "released_phase pc = (case pc of ResultReady _ \<Rightarrow> True | CancelLast \<Rightarrow> True | MemoryOver \<Rightarrow> True | _ \<Rightarrow> False)"

text \<open>What a worker in its loop knows fits the array, and a pass stays inside of a buffer that exists.\<close>

definition thrash_ok :: "nat list \<Rightarrow> thrash_pc \<Rightarrow> bool" where
  "thrash_ok sizes pc =
     (case pc of
        ThrashTop n i \<Rightarrow> i < n \<and> n \<le> length sizes
      | Looking n i \<Rightarrow> i < n \<and> n \<le> length sizes
      | Striding n i b off \<Rightarrow> i < n \<and> n \<le> length sizes \<and> b < length sizes
      | Storing n i b off v \<Rightarrow> i < n \<and> n \<le> length sizes \<and> b < length sizes \<and> off < sizes ! b
      | _ \<Rightarrow> True)"

definition array_ok :: "memory_code \<Rightarrow> memory_state \<Rightarrow> bool" where
  "array_ok c s \<longleftrightarrow>
     length (me_slots s) = length (me_heap s) \<and> me_len s \<le> length (me_heap s) \<and> length (me_heap s) \<le> my_chunks c \<and>
     map length (me_heap s) = replicate (length (me_heap s)) (my_chunk c) \<and>
     (\<forall>j b. j < length (me_slots s) \<and> me_slots s ! j = Some b \<longrightarrow> b = j \<and> j < me_len s) \<and>
     me_peak s = of_nat (length (me_heap s)) * word_of_int (mp_chunkSize (my_plan c))"

definition thrash_all :: "memory_code \<Rightarrow> memory_state \<Rightarrow> bool" where
  "thrash_all c s \<longleftrightarrow>
     list_all (thrash_ok (map length (me_heap s))) (me_workers s) \<and> length (me_workers s) \<le> nat (mp_thrashWorkers (my_plan c))"

definition memory_phase_ok :: "memory_code \<Rightarrow> memory_state \<Rightarrow> bool" where
  "memory_phase_ok c s \<longleftrightarrow>
     (\<forall>i. alloc_phase (me_main s) = Some i \<longrightarrow> me_workers s = [] \<and> me_len s = i \<and> length (me_heap s) = i) \<and>
     (\<forall>i. me_main s = AllocWait i \<or> me_main s = Allocating i \<longrightarrow> i < my_chunks c) \<and>
     (\<forall>iv. me_main s = Shrinking iv \<longrightarrow> 0 < me_len s \<and> me_slots s ! (me_len s - 1) = None) \<and>
     (released_phase (me_main s) \<or> me_main s = Dropping \<longrightarrow> list_all (\<lambda>pc. pc = Gone) (me_workers s)) \<and>
     (released_phase (me_main s) \<longrightarrow> me_len s = 0) \<and>
     (me_sent s \<noteq> None \<longleftrightarrow> me_main s = CancelLast \<or> me_main s = MemoryOver)"

definition memory_inv :: "memory_code \<Rightarrow> memory_state \<Rightarrow> bool" where
  "memory_inv c s \<longleftrightarrow> clock_ok (me_clock s) \<and> array_ok c s \<and> thrash_all c s \<and> memory_phase_ok c s"

lemmas memory_inv_defs = memory_inv_def array_ok_def thrash_all_def memory_phase_ok_def

lemma array_ok_slot:
  "array_ok c s \<Longrightarrow> j < length (me_slots s) \<Longrightarrow> me_slots s ! j = Some b \<Longrightarrow> b = j \<and> j < me_len s \<and> j < length (me_heap s)"
  by (simp add: array_ok_def)

lemma array_ok_frame [simp]:
  "array_ok c (s\<lparr>me_main := pc\<rparr>) = array_ok c s" "array_ok c (s\<lparr>me_until := u\<rparr>) = array_ok c s"
  "array_ok c (s\<lparr>me_clock := k\<rparr>) = array_ok c s" "array_ok c (s\<lparr>me_workers := ws\<rparr>) = array_ok c s"
  "array_ok c (s\<lparr>me_sent := r\<rparr>) = array_ok c s"
  by (simp_all add: array_ok_def)

lemma thrash_all_frame [simp]:
  "thrash_all c (s\<lparr>me_main := pc\<rparr>) = thrash_all c s" "thrash_all c (s\<lparr>me_until := u\<rparr>) = thrash_all c s"
  "thrash_all c (s\<lparr>me_clock := k\<rparr>) = thrash_all c s" "thrash_all c (s\<lparr>me_slots := sl\<rparr>) = thrash_all c s"
  "thrash_all c (s\<lparr>me_len := l\<rparr>) = thrash_all c s" "thrash_all c (s\<lparr>me_peak := p\<rparr>) = thrash_all c s"
  "thrash_all c (s\<lparr>me_sent := r\<rparr>) = thrash_all c s"
  by (simp_all add: thrash_all_def)

lemma memory_inv_begin: "memory_inv c (memory_begin c deadline)"
  by (simp add: memory_inv_defs memory_begin_def released_phase_def)

text \<open>A worker changes no size, and where it goes it is still inside of the array.\<close>

lemma thrash_move_ok:
  assumes "thrash_move s pc = Some (pc', heap)" and "thrash_ok (map length (me_heap s)) pc" and "array_ok c s"
  shows "thrash_ok (map length (me_heap s)) pc'" and "map length heap = map length (me_heap s)"
proof -
  have len: "length (me_slots s) = length (me_heap s)" "me_len s \<le> length (me_heap s)"
    using assms(3) by (simp_all add: array_ok_def)
  have slot: "b < length (me_heap s)" if "j < length (me_slots s)" "me_slots s ! j = Some b" for j b
    using array_ok_slot [OF assms(3) that] by simp
  show "thrash_ok (map length (me_heap s)) pc'"
  proof (cases pc)
    case (Looking n i)
    with assms(1,2) slot [of i] len show ?thesis
      by (cases "me_slots s ! i") (auto simp: thrash_move_def thrash_ok_def split: if_splits)
  qed (use assms(1,2) len in \<open>auto simp: thrash_move_def thrash_ok_def split: if_splits\<close>)
  show "map length heap = map length (me_heap s)"
    using assms(1) by (auto simp: thrash_move_def map_update list_update_same_conv split: thrash_pc.splits if_splits)
qed

lemma memory_step_worker:
  assumes "memory_step c (MWorker i) s = Some s'"
  obtains pc heap where "i < length (me_workers s)" and "thrash_move s (me_workers s ! i) = Some (pc, heap)"
    and "s' = s\<lparr>me_workers := (me_workers s)[i := pc], me_heap := heap\<rparr>"
  using assms by (auto split: if_splits)

lemma memory_inv_worker:
  assumes "memory_step c (MWorker i) s = Some s'" and "memory_inv c s"
  shows "memory_inv c s'"
proof -
  from assms(1) obtain pc heap where w: "i < length (me_workers s)" "thrash_move s (me_workers s ! i) = Some (pc, heap)"
    "s' = s\<lparr>me_workers := (me_workers s)[i := pc], me_heap := heap\<rparr>" by (rule memory_step_worker)
  have inv: "array_ok c s" "thrash_all c s" "memory_phase_ok c s" "clock_ok (me_clock s)" using assms(2) by (simp_all add: memory_inv_def)
  have ok: "thrash_ok (map length (me_heap s)) (me_workers s ! i)"
    using inv(2) w(1) by (simp add: thrash_all_def list_all_length)
  note m = thrash_move_ok [OF w(2) ok inv(1)]
  have len: "length heap = length (me_heap s)" using m(2) by (metis length_map)
  have "me_workers s ! i \<noteq> Gone" using w(2) by (auto simp: thrash_move_def)
  then have busy: "\<not> list_all (\<lambda>pc. pc = Gone) (me_workers s)" and "me_workers s \<noteq> []"
    using w(1) by (auto simp: list_all_length)
  have "array_ok c s'" using inv(1) by (simp add: array_ok_def w(3) len m(2))
  moreover have "thrash_all c s'" using inv(2) m by (cases "i < length (me_workers s)") (auto simp: thrash_all_def w(3) list_all_length nth_list_update)
  moreover have "memory_phase_ok c s'" using inv(3) busy \<open>me_workers s \<noteq> []\<close> len by (auto simp: memory_phase_ok_def w(3))
  ultimately show ?thesis using inv(4) by (simp add: memory_inv_def w(3))
qed

lemma timer_select_cases:
  assumes "timer_select s fired next stopped = Some s'"
  shows "s' = s\<lparr>me_main := next\<rparr> \<or> ck_ctx (me_clock s) \<noteq> None \<and> s' = s\<lparr>me_main := stopped\<rparr>"
  using assms by (auto simp: timer_select_def split: if_splits)

text \<open>The parts of the invariant along the moves of the fault's own goroutine.\<close>

lemma begin_hold_parts:
  assumes "array_ok c s" and "thrash_all c s" and "memory_phase_ok c s" and "me_main s = AllocTop i"
  shows "array_ok c (begin_hold c s)" and "thrash_all c (begin_hold c s)" and "memory_phase_ok c (begin_hold c s)"
    and "me_clock (begin_hold c s) = me_clock s"
proof -
  show "array_ok c (begin_hold c s)" using assms(1) by (simp add: begin_hold_def arm_timer_def Let_def)
  show "thrash_all c (begin_hold c s)"
    by (simp add: begin_hold_def arm_timer_def Let_def thrash_all_def thrash_ok_def list_all_length)
  show "memory_phase_ok c (begin_hold c s)"
    using assms(3,4) by (simp add: begin_hold_def arm_timer_def Let_def memory_phase_ok_def released_phase_def)
  show "me_clock (begin_hold c s) = me_clock s" by (simp add: begin_hold_def arm_timer_def Let_def)
qed

lemma memory_main_array:
  assumes "memory_main c fired s = Some s'" and "array_ok c s" and "memory_phase_ok c s" and "thrash_all c s"
  shows "array_ok c s'"
proof (cases "me_main s")
  case (AllocTop i)
  with assms begin_hold_parts(1) [OF assms(2,4,3) AllocTop] show ?thesis
    by (auto simp: memory_main_def arm_timer_def Let_def split: if_splits)
next
  case (Allocating i)
  with assms(3) have "length (me_heap s) = i" "me_len s = i" "i < my_chunks c" by (simp_all add: memory_phase_ok_def)
  with assms(1,2) Allocating show ?thesis
    by (auto simp: memory_main_def array_ok_def nth_append less_Suc_eq algebra_simps replicate_append_same)
next
  case (ReleaseTop iv)
  with assms(1) have "s' = s\<lparr>me_main := Cleanup\<rparr> \<or>
      0 < me_len s \<and> s' = s\<lparr>me_slots := (me_slots s)[me_len s - 1 := None], me_main := Shrinking iv\<rparr>"
    by (auto simp: memory_main_def Let_def split: if_splits)
  then show ?thesis
  proof
    assume "0 < me_len s \<and> s' = s\<lparr>me_slots := (me_slots s)[me_len s - 1 := None], me_main := Shrinking iv\<rparr>"
    then show ?thesis using assms(2) by (auto simp: array_ok_def nth_list_update split: if_splits)
  qed (use assms(2) in simp)
next
  case (Shrinking iv)
  with assms(3) have "0 < me_len s" "me_slots s ! (me_len s - 1) = None" by (simp_all add: memory_phase_ok_def)
  then have "j \<noteq> me_len s - 1" if "me_slots s ! j = Some j" for j using that by auto
  with assms(2) have "array_ok c (s\<lparr>me_len := me_len s - 1\<rparr>)" by (fastforce simp: array_ok_def)
  moreover have "array_ok c s' = array_ok c (s\<lparr>me_len := me_len s - 1\<rparr>)"
    using assms(1) Shrinking by (auto simp: memory_main_def arm_timer_def Let_def split: if_splits)
  ultimately show ?thesis by simp
next
  case Dropping
  with assms(1,2) show ?thesis by (auto simp: memory_main_def array_ok_def nth_append split: if_splits)
qed (use assms in \<open>auto simp: memory_main_def timer_select_def Let_def split: if_splits\<close>)

lemma memory_main_thrash:
  assumes "memory_main c fired s = Some s'" and "thrash_all c s" and "array_ok c s" and "memory_phase_ok c s"
  shows "thrash_all c s'"
proof (cases "me_main s")
  case (AllocTop i)
  with assms begin_hold_parts(2) [OF assms(3,2,4) AllocTop] show ?thesis
    by (auto simp: memory_main_def arm_timer_def Let_def split: if_splits)
next
  case (Allocating i)
  with assms(4) have "me_workers s = []" by (simp add: memory_phase_ok_def)
  with assms(1) Allocating show ?thesis by (auto simp: memory_main_def thrash_all_def)
qed (use assms in \<open>auto simp: memory_main_def timer_select_def arm_timer_def Let_def split: if_splits\<close>)

lemma memory_main_phase:
  assumes "memory_main c fired s = Some s'" and "memory_phase_ok c s" and "array_ok c s" and "thrash_all c s"
  shows "memory_phase_ok c s'"
proof (cases "me_main s")
  case (AllocTop i)
  show ?thesis
  proof (cases "int i < mp_numChunks (my_plan c)")
    case True
    with assms(1) AllocTop have "s' \<in> {s\<lparr>me_main := Dropping\<rparr>, s\<lparr>me_main := Allocating i\<rparr>,
        arm_timer (alloc_interval (my_base c) (mp_numChunks (my_plan c))) (AllocWait i) s}"
      by (auto simp: memory_main_def Let_def split: if_splits)
    moreover have "i < my_chunks c" using True by linarith
    ultimately show ?thesis using assms(2) AllocTop
      by (elim insertE emptyE; simp add: arm_timer_def memory_phase_ok_def released_phase_def)
  next
    case False
    with assms(1) AllocTop begin_hold_parts(3) [OF assms(3,4,2) AllocTop] show ?thesis by (simp add: memory_main_def Let_def)
  qed
next
  case (ReleaseTop iv)
  with assms(1,2,3) show ?thesis
    by (auto simp: memory_main_def memory_phase_ok_def array_ok_def released_phase_def Let_def split: if_splits)
qed (use assms(1,2) in \<open>auto simp: memory_main_def timer_select_def arm_timer_def memory_phase_ok_def released_phase_def Let_def split: if_splits\<close>)

lemma memory_main_clock: "memory_main c fired s = Some s' \<Longrightarrow> me_clock s' = me_clock s \<or> me_clock s' = ctx_ends Canceled (me_clock s)"
  by (cases "me_main s") (auto simp: memory_main_def timer_select_def arm_timer_def begin_hold_def Let_def split: if_splits)

lemma memory_inv_step:
  assumes "memory_step c a s = Some s'" and "memory_inv c s"
  shows "memory_inv c s'"
proof (cases a)
  case (MClock k)
  then obtain k' where k: "clock_step k (me_clock s) = Some k'" "s' = s\<lparr>me_clock := k'\<rparr>" using assms(1) by auto
  with assms(2) have "memory_phase_ok c s'" by (simp add: memory_inv_def memory_phase_ok_def)
  with k assms(2) clock_ok_step [OF k(1)] show ?thesis by (simp add: memory_inv_def)
next
  case (MMain fired)
  then have m: "memory_main c fired s = Some s'" using assms(1) by simp
  have inv: "array_ok c s" "thrash_all c s" "memory_phase_ok c s" "clock_ok (me_clock s)" using assms(2) by (simp_all add: memory_inv_def)
  with memory_main_array [OF m] memory_main_thrash [OF m] memory_main_phase [OF m] memory_main_clock [OF m]
  show ?thesis by (auto simp: memory_inv_def)
qed (use assms memory_inv_worker in blast)

lemma memory_inv_run: "memory_steps c acts s = Some s' \<Longrightarrow> memory_inv c s \<Longrightarrow> memory_inv c s'"
  by (rule run_of_keeps [where step = "memory_step c"]) (rule memory_inv_step)

section \<open>What a fault can hold\<close>

lemma slot_buffers_below: "array_ok c s \<Longrightarrow> slot_buffers s \<subseteq> {..<me_len s}"
  using array_ok_slot by (fastforce simp: slot_buffers_def in_set_conv_nth)

lemma card_worker_buffers: "card (worker_buffers s) \<le> length (me_workers s)" "finite (worker_buffers s)"
proof -
  have sub: "worker_buffers s \<subseteq> (\<lambda>pc. the (thrash_holds pc)) ` set (me_workers s)"
  proof
    fix b
    assume "b \<in> worker_buffers s"
    then obtain pc where "pc \<in> set (me_workers s)" "Some b = thrash_holds pc" by (auto simp: worker_buffers_def)
    then show "b \<in> (\<lambda>pc. the (thrash_holds pc)) ` set (me_workers s)" by (intro image_eqI [of _ _ pc]) (simp_all flip: \<open>Some b = _\<close>)
  qed
  from card_mono [OF _ sub] have "card (worker_buffers s) \<le> card ((\<lambda>pc. the (thrash_holds pc)) ` set (me_workers s))" by simp
  also have "\<dots> \<le> card (set (me_workers s))" by (intro card_image_le) simp
  also have "\<dots> \<le> length (me_workers s)" by (rule card_length)
  finally show "card (worker_buffers s) \<le> length (me_workers s)" .
  show "finite (worker_buffers s)" by (rule finite_subset [OF sub]) simp
qed

lemma worker_buffers_below: "thrash_all c s \<Longrightarrow> worker_buffers s \<subseteq> {..<length (me_heap s)}"
proof
  fix b
  assume ok: "thrash_all c s" and "b \<in> worker_buffers s"
  then obtain pc where pc: "pc \<in> set (me_workers s)" "thrash_holds pc = Some b" by (force simp: worker_buffers_def)
  then have "thrash_ok (map length (me_heap s)) pc" using ok by (simp add: thrash_all_def list_all_iff)
  with pc(2) show "b \<in> {..<length (me_heap s)}" by (cases pc) (auto simp: thrash_ok_def)
qed

lemma held_below: "memory_inv c s \<Longrightarrow> memory_held s \<subseteq> {..<length (me_heap s)}"
  using slot_buffers_below [of c s] worker_buffers_below [of c s]
  by (fastforce simp: memory_held_def memory_inv_def array_ok_def)

lemma card_held:
  assumes "memory_inv c s"
  shows "card (memory_held s) \<le> me_len s + length (me_workers s)" and "card (memory_held s) \<le> my_chunks c"
    and "finite (memory_held s)"
proof -
  have inv: "array_ok c s" using assms by (simp add: memory_inv_def)
  have "card (slot_buffers s) \<le> card {..<me_len s}" by (intro card_mono slot_buffers_below [OF inv]) simp
  with card_Un_le [of "slot_buffers s" "worker_buffers s"] card_worker_buffers(1) [of s]
  show "card (memory_held s) \<le> me_len s + length (me_workers s)" by (simp add: memory_held_def)
  show "finite (memory_held s)" by (rule finite_subset [OF held_below [OF assms]]) simp
  have "card (memory_held s) \<le> card {..<length (me_heap s)}" by (intro card_mono held_below [OF assms]) simp
  with inv show "card (memory_held s) \<le> my_chunks c" by (simp add: array_ok_def)
qed

lemma heap_size: "array_ok c s \<Longrightarrow> b < length (me_heap s) \<Longrightarrow> length (me_heap s ! b) = my_chunk c"
proof -
  assume "array_ok c s" and b: "b < length (me_heap s)"
  then have "map length (me_heap s) ! b = my_chunk c" by (simp add: array_ok_def)
  with b show ?thesis by simp
qed

definition held_bytes :: "memory_state \<Rightarrow> nat" where
  "held_bytes s = (\<Sum>b\<in>memory_held s. length (me_heap s ! b))"

lemma held_bytes_eq: "memory_inv c s \<Longrightarrow> held_bytes s = card (memory_held s) * my_chunk c"
proof -
  assume inv: "memory_inv c s"
  have "held_bytes s = (\<Sum>b\<in>memory_held s. my_chunk c)"
    unfolding held_bytes_def using held_below [OF inv] heap_size [of c s] inv
    by (intro sum.cong) (auto simp: memory_inv_def)
  then show ?thesis by simp
qed

lemma nothing_held: "memory_inv c s \<Longrightarrow> released_phase (me_main s) \<Longrightarrow> memory_held s = {}"
proof -
  assume inv: "memory_inv c s" and r: "released_phase (me_main s)"
  then have "slot_buffers s = {}" using slot_buffers_below [of c s] by (simp add: memory_inv_def memory_phase_ok_def)
  moreover have "list_all (\<lambda>pc. pc = Gone) (me_workers s)" using inv r by (simp add: memory_inv_def memory_phase_ok_def)
  then have "worker_buffers s = {}" by (auto simp: worker_buffers_def list_all_iff)
  ultimately show ?thesis by (simp add: memory_held_def)
qed

section \<open>Winding down\<close>

text \<open>How many bytes a pass still has to change.\<close>

definition strides :: "nat \<Rightarrow> nat" where
  "strides m = (m + (thrashStride - 1)) div thrashStride"

lemma strides_step: "0 < m \<Longrightarrow> strides (m - thrashStride) + 1 = strides m"
proof (cases "m \<le> thrashStride")
  case True
  assume "0 < m"
  have "(m + (thrashStride - 1)) div thrashStride = 1"
    by (rule div_nat_eqI) (use True \<open>0 < m\<close> in \<open>simp_all add: thrashStride_def pageSize_def\<close>)
  with True show ?thesis by (simp add: strides_def thrashStride_def pageSize_def)
next
  case False
  then have "m + (thrashStride - 1) = (m - thrashStride + (thrashStride - 1)) + thrashStride" by simp
  then show ?thesis unfolding strides_def by (simp add: thrashStride_def pageSize_def)
qed

fun thrash_work :: "nat \<Rightarrow> thrash_pc \<Rightarrow> nat" where
  "thrash_work sz (Unstarted w) = 2"
| "thrash_work sz (ThrashTop n i) = 1"
| "thrash_work sz (Looking n i) = 2 * strides sz + 3"
| "thrash_work sz (Striding n i b off) = 2 * strides (sz - off) + 2"
| "thrash_work sz (Storing n i b off v) = 2 * strides (sz - off) + 1"
| "thrash_work sz Gone = 0"

fun main_work :: "nat \<Rightarrow> memory_pc \<Rightarrow> nat" where
  "main_work w (AllocTop i) = 11 + 2 * w"
| "main_work w (AllocWait i) = 13 + 2 * w"
| "main_work w (Allocating i) = 12 + 2 * w"
| "main_work w HoldWait = 10"
| "main_work w ReleaseStart = 9"
| "main_work w (Shrinking iv) = 8"
| "main_work w (ReleaseWait iv) = 7"
| "main_work w (ReleaseTop iv) = 6"
| "main_work w Cleanup = 5"
| "main_work w JoinThrash = 4"
| "main_work w Dropping = 3"
| "main_work w (ResultReady e) = 2"
| "main_work w CancelLast = 1"
| "main_work w MemoryOver = 0"

definition memory_work :: "memory_code \<Rightarrow> memory_state \<Rightarrow> nat" where
  "memory_work c s =
     main_work (nat (mp_thrashWorkers (my_plan c))) (me_main s) + sum_list (map (thrash_work (my_chunk c)) (me_workers s))"

lemma thrash_work_step:
  assumes "thrash_move s pc = Some (pc', heap)" and "thrash_ok (map length (me_heap s)) pc" and "array_ok c s"
    and "ck_ctx (me_clock s) \<noteq> None"
  shows "thrash_work (my_chunk c) pc' < thrash_work (my_chunk c) pc"
proof (cases pc)
  case (Striding n i b off)
  then have "length (me_heap s ! b) = my_chunk c" using assms(2,3) by (simp add: thrash_ok_def heap_size)
  with Striding assms(1) show ?thesis by (auto simp: thrash_move_def split: if_splits)
next
  case (Storing n i b off v)
  then have "b < length (me_heap s)" "off < length (me_heap s ! b)" using assms(2) by (auto simp: thrash_ok_def)
  with heap_size [OF assms(3), of b] have "off < my_chunk c" by simp
  then have "strides (my_chunk c - off - thrashStride) + 1 = strides (my_chunk c - off)" by (intro strides_step) simp
  with Storing assms(1) show ?thesis by (auto simp: thrash_move_def split: if_splits)
qed (use assms in \<open>auto simp: thrash_move_def split: if_splits option.splits\<close>)

lemma memory_work_main:
  assumes "memory_main c fired s = Some s'" and "ck_ctx (me_clock s) \<noteq> None" and "memory_phase_ok c s"
  shows "memory_work c s' < memory_work c s"
proof (cases "me_main s")
  case (AllocTop i)
  let ?w = "nat (mp_thrashWorkers (my_plan c))"
  have "map (\<lambda>_. 2) [0..<?w] = replicate ?w (2 :: nat)" by (simp add: map_replicate_const)
  then have "memory_work c (begin_hold c s) \<le> 10 + 2 * ?w"
    by (simp add: memory_work_def begin_hold_def arm_timer_def Let_def comp_def sum_list_replicate)
  moreover have "memory_work c s = 11 + 2 * ?w" using assms(3) AllocTop by (simp add: memory_work_def memory_phase_ok_def)
  moreover have "memory_work c (s\<lparr>me_main := Dropping\<rparr>) = 3" using assms(3) AllocTop by (simp add: memory_work_def memory_phase_ok_def)
  ultimately show ?thesis using assms(1,2) AllocTop by (auto simp: memory_main_def Let_def split: if_splits)
qed (use assms in \<open>auto simp: memory_main_def timer_select_def arm_timer_def memory_work_def memory_phase_ok_def Let_def split: if_splits\<close>)

lemma memory_work_worker:
  assumes "memory_step c (MWorker i) s = Some s'" and "ck_ctx (me_clock s) \<noteq> None" and "memory_inv c s"
  shows "memory_work c s' < memory_work c s"
proof -
  from assms(1) obtain pc heap where w: "i < length (me_workers s)" "thrash_move s (me_workers s ! i) = Some (pc, heap)"
    "s' = s\<lparr>me_workers := (me_workers s)[i := pc], me_heap := heap\<rparr>" by (rule memory_step_worker)
  have inv: "array_ok c s" "thrash_all c s" using assms(3) by (simp_all add: memory_inv_def)
  have ok: "thrash_ok (map length (me_heap s)) (me_workers s ! i)" using inv(2) w(1) by (simp add: thrash_all_def list_all_length)
  let ?f = "thrash_work (my_chunk c)"
  have "?f (me_workers s ! i) \<le> sum_list (map ?f (me_workers s))" using w(1) by (simp add: member_le_sum_list)
  moreover have "sum_list (map ?f (me_workers s')) = sum_list (map ?f (me_workers s)) + ?f pc - ?f (me_workers s ! i)"
    using w(1) by (simp add: w(3) map_update sum_list_update)
  ultimately have "sum_list (map ?f (me_workers s')) < sum_list (map ?f (me_workers s))"
    using thrash_work_step [OF w(2) ok inv(1) assms(2)] by linarith
  then show ?thesis by (simp add: memory_work_def w(3))
qed

lemma worker_moves:
  assumes "memory_inv c s" and "i < length (me_workers s)" and "me_workers s ! i \<noteq> Gone"
  shows "memory_step c (MWorker i) s \<noteq> None"
proof -
  have inv: "array_ok c s" "thrash_all c s" using assms(1) by (simp_all add: memory_inv_def)
  have "thrash_ok (map length (me_heap s)) (me_workers s ! i)" using inv(2) assms(2) by (simp add: thrash_all_def list_all_length)
  moreover have "length (me_slots s) = length (me_heap s)" using inv(1) by (simp add: array_ok_def)
  ultimately have "thrash_move s (me_workers s ! i) \<noteq> None" using assms(3)
    by (cases "me_workers s ! i") (auto simp: thrash_move_def thrash_ok_def split: option.splits)
  with assms(2) show ?thesis by auto
qed

lemma memory_enabled:
  assumes "memory_inv c s" and "ck_ctx (me_clock s) \<noteq> None" and "me_main s \<noteq> MemoryOver"
  shows "\<exists>a. memory_own a \<and> memory_step c a s \<noteq> None"
proof (cases "me_main s = JoinThrash \<and> \<not> list_all (\<lambda>pc. pc = Gone) (me_workers s)")
  case True
  then obtain i where i: "i < length (me_workers s)" "me_workers s ! i \<noteq> Gone" by (auto simp: list_all_length)
  show ?thesis
    by (rule exI [of _ "MWorker i"]) (use i worker_moves [OF assms(1) i] in \<open>simp add: memory_own_def\<close>)
next
  case False
  then have "memory_main c False s \<noteq> None" using assms(2,3)
    by (cases "me_main s") (auto simp: memory_main_def timer_select_def Let_def split: if_splits)
  then show ?thesis by (intro exI [of _ "MMain False"]) (simp add: memory_own_def)
qed

interpretation memory_fault: winding_down "memory_step c" "\<lambda>s. memory_inv c s \<and> ck_ctx (me_clock s) \<noteq> None" memory_own
  "memory_work c" "\<lambda>s. me_main s = MemoryOver" for c
proof
  fix a s s'
  assume step: "memory_step c a s = Some s'" and good: "memory_inv c s \<and> ck_ctx (me_clock s) \<noteq> None"
  have "ck_ctx (me_clock s') \<noteq> None"
  proof (cases a)
    case (MClock k)
    with step good clock_step_ctx show ?thesis by auto
  next
    case (MMain fired)
    with step memory_main_clock [of c fired s s'] good show ?thesis by auto
  next
    case (MWorker i)
    from step [unfolded MWorker] obtain pc heap where "s' = s\<lparr>me_workers := (me_workers s)[i := pc], me_heap := heap\<rparr>"
      by (rule memory_step_worker)
    with good show ?thesis by simp
  qed
  with step good memory_inv_step show "memory_inv c s' \<and> ck_ctx (me_clock s') \<noteq> None" by blast
  show "memory_work c s' < memory_work c s" if "memory_own a"
  proof (cases a)
    case (MMain fired)
    with step good memory_work_main [of c fired s s'] show ?thesis by (simp add: memory_inv_def)
  next
    case (MWorker i)
    from memory_work_worker [OF step [unfolded MWorker]] good show ?thesis by simp
  qed (use that in \<open>simp add: memory_own_def\<close>)
  show "memory_work c s' \<le> memory_work c s" if "\<not> memory_own a"
    using that step by (cases a) (auto simp: memory_own_def memory_work_def)
next
  fix s
  assume "memory_inv c s \<and> ck_ctx (me_clock s) \<noteq> None" and "me_main s \<noteq> MemoryOver"
  then show "\<exists>a. memory_own a \<and> memory_step c a s \<noteq> None" by (intro memory_enabled) simp_all
qed

section \<open>An undisturbed run\<close>

text \<open>No label ends the context: time passes and the goroutines move.\<close>

definition undisturbed :: "memory_act \<Rightarrow> bool" where
  "undisturbed a = (case a of MClock (Passes d) \<Rightarrow> True | MClock _ \<Rightarrow> False | _ \<Rightarrow> True)"

definition alloc_time :: "memory_code \<Rightarrow> int" where
  "alloc_time c = int (my_chunks c - 1) * alloc_interval (my_base c) (mp_numChunks (my_plan c))"

abbreviation release_step :: "memory_code \<Rightarrow> int" where "release_step c \<equiv> release_interval (my_base c) (my_chunks c)"

definition hold_time :: "memory_code \<Rightarrow> int" where
  "hold_time c = alloc_time c + max 0 (hold_duration (my_base c))"

definition memory_time :: "memory_code \<Rightarrow> int" where
  "memory_time c = hold_time c + (if fc_ramp_down (my_base c) > 0 then int (my_chunks c - 1) * release_step c else 0)"

text \<open>The earliest instant of every point of the fault's goroutine, as a time since the start.\<close>

definition on_time :: "memory_code \<Rightarrow> memory_state \<Rightarrow> bool" where
  "on_time c s \<longleftrightarrow>
     (let t = ck_now (me_clock s) - my_start c; u = me_until s - my_start c; n = my_chunks c;
          iv = alloc_interval (my_base c) (mp_numChunks (my_plan c)); rv = release_step c;
          open = (ck_ctx (me_clock s) = None); all = (length (me_heap s) = n)
      in case me_main s of
        AllocTop i \<Rightarrow> open \<and> i \<le> n \<and> int (i - 1) * iv \<le> t
      | AllocWait i \<Rightarrow> open \<and> int i * iv \<le> u
      | Allocating i \<Rightarrow> open \<and> int i * iv \<le> t
      | HoldWait \<Rightarrow> open \<and> all \<and> me_len s = n \<and> hold_time c \<le> u
      | ReleaseStart \<Rightarrow> open \<and> all \<and> me_len s = n \<and> hold_time c \<le> t
      | ReleaseTop v \<Rightarrow> open \<and> all \<and> v = rv \<and> fc_ramp_down (my_base c) > 0 \<and> hold_time c + int (min (n - me_len s) (n - 1)) * rv \<le> t
      | Shrinking v \<Rightarrow> open \<and> all \<and> v = rv \<and> fc_ramp_down (my_base c) > 0 \<and> hold_time c + int (n - me_len s) * rv \<le> t
      | ReleaseWait v \<Rightarrow> open \<and> all \<and> v = rv \<and> fc_ramp_down (my_base c) > 0 \<and> hold_time c + int (min (n - me_len s) (n - 1)) * rv \<le> u
      | ResultReady e \<Rightarrow> all \<and> memory_time c \<le> e
      | CancelLast \<Rightarrow> all \<and> (\<exists>e d. me_sent s = Some (e, d, None) \<and> memory_time c \<le> e)
      | MemoryOver \<Rightarrow> all \<and> (\<exists>e d. me_sent s = Some (e, d, None) \<and> memory_time c \<le> e)
      | Cleanup \<Rightarrow> open \<and> all \<and> memory_time c \<le> t
      | _ \<Rightarrow> all \<and> memory_time c \<le> t)"

lemma alloc_interval_nonneg: "0 \<le> alloc_interval b n"
  by (simp add: alloc_interval_def sdiv_nonneg pos_imp_zdiv_nonneg_iff)

lemma release_step_nonneg: "0 < fc_ramp_down (my_base c) \<Longrightarrow> 0 \<le> release_step c"
  by (cases "my_chunks c = 0") (simp_all add: release_interval_def sdiv_nonneg pos_imp_zdiv_nonneg_iff)

definition on_course :: "memory_code \<Rightarrow> memory_state \<Rightarrow> bool" where
  "on_course c s \<longleftrightarrow> memory_inv c s \<and> ck_parent (me_clock s) = None \<and> on_time c s"

lemma on_course_begin: "on_course c (memory_begin c deadline)"
  by (simp add: on_course_def memory_inv_begin) (simp add: on_time_def memory_begin_def clock_begin_def)

lemma on_time_later: "on_time c s \<Longrightarrow> 0 \<le> d \<Longrightarrow> on_time c (s\<lparr>me_clock := (me_clock s)\<lparr>ck_now := ck_now (me_clock s) + d\<rparr>\<rparr>)"
  by (cases "me_main s") (auto simp: on_time_def Let_def)

lemma on_time_hold:
  assumes "on_time c s" and "memory_phase_ok c s" and "me_main s = AllocTop i" and "\<not> int i < mp_numChunks (my_plan c)"
  shows "on_time c (begin_hold c s)"
proof -
  have i: "i = my_chunks c" using assms(1,3,4) by (simp add: on_time_def Let_def) linarith
  have "me_len s = i" "length (me_heap s) = i" using assms(2,3) by (simp_all add: memory_phase_ok_def)
  with assms(1,3) i show ?thesis
    by (auto simp: begin_hold_def arm_timer_def on_time_def hold_time_def alloc_time_def Let_def)
qed

lemma on_time_main:
  assumes "memory_main c fired s = Some s'" and "on_course c s"
  shows "on_time c s'"
proof -
  have inv: "array_ok c s" "memory_phase_ok c s" and time: "on_time c s" and parent: "ck_parent (me_clock s) = None"
    using assms(2) by (simp_all add: on_course_def memory_inv_def)
  note iv = alloc_interval_nonneg [of "my_base c" "mp_numChunks (my_plan c)"]
  show ?thesis
  proof (cases "me_main s")
    case (AllocTop i)
    show ?thesis
    proof (cases "int i < mp_numChunks (my_plan c)")
      case False
      with assms(1) AllocTop on_time_hold [OF time inv(2) AllocTop False] show ?thesis by (simp add: memory_main_def Let_def)
    next
      case True
      have first: "int i * alloc_interval (my_base c) (mp_numChunks (my_plan c)) \<le> ck_now (me_clock s) - my_start c"
        if "\<not> (0 < alloc_interval (my_base c) (mp_numChunks (my_plan c)) \<and> 0 < i)"
        using that iv time AllocTop by (cases i) (auto simp: on_time_def Let_def)
      have rest: "int i * alloc_interval (my_base c) (mp_numChunks (my_plan c)) =
          int (i - 1) * alloc_interval (my_base c) (mp_numChunks (my_plan c)) + alloc_interval (my_base c) (mp_numChunks (my_plan c))"
        if "0 < i" using that by (cases i) (simp_all add: algebra_simps)
      from True AllocTop assms(1) time first rest show ?thesis
        by (auto simp: memory_main_def arm_timer_def on_time_def Let_def split: if_splits)
    qed
  next
    case (Allocating i)
    with inv(2) have "i < my_chunks c" by (simp add: memory_phase_ok_def)
    with Allocating assms(1) time show ?thesis by (auto simp: memory_main_def on_time_def Let_def)
  next
    case ReleaseStart
    with assms(1) time show ?thesis by (auto simp: memory_main_def on_time_def memory_time_def release_interval_def Let_def)
  next
    case (ReleaseTop v)
    with assms(1) time show ?thesis by (auto simp: memory_main_def on_time_def memory_time_def Let_def min_def split: if_splits)
  next
    case (Shrinking v)
    have v: "v = release_step c" "0 < fc_ramp_down (my_base c)" using time Shrinking by (simp_all add: on_time_def Let_def)
    have len: "0 < me_len s" "me_len s \<le> my_chunks c" using inv Shrinking by (simp_all add: memory_phase_ok_def array_ok_def)
    let ?s = "s\<lparr>me_len := me_len s - 1\<rparr>" and ?n = "my_chunks c" and ?t = "ck_now (me_clock s) - my_start c"
    have t: "hold_time c + int (?n - me_len s) * v \<le> ?t" using time Shrinking by (simp add: on_time_def Let_def)
    have more: "hold_time c + int (min (?n - (me_len s - 1)) (?n - 1)) * v \<le> ?t + (if 1 < me_len s then v else 0)"
    proof (cases "1 < me_len s")
      case True
      with len have "min (?n - (me_len s - 1)) (?n - 1) = Suc (?n - me_len s)" by linarith
      with t True show ?thesis by (simp add: algebra_simps)
    next
      case False
      with len have "me_len s = 1" and "min (?n - 0) (?n - 1) = ?n - 1" by auto
      with t show ?thesis by simp
    qed
    show ?thesis
    proof (cases "0 < v \<and> 1 < me_len s")
      case True
      with assms(1) Shrinking have "s' = arm_timer v (ReleaseWait v) ?s" by (simp add: memory_main_def Let_def)
      with True more v time Shrinking show ?thesis by (auto simp: on_time_def arm_timer_def Let_def)
    next
      case False
      with assms(1) Shrinking len have s': "s' = ?s\<lparr>me_main := ReleaseTop v\<rparr>" by (auto simp: memory_main_def Let_def)
      have "(if 1 < me_len s then v else 0) = 0" using False release_step_nonneg [OF v(2)] v(1) by auto
      with more s' v time Shrinking show ?thesis by (auto simp: on_time_def Let_def)
    qed
  qed (use assms(1) time parent in \<open>auto simp: memory_main_def timer_select_def on_time_def Let_def stress_err_def split: if_splits\<close>)
qed

lemma on_course_step:
  assumes "memory_step c a s = Some s'" and "on_course c s" and "undisturbed a"
  shows "on_course c s'"
proof (cases a)
  case (MClock k)
  then obtain d where "k = Passes d" using assms(3) by (cases k) (auto simp: undisturbed_def)
  with MClock assms(1,2) on_time_later [of c s d] memory_inv_step [OF assms(1)] show ?thesis
    by (auto simp: on_course_def split: if_splits)
next
  case (MMain fired)
  then have m: "memory_main c fired s = Some s'" using assms(1) by simp
  have "ck_parent (me_clock s') = None" using memory_main_clock [OF m] assms(2) by (auto simp: on_course_def)
  with on_time_main [OF m assms(2)] memory_inv_step [OF assms(1)] assms(2) show ?thesis by (simp add: on_course_def)
next
  case (MWorker i)
  from assms(1) [unfolded MWorker] obtain pc heap where w: "thrash_move s (me_workers s ! i) = Some (pc, heap)"
    "i < length (me_workers s)" "s' = s\<lparr>me_workers := (me_workers s)[i := pc], me_heap := heap\<rparr>" by (rule memory_step_worker)
  have inv: "memory_inv c s" using assms(2) by (simp add: on_course_def)
  then have "thrash_ok (map length (me_heap s)) (me_workers s ! i)" "array_ok c s"
    using w(2) by (simp_all add: memory_inv_def thrash_all_def list_all_length)
  from thrash_move_ok(2) [OF w(1) this] have "length heap = length (me_heap s)" by (metis length_map)
  with assms(2) have "on_time c s'" by (simp add: on_course_def on_time_def w(3) Let_def cong: memory_pc.case_cong)
  with memory_inv_step [OF assms(1) inv] assms(2) show ?thesis by (simp add: on_course_def w(3))
qed

lemma on_course_run:
  "memory_steps c acts s = Some s' \<Longrightarrow> on_course c s \<Longrightarrow> list_all undisturbed acts \<Longrightarrow> on_course c s'"
  by (rule run_of_invariant [where step = "memory_step c"]) (rule on_course_step)

section \<open>What is sent\<close>

definition sent_inv :: "memory_code \<Rightarrow> memory_state \<Rightarrow> bool" where
  "sent_inv c s \<longleftrightarrow>
     (me_main s = JoinThrash \<or> me_main s = Dropping \<or> released_phase (me_main s) \<longrightarrow> ck_ctx (me_clock s) \<noteq> None) \<and>
     (\<forall>e. me_main s = ResultReady e \<longrightarrow> late_by (me_clock s) (my_start c) e) \<and>
     (\<forall>e d err. me_sent s = Some (e, d, err) \<longrightarrow>
        md_peak d = me_peak s \<and> md_chunks d = mp_numChunks (my_plan c) \<and> late_by (me_clock s) (my_start c) e \<and>
        outside_err (me_clock s) err)"

lemma sent_inv_main:
  assumes "memory_main c fired s = Some s'" and "memory_inv c s" and "sent_inv c s"
  shows "sent_inv c s'"
proof -
  have sent: "me_sent s \<noteq> None \<longleftrightarrow> me_main s = CancelLast \<or> me_main s = MemoryOver" and ck: "clock_ok (me_clock s)"
    using assms(2) by (simp_all add: memory_inv_def memory_phase_ok_def)
  show ?thesis
  proof (cases "me_main s")
    case (AllocTop i)
    with sent have "me_sent s = None" by (cases "me_sent s") simp_all
    with assms(1,3) AllocTop show ?thesis
      by (auto simp: memory_main_def begin_hold_def arm_timer_def sent_inv_def released_phase_def Let_def split: if_splits)
  next
    case Cleanup
    obtain e where "ck_ctx (ctx_ends Canceled (me_clock s)) = Some e" using ctx_ends_simps(4) by blast
    with assms sent Cleanup show ?thesis by (auto simp: memory_main_def sent_inv_def released_phase_def)
  next
    case Dropping
    with assms ck sent show ?thesis
      by (auto simp: memory_main_def sent_inv_def released_phase_def late_by_now)
  next
    case (ResultReady e)
    with assms sent show ?thesis
      by (auto simp: memory_main_def sent_inv_def released_phase_def)
  qed (use assms sent in \<open>auto simp: memory_main_def timer_select_def arm_timer_def sent_inv_def released_phase_def Let_def
      split: if_splits\<close>)
qed

lemma sent_inv_clock:
  assumes "clock_step a (me_clock s) = Some k" and "memory_inv c s" and "sent_inv c s"
  shows "sent_inv c (s\<lparr>me_clock := k\<rparr>)"
proof -
  have "ck_ctx (me_clock s) \<noteq> None" if "me_sent s \<noteq> None \<or> released_phase (me_main s)"
    using that assms(2,3) by (auto simp: memory_inv_def memory_phase_ok_def sent_inv_def released_phase_def)
  with assms(3) clock_step_ctx [OF assms(1)] late_by_step [OF assms(1)] outside_err_step [OF assms(1)] show ?thesis
    by (auto simp: sent_inv_def released_phase_def)
qed

lemma sent_inv_step:
  assumes "memory_step c a s = Some s'" and "memory_inv c s" and "sent_inv c s"
  shows "sent_inv c s'"
proof (cases a)
  case (MClock k)
  with assms sent_inv_clock [of k s _ c] show ?thesis by auto
next
  case (MMain fired)
  with assms sent_inv_main show ?thesis by simp
next
  case (MWorker i)
  from assms(1) [unfolded MWorker] obtain pc heap where "s' = s\<lparr>me_workers := (me_workers s)[i := pc], me_heap := heap\<rparr>"
    by (rule memory_step_worker)
  with assms(3) show ?thesis by (simp add: sent_inv_def)
qed

lemma memory_reachable:
  assumes "memory_steps c acts (memory_begin c deadline) = Some s"
  shows "memory_inv c s" and "sent_inv c s"
proof -
  have "sent_inv c (memory_begin c deadline)" by (simp add: sent_inv_def memory_begin_def released_phase_def)
  then have "memory_inv c s \<and> sent_inv c s"
    by (intro run_of_keeps [where step = "memory_step c" and Q = "\<lambda>s. memory_inv c s \<and> sent_inv c s", OF _ assms])
       (auto intro: memory_inv_step sent_inv_step memory_inv_begin)
  then show "memory_inv c s" and "sent_inv c s" by simp_all
qed

lemma strides_mono: "m \<le> n \<Longrightarrow> strides m \<le> strides n"
  by (simp add: strides_def div_le_mono)

lemma memory_work_bound:
  assumes "memory_inv c s"
  shows "memory_work c s \<le> 13 + nat (mp_thrashWorkers (my_plan c)) * (2 * strides (my_chunk c) + 3)"
proof -
  let ?w = "nat (mp_thrashWorkers (my_plan c))" and ?k = "2 * strides (my_chunk c) + 3"
  have one: "thrash_work (my_chunk c) pc \<le> ?k" for pc
    by (cases pc) (auto intro!: strides_mono le_SucI trans_le_add1)
  have "sum_list (map (thrash_work (my_chunk c)) (me_workers s)) \<le> sum_list (map (\<lambda>_. ?k) (me_workers s))"
    using one by (intro sum_list_mono) simp
  also have "\<dots> = length (me_workers s) * ?k" by (simp add: sum_list_triv)
  also have "\<dots> \<le> ?w * ?k" using assms by (intro mult_le_mono1) (simp add: memory_inv_def thrash_all_def)
  finally have ws: "sum_list (map (thrash_work (my_chunk c)) (me_workers s)) \<le> ?w * ?k" .
  have two: "2 * ?w \<le> ?w * ?k" by (simp add: algebra_simps)
  show ?thesis
  proof (cases "alloc_phase (me_main s)")
    case None
    then have "main_work ?w (me_main s) \<le> 10" by (cases "me_main s") simp_all
    with ws show ?thesis unfolding memory_work_def by linarith
  next
    case (Some i)
    then have "me_workers s = []" using assms by (simp add: memory_inv_def memory_phase_ok_def)
    moreover have "main_work ?w (me_main s) \<le> 13 + 2 * ?w" by (cases "me_main s") simp_all
    ultimately have "memory_work c s \<le> 13 + 2 * ?w" by (simp add: memory_work_def)
    with two show ?thesis by linarith
  qed
qed

section \<open>Properties\<close>

text \<open>
  A run of a fault with one chunk and one worker that thrashes: the worker is in a pass when the ramp-down releases
  the chunk.
\<close>

definition sample_memory_code :: memory_code where
  "sample_memory_code =
     \<lparr>my_config = sample_memory\<lparr>mc_thrashing := True\<rparr>,
      my_plan = \<lparr>mp_available = 9000, mp_targetBytes = 2, mp_chunkSize = 2, mp_numChunks = 1, mp_thrashWorkers = 1\<rparr>, my_start = 0\<rparr>"

definition sample_release :: "memory_act list" where
  "sample_release =
     [MMain True, MMain True, MMain True, MWorker 0, MWorker 0, MWorker 0, MWorker 0, MWorker 0, MClock (Passes (70 * Second)),
      MMain True, MMain True, MMain True, MMain True]"

definition sample_rest :: "memory_act list" where
  "sample_rest = [MMain True, MMain True, MWorker 0, MWorker 0, MMain True, MMain True, MMain True, MMain True]"

definition sample_released :: memory_state where
  "sample_released =
     \<lparr>me_clock = \<lparr>ck_now = 70 * Second, ck_parent = None, ck_ctx = None, ck_deadline = 100 * Second\<rparr>,
      me_heap = [[0x55, 0]], me_slots = [None], me_len = 0, me_peak = 2, me_until = 70 * Second,
      me_main = ReleaseTop (20 * Second), me_workers = [Striding 1 0 0 4097], me_sent = None\<rparr>"

definition sample_memory_end :: memory_state where
  "sample_memory_end =
     \<lparr>me_clock = \<lparr>ck_now = 70 * Second, ck_parent = None, ck_ctx = Some Canceled, ck_deadline = 100 * Second\<rparr>,
      me_heap = [[0x55, 0]], me_slots = [None], me_len = 0, me_peak = 2, me_until = 70 * Second,
      me_main = MemoryOver, me_workers = [Gone],
      me_sent = Some (70 * Second, \<lparr>md_available = 9000, md_targetBytes = 2, md_peak = 2, md_chunks = 1, md_thrashing = True\<rparr>, None)\<rparr>"

lemma sample_allocChunk: "allocChunk 2 = [0xFF, 0]"
  by (simp add: allocChunk_def touch_pages.simps [of 0] touch_pages.simps [of 4096] pageSize_def numeral_2_eq_2)

lemma sample_intervals:
  "hold_duration sample_ramps = 70 * Second" "release_interval sample_ramps (Suc 0) = 20 * Second" "alloc_interval sample_ramps 1 = 0"
  "0 < fc_ramp_down sample_ramps"
  by (simp_all add: hold_duration_def release_interval_def alloc_interval_def sample_ramps_def Second_def wrap64_def sdiv_nonneg)

lemmas sample_steps = memory_main_def timer_select_def begin_hold_def arm_timer_def thrash_move_def ctx_ends_def thrashStride_def pageSize_def
  clock_begin_def sample_allocChunk sample_intervals Let_def Second_def

lemma sample_release_run: "memory_steps sample_memory_code sample_release (memory_begin sample_memory_code (100 * Second)) = Some sample_released"
  by (simp add: sample_memory_code_def sample_memory_def sample_release_def memory_begin_def sample_released_def sample_steps)

lemma sample_rest_run: "memory_steps sample_memory_code sample_rest sample_released = Some sample_memory_end"
  by (simp add: sample_memory_code_def sample_memory_def sample_rest_def sample_released_def sample_memory_end_def sample_steps stress_err_def)

lemma sample_whole_run:
  "memory_steps sample_memory_code (sample_release @ sample_rest) (memory_begin sample_memory_code (100 * Second)) = Some sample_memory_end"
  by (simp add: run_of_append sample_release_run sample_rest_run)

text \<open>
  C24. The workers share the array with the goroutine that clears and shortens it: in every interleaving a worker that has
  not returned can make its next move, so no index of a slot or of a byte is ever out of range, also when it started
  with a shorter slice or walks a chunk that was released meanwhile.
\<close>

theorem thrashers_stay_inside:
  assumes "memory_steps c acts (memory_begin c deadline) = Some s" and "i < length (me_workers s)" and "me_workers s ! i \<noteq> Gone"
  shows "\<exists>s'. memory_step c (MWorker i) s = Some s' \<and> map length (me_heap s') = map length (me_heap s)"
proof -
  note inv = memory_reachable(1) [OF assms(1)]
  obtain s' where s': "memory_step c (MWorker i) s = Some s'" using worker_moves [OF inv assms(2,3)] by auto
  from s' obtain pc heap where w: "thrash_move s (me_workers s ! i) = Some (pc, heap)"
    "s' = s\<lparr>me_workers := (me_workers s)[i := pc], me_heap := heap\<rparr>" by (rule memory_step_worker)
  have "array_ok c s" "thrash_ok (map length (me_heap s)) (me_workers s ! i)"
    using inv assms(2) by (simp_all add: memory_inv_def thrash_all_def list_all_length)
  with thrash_move_ok(2) [OF w(1)] s' w(2) show ?thesis by (metis memory_state.select_convs(2) memory_state.surjective memory_state.update_convs(2) memory_state.update_convs(8))
qed

theorem thrashers_stay_inside_witness:
  "\<exists>s'. memory_step sample_memory_code (MWorker 0) sample_released = Some s'"
  using thrashers_stay_inside [OF sample_release_run, of 0] by (auto simp: sample_released_def)

text \<open>
  C10. At every instant of every interleaving the memory that a fault holds and what was in use before fit into the
  target's share of the limit, if one chunk does. The ramp-down does not free a chunk as long as a worker is in a pass
  over it: what is held is at most the chunks that are left and one for every worker. When the result is sent, nothing
  is held.
\<close>

theorem memory_fault_bounded:
  assumes "memory_Start ovf m cfg = Inr plan" and "mc_target_load cfg = Fin l" and "uint (AvailableMemory m) \<le> 2 ^ 53"
    and "mp_chunkSize plan \<le> uint (mp_targetBytes plan)"
    and "memory_steps \<lparr>my_config = cfg, my_plan = plan, my_start = start\<rparr> acts
           (memory_begin \<lparr>my_config = cfg, my_plan = plan, my_start = start\<rparr> deadline) = Some s"
  shows "uint (CurrentUsage m) + int (held_bytes s) \<le> \<lceil>l * of_int (uint (AvailableMemory m))\<rceil> \<and>
     held_bytes s \<le> (me_len s + length (me_workers s)) * nat (mp_chunkSize plan) \<and>
     (me_sent s \<noteq> None \<longrightarrow> held_bytes s = 0)"
proof -
  let ?c = "\<lparr>my_config = cfg, my_plan = plan, my_start = start\<rparr>"
  note inv = memory_reachable(1) [OF assms(5)]
  have bytes: "held_bytes s = card (memory_held s) * nat (mp_chunkSize plan)" using held_bytes_eq [OF inv] by simp
  note count = card_held [OF inv]
  have "card (memory_held s) \<le> nat (mp_numChunks plan)" using count(2) by simp
  note within = memory_plan_within [OF assms(1-3) this]
  have "int (held_bytes s) = int (card (memory_held s)) * mp_chunkSize plan" using bytes within(3) by simp
  then have "uint (CurrentUsage m) + int (held_bytes s) \<le> \<lceil>l * of_int (uint (AvailableMemory m))\<rceil>"
    using within(1) [OF assms(4)] by simp
  moreover have "held_bytes s \<le> (me_len s + length (me_workers s)) * nat (mp_chunkSize plan)"
    unfolding bytes by (intro mult_le_mono1 count(1))
  moreover have "held_bytes s = 0" if "me_sent s \<noteq> None"
  proof -
    have "released_phase (me_main s)" using inv that by (auto simp: memory_inv_def memory_phase_ok_def released_phase_def)
    from nothing_held [OF inv this] show ?thesis by (simp add: bytes)
  qed
  ultimately show ?thesis by blast
qed

theorem memory_fault_bounded_witness:
  "\<exists>plan s. memory_Start 0 sample_system sample_memory = Inr plan \<and>
     memory_steps \<lparr>my_config = sample_memory, my_plan = plan, my_start = 0\<rparr> [MMain True, MMain True]
       (memory_begin \<lparr>my_config = sample_memory, my_plan = plan, my_start = 0\<rparr> 9) = Some s \<and> int (held_bytes s) \<le> 4000000"
proof -
  let ?plan = "memory_plan 0 sample_system sample_memory"
  let ?c = "\<lparr>my_config = sample_memory, my_plan = ?plan, my_start = 0\<rparr>"
  have a: "uint (AvailableMemory sample_system) \<le> 2 ^ 53" and t: "mp_chunkSize ?plan \<le> uint (mp_targetBytes ?plan)"
    by (simp_all add: sample_plan)
  obtain s where s: "memory_steps ?c [MMain True, MMain True] (memory_begin ?c 9) = Some s"
    by (simp add: memory_main_def memory_begin_def clock_begin_def sample_plan Let_def)
  from memory_fault_bounded [OF sample_plan(1,2) a t s] have "int (held_bytes s) \<le> 4000000" by (simp add: sample_plan)
  with s sample_plan(1) show ?thesis by blast
qed

text \<open>
  What the memory fault sends: every worker has returned; the peak is that of the chunks that were allocated; an error
  is that of the caller's context, and then the fault's own was cancelled; a fault that was ended by its own deadline
  has lasted till it.
\<close>

theorem memory_result:
  assumes "memory_steps c acts (memory_begin c deadline) = Some s" and "me_sent s = Some (elapsed, d, err)"
  shows "list_all (\<lambda>pc. pc = Gone) (me_workers s) \<and> memory_held s = {} \<and>
     md_peak d = of_nat (length (me_heap s)) * word_of_int (mp_chunkSize (my_plan c)) \<and> length (me_heap s) \<le> my_chunks c \<and>
     outside_err (me_clock s) err \<and> late_by (me_clock s) (my_start c) elapsed"
proof -
  note inv = memory_reachable [OF assms(1)]
  have "released_phase (me_main s)" using inv(1) assms(2) by (auto simp: memory_inv_def memory_phase_ok_def released_phase_def)
  with inv assms(2) nothing_held [OF inv(1)] show ?thesis
    by (auto simp: memory_inv_def sent_inv_def memory_phase_ok_def array_ok_def)
qed

theorem memory_result_witness:
  "memory_held sample_memory_end = {}"
  using memory_result [OF sample_whole_run, of "70 * Second"
      "\<lparr>md_available = 9000, md_targetBytes = 2, md_peak = 2, md_chunks = 1, md_thrashing = True\<rparr>" None]
  by (simp add: sample_memory_end_def)

text \<open>
  C20. Once its context is done, the memory fault winds down: the goroutines make a bounded number of moves, with each
  worker at most one pass over a chunk, and until the last deferred call some goroutine can move, so the result is
  sent.
\<close>

theorem memory_winds_down:
  assumes "memory_steps c acts (memory_begin c deadline) = Some s" and "ck_ctx (me_clock s) \<noteq> None"
    and "memory_steps c acts' s = Some s'"
  shows "length (filter memory_own acts') \<le> 13 + nat (mp_thrashWorkers (my_plan c)) * (2 * strides (my_chunk c) + 3) \<and>
     (me_main s' = MemoryOver \<and> me_sent s' \<noteq> None \<or> (\<exists>a. memory_own a \<and> memory_step c a s' \<noteq> None))"
proof -
  note inv = memory_reachable(1) [OF assms(1)]
  have good: "memory_inv c s \<and> ck_ctx (me_clock s) \<noteq> None" using inv assms(2) by simp
  note fin = memory_fault.ends_by_itself [OF assms(3) good] memory_fault.good_run [OF assms(3) good]
  then have "me_main s' = MemoryOver \<Longrightarrow> me_sent s' \<noteq> None" by (simp add: memory_inv_def memory_phase_ok_def)
  with fin(1,2) memory_work_bound [OF inv] show ?thesis by (meson order_trans)
qed

theorem memory_winds_down_witness:
  "\<exists>a. memory_own a \<and> memory_step sample_memory_code a (sample_released\<lparr>me_clock := ctx_ends Canceled (me_clock sample_released)\<rparr>) \<noteq> None"
proof -
  have "memory_steps sample_memory_code (sample_release @ [MClock StopCalled]) (memory_begin sample_memory_code (100 * Second)) =
      Some (sample_released\<lparr>me_clock := ctx_ends Canceled (me_clock sample_released)\<rparr>)"
    by (simp add: run_of_append sample_release_run)
  from memory_winds_down [OF this, of "[]"] show ?thesis by (simp add: sample_released_def ctx_ends_def)
qed

text \<open>
  C33. An undisturbed run: when the result is sent all chunks of the plan had been allocated, there is no error, and the
  time taken is at least the time of the allocations, the hold and the time of the ramp-down. That is less than the
  duration: with one chunk the ramp-up is not waited for, and the fault ends that much and a ramp-down early.
\<close>

theorem undisturbed_hold:
  assumes "memory_steps c acts (memory_begin c deadline) = Some s" and "list_all undisturbed acts" and "me_sent s = Some (elapsed, d, err)"
  shows "err = None \<and> length (me_heap s) = my_chunks c \<and>
     int (my_chunks c - 1) * alloc_interval (my_base c) (mp_numChunks (my_plan c)) + max 0 (hold_duration (my_base c)) +
       (if fc_ramp_down (my_base c) > 0 then int (my_chunks c - 1) * release_interval (my_base c) (my_chunks c) else 0) \<le> elapsed"
proof -
  have course: "on_course c s" by (rule on_course_run [OF assms(1) on_course_begin assms(2)])
  have "me_main s = CancelLast \<or> me_main s = MemoryOver"
    using memory_reachable(1) [OF assms(1)] assms(3) by (simp add: memory_inv_def memory_phase_ok_def)
  with course assms(3) show ?thesis
    by (auto simp: on_course_def on_time_def memory_time_def hold_time_def alloc_time_def Let_def)
qed

theorem undisturbed_hold_witness:
  "me_sent sample_memory_end \<noteq> None \<and> length (me_heap sample_memory_end) = 1 \<and>
   hold_duration (my_base sample_memory_code) \<le> 70 * Second \<and> 70 * Second < fc_duration (my_base sample_memory_code)"
  using undisturbed_hold [OF sample_whole_run, of "70 * Second"
      "\<lparr>md_available = 9000, md_targetBytes = 2, md_peak = 2, md_chunks = 1, md_thrashing = True\<rparr>" None]
  by (simp add: sample_memory_end_def sample_release_def sample_rest_def undisturbed_def sample_memory_code_def sample_memory_def
      sample_ramps_def Second_def)

end
