(* ===== verification/Cpu_Lifecycle.thy ===== *)
theory Cpu_Lifecycle
  imports Fault_Clock Phase_Emitter Cpu_Stress
begin

text \<open>
  The goroutines of a running CPU fault (\<open>internal/fault/resource/cpu/stress.go\<close>): the workers, each in its duty
  cycle on the one clock, the emitter of the phase events, and the fault's own, which waits for them and sends the result.
\<close>

section \<open>The state\<close>

text \<open>
  Where a worker is: at the look at the context, at the clock with its load to be computed, with its burn and sleep
  times, in the burn loop up to an instant, in the timer of its sleep.
\<close>

datatype duty_pc = DutyTop | DutyRead | DutyPlanned int int | BurningTill int int | SleepingTill int | DutyOver

datatype cpu_pc = CpuJoining | CpuSending int | CpuCancel | CpuOver

text \<open>
  The history of a worker, the instants its burns began at and were to end at, is for the statements only: no step
  depends on it.
\<close>

record cpu_state =
  cs_clock :: fault_clock
  cs_workers :: "(duty_pc \<times> (int \<times> int) list) list"
  cs_emitter :: emitter_pc
  cs_until :: int
  cs_events :: "resource_event list"
  cs_main :: cpu_pc
  cs_sent :: "(int \<times> cpu_detail \<times> ctx_error option) option"

record cpu_code =
  cu_config :: resource_config
  cu_available :: float64
  cu_plan :: cpu_plan
  cu_window :: int
  cu_emit :: bool
  cu_ovf :: int
  cu_start :: int

abbreviation cu_base :: "cpu_code \<Rightarrow> fault_config" where "cu_base c \<equiv> rc_base (cu_config c)"

definition cpu_begin :: "cpu_code \<Rightarrow> int \<Rightarrow> cpu_state" where
  "cpu_begin c deadline =
     \<lparr>cs_clock = clock_begin (cu_start c) deadline, cs_workers = replicate (nat (cp_workers (cu_plan c))) (DutyTop, []),
      cs_emitter = (if phase_tracking (cu_emit c) (cu_base c) then EmitStart else EmitOver), cs_until = cu_start c,
      cs_events = [], cs_main = CpuJoining, cs_sent = None\<rparr>"

section \<open>The goroutines\<close>

definition duty_move :: "cpu_code \<Rightarrow> fault_clock \<Rightarrow> bool \<Rightarrow> duty_pc \<times> (int \<times> int) list \<Rightarrow> (duty_pc \<times> (int \<times> int) list) option" where
  "duty_move c k fired g =
     (let now = ck_now k; over = ck_ctx k \<noteq> None
      in case g of
        (DutyTop, h) \<Rightarrow> Some (if over then DutyOver else DutyRead, h)
      | (DutyRead, h) \<Rightarrow>
          (let (burnTime, sleepTime) =
             duty_split (cu_ovf c) (cu_window c) (duty_load (cp_perWorkerLoad (cu_plan c)) (cu_base c) (now - cu_start c))
           in Some (DutyPlanned burnTime sleepTime, h))
      | (DutyPlanned burnTime sleepTime, h) \<Rightarrow>
          (let burnDeadline = now + burnTime;
               burnDeadline = (if ck_deadline k < burnDeadline then ck_deadline k else burnDeadline)
           in Some (BurningTill burnDeadline sleepTime, h @ [(now, burnDeadline)]))
      | (BurningTill burnDeadline sleepTime, h) \<Rightarrow>
          Some (if now < burnDeadline then (if over then DutyOver else BurningTill burnDeadline sleepTime)
                else if sleepTime > 0 then SleepingTill (now + sleepTime) else DutyTop, h)
      | (SleepingTill t, h) \<Rightarrow>
          if fired then (if t \<le> now then Some (DutyTop, h) else None)
          else if over then Some (DutyOver, h) else None
      | (DutyOver, h) \<Rightarrow> None)"

definition cpu_joined :: "cpu_state \<Rightarrow> bool" where
  "cpu_joined s \<longleftrightarrow> list_all (\<lambda>g. fst g = DutyOver) (cs_workers s) \<and> cs_emitter s = EmitOver"

definition cpu_main :: "cpu_code \<Rightarrow> cpu_state \<Rightarrow> cpu_state option" where
  "cpu_main c s =
     (case cs_main s of
        CpuJoining \<Rightarrow>
          if cpu_joined s then Some (s\<lparr>cs_main := CpuSending (ck_now (cs_clock s) - cu_start c)\<rparr>) else None
      | CpuSending elapsed \<Rightarrow>
          Some (s\<lparr>cs_sent := Some (cpu_result (cu_available c) (cu_plan c) elapsed (ck_parent (cs_clock s)) (ck_ctx (cs_clock s))),
                  cs_main := CpuCancel\<rparr>)
      | CpuCancel \<Rightarrow> Some (s\<lparr>cs_clock := ctx_ends Canceled (cs_clock s), cs_main := CpuOver\<rparr>)
      | CpuOver \<Rightarrow> None)"

datatype cpu_act = CClock clock_act | CWorker nat bool | CEmitter bool | CMain

text \<open>The emitter's target is the load.\<close>

definition load_target :: "cpu_code \<Rightarrow> string \<times> attr_value" where
  "load_target c = (''atropos.resource.target_load'', FloatAttr (rc_target_load (cu_config c)))"

fun cpu_step :: "cpu_code \<Rightarrow> cpu_act \<Rightarrow> cpu_state \<Rightarrow> cpu_state option" where
  "cpu_step c (CClock a) s = map_option (\<lambda>k. s\<lparr>cs_clock := k\<rparr>) (clock_step a (cs_clock s))"
| "cpu_step c (CWorker i fired) s =
     (if i < length (cs_workers s)
      then map_option (\<lambda>g. s\<lparr>cs_workers := (cs_workers s)[i := g]\<rparr>) (duty_move c (cs_clock s) fired (cs_workers s ! i))
      else None)"
| "cpu_step c (CEmitter fired) s =
     map_option (\<lambda>(evs, pc, t). s\<lparr>cs_events := cs_events s @ map (stress_event (load_target c) (cu_base c)) evs, cs_emitter := pc,
                                      cs_until := t\<rparr>)
       (emitter_step (cu_base c) (ck_ctx (cs_clock s) \<noteq> None) (ck_now (cs_clock s)) fired (cs_emitter s) (cs_until s))"
| "cpu_step c CMain s = cpu_main c s"

abbreviation cpu_steps :: "cpu_code \<Rightarrow> cpu_act list \<Rightarrow> cpu_state \<Rightarrow> cpu_state option" where
  "cpu_steps c \<equiv> run_of (cpu_step c)"

definition cpu_own :: "cpu_act \<Rightarrow> bool" where
  "cpu_own a = (case a of CClock _ \<Rightarrow> False | _ \<Rightarrow> True)"

section \<open>The invariant\<close>

text \<open>A worker that has returned has seen the context done.\<close>

definition cpu_inv :: "cpu_code \<Rightarrow> cpu_state \<Rightarrow> bool" where
  "cpu_inv c s \<longleftrightarrow>
     clock_ok (cs_clock s) \<and> length (cs_workers s) = nat (cp_workers (cu_plan c)) \<and>
     (ck_ctx (cs_clock s) = None \<longrightarrow> list_all (\<lambda>g. fst g \<noteq> DutyOver) (cs_workers s)) \<and>
     (cs_main s \<noteq> CpuJoining \<longrightarrow> cpu_joined s) \<and>
     (\<forall>e. cs_main s = CpuSending e \<longrightarrow> late_by (cs_clock s) (cu_start c) e) \<and>
     (cs_sent s \<noteq> None \<longleftrightarrow> cs_main s = CpuCancel \<or> cs_main s = CpuOver) \<and>
     (\<forall>e d err. cs_sent s = Some (e, d, err) \<longrightarrow>
        d = fst (snd (cpu_result (cu_available c) (cu_plan c) e None None)) \<and> late_by (cs_clock s) (cu_start c) e \<and> outside_err (cs_clock s) err)"

lemma cpu_inv_begin: "cpu_inv c (cpu_begin c deadline)"
  by (simp add: cpu_inv_def cpu_begin_def list_all_iff)

lemma duty_over: "duty_move c k fired g = Some g' \<Longrightarrow> fst g \<noteq> DutyOver \<and> (fst g' = DutyOver \<longrightarrow> ck_ctx k \<noteq> None)"
  by (cases g) (auto simp: duty_move_def Let_def split: duty_pc.splits if_splits prod.splits)

text \<open>What every goroutine but the fault's own leaves alone.\<close>

lemma cpu_inv_worker:
  assumes "cpu_step c (CWorker i fired) s = Some s'" and "cpu_inv c s"
  shows "cpu_inv c s'"
proof -
  from assms(1) obtain g where g: "i < length (cs_workers s)" "duty_move c (cs_clock s) fired (cs_workers s ! i) = Some g"
    "s' = s\<lparr>cs_workers := (cs_workers s)[i := g]\<rparr>" by (auto split: if_splits)
  note d = duty_over [OF g(2)]
  then have "\<not> cpu_joined s" using g(1) by (auto simp: cpu_joined_def list_all_length)
  with assms(2) have "cs_main s = CpuJoining" by (auto simp: cpu_inv_def)
  moreover have "list_all (\<lambda>g. fst g \<noteq> DutyOver) ((cs_workers s)[i := g])" if "ck_ctx (cs_clock s) = None"
    using that assms(2) d g(1) by (auto simp: cpu_inv_def list_all_length nth_list_update)
  ultimately show ?thesis using assms(2) by (auto simp: cpu_inv_def g(3))
qed

lemma cpu_inv_emitter:
  assumes "cpu_step c (CEmitter fired) s = Some s'" and "cpu_inv c s"
  shows "cpu_inv c s'"
proof -
  have "cs_emitter s \<noteq> EmitOver" using assms(1) by auto
  then have "cs_main s = CpuJoining" using assms(2) by (auto simp: cpu_inv_def cpu_joined_def)
  with assms show ?thesis by (auto simp: cpu_inv_def)
qed

lemma cpu_inv_main:
  assumes "cpu_main c s = Some s'" and "cpu_inv c s"
  shows "cpu_inv c s'"
proof (cases "cs_main s")
  case CpuJoining
  with assms late_by_now show ?thesis by (auto simp: cpu_main_def cpu_inv_def cpu_joined_def split: if_splits)
next
  case (CpuSending e)
  with assms show ?thesis by (auto simp: cpu_main_def cpu_inv_def cpu_joined_def cpu_result_def)
next
  case CpuCancel
  have "late_by (ctx_ends Canceled (cs_clock s)) (cu_start c) e" if "late_by (cs_clock s) (cu_start c) e" for e
    using that by (auto simp: late_by_def ctx_ends_def split: option.splits)
  moreover have "outside_err (ctx_ends Canceled (cs_clock s)) err" if "outside_err (cs_clock s) err" for err
    using that by (auto simp: outside_err_def ctx_ends_def split: option.splits)
  ultimately show ?thesis using assms CpuCancel ctx_ends_simps(4) [of Canceled "cs_clock s"]
    by (auto simp: cpu_main_def cpu_inv_def cpu_joined_def)
qed (use assms in \<open>auto simp: cpu_main_def\<close>)

lemma cpu_inv_clock:
  assumes "cpu_step c (CClock a) s = Some s'" and "cpu_inv c s" and "0 < cp_workers (cu_plan c)"
  shows "cpu_inv c s'"
proof -
  from assms(1) obtain k where k: "clock_step a (cs_clock s) = Some k" "s' = s\<lparr>cs_clock := k\<rparr>" by auto
  have over: "ck_ctx (cs_clock s) \<noteq> None" if "cs_main s \<noteq> CpuJoining"
  proof
    assume "ck_ctx (cs_clock s) = None"
    with assms(2) that have "list_all (\<lambda>g. fst g \<noteq> DutyOver) (cs_workers s)" "list_all (\<lambda>g. fst g = DutyOver) (cs_workers s)"
      "length (cs_workers s) = nat (cp_workers (cu_plan c))" by (simp_all add: cpu_inv_def cpu_joined_def)
    with assms(3) show False by (cases "cs_workers s") auto
  qed
  have "ck_ctx k = None \<longrightarrow> ck_ctx (cs_clock s) = None" using clock_step_ctx [OF k(1)] by (metis)
  then show ?thesis
    using assms(2) over clock_ok_step [OF k(1)] late_by_step [OF k(1)] outside_err_step [OF k(1)]
    by (auto simp: cpu_inv_def cpu_joined_def k(2))
qed

lemma cpu_inv_step:
  assumes "cpu_step c a s = Some s'" and "cpu_inv c s" and "0 < cp_workers (cu_plan c)"
  shows "cpu_inv c s'"
proof (cases a)
  case CMain
  with assms cpu_inv_main show ?thesis by simp
qed (use assms cpu_inv_worker cpu_inv_emitter cpu_inv_clock in blast)+

lemma cpu_reachable:
  assumes "cpu_steps c acts (cpu_begin c deadline) = Some s" and "0 < cp_workers (cu_plan c)"
  shows "cpu_inv c s"
  by (rule run_of_keeps [where step = "cpu_step c" and Q = "cpu_inv c", OF _ assms(1) cpu_inv_begin]) (rule cpu_inv_step [OF _ _ assms(2)])

section \<open>Winding down\<close>

primrec duty_work :: "duty_pc \<Rightarrow> nat" where
  "duty_work DutyTop = 1" | "duty_work DutyRead = 5" | "duty_work (DutyPlanned b sl) = 4"
| "duty_work (BurningTill t sl) = 3" | "duty_work (SleepingTill t) = 2" | "duty_work DutyOver = 0"

primrec cpu_main_work :: "cpu_pc \<Rightarrow> nat" where
  "cpu_main_work CpuJoining = 3" | "cpu_main_work (CpuSending e) = 2" | "cpu_main_work CpuCancel = 1" | "cpu_main_work CpuOver = 0"

definition cpu_work :: "cpu_state \<Rightarrow> nat" where
  "cpu_work s = sum_list (map (duty_work \<circ> fst) (cs_workers s)) + emitter_measure (cs_emitter s) + cpu_main_work (cs_main s)"

lemma duty_work_move:
  "duty_move c k fired g = Some g' \<Longrightarrow> ck_ctx k \<noteq> None \<Longrightarrow> duty_work (fst g') < duty_work (fst g)"
  by (cases g) (auto simp: duty_move_def Let_def split: duty_pc.splits if_splits prod.splits)

lemma duty_move_enabled: "fst g \<noteq> DutyOver \<Longrightarrow> ck_ctx k \<noteq> None \<Longrightarrow> \<exists>g'. duty_move c k False g = Some g'"
  by (cases g) (auto simp: duty_move_def Let_def split: duty_pc.splits prod.splits)

lemma cpu_work_own:
  assumes "cpu_step c a s = Some s'" and "ck_ctx (cs_clock s) \<noteq> None" and "cpu_own a"
  shows "cpu_work s' < cpu_work s"
proof (cases a)
  case (CWorker i fired)
  with assms(1) obtain g where g: "i < length (cs_workers s)" "duty_move c (cs_clock s) fired (cs_workers s ! i) = Some g"
    "s' = s\<lparr>cs_workers := (cs_workers s)[i := g]\<rparr>" by (auto split: if_splits)
  let ?f = "duty_work \<circ> fst"
  have "?f (cs_workers s ! i) \<le> sum_list (map ?f (cs_workers s))" using g(1) by (simp add: member_le_sum_list)
  moreover have "sum_list (map ?f (cs_workers s')) = sum_list (map ?f (cs_workers s)) + ?f g - ?f (cs_workers s ! i)"
    using g(1) by (simp add: g(3) map_update sum_list_update)
  moreover have "?f g < ?f (cs_workers s ! i)" using duty_work_move [OF g(2) assms(2)] by simp
  ultimately have "sum_list (map ?f (cs_workers s')) < sum_list (map ?f (cs_workers s))" by linarith
  then show ?thesis by (simp add: cpu_work_def g(3))
next
  case (CEmitter fired)
  with assms(1) show ?thesis by (auto simp: cpu_work_def dest: emitter_measure_step)
next
  case CMain
  with assms(1) show ?thesis by (cases "cs_main s") (auto simp: cpu_work_def cpu_main_def split: if_splits)
qed (use assms(3) in \<open>simp add: cpu_own_def\<close>)

lemma cpu_enabled:
  assumes "ck_ctx (cs_clock s) \<noteq> None" and "cs_main s \<noteq> CpuOver"
  shows "\<exists>a. cpu_own a \<and> cpu_step c a s \<noteq> None"
proof (cases "cs_main s = CpuJoining \<and> \<not> cpu_joined s")
  case False
  then have "cpu_step c CMain s \<noteq> None" using assms(2) by (cases "cs_main s") (auto simp: cpu_main_def)
  then show ?thesis by (intro exI [of _ CMain]) (simp add: cpu_own_def)
next
  case True
  then consider i where "i < length (cs_workers s)" "fst (cs_workers s ! i) \<noteq> DutyOver" | "cs_emitter s \<noteq> EmitOver"
    by (auto simp: cpu_joined_def list_all_length)
  then show ?thesis
  proof cases
    case 1
    then obtain g where "duty_move c (cs_clock s) False (cs_workers s ! i) = Some g" using duty_move_enabled assms(1) by blast
    with 1 show ?thesis by (intro exI [of _ "CWorker i False"]) (simp add: cpu_own_def)
  next
    case 2
    obtain x where "emitter_step (cu_base c) True (ck_now (cs_clock s)) False (cs_emitter s) (cs_until s) = Some x"
      using emitter_step_enabled [OF 2] by blast
    with assms(1) show ?thesis by (intro exI [of _ "CEmitter False"]) (simp add: cpu_own_def)
  qed
qed

interpretation cpu_fault: winding_down "cpu_step c" "\<lambda>s :: cpu_state. ck_ctx (cs_clock s) \<noteq> None" cpu_own cpu_work
  "\<lambda>s :: cpu_state. cs_main s = CpuOver" for c
proof
  fix a and s s' :: cpu_state
  assume step: "cpu_step c a s = Some s'" and good: "ck_ctx (cs_clock s) \<noteq> None"
  show "ck_ctx (cs_clock s') \<noteq> None"
  proof (cases a)
    case (CClock k)
    with step good clock_step_ctx show ?thesis by auto
  next
    case CMain
    with step good show ?thesis by (cases "cs_main s") (auto simp: cpu_main_def split: if_splits)
  qed (use step good in \<open>auto split: if_splits\<close>)
  show "cpu_work s' < cpu_work s" if "cpu_own a" using cpu_work_own [OF step good that] .
  show "cpu_work s' \<le> cpu_work s" if "\<not> cpu_own a"
    using that step by (cases a) (auto simp: cpu_own_def cpu_work_def)
next
  fix s :: cpu_state
  assume "ck_ctx (cs_clock s) \<noteq> None" and "cs_main s \<noteq> CpuOver"
  then show "\<exists>a. cpu_own a \<and> cpu_step c a s \<noteq> None" by (rule cpu_enabled)
qed

section \<open>What a worker burns\<close>

text \<open>The time a worker has set itself to burn so far.\<close>

definition planned_burn :: "(int \<times> int) list \<Rightarrow> int" where
  "planned_burn h = sum_list (map (\<lambda>(t, d). max 0 (d - t)) h)"

lemma planned_burn_append [simp]: "planned_burn (h @ [(t, d)]) = planned_burn h + max 0 (d - t)"
  by (simp add: planned_burn_def)

definition valid_cpu :: "cpu_code \<Rightarrow> rat \<Rightarrow> bool" where
  "valid_cpu c p \<longleftrightarrow>
     ramps_ok (fc_duration (cu_base c)) (fc_ramp_up (cu_base c)) (fc_ramp_down (cu_base c)) \<and>
     cp_perWorkerLoad (cu_plan c) = Fin p \<and> float_rat p \<and> 0 \<le> p \<and> p \<le> 1 \<and> 0 < cu_window c \<and> cu_window c \<le> 2 ^ 53"

text \<open>
  The burns of a worker at an instant, by the number \<open>n\<close> of rounds they are paid for with: each round takes
  a whole window, but for the last one and those after the deadline, which burn nothing.
\<close>

definition paid :: "cpu_code \<Rightarrow> int \<Rightarrow> int \<Rightarrow> nat \<Rightarrow> bool" where
  "paid c dl now n \<longleftrightarrow>
     (cu_start c + int n * cu_window c \<le> now \<or> dl \<le> now) \<and> (n = 0 \<or> cu_start c + (int n - 1) * cu_window c \<le> now)"

definition duty_ok :: "cpu_code \<Rightarrow> rat \<Rightarrow> int \<Rightarrow> int \<Rightarrow> duty_pc \<times> (int \<times> int) list \<Rightarrow> bool" where
  "duty_ok c p dl now g \<longleftrightarrow>
     (\<exists>n. planned_burn (snd g) \<le> \<lceil>of_int (cu_window c) * p\<rceil> * int n \<and>
        (case fst g of
           DutyPlanned b sl \<Rightarrow> 0 \<le> b \<and> b \<le> \<lceil>of_int (cu_window c) * p\<rceil> \<and> b + sl = cu_window c \<and> paid c dl now n
         | BurningTill d sl \<Rightarrow>
             (cu_start c + int n * cu_window c \<le> d + sl \<or> dl \<le> d) \<and> 0 < n \<and> cu_start c + (int n - 1) * cu_window c \<le> now
         | SleepingTill t \<Rightarrow>
             (cu_start c + int n * cu_window c \<le> t \<or> dl \<le> now) \<and> (n = 0 \<or> cu_start c + (int n - 1) * cu_window c \<le> now)
         | DutyOver \<Rightarrow> n = 0 \<or> cu_start c + (int n - 1) * cu_window c \<le> now
         | _ \<Rightarrow> paid c dl now n))"

lemma duty_ok_later: "duty_ok c p dl now g \<Longrightarrow> now \<le> now' \<Longrightarrow> duty_ok c p dl now' g"
  unfolding duty_ok_def paid_def by (elim exE, rule exI) (auto split: duty_pc.splits)

lemma duty_ok_plan:
  assumes "duty_ok c p dl now (DutyPlanned b sl, h)" and "cu_start c \<le> now" and "0 < cu_window c"
    and "d = (if dl < now + b then dl else now + b)"
  shows "duty_ok c p dl now (BurningTill d sl, h @ [(now, d)])"
proof -
  let ?C = "\<lceil>of_int (cu_window c) * p\<rceil>" and ?W = "cu_window c"
  from assms(1) obtain n where n: "planned_burn h \<le> ?C * int n" "0 \<le> b" "b \<le> ?C" "b + sl = ?W" "paid c dl now n"
    by (auto simp: duty_ok_def)
  have C: "0 \<le> ?C" using n(2,3) by (rule order_trans)
  show ?thesis
  proof (cases "cu_start c + int n * ?W \<le> now")
    case True
    have "d - now \<le> b" using assms(4) by simp
    then have "max 0 (d - now) \<le> ?C" using n(3) C by linarith
    with n(1) have "planned_burn (h @ [(now, d)]) \<le> ?C * int n + ?C" unfolding planned_burn_append by (rule add_mono)
    then have "planned_burn (h @ [(now, d)]) \<le> ?C * int (n + 1)" by (simp only: of_nat_add of_nat_1 distrib_left mult_1_right)
    moreover have "cu_start c + int (n + 1) * ?W \<le> d + sl \<or> dl \<le> d" using True n(4) assms(4) by (auto simp: algebra_simps)
    ultimately show ?thesis unfolding duty_ok_def using True by (intro exI [of _ "n + 1"]) simp
  next
    case False
    with n(5) have "dl \<le> now" "n = 0 \<or> cu_start c + (int n - 1) * ?W \<le> now" by (auto simp: paid_def)
    moreover from False assms(2) have "n \<noteq> 0" by (intro notI) simp
    moreover have "d = dl" using calculation(1) n(2) assms(4) by auto
    ultimately show ?thesis unfolding duty_ok_def using n(1) by (intro exI [of _ n]) simp
  qed
qed

lemma duty_ok_move:
  assumes "duty_move c k fired g = Some g'" and "duty_ok c p (ck_deadline k) (ck_now k) g" and "valid_cpu c p"
    and "cu_start c \<le> ck_now k" and "ck_now k < cu_start c + 2 ^ 63"
  shows "duty_ok c p (ck_deadline k) (ck_now k) g'"
proof -
  obtain pc h where g: "g = (pc, h)" by fastforce
  have W: "0 < cu_window c" using assms(3) by (simp add: valid_cpu_def)
  show ?thesis
  proof (cases pc)
    case DutyRead
    have e: "0 \<le> ck_now k - cu_start c" "ck_now k - cu_start c < 2 ^ 63" using assms(4,5) by simp_all
    obtain b where b: "duty_split (cu_ovf c) (cu_window c) (duty_load (Fin p) (cu_base c) (ck_now k - cu_start c)) = (b, cu_window c - b)"
      "0 \<le> b" "b \<le> \<lceil>of_int (cu_window c) * p\<rceil>"
      by (rule duty_share [OF _ _ _ _ _ _ e, of "cu_base c" p "cu_window c" "cu_ovf c"]) (use assms(3) in \<open>auto simp: valid_cpu_def\<close>)
    have "cp_perWorkerLoad (cu_plan c) = Fin p" using assms(3) by (simp add: valid_cpu_def)
    with assms(1) g DutyRead b have "g' = (DutyPlanned b (cu_window c - b), h)" by (simp add: duty_move_def Let_def)
    with assms(2) g DutyRead b show ?thesis by (auto simp: duty_ok_def)
  next
    case (DutyPlanned b sl)
    with assms(1) g duty_ok_plan [OF assms(2) [unfolded g DutyPlanned] assms(4) W refl] show ?thesis
      by (simp add: duty_move_def Let_def)
  next
    case (BurningTill d sl)
    with assms(2) g obtain n where n: "planned_burn h \<le> \<lceil>of_int (cu_window c) * p\<rceil> * int n"
      "cu_start c + int n * cu_window c \<le> d + sl \<or> ck_deadline k \<le> d" "0 < n" "cu_start c + (int n - 1) * cu_window c \<le> ck_now k"
      by (auto simp: duty_ok_def)
    with assms(1) g BurningTill show ?thesis unfolding duty_ok_def
      by (intro exI [of _ n]) (auto simp: duty_move_def paid_def Let_def split: if_splits)
  next
    case (SleepingTill t)
    with assms(2) g obtain n where n: "planned_burn h \<le> \<lceil>of_int (cu_window c) * p\<rceil> * int n"
      "cu_start c + int n * cu_window c \<le> t \<or> ck_deadline k \<le> ck_now k" "n = 0 \<or> cu_start c + (int n - 1) * cu_window c \<le> ck_now k"
      by (auto simp: duty_ok_def)
    with assms(1) g SleepingTill show ?thesis unfolding duty_ok_def
      by (intro exI [of _ n]) (auto simp: duty_move_def paid_def Let_def split: if_splits)
  next
    case DutyTop
    with assms(2) g obtain n where n: "planned_burn h \<le> \<lceil>of_int (cu_window c) * p\<rceil> * int n" "paid c (ck_deadline k) (ck_now k) n"
      by (auto simp: duty_ok_def)
    with assms(1) g DutyTop show ?thesis unfolding duty_ok_def
      by (intro exI [of _ n]) (auto simp: duty_move_def paid_def Let_def split: if_splits)
  qed (use assms(1) g in \<open>simp add: duty_move_def Let_def\<close>)
qed

definition burn_inv :: "cpu_code \<Rightarrow> rat \<Rightarrow> cpu_state \<Rightarrow> bool" where
  "burn_inv c p s \<longleftrightarrow>
     cu_start c \<le> ck_now (cs_clock s) \<and>
     (ck_now (cs_clock s) < cu_start c + 2 ^ 63 \<longrightarrow>
        list_all (duty_ok c p (ck_deadline (cs_clock s)) (ck_now (cs_clock s))) (cs_workers s))"

lemma cpu_step_clock:
  "cpu_step c a s = Some s' \<Longrightarrow> ck_now (cs_clock s) \<le> ck_now (cs_clock s') \<and> ck_deadline (cs_clock s') = ck_deadline (cs_clock s)"
proof (cases a)
  case (CClock k)
  assume "cpu_step c a s = Some s'"
  with CClock show ?thesis by (cases k) (auto split: if_splits)
next
  case CMain
  assume "cpu_step c a s = Some s'"
  with CMain show ?thesis by (cases "cs_main s") (auto simp: cpu_main_def split: if_splits)
qed (auto split: if_splits)

lemma burn_inv_step:
  assumes "cpu_step c a s = Some s'" and "burn_inv c p s" and "valid_cpu c p"
  shows "burn_inv c p s'"
proof -
  note k = cpu_step_clock [OF assms(1)]
  show ?thesis
  proof (cases "\<exists>i fired. a = CWorker i fired")
    case True
    with assms(1) obtain i fired g where g: "i < length (cs_workers s)" "duty_move c (cs_clock s) fired (cs_workers s ! i) = Some g"
      "s' = s\<lparr>cs_workers := (cs_workers s)[i := g]\<rparr>" by (auto split: if_splits)
    show ?thesis unfolding burn_inv_def
    proof (intro conjI impI)
      show "cu_start c \<le> ck_now (cs_clock s')" using assms(2) k by (simp add: burn_inv_def)
      assume soon: "ck_now (cs_clock s') < cu_start c + 2 ^ 63"
      with assms(2) g(3) have all: "list_all (duty_ok c p (ck_deadline (cs_clock s)) (ck_now (cs_clock s))) (cs_workers s)"
        by (simp add: burn_inv_def)
      with g(1) have "duty_ok c p (ck_deadline (cs_clock s)) (ck_now (cs_clock s)) (cs_workers s ! i)" by (simp add: list_all_length)
      from duty_ok_move [OF g(2) this assms(3)] assms(2) soon g(3)
      have "duty_ok c p (ck_deadline (cs_clock s)) (ck_now (cs_clock s)) g" by (simp add: burn_inv_def)
      with all g show "list_all (duty_ok c p (ck_deadline (cs_clock s')) (ck_now (cs_clock s'))) (cs_workers s')"
        by (auto simp: list_all_length nth_list_update)
    qed
  next
    case False
    with assms(1) have "cs_workers s' = cs_workers s"
      by (cases a) (auto simp: cpu_main_def split: if_splits cpu_pc.splits)
    with assms(2) k duty_ok_later show ?thesis by (fastforce simp: burn_inv_def list_all_iff)
  qed
qed

lemma burn_reachable:
  assumes "cpu_steps c acts (cpu_begin c deadline) = Some s" and "valid_cpu c p"
  shows "burn_inv c p s"
proof (rule run_of_keeps [where step = "cpu_step c" and Q = "burn_inv c p", OF _ assms(1)])
  show "burn_inv c p (cpu_begin c deadline)"
    by (auto simp: burn_inv_def cpu_begin_def clock_begin_def list_all_iff duty_ok_def planned_burn_def paid_def intro: exI [of _ 0])
qed (rule burn_inv_step [OF _ _ assms(2)])

section \<open>The phase events\<close>

definition cpu_emit :: "cpu_code \<Rightarrow> cpu_state \<Rightarrow> bool" where
  "cpu_emit c s \<longleftrightarrow>
     (\<exists>evs. cs_events s = map (stress_event (load_target c) (cu_base c)) evs \<and> emit_by (cu_base c) (cu_start c) (ck_now (cs_clock s)) evs \<and>
        emit_at (cu_base c) (cu_emit c) (cu_start c) (cs_emitter s) (cs_until s) evs)"

lemma cpu_emit_step:
  assumes "cpu_step c a s = Some s'" and "cpu_emit c s"
    and "ramps_ok (fc_duration (cu_base c)) (fc_ramp_up (cu_base c)) (fc_ramp_down (cu_base c))"
  shows "cpu_emit c s'"
proof -
  from assms(2) obtain evs where evs: "cs_events s = map (stress_event (load_target c) (cu_base c)) evs"
    "emit_by (cu_base c) (cu_start c) (ck_now (cs_clock s)) evs" "emit_at (cu_base c) (cu_emit c) (cu_start c) (cs_emitter s) (cs_until s) evs"
    by (auto simp: cpu_emit_def)
  show ?thesis
  proof (cases "\<exists>f. a = CEmitter f")
    case True
    with assms(1) obtain f evs' pc t where m: "emitter_step (cu_base c) (ck_ctx (cs_clock s) \<noteq> None) (ck_now (cs_clock s)) f (cs_emitter s) (cs_until s) =
        Some (evs', pc, t)"
      and s': "s' = s\<lparr>cs_events := cs_events s @ map (stress_event (load_target c) (cu_base c)) evs', cs_emitter := pc, cs_until := t\<rparr>"
      by auto
    from emitter_step_ok [OF assms(3) evs(3,2) m] evs(1) show ?thesis
      unfolding cpu_emit_def by (intro exI [of _ "evs @ evs'"]) (simp add: s')
  next
    case False
    with assms(1) have "cs_events s' = cs_events s" "cs_emitter s' = cs_emitter s" "cs_until s' = cs_until s"
      by (cases a; auto simp: cpu_main_def split: if_splits cpu_pc.splits)+
    with evs emit_by_mono [OF evs(2)] cpu_step_clock [OF assms(1)] show ?thesis by (auto simp: cpu_emit_def)
  qed
qed

lemma cpu_emit_reachable:
  assumes "cpu_steps c acts (cpu_begin c deadline) = Some s"
    and "ramps_ok (fc_duration (cu_base c)) (fc_ramp_up (cu_base c)) (fc_ramp_down (cu_base c))"
  shows "cpu_emit c s"
proof (rule run_of_keeps [where step = "cpu_step c" and Q = "cpu_emit c", OF _ assms(1)])
  show "cpu_emit c (cpu_begin c deadline)"
    by (simp add: cpu_emit_def emit_by_def emit_at_def cpu_begin_def clock_begin_def)
qed (rule cpu_emit_step [OF _ _ assms(2)])

section \<open>Properties\<close>

definition sample_cpu_code :: cpu_code where
  "sample_cpu_code =
     \<lparr>cu_config = \<lparr>rc_base = \<lparr>fc_duration = 1000, fc_ramp_up = 0, fc_ramp_down = 0\<rparr>, rc_target_load = Fin (1 / 2), rc_window = 100\<rparr>,
      cu_available = Fin 1, cu_plan = \<lparr>cp_workers = 1, cp_perWorkerLoad = Fin (1 / 2)\<rparr>, cu_window = 100, cu_emit = False, cu_ovf = 0,
      cu_start = 0\<rparr>"

lemma sample_half: "float_rat (1 / 2)"
  using float_rat_pow2 [of "- 1"] by (simp add: pow2_def)

lemma sample_valid_cpu: "valid_cpu sample_cpu_code (1 / 2)"
  by (simp add: valid_cpu_def sample_cpu_code_def ramps_ok_def sample_half)

lemma sample_duty: "duty_split 0 100 (duty_load (Fin (1 / 2)) \<lparr>fc_duration = 1000, fc_ramp_up = 0, fc_ramp_down = 0\<rparr> e) = (50, 50)"
proof -
  have "flt_of_int 100 = Fin 100" using flt_of_int_small [of 100] by simp
  moreover have "round64 50 = Fin 50" using float_rat_int [of 50] by (simp add: float_rat_def)
  ultimately show ?thesis
    by (simp add: duty_split_def duty_load_def ramp_level_def flt_mul_def float_to_int64_def i64_def wrap64_def rat_trunc_def Let_def)
qed

text \<open>A worker that burns for a round, sleeps, and is told to stop.\<close>

definition sample_duty_acts :: "cpu_act list" where
  "sample_duty_acts =
     [CWorker 0 True, CWorker 0 True, CWorker 0 True, CClock (Passes 50), CWorker 0 True, CClock StopCalled, CWorker 0 False,
      CMain, CMain]"

definition sample_cpu_end :: cpu_state where
  "sample_cpu_end =
     \<lparr>cs_clock = \<lparr>ck_now = 50, ck_parent = None, ck_ctx = Some Canceled, ck_deadline = 1000\<rparr>, cs_workers = [(DutyOver, [(0, 50)])],
      cs_emitter = EmitOver, cs_until = 0, cs_events = [], cs_main = CpuCancel,
      cs_sent = Some (50, \<lparr>cd_availableCPUs = Fin 1, cd_workers = 1, cd_perWorkerLoad = Fin (1 / 2)\<rparr>, None)\<rparr>"

lemma sample_cpu_run: "cpu_steps sample_cpu_code sample_duty_acts (cpu_begin sample_cpu_code 1000) = Some sample_cpu_end"
  by (simp add: sample_cpu_code_def sample_duty_acts_def sample_cpu_end_def cpu_begin_def clock_begin_def phase_tracking_def duty_move_def
      sample_duty cpu_main_def cpu_joined_def cpu_result_def stress_err_def ctx_ends_def Let_def)

text \<open>
  C21. At every instant of every interleaving: what the workers of a CPU fault have set themselves to burn is at most each
  worker's share of the windows since the start, with one more window for the round it is in. Ramps, descheduling and
  the deadline only make it less.
\<close>

theorem cpu_burn_bounded:
  assumes "cpu_steps c acts (cpu_begin c deadline) = Some s" and "valid_cpu c p" and "ck_now (cs_clock s) < cu_start c + 2 ^ 63"
    and "g \<in> set (cs_workers s)"
  shows "planned_burn (snd g) \<le> \<lceil>of_int (cu_window c) * p\<rceil> * ((ck_now (cs_clock s) - cu_start c) div cu_window c + 1)"
proof -
  let ?C = "\<lceil>of_int (cu_window c) * p\<rceil>" and ?W = "cu_window c" and ?now = "ck_now (cs_clock s)"
  have inv: "burn_inv c p s" by (rule burn_reachable [OF assms(1,2)])
  with assms(3,4) have "duty_ok c p (ck_deadline (cs_clock s)) ?now g" and start: "cu_start c \<le> ?now"
    by (auto simp: burn_inv_def list_all_iff)
  then obtain n where n: "planned_burn (snd g) \<le> ?C * int n" "n = 0 \<or> cu_start c + (int n - 1) * ?W \<le> ?now"
    by (cases "fst g") (auto simp: duty_ok_def paid_def)
  have W: "0 < ?W" "0 \<le> p" using assms(2) by (simp_all add: valid_cpu_def)
  have "int n - 1 \<le> (?now - cu_start c) div ?W"
  proof (cases "n = 0")
    case True
    have "0 \<le> (?now - cu_start c) div ?W" using W start by (simp add: pos_imp_zdiv_nonneg_iff)
    with True show ?thesis by simp
  next
    case False
    with n(2) show ?thesis using int_le_div_iff [OF W(1), of "int n - 1" "?now - cu_start c"] by simp
  qed
  moreover have "0 \<le> of_int ?W * p" using W by simp
  then have "0 \<le> ?C" by linarith
  ultimately have "?C * int n \<le> ?C * ((?now - cu_start c) div ?W + 1)" by (intro mult_left_mono) simp_all
  with n(1) show ?thesis by (rule order_trans)
qed

theorem cpu_burn_bounded_witness:
  "planned_burn (snd (hd (cs_workers sample_cpu_end))) \<le> 50"
  using cpu_burn_bounded [OF sample_cpu_run sample_valid_cpu, of "hd (cs_workers sample_cpu_end)"]
  by (simp add: sample_cpu_end_def sample_cpu_code_def)

text \<open>
  What the CPU fault sends: all workers and the emitter have returned, the detail is that of its plan, a fault that its
  deadline ended has lasted till then, and an error is that of the caller's context.
\<close>

theorem cpu_result_sent:
  assumes "cpu_steps c acts (cpu_begin c deadline) = Some s" and "0 < cp_workers (cu_plan c)" and "cs_sent s = Some (elapsed, d, err)"
  shows "cpu_joined s \<and> cd_workers d = int (length (cs_workers s)) \<and> cd_perWorkerLoad d = cp_perWorkerLoad (cu_plan c) \<and>
     late_by (cs_clock s) (cu_start c) elapsed \<and> outside_err (cs_clock s) err"
  using cpu_reachable [OF assms(1,2)] assms(2,3) by (auto simp: cpu_inv_def cpu_result_def)

theorem cpu_result_sent_witness:
  "cpu_joined sample_cpu_end"
  using cpu_result_sent [OF sample_cpu_run, of 50 "\<lparr>cd_availableCPUs = Fin 1, cd_workers = 1, cd_perWorkerLoad = Fin (1 / 2)\<rparr>" None]
  by (simp add: sample_cpu_code_def sample_cpu_end_def)

text \<open>
  Once its context is done, the CPU fault ends by itself: each worker makes at most five moves and the emitter at most
  four, and until the last deferred call some goroutine can move.
\<close>

theorem cpu_winds_down:
  assumes "cpu_steps c acts (cpu_begin c deadline) = Some s" and "0 < cp_workers (cu_plan c)" and "ck_ctx (cs_clock s) \<noteq> None"
    and "cpu_steps c acts' s = Some s'"
  shows "length (filter cpu_own acts') \<le> 5 * nat (cp_workers (cu_plan c)) + 7 \<and>
     (cs_main s' = CpuOver \<or> (\<exists>a. cpu_own a \<and> cpu_step c a s' \<noteq> None))"
proof -
  have "duty_work pc \<le> 5" for pc by (cases pc) simp_all
  then have "sum_list (map (duty_work \<circ> fst) (cs_workers s)) \<le> sum_list (map (\<lambda>_. 5) (cs_workers s))" by (intro sum_list_mono) simp
  moreover have "length (cs_workers s) = nat (cp_workers (cu_plan c))" using cpu_reachable [OF assms(1,2)] by (simp add: cpu_inv_def)
  moreover have "emitter_measure (cs_emitter s) \<le> 4" by (cases "cs_emitter s") simp_all
  moreover have "cpu_main_work (cs_main s) \<le> 3" by (cases "cs_main s") simp_all
  ultimately have "cpu_work s \<le> 5 * nat (cp_workers (cu_plan c)) + 7" by (simp add: cpu_work_def sum_list_triv)
  with cpu_fault.ends_by_itself [OF assms(4,3)] show ?thesis by auto
qed

theorem cpu_winds_down_witness:
  "\<exists>a. cpu_own a \<and> cpu_step sample_cpu_code a sample_cpu_end \<noteq> None"
  using cpu_winds_down [OF sample_cpu_run, of "[]"] by (simp add: sample_cpu_code_def sample_cpu_end_def)

text \<open>
  The phase events of a CPU fault are a prefix of those of its timeline, complete when no timer was cut short, and none
  comes early.
\<close>

theorem cpu_phase_timeline:
  assumes "cpu_steps c acts (cpu_begin c deadline) = Some s"
    and "ramps_ok (fc_duration (cu_base c)) (fc_ramp_up (cu_base c)) (fc_ramp_down (cu_base c))"
  shows "(cs_emitter s = EmitOver \<and> phase_tracking (cu_emit c) (cu_base c) \<longrightarrow>
       (\<exists>up sustain down. cs_events s = cpu_emitPhaseEvents (cu_config c) up sustain down)) \<and>
     (RampUpComplete \<in> set (map fst (cs_events s)) \<longrightarrow> cu_start c + fc_ramp_up (cu_base c) \<le> ck_now (cs_clock s)) \<and>
     (RampDownComplete \<in> set (map fst (cs_events s)) \<longrightarrow> cu_start c + fc_duration (cu_base c) \<le> ck_now (cs_clock s))"
proof -
  from cpu_emit_reachable [OF assms] obtain evs where evs: "cs_events s = map (stress_event (load_target c) (cu_base c)) evs"
    "emit_by (cu_base c) (cu_start c) (ck_now (cs_clock s)) evs" "emit_at (cu_base c) (cu_emit c) (cu_start c) (cs_emitter s) (cs_until s) evs"
    by (auto simp: cpu_emit_def)
  have "cpu_emitPhaseEvents (cu_config c) x y z = map (stress_event (load_target c) (cu_base c)) (emitPhaseEvents (cu_base c) x y z)" for x y z
    by (simp add: cpu_emitPhaseEvents_def phase_events_def stress_event_def load_target_def)
  then have "\<exists>x y z. cs_events s = cpu_emitPhaseEvents (cu_config c) x y z"
    if "cs_emitter s = EmitOver" "phase_tracking (cu_emit c) (cu_base c)"
    using evs(1,3) that by (auto simp: emit_at_def Let_def)
  moreover have "map fst (cs_events s) = evs" by (simp add: evs(1) comp_def stress_event_def)
  ultimately show ?thesis using evs(2) by (simp add: emit_by_def)
qed

theorem cpu_phase_timeline_witness:
  "RampDownComplete \<notin> set (map fst (cs_events sample_cpu_end))"
  using cpu_phase_timeline [OF sample_cpu_run] by (simp add: sample_cpu_code_def sample_cpu_end_def ramps_ok_def)

end
