(* ===== verification/Inline_Lifecycle.thy ===== *)
theory Inline_Lifecycle
  imports Fault_Clock Fault_Kinds
begin

text \<open>
  The goroutine of a running inline fault (\<open>Start\<close> in \<open>internal/fault/inline/latency.go\<close>,
  \<open>error.go\<close> and \<open>hang.go\<close>), from the spawn to its deferred call, on the clock with the
  contexts.
\<close>

section \<open>The goroutine\<close>

datatype inline_code = Sleeps latency_fault | Errs error_fault | Hangs hang_fault

datatype inline_pc = InlineBegin | InlineArm int | InlineWait int int | InlineBlocked int | InlineCancel | InlineOver

record inline_state =
  il_clock :: fault_clock
  il_pc :: inline_pc
  il_sent :: "fault_result option"

text \<open>Only the hang fault gives its context a timeout, its duration from the call of \<open>Start\<close>.\<close>

definition inline_begin :: "inline_code \<Rightarrow> int \<Rightarrow> inline_state" where
  "inline_begin f now =
     \<lparr>il_clock = clock_begin now (case f of Hangs h \<Rightarrow> now + fc_duration (hf_base h) | _ \<Rightarrow> now), il_pc = InlineBegin, il_sent = None\<rparr>"

definition inline_send :: "fault_result \<Rightarrow> inline_state \<Rightarrow> inline_state" where
  "inline_send r s = s\<lparr>il_sent := Some r, il_pc := InlineCancel\<rparr>"

text \<open>
  A move: \<open>draw\<close> is what \<open>rand.Int63n\<close> yields, for which a positive jitter is asked;
  \<open>fired\<close> says that the timer's case of a select is taken.
\<close>

definition inline_move :: "inline_code \<Rightarrow> int \<Rightarrow> bool \<Rightarrow> inline_state \<Rightarrow> inline_state option" where
  "inline_move f draw fired s =
     (let now = ck_now (il_clock s)
      in case il_pc s of
        InlineBegin \<Rightarrow>
          (case f of
             Sleeps l \<Rightarrow> Some (s\<lparr>il_pc := InlineArm now\<rparr>)
           | Errs e \<Rightarrow> Some (inline_send (Error_result e) s)
           | Hangs h \<Rightarrow> Some (s\<lparr>il_pc := InlineBlocked now\<rparr>))
      | InlineArm start \<Rightarrow>
          (case f of
             Sleeps l \<Rightarrow>
               if lf_jitter l > 0 \<longrightarrow> 0 \<le> draw \<and> draw < lf_jitter l
               then Some (s\<lparr>il_pc := InlineWait start (now + Latency_delay l draw)\<rparr>) else None
           | _ \<Rightarrow> None)
      | InlineWait start t \<Rightarrow>
          if fired then (if t \<le> now then Some (inline_send (Latency_result (now - start) None) s) else None)
          else map_option (\<lambda>e. inline_send (Latency_result (now - start) (Some e)) s) (ck_ctx (il_clock s))
      | InlineBlocked start \<Rightarrow> map_option (\<lambda>e. inline_send (Hang_result (now - start) e) s) (ck_ctx (il_clock s))
      | InlineCancel \<Rightarrow> Some (s\<lparr>il_clock := ctx_ends Canceled (il_clock s), il_pc := InlineOver\<rparr>)
      | InlineOver \<Rightarrow> None)"

datatype inline_act = IClock clock_act | IMove int bool

definition has_timeout :: "inline_code \<Rightarrow> bool" where
  "has_timeout f = (case f of Hangs _ \<Rightarrow> True | _ \<Rightarrow> False)"

fun inline_step :: "inline_code \<Rightarrow> inline_act \<Rightarrow> inline_state \<Rightarrow> inline_state option" where
  "inline_step f (IClock a) s =
     (if a = DeadlineFires \<and> \<not> has_timeout f then None
      else map_option (\<lambda>k. s\<lparr>il_clock := k\<rparr>) (clock_step a (il_clock s)))"
| "inline_step f (IMove draw fired) s = inline_move f draw fired s"

abbreviation inline_steps :: "inline_code \<Rightarrow> inline_act list \<Rightarrow> inline_state \<Rightarrow> inline_state option" where
  "inline_steps f \<equiv> run_of (inline_step f)"

definition inline_own :: "inline_act \<Rightarrow> bool" where
  "inline_own a = (case a of IClock _ \<Rightarrow> False | IMove _ _ \<Rightarrow> True)"

lemma inline_own_simps [simp]: "\<not> inline_own (IClock k)" "inline_own (IMove draw fired)"
  by (simp_all add: inline_own_def)

section \<open>What it delivers\<close>

text \<open>
  What a result says of the fault: it slept its delay or was stopped, it carries the status at once, it always has an
  error.
\<close>

definition inline_promise :: "inline_code \<Rightarrow> inline_state \<Rightarrow> fault_result \<Rightarrow> bool" where
  "inline_promise f s r \<longleftrightarrow>
     (case f of
        Sleeps l \<Rightarrow>
          fr_detail r = NoDetail \<and>
          (fr_err r = None \<longrightarrow>
             (\<exists>draw. (lf_jitter l > 0 \<longrightarrow> 0 \<le> draw \<and> draw < lf_jitter l) \<and> Latency_delay l draw \<le> fr_duration r)) \<and>
          (fr_err r \<noteq> None \<longrightarrow> fr_err r = ck_ctx (il_clock s))
      | Errs e \<Rightarrow> r = Error_result e
      | Hangs h \<Rightarrow> fr_detail r = NoDetail \<and> (\<exists>e. fr_err r = Some e \<and> ck_ctx (il_clock s) = Some e))"

definition inline_inv :: "inline_code \<Rightarrow> inline_state \<Rightarrow> bool" where
  "inline_inv f s \<longleftrightarrow>
     clock_ok (il_clock s) \<and>
     (case il_pc s of
        InlineArm start \<Rightarrow> start \<le> ck_now (il_clock s) \<and> (\<exists>l. f = Sleeps l)
      | InlineWait start t \<Rightarrow>
          start \<le> ck_now (il_clock s) \<and>
          (\<exists>l draw. f = Sleeps l \<and> (lf_jitter l > 0 \<longrightarrow> 0 \<le> draw \<and> draw < lf_jitter l) \<and> start + Latency_delay l draw \<le> t)
      | InlineBlocked start \<Rightarrow> \<exists>h. f = Hangs h
      | _ \<Rightarrow> True) \<and>
     (il_sent s \<noteq> None \<longleftrightarrow> il_pc s = InlineCancel \<or> il_pc s = InlineOver) \<and>
     (\<forall>r. il_sent s = Some r \<longrightarrow> inline_promise f s r)"

lemma inline_inv_begin: "inline_inv f (inline_begin f now)"
  by (simp add: inline_inv_def inline_begin_def)

lemma promise_later:
  "inline_promise f s r \<Longrightarrow> (ck_ctx (il_clock s) \<noteq> None \<Longrightarrow> ck_ctx (il_clock s') = ck_ctx (il_clock s)) \<Longrightarrow> inline_promise f s' r"
  unfolding inline_promise_def by (cases f; simp; metis option.discI)

lemma inline_inv_move:
  assumes "inline_move f draw fired s = Some s'" and "inline_inv f s"
  shows "inline_inv f s'"
proof (cases "il_pc s")
  case InlineBegin
  with assms show ?thesis
    by (cases f) (auto simp: inline_move_def inline_inv_def inline_send_def inline_promise_def Let_def)
next
  case (InlineArm start)
  with assms(2) obtain l where f: "f = Sleeps l" and start: "start \<le> ck_now (il_clock s)" by (auto simp: inline_inv_def)
  with InlineArm assms(1) have "lf_jitter l > 0 \<longrightarrow> 0 \<le> draw \<and> draw < lf_jitter l"
    and "s' = s\<lparr>il_pc := InlineWait start (ck_now (il_clock s) + Latency_delay l draw)\<rparr>"
    by (auto simp: inline_move_def Let_def split: if_splits)
  with assms(2) f start InlineArm show ?thesis by (auto simp: inline_inv_def intro!: exI [of _ draw])
next
  case (InlineWait start t)
  with assms show ?thesis
    by (auto simp: inline_move_def inline_inv_def inline_send_def inline_promise_def Latency_result_def Let_def split: if_splits)
       (metis add_le_imp_le_diff diff_add_cancel le_diff_eq add.commute order_trans)+
next
  case (InlineBlocked start)
  with assms show ?thesis
    by (auto simp: inline_move_def inline_inv_def inline_send_def inline_promise_def Hang_result_def Let_def)
next
  case InlineCancel
  with assms have s': "s' = s\<lparr>il_clock := ctx_ends Canceled (il_clock s), il_pc := InlineOver\<rparr>" by (simp add: inline_move_def Let_def)
  have "inline_promise f s' r" if "inline_promise f s r" for r
    using promise_later [OF that, of s'] by (simp add: s')
  with assms InlineCancel show ?thesis by (auto simp: inline_inv_def s')
qed (use assms in \<open>simp add: inline_move_def\<close>)

lemma inline_inv_step:
  assumes "inline_step f a s = Some s'" and "inline_inv f s"
  shows "inline_inv f s'"
proof (cases a)
  case (IClock k)
  then obtain c where c: "clock_step k (il_clock s) = Some c" "s' = s\<lparr>il_clock := c\<rparr>" using assms(1) by (auto split: if_splits)
  have "inline_promise f s' r" if "inline_promise f s r" for r
    using promise_later [OF that, of s'] clock_step_ctx [OF c(1)] by (simp add: c(2))
  with assms(2) c clock_ok_step [OF c(1)] clock_step_now [OF c(1)] show ?thesis
    by (auto simp: inline_inv_def split: inline_pc.splits)
qed (use assms inline_inv_move in simp)

lemma inline_reachable: "inline_steps f acts (inline_begin f now) = Some s \<Longrightarrow> inline_inv f s"
  by (rule run_of_keeps [where step = "inline_step f" and Q = "inline_inv f", OF inline_inv_step _ inline_inv_begin]) simp_all

section \<open>Winding down\<close>

primrec inline_work :: "inline_pc \<Rightarrow> nat" where
  "inline_work InlineBegin = 4" | "inline_work (InlineArm start) = 3" | "inline_work (InlineWait start t) = 2"
| "inline_work (InlineBlocked start) = 2" | "inline_work InlineCancel = 1" | "inline_work InlineOver = 0"

lemma inline_work_move: "inline_move f draw fired s = Some s' \<Longrightarrow> inline_work (il_pc s') < inline_work (il_pc s)"
  by (cases "il_pc s") (auto simp: inline_move_def inline_send_def Let_def split: inline_code.splits if_splits)

lemma inline_move_ctx: "inline_move f draw fired s = Some s' \<Longrightarrow> ck_ctx (il_clock s) \<noteq> None \<Longrightarrow> ck_ctx (il_clock s') = ck_ctx (il_clock s)"
  by (cases "il_pc s") (auto simp: inline_move_def inline_send_def Let_def split: inline_code.splits if_splits)

interpretation inline_fault: winding_down "inline_step f" "\<lambda>s. inline_inv f s \<and> ck_ctx (il_clock s) \<noteq> None" inline_own
  "\<lambda>s :: inline_state. inline_work (il_pc s)" "\<lambda>s :: inline_state. il_pc s = InlineOver" for f
proof
  fix a and s s' :: inline_state
  assume step: "inline_step f a s = Some s'" and good: "inline_inv f s \<and> ck_ctx (il_clock s) \<noteq> None"
  have "ck_ctx (il_clock s') = ck_ctx (il_clock s)"
    using step good clock_step_ctx inline_move_ctx by (cases a) (auto split: if_splits)
  with good inline_inv_step [OF step] show "inline_inv f s' \<and> ck_ctx (il_clock s') \<noteq> None" by simp
  show "inline_work (il_pc s') < inline_work (il_pc s)" if "inline_own a"
    using that step inline_work_move by (cases a) auto
  show "inline_work (il_pc s') \<le> inline_work (il_pc s)" if "\<not> inline_own a"
    using that step by (cases a) (auto split: if_splits)
next
  fix s :: inline_state
  assume good: "inline_inv f s \<and> ck_ctx (il_clock s) \<noteq> None" and "il_pc s \<noteq> InlineOver"
  then have "inline_move f 0 False s \<noteq> None"
    by (cases "il_pc s") (auto simp: inline_inv_def inline_move_def Let_def split: inline_code.splits)
  then show "\<exists>a. inline_own a \<and> inline_step f a s \<noteq> None" by (intro exI [of _ "IMove 0 False"]) simp
qed

section \<open>Properties\<close>

text \<open>
  What an inline fault delivers: the latency fault, without an error only after its delay with some draw of the jitter, and
  else with the error of its context; the error fault its status; the hang fault always with the error of its context.
\<close>

theorem inline_delivers:
  assumes "inline_steps f acts (inline_begin f now) = Some s" and "il_sent s = Some r"
  shows "case f of
      Sleeps l \<Rightarrow>
        (fr_err r = None \<longrightarrow> (\<exists>draw. (lf_jitter l > 0 \<longrightarrow> 0 \<le> draw \<and> draw < lf_jitter l) \<and> Latency_delay l draw \<le> fr_duration r)) \<and>
        (fr_err r \<noteq> None \<longrightarrow> fr_err r = ck_ctx (il_clock s))
    | Errs e \<Rightarrow> IsErrorResult r = Some \<lparr>ed_status = ef_status e, ed_message = ef_message e\<rparr>
    | Hangs h \<Rightarrow> fr_err r \<noteq> None \<and> fr_err r = ck_ctx (il_clock s) \<and> IsErrorResult r = None"
proof -
  have "inline_promise f s r" using inline_reachable [OF assms(1)] assms(2) by (simp add: inline_inv_def)
  then show ?thesis by (cases f) (auto simp: inline_promise_def IsErrorResult_def Error_result_def)
qed

definition sample_sleep :: inline_code where
  "sample_sleep = Sleeps \<lparr>lf_base = no_ramps 0, lf_delay = 5, lf_jitter = 3\<rparr>"

definition slept :: inline_state where
  "slept = \<lparr>il_clock = \<lparr>ck_now = 7, ck_parent = None, ck_ctx = None, ck_deadline = 0\<rparr>, il_pc = InlineCancel,
     il_sent = Some (Latency_result 7 None)\<rparr>"

lemma slept_run: "inline_steps sample_sleep [IMove 0 True, IMove 2 True, IClock (Passes 7), IMove 0 True] (inline_begin sample_sleep 0) = Some slept"
  by (simp add: sample_sleep_def slept_def inline_begin_def clock_begin_def inline_move_def inline_send_def Latency_delay_def wrap64_def)

theorem inline_delivers_witness:
  "\<exists>draw. 0 \<le> draw \<and> draw < 3 \<and> Latency_delay \<lparr>lf_base = no_ramps 0, lf_delay = 5, lf_jitter = 3\<rparr> draw \<le> 7"
  using inline_delivers [OF slept_run, of "Latency_result 7 None"] by (simp add: sample_sleep_def slept_def Latency_result_def)

text \<open>Runs in which nobody stops the hang but its deadline.\<close>

definition nobody_stops :: "inline_act \<Rightarrow> bool" where
  "nobody_stops a = (case a of IClock StopCalled \<Rightarrow> False | IClock (CallerEnds e) \<Rightarrow> False | _ \<Rightarrow> True)"

definition unstopped :: "int \<Rightarrow> inline_state \<Rightarrow> bool" where
  "unstopped dl s \<longleftrightarrow> ck_parent (il_clock s) = None \<and> ck_deadline (il_clock s) = dl \<and> ck_ctx (il_clock s) \<in> {None, Some DeadlineExceeded}"

lemma unstopped_step:
  assumes "inline_step (Hangs h) a s = Some s'" and "inline_inv (Hangs h) s \<and> unstopped dl s" and "nobody_stops a"
  shows "inline_inv (Hangs h) s' \<and> unstopped dl s'"
proof (cases a)
  case (IClock k)
  then obtain c where c: "clock_step k (il_clock s) = Some c" "s' = s\<lparr>il_clock := c\<rparr>" using assms(1) by (auto split: if_splits)
  moreover have "unstopped dl s'"
    using c assms(2,3) IClock by (cases k) (auto simp: unstopped_def nobody_stops_def ctx_ends_def split: if_splits)
  ultimately show ?thesis using inline_inv_step [OF assms(1)] assms(2) by simp
next
  case (IMove draw fired)
  have "il_pc s = InlineCancel \<Longrightarrow> ck_ctx (il_clock s) \<noteq> None" using assms(2) by (auto simp: inline_inv_def inline_promise_def)
  with IMove assms(1,2) have "il_clock s' = il_clock s"
    by (cases "il_pc s") (auto simp: inline_move_def inline_send_def Let_def split: if_splits)
  then show ?thesis using inline_inv_step [OF assms(1)] assms(2) by (simp add: unstopped_def)
qed

text \<open>
  A hang that nobody stops lasts for its duration, and its result says that the deadline was exceeded, as if it had failed.
\<close>

theorem hang_lasts:
  assumes "inline_steps (Hangs h) acts (inline_begin (Hangs h) now) = Some s" and "list_all nobody_stops acts" and "il_sent s = Some r"
  shows "fr_err r = Some DeadlineExceeded \<and> now + fc_duration (hf_base h) \<le> ck_now (il_clock s)"
proof -
  let ?dl = "now + fc_duration (hf_base h)"
  have "inline_inv (Hangs h) s \<and> unstopped ?dl s"
  proof (rule run_of_invariant [where step = "inline_step (Hangs h)" and P = nobody_stops, OF _ assms(1) _ assms(2)])
    show "inline_inv (Hangs h) (inline_begin (Hangs h) now) \<and> unstopped ?dl (inline_begin (Hangs h) now)"
      by (simp add: inline_inv_begin) (simp add: unstopped_def inline_begin_def clock_begin_def)
  qed (rule unstopped_step)
  with assms(3) show ?thesis by (auto simp: inline_inv_def inline_promise_def unstopped_def clock_ok_def)
qed

definition sample_hang :: hang_fault where
  "sample_hang = \<lparr>hf_base = no_ramps 5\<rparr>"

theorem hang_lasts_witness:
  "\<exists>s r. inline_steps (Hangs sample_hang) [IMove 0 True, IClock (Passes 6), IClock DeadlineFires, IMove 0 True] (inline_begin (Hangs sample_hang) 0) = Some s \<and>
     il_sent s = Some r \<and> fr_err r = Some DeadlineExceeded"
proof -
  let ?acts = "[IMove 0 True, IClock (Passes 6), IClock DeadlineFires, IMove 0 True]"
  obtain s r where s: "inline_steps (Hangs sample_hang) ?acts (inline_begin (Hangs sample_hang) 0) = Some s" "il_sent s = Some r"
    by (simp add: sample_hang_def inline_begin_def clock_begin_def inline_move_def inline_send_def has_timeout_def ctx_ends_def)
  from hang_lasts [OF s(1) _ s(2)] s show ?thesis by (intro exI [of _ s] exI [of _ r]) (simp add: nobody_stops_def)
qed

text \<open>Once its context is done, an inline fault ends by itself in at most four moves.\<close>

theorem inline_winds_down:
  assumes "inline_steps f acts (inline_begin f now) = Some s" and "ck_ctx (il_clock s) \<noteq> None" and "inline_steps f acts' s = Some s'"
  shows "length (filter inline_own acts') \<le> 4 \<and> (il_pc s' = InlineOver \<or> (\<exists>a. inline_own a \<and> inline_step f a s' \<noteq> None))"
proof -
  have "inline_work (il_pc s) \<le> 4" by (cases "il_pc s") simp_all
  with inline_fault.ends_by_itself [OF assms(3)] inline_reachable [OF assms(1)] assms(2) show ?thesis by fastforce
qed

theorem inline_winds_down_witness:
  "\<exists>a. inline_own a \<and> inline_step (Hangs sample_hang) a
     ((inline_begin (Hangs sample_hang) 0)\<lparr>il_clock := ctx_ends Canceled (clock_begin 0 5)\<rparr>) \<noteq> None"
proof -
  let ?s = "(inline_begin (Hangs sample_hang) 0)\<lparr>il_clock := ctx_ends Canceled (clock_begin 0 5)\<rparr>"
  have "inline_steps (Hangs sample_hang) [IClock StopCalled] (inline_begin (Hangs sample_hang) 0) = Some ?s"
    by (simp add: inline_begin_def sample_hang_def)
  from inline_winds_down [OF this, of "[]"] show ?thesis by (simp add: inline_begin_def)
qed

end
