(* ===== verification/Poc_Main.thy ===== *)
theory Poc_Main
  imports Stress_Lifecycle Cpu_Lifecycle Memory_Lifecycle
begin

text \<open>
  The four programs under \<open>cmd\<close>: the flags with their defaults, the configuration they make, and the loop
  that waits for the fault's result and prints a line every half second. The fault runs in the same process, so a state
  is that of the program's own goroutine with that of the fault. Lines are kept as what they report, without their text;
  the values of the flags are the ones that package \<open>flag\<close> has parsed.
\<close>

section \<open>Flags\<close>

record disk_flags =
  df_writerate :: int
  df_maxdisk :: int
  df_chunksize :: int
  df_duration :: int
  df_rampup :: int
  df_rampdown :: int
  df_path :: string

definition disk_flag_defaults :: disk_flags where
  "disk_flag_defaults =
     \<lparr>df_writerate = 10 * 1024 * 1024, df_maxdisk = 512 * 1024 * 1024, df_chunksize = 1 * 1024 * 1024, df_duration = 5 * Second,
      df_rampup = 0, df_rampdown = 0, df_path = ''''\<rparr>"

definition disk_main_config :: "disk_flags \<Rightarrow> disk_config" where
  "disk_main_config f =
     \<lparr>dc_base = \<lparr>fc_duration = df_duration f, fc_ramp_up = df_rampup f, fc_ramp_down = df_rampdown f\<rparr>,
      dc_write_rate = df_writerate f, dc_max_disk = df_maxdisk f, dc_chunk_size = df_chunksize f, dc_path = df_path f\<rparr>"

record io_flags =
  if_readrate :: int
  if_filesize :: int
  if_filecount :: int
  if_workers :: int
  if_duration :: int
  if_rampup :: int
  if_rampdown :: int
  if_path :: string

definition io_flag_defaults :: io_flags where
  "io_flag_defaults =
     \<lparr>if_readrate = 102400, if_filesize = 4096, if_filecount = 100, if_workers = 4, if_duration = 5 * Second,
      if_rampup = 0, if_rampdown = 0, if_path = ''''\<rparr>"

text \<open>The program does not set a mode; the zero value is \<open>ModeWrite\<close>.\<close>

definition io_main_config :: "io_flags \<Rightarrow> io_config" where
  "io_main_config f =
     \<lparr>ic_base = \<lparr>fc_duration = if_duration f, fc_ramp_up = if_rampup f, fc_ramp_down = if_rampdown f\<rparr>,
      ic_read_rate = if_readrate f, ic_file_size = if_filesize f, ic_file_count = if_filecount f, ic_workers = if_workers f,
      ic_path = if_path f, ic_mode = ModeWrite\<rparr>"

text \<open>\<open>totalWritten\<close>, which the program reports once \<open>Start\<close> has returned.\<close>

definition io_main_written :: "io_flags \<Rightarrow> int" where
  "io_main_written f = wrap64 (if_filecount f * if_filesize f)"

record cpu_flags =
  cf_load :: float64
  cf_duration :: int
  cf_rampup :: int
  cf_rampdown :: int

definition cpu_flag_defaults :: cpu_flags where
  "cpu_flag_defaults = \<lparr>cf_load = Fin (1 / 2), cf_duration = 5 * Second, cf_rampup = 1 * Second, cf_rampdown = 1 * Second\<rparr>"

definition cpu_main_config :: "cpu_flags \<Rightarrow> resource_config" where
  "cpu_main_config f =
     \<lparr>rc_base = \<lparr>fc_duration = cf_duration f, fc_ramp_up = cf_rampup f, fc_ramp_down = cf_rampdown f\<rparr>,
      rc_target_load = cf_load f, rc_window = 0\<rparr>"

record mem_flags =
  mf_load :: float64
  mf_duration :: int
  mf_rampup :: int
  mf_rampdown :: int
  mf_chunk :: int
  mf_thrashing :: bool
  mf_thrashworkers :: int

definition mem_flag_defaults :: mem_flags where
  "mem_flag_defaults =
     \<lparr>mf_load = Fin (1 / 2), mf_duration = 5 * Second, mf_rampup = 1 * Second, mf_rampdown = 1 * Second, mf_chunk = 2 ^ 20,
      mf_thrashing = False, mf_thrashworkers = 2\<rparr>"

definition mem_main_config :: "mem_flags \<Rightarrow> memory_config" where
  "mem_main_config f =
     \<lparr>mc_base = \<lparr>fc_duration = mf_duration f, fc_ramp_up = mf_rampup f, fc_ramp_down = mf_rampdown f\<rparr>,
      mc_target_load = mf_load f, mc_chunk_size = mf_chunk f, mc_thrashing = mf_thrashing f, mc_thrash_workers = mf_thrashworkers f\<rparr>"

text \<open>
  The allocation that the memory program announces, computed before \<open>Start\<close> from its own readings of the
  system.
\<close>

definition mem_main_target :: "64 word \<Rightarrow> memory_system \<Rightarrow> mem_flags \<Rightarrow> 64 word" where
  "mem_main_target ovf m f =
     (let available = AvailableMemory m; currentUsage = CurrentUsage m; targetTotal = memory_total ovf (mf_load f) available
      in if targetTotal > currentUsage then targetTotal - currentUsage else 0)"

section \<open>The loop\<close>

datatype ('e, 'r) poc_line = ErrorLine 'e | StartedLine | TickLine nat | ResultLines 'r

record ('e, 'r) poc_state =
  ps_out :: "('e, 'r) poc_line list"
  ps_tick :: nat
  ps_exit :: "int option"

text \<open>
  After \<open>Start\<close>: a configuration error ends the program with code 1.
\<close>

definition poc_begin :: "'e + 'h \<Rightarrow> ('e, 'r) poc_state" where
  "poc_begin started =
     (case started of
        Inl e \<Rightarrow> \<lparr>ps_out = [ErrorLine e], ps_tick = 1, ps_exit = Some 1\<rparr>
      | Inr h \<Rightarrow> \<lparr>ps_out = [StartedLine], ps_tick = 1, ps_exit = None\<rparr>)"

datatype 'a poc_act = FaultActs 'a | TickerFires | ResultArrives

definition TickPeriod :: int where "TickPeriod = 500 * Millisecond"

text \<open>
  The select of the loop: the \<open>n\<close>-th tick is due \<open>n\<close> periods after the ticker
  \<open>t0\<close>; on the result the program prints it and returns, and with the process the goroutines of the fault
  end.
\<close>

fun poc_step ::
    "('a \<Rightarrow> 's \<Rightarrow> 's option) \<Rightarrow> ('s \<Rightarrow> 'r option) \<Rightarrow> ('s \<Rightarrow> int) \<Rightarrow> int \<Rightarrow> 'a poc_act \<Rightarrow> ('e, 'r) poc_state \<times> 's \<Rightarrow>
     (('e, 'r) poc_state \<times> 's) option" where
  "poc_step step sent now t0 (FaultActs a) (p, s) = (if ps_exit p = None then map_option (Pair p) (step a s) else None)"
| "poc_step step sent now t0 TickerFires (p, s) =
     (if ps_exit p = None \<and> t0 + int (ps_tick p) * TickPeriod \<le> now s
      then Some (p\<lparr>ps_out := ps_out p @ [TickLine (ps_tick p)], ps_tick := ps_tick p + 1\<rparr>, s) else None)"
| "poc_step step sent now t0 ResultArrives (p, s) =
     (if ps_exit p = None
      then map_option (\<lambda>r. (p\<lparr>ps_out := ps_out p @ [ResultLines r], ps_exit := Some 0\<rparr>, s)) (sent s) else None)"

text \<open>A program that has ended does nothing.\<close>

lemma poc_ended:
  "run_of (poc_step step sent now t0) acts (p, s) = Some (p', s') \<Longrightarrow> ps_exit p \<noteq> None \<Longrightarrow> p' = p \<and> s' = s"
proof (cases acts)
  case (Cons a rest)
  assume "run_of (poc_step step sent now t0) acts (p, s) = Some (p', s')" and "ps_exit p \<noteq> None"
  with Cons show ?thesis by (cases a) auto
qed simp

definition poc_ticks :: "('e, 'r) poc_state \<Rightarrow> ('e, 'r) poc_line list" where
  "poc_ticks p = StartedLine # map TickLine [1..<ps_tick p]"

text \<open>What the programs need of a fault: a result that was sent stays, and the clock does not run backwards.\<close>

locale awaited_fault =
  fixes step :: "'a \<Rightarrow> 's \<Rightarrow> 's option"
    and sent :: "'s \<Rightarrow> 'r option"
    and now :: "'s \<Rightarrow> int"
    and good :: "'s \<Rightarrow> bool"
  assumes good_step: "step a s = Some s' \<Longrightarrow> good s \<Longrightarrow> good s'"
    and sent_stays: "step a s = Some s' \<Longrightarrow> good s \<Longrightarrow> sent s = Some r \<Longrightarrow> sent s' = Some r"
    and now_mono: "step a s = Some s' \<Longrightarrow> now s \<le> now s'"
begin

definition poc_inv :: "int \<Rightarrow> ('e, 'r) poc_state \<times> 's \<Rightarrow> bool" where
  "poc_inv t0 ps \<longleftrightarrow>
     (let p = fst ps; s = snd ps
      in good s \<and> 0 < ps_tick p \<and> (1 < ps_tick p \<longrightarrow> t0 + (int (ps_tick p) - 1) * TickPeriod \<le> now s) \<and>
         (ps_exit p = None \<and> ps_out p = poc_ticks p \<or>
          (\<exists>r. ps_exit p = Some 0 \<and> sent s = Some r \<and> ps_out p = poc_ticks p @ [ResultLines r])))"

lemma poc_inv_step:
  assumes "poc_step step sent now t0 a ps = Some ps'" and "poc_inv t0 ps"
  shows "poc_inv t0 ps'"
proof -
  obtain p s where ps: "ps = (p, s)" by fastforce
  show ?thesis
  proof (cases a)
    case (FaultActs x)
    with assms ps obtain s' where s': "step x s = Some s'" "ps' = (p, s')" by (auto split: if_splits)
    with assms ps now_mono [OF s'(1)] sent_stays [OF s'(1)] good_step [OF s'(1)] show ?thesis by (auto simp: poc_inv_def Let_def)
  qed (use assms ps in \<open>auto simp: poc_inv_def poc_ticks_def Let_def split: if_splits\<close>)
qed

lemma program_outcome:
  assumes "run_of (poc_step step sent now t0) acts (poc_begin started, s0) = Some (p, s)" and "good s0"
  shows "(ps_exit p = Some 1 \<longleftrightarrow> (\<exists>e. started = Inl e)) \<and>
     (ps_exit p \<noteq> Some 1 \<longrightarrow>
        good s \<and> (1 < ps_tick p \<longrightarrow> t0 + (int (ps_tick p) - 1) * TickPeriod \<le> now s) \<and>
        (ps_exit p = None \<and> ps_out p = poc_ticks p \<or>
         (\<exists>r. ps_exit p = Some 0 \<and> sent s = Some r \<and> ps_out p = poc_ticks p @ [ResultLines r])))"
proof (cases started)
  case (Inl e)
  with poc_ended [OF assms(1)] show ?thesis by (simp add: poc_begin_def)
next
  case (Inr h)
  have "poc_inv t0 (p, s)"
  proof (rule run_of_keeps [where step = "poc_step step sent now t0" and Q = "poc_inv t0", OF _ assms(1)])
    show "poc_inv t0 (poc_begin started, s0)" using assms(2) by (simp add: poc_inv_def poc_begin_def poc_ticks_def Inr)
  qed (rule poc_inv_step)
  with Inr show ?thesis by (auto simp: poc_inv_def Let_def)
qed

text \<open>The fault in the program makes the same moves as on its own.\<close>

primrec fault_acts :: "'a poc_act list \<Rightarrow> 'a list" where
  "fault_acts [] = []"
| "fault_acts (a # acts) = (case a of FaultActs x \<Rightarrow> x # fault_acts acts | _ \<Rightarrow> fault_acts acts)"

lemma fault_alone:
  "run_of (poc_step step sent now t0) acts (p, s) = Some (p', s') \<Longrightarrow> run_of step (fault_acts acts) s = Some s'"
proof (induction acts arbitrary: p s)
  case (Cons a acts)
  then show ?case by (cases a) (auto split: option.splits if_splits)
qed simp

end

section \<open>The four programs\<close>

type_synonym disk_world = "(disk_error, int \<times> disk_run list \<times> ctx_error option) poc_state \<times> disk_run stress_state"

lemma stress_sent_stays:
  assumes "stress_step c a s = Some s'" and "join_inv c s" and "st_sent s = Some r"
  shows "st_sent s' = Some r"
proof (cases "\<exists>ok. a = MainMove ok")
  case True
  with assms show ?thesis
    by (auto simp: join_inv_def main_move_def run_deferred_def split: main_pc.splits list.splits deferred.splits if_splits)
next
  case False
  with step_frame(2) [OF assms(1)] assms(3) show ?thesis by simp
qed

interpretation disk_poc: awaited_fault "stress_step c" st_sent st_now "join_inv c" for c :: "(write_round, disk_run) stress_code"
  by unfold_locales (auto intro: join_inv_step stress_sent_stays step_now)

interpretation io_poc: awaited_fault "stress_step c" st_sent st_now "join_inv c" for c :: "(read_round, read_run) stress_code"
  by unfold_locales (auto intro: join_inv_step stress_sent_stays step_now)

interpretation mem_poc: awaited_fault "memory_step c" me_sent "\<lambda>s. ck_now (me_clock s)" "memory_inv c" for c
proof
  fix a and s s' :: memory_state and r
  assume step: "memory_step c a s = Some s'"
  show "ck_now (me_clock s) \<le> ck_now (me_clock s')"
  proof (cases a)
    case (MClock k)
    with step clock_step_now show ?thesis by auto
  next
    case (MMain fired)
    with step memory_main_clock [of c fired s s'] show ?thesis by auto
  qed (use step in \<open>auto split: if_splits\<close>)
  assume "memory_inv c s"
  with step show "memory_inv c s'" by (rule memory_inv_step)
  assume sent: "me_sent s = Some r"
  with \<open>memory_inv c s\<close> have "me_main s = CancelLast \<or> me_main s = MemoryOver" by (simp add: memory_inv_def memory_phase_ok_def)
  with step sent show "me_sent s' = Some r"
    by (cases a) (auto simp: memory_main_def Let_def split: if_splits)
qed

interpretation cpu_poc: awaited_fault "cpu_step c" cs_sent "\<lambda>s. ck_now (cs_clock s)" "\<lambda>s. cpu_inv c s \<and> 0 < cp_workers (cu_plan c)" for c
proof
  fix a and s s' :: cpu_state and r
  assume step: "cpu_step c a s = Some s'"
  show "ck_now (cs_clock s) \<le> ck_now (cs_clock s')" using cpu_step_clock [OF step] by simp
  assume good: "cpu_inv c s \<and> 0 < cp_workers (cu_plan c)"
  with cpu_inv_step [OF step] show "cpu_inv c s' \<and> 0 < cp_workers (cu_plan c)" by simp
  assume sent: "cs_sent s = Some r"
  with good have "cs_main s = CpuCancel \<or> cs_main s = CpuOver" by (simp add: cpu_inv_def)
  with step sent show "cs_sent s' = Some r"
    by (cases a) (auto simp: cpu_main_def split: if_splits)
qed

section \<open>Properties\<close>

text \<open>The defaults of all four programs make configurations that validate.\<close>

theorem poc_defaults_valid:
  "disk_Validate (disk_main_config disk_flag_defaults) = None \<and> io_Validate (io_main_config io_flag_defaults) = None \<and>
   resource_Validate (cpu_main_config cpu_flag_defaults) = None \<and> memory_Validate (mem_main_config mem_flag_defaults) = None"
  by (simp add: disk_Validate_def disk_main_config_def disk_flag_defaults_def io_Validate_def io_main_config_def io_flag_defaults_def
      resource_Validate_def cpu_main_config_def cpu_flag_defaults_def memory_Validate_def mem_main_config_def mem_flag_defaults_def
      FaultConfig_Validate_def load_ok_def Second_def wrap64_def)

lemma stress_run_of: "stress_run c acts s = run_of (stress_step c) acts s"
  by (induction acts arbitrary: s) (auto split: option.split)

lemma poc_fault_acts:
  "ps_exit p = None \<Longrightarrow> run_of (poc_step step sent now t0) (map FaultActs acts) (p, s) = map_option (Pair p) (run_of step acts s)"
  by (induction acts arbitrary: s) (auto split: option.split)

text \<open>
  C27. The disk program ends with code 1 exactly when its fault does not start, and else, with code 0, only on the result,
  when the goroutines of the fault are over, and prints it last; its ticks are numbered without a gap and none comes
  before its time.
\<close>

theorem disk_program:
  assumes "run_of (poc_step (stress_step (disk_code c emit ovf start deadline)) st_sent st_now t0) acts
      (poc_begin (disk_Start c created start), disk_begin c emit ovf start deadline) = Some (p, s)"
  shows "(ps_exit p = Some 1 \<longleftrightarrow> disk_Validate c \<noteq> None \<or> \<not> created) \<and>
     (ps_exit p \<noteq> Some 1 \<longrightarrow>
        (1 < ps_tick p \<longrightarrow> t0 + (int (ps_tick p) - 1) * TickPeriod \<le> st_now s) \<and>
        (ps_exit p = None \<and> ps_out p = poc_ticks p \<or>
         (\<exists>r. ps_exit p = Some 0 \<and> st_sent s = Some r \<and> all_over s \<and> ps_out p = poc_ticks p @ [ResultLines r])))"
proof -
  let ?c = "disk_code c emit ovf start deadline"
  have good: "join_inv ?c (disk_begin c emit ovf start deadline)" by (simp add: disk_begin_def join_inv_begin)
  have fails: "(\<exists>e. disk_Start c created start = Inl e) \<longleftrightarrow> disk_Validate c \<noteq> None \<or> \<not> created"
    by (auto simp: disk_Start_def Let_def split: option.splits)
  have over: "all_over s" if "join_inv ?c s" "st_sent s = Some r" for r using that by (auto simp: join_inv_def)
  from disk_poc.program_outcome [OF assms good] fails over show ?thesis by auto
qed

text \<open>A run in which the half second passes and the program prints a tick.\<close>

theorem disk_program_witness:
  "\<exists>p s. run_of (poc_step (stress_step (disk_code sample_disk True 0 0 10)) st_sent st_now 0) [FaultActs (Elapse TickPeriod), TickerFires]
      (poc_begin (disk_Start sample_disk True 0), disk_begin sample_disk True 0 0 10) = Some (p, s) \<and>
     ps_exit p \<noteq> Some 1 \<and> 0 + (int (ps_tick p) - 1) * TickPeriod \<le> st_now s"
proof -
  let ?acts = "[FaultActs (Elapse TickPeriod), TickerFires]"
  have ok: "disk_Validate sample_disk = None" by (simp add: disk_Validate_def sample_disk_def FaultConfig_Validate_def wrap64_def)
  have now: "st_now (disk_begin sample_disk True 0 0 10) = 0" by (simp add: disk_begin_def stress_begin_def disk_code_def Let_def)
  obtain p s where r: "run_of (poc_step (stress_step (disk_code sample_disk True 0 0 10)) st_sent st_now 0) ?acts
      (poc_begin (disk_Start sample_disk True 0), disk_begin sample_disk True 0 0 10) = Some (p, s)" and "ps_tick p = 2"
    by (simp add: disk_Start_def ok poc_begin_def now TickPeriod_def Millisecond_def Let_def)
  with disk_program [OF r] ok show ?thesis by (intro exI [of _ p] exI [of _ s]) auto
qed

text \<open>The other three programs, in the same way.\<close>

theorem io_program:
  assumes "run_of (poc_step (stress_step (io_code c files emit ovf start deadline)) st_sent st_now t0) acts
      (poc_begin (fst (io_Start c mkdir outcomes removed)), io_begin c files emit ovf start deadline) = Some (p, s)"
  shows "(ps_exit p = Some 1 \<longleftrightarrow> (\<exists>e. fst (io_Start c mkdir outcomes removed) = Inl e)) \<and>
     (ps_exit p = Some 0 \<longrightarrow> (\<exists>r. st_sent s = Some r \<and> all_over s \<and> ps_out p = poc_ticks p @ [ResultLines r]))"
proof -
  let ?c = "io_code c files emit ovf start deadline"
  have good: "join_inv ?c (io_begin c files emit ovf start deadline)" by (simp add: io_begin_def join_inv_begin)
  have over: "all_over s" if "join_inv ?c s" "st_sent s = Some r" for r using that by (auto simp: join_inv_def)
  from io_poc.program_outcome [OF assms good] over show ?thesis by auto
qed

theorem memory_program:
  assumes "run_of (poc_step (memory_step c) me_sent (\<lambda>s. ck_now (me_clock s)) t0) acts
      (poc_begin (memory_Start ovf m (my_config c)), memory_begin c deadline) = Some (p, s)"
  shows "(ps_exit p = Some 1 \<longleftrightarrow> memory_Validate (my_config c) \<noteq> None) \<and>
     (ps_exit p = Some 0 \<longrightarrow> (\<exists>r. me_sent s = Some r \<and> memory_held s = {} \<and> ps_out p = poc_ticks p @ [ResultLines r]))"
proof -
  have fails: "(\<exists>e. memory_Start ovf m (my_config c) = Inl e) \<longleftrightarrow> memory_Validate (my_config c) \<noteq> None"
    by (auto simp: memory_Start_def split: option.splits)
  have empty: "memory_held s = {}" if "memory_inv c s" "me_sent s = Some r" for r
    by (rule nothing_held [OF that(1)]) (use that in \<open>auto simp: memory_inv_def memory_phase_ok_def released_phase_def\<close>)
  from mem_poc.program_outcome [OF assms memory_inv_begin] fails empty show ?thesis by auto
qed

theorem cpu_program:
  assumes "run_of (poc_step (cpu_step c) cs_sent (\<lambda>s. ck_now (cs_clock s)) t0) acts
      (poc_begin (cpu_Start ovf available numCPU (cu_config c)), cpu_begin c deadline) = Some (p, s)" and "0 < cp_workers (cu_plan c)"
  shows "(ps_exit p = Some 1 \<longleftrightarrow> resource_Validate (cu_config c) \<noteq> None) \<and>
     (ps_exit p = Some 0 \<longrightarrow> (\<exists>r. cs_sent s = Some r \<and> cpu_joined s \<and> ps_out p = poc_ticks p @ [ResultLines r]))"
proof -
  have fails: "(\<exists>e. cpu_Start ovf available numCPU (cu_config c) = Inl e) \<longleftrightarrow> resource_Validate (cu_config c) \<noteq> None"
    by (auto simp: cpu_Start_def split: option.splits)
  have good: "cpu_inv c (cpu_begin c deadline) \<and> 0 < cp_workers (cu_plan c)" using cpu_inv_begin assms(2) by blast
  have over: "cpu_joined s" if "cpu_inv c s" "cs_sent s = Some r" for r using that by (auto simp: cpu_inv_def)
  from cpu_poc.program_outcome [OF assms(1) good] fails over show ?thesis by auto
qed

text \<open>
  The disk program can end while the temporary file of its fault is still there, whether it was interrupted or not: it
  returns on the result, which the fault sends before its deferred calls, and the goroutine ends with the process.
\<close>

theorem disk_program_leaves_file:
  assumes "stress_run (disk_code c emit ovf start deadline) acts (disk_begin c emit ovf start deadline) = Some s"
    and "st_main s = Deferred [CloseFile, RemoveTemp, CancelCtx]" and "list_all (\<lambda>a. a \<noteq> MainMove False) acts"
    and "disk_Start c True start = Inr h"
  shows "\<exists>p. run_of (poc_step (stress_step (disk_code c emit ovf start deadline)) st_sent st_now t0) (map FaultActs acts @ [ResultArrives])
      (poc_begin (disk_Start c True start), disk_begin c emit ovf start deadline) = Some (p, s) \<and> ps_exit p = Some 0 \<and> st_temp s"
proof -
  note run = assms(1) [unfolded disk_begin_def]
  from reachable_join [OF run] assms(2) obtain r where sent: "st_sent s = Some r" by (auto simp: join_inv_def)
  have "rev (sc_defers (disk_code c emit ovf start deadline)) = [CloseFile, RemoveTemp, CancelCtx]" by (simp add: disk_code_def Let_def)
  with reachable_temp [OF run assms(3)] assms(2) have "st_temp s" by (auto simp: temp_inv_def)
  with sent show ?thesis by (simp add: run_of_append poc_fault_acts stress_run_of [symmetric] assms(1,4) poc_begin_def)
qed

theorem disk_program_leaves_file_witness:
  "\<exists>p. run_of (poc_step (stress_step (disk_code sample_disk True 0 0 10)) st_sent st_now 0) (map FaultActs sample_acts @ [ResultArrives])
      (poc_begin (disk_Start sample_disk True 0), disk_begin sample_disk True 0 0 10) = Some (p, sample_state) \<and> ps_exit p = Some 0"
proof -
  have ok: "disk_Validate sample_disk = None" by (simp add: disk_Validate_def sample_disk_def FaultConfig_Validate_def wrap64_def)
  have "list_all (\<lambda>a. a \<noteq> MainMove False) sample_acts" by (simp add: sample_acts_def list_all_iff)
  with disk_program_leaves_file [OF sample_run, of _ 0] show ?thesis
    by (simp add: sample_state_def disk_Start_def ok Let_def)
qed

text \<open>
  What two of the programs compute themselves agrees with their faults: the bytes that the I/O program reports as
  written are those that \<open>Start\<close> has written, and the memory program announces the target of the fault's
  plan, if the system has not changed in between.
\<close>

theorem programs_agree_with_faults:
  assumes "io_Start (io_main_config f) mkdir outcomes removed = (Inr (files, bytes), dir)"
    and "\<forall>i. rand_fills (if_filesize f) (outcomes i)" and "memory_Start ovf m (mem_main_config g) = Inr plan"
  shows "bytes = io_main_written f \<and> length files = nat (if_filecount f) \<and> mem_main_target ovf m g = mp_targetBytes plan"
proof -
  let ?c = "io_main_config f"
  have ok: "io_Validate ?c = None" using assms(1) by (auto simp: io_Start_def split: option.splits)
  then have pos: "0 < if_filesize f" "0 < if_filecount f"
    by (auto simp: io_Validate_def io_main_config_def split: option.splits if_splits)
  then have e: "EffectiveFileSize ?c = if_filesize f" "EffectiveFileCount ?c = if_filecount f"
    by (simp_all add: EffectiveFileSize_def EffectiveFileCount_def io_main_config_def)
  have fills: "\<forall>x \<in> set (map outcomes [0..<nat (if_filecount f)]). rand_fills (if_filesize f) x" using assms(2) by simp
  from assms(1) ok e obtain d where w: "write_files (if_filesize f) 0 (map outcomes [0..<nat (if_filecount f)]) Map.empty [] 0 = Inr (d, files, bytes)"
    by (auto simp: io_Start_def split: sum.splits if_splits prod.splits)
  note W = write_files_ok [OF fills w]
  have "bytes = wrap64 (if_filesize f * if_filecount f)" using W pos by (simp add: i64_def)
  moreover have "length files = nat (if_filecount f)" using W by simp
  moreover have "mem_main_target ovf m g = mp_targetBytes plan"
    using assms(3) by (auto simp: memory_Start_def memory_plan_def mem_main_target_def memory_target_def mem_main_config_def Let_def
        split: option.splits)
  ultimately show ?thesis by (simp add: io_main_written_def mult.commute)
qed

end
