(* ===== verification/Own_Recorder.thy ===== *)
theory Own_Recorder
  imports Cachebox_Dispatch
begin

text \<open>
  The coordinator of \<open>internal/cachebox/cachebox.go\<close> with a configuration that brings its own recorder
  (\<open>Config.Recorder\<close>). Such a recorder has a store and a key function of its own, and \<open>New\<close>
  does not compare them with the configuration's. The coordinator with the built-in recorder, of the dispatch, is the
  case where they are the same.
\<close>

section \<open>The coordinator\<close>

text \<open>
  \<open>ow_store\<close> is the store of the coordinator where it is another one than the recorder's;
  \<open>ow_rec_key\<close> is the key function of the recorder.
\<close>

record own_box =
  ow_store :: "memstore option"
  ow_recorder :: "memstore recorder"
  ow_rec_key :: key_func
  ow_keyFn :: key_func
  ow_strategy :: key_strategy
  ow_max_body :: int
  ow_otel :: int
  ow_delay :: delay_source

text \<open>
  A recorder that the caller has built, with its key function, and whether the configuration's store is the one it
  writes to.
\<close>

record own_recorder =
  or_recorder :: "memstore recorder"
  or_key :: key_func
  or_same_store :: bool

definition own_New :: "cachebox_config \<Rightarrow> own_recorder option \<Rightarrow> own_box" where
  "own_New cfg given =
     (let store = (case cf_store cfg of None \<Rightarrow> NewMemStore 10000 0 | Some s \<Rightarrow> s);
          strategy = (if cf_strategy cfg = [] then KeyStrategyExact else cf_strategy cfg);
          delay = (case cf_delay cfg of None \<Rightarrow> ObservedDelay | Some d \<Rightarrow> d);
          max_body = (if cf_max_body cfg = 0 then DefaultMaxBodyBytes else cf_max_body cfg);
          keyFn = (case cf_keyfunc cfg of None \<Rightarrow> KeyFuncFor strategy | Some f \<Rightarrow> f);
          (other, rec, recKey) =
            (case given of
               None \<Rightarrow> (None, NewRecorder store (cf_push cfg) (cf_buf cfg), keyFn)
             | Some r \<Rightarrow> (if or_same_store r \<and> cf_store cfg \<noteq> None then None else Some store, or_recorder r, or_key r))
      in \<lparr>ow_store = other, ow_recorder = rec, ow_rec_key = recKey, ow_keyFn = keyFn, ow_strategy = strategy,
          ow_max_body = max_body, ow_otel = cf_otel cfg, ow_delay = delay\<rparr>)"

definition own_Store :: "own_box \<Rightarrow> memstore" where
  "own_Store b = (case ow_store b of None \<Rightarrow> rc_store (ow_recorder b) | Some s \<Rightarrow> s)"

definition set_own_store :: "memstore \<Rightarrow> own_box \<Rightarrow> own_box" where
  "set_own_store s b =
     (case ow_store b of None \<Rightarrow> b\<lparr>ow_recorder := (ow_recorder b)\<lparr>rc_store := s\<rparr>\<rparr> | Some _ \<Rightarrow> b\<lparr>ow_store := Some s\<rparr>)"

definition own_Lookup :: "int \<Rightarrow> string \<Rightarrow> own_box \<Rightarrow> entry option \<times> own_box" where
  "own_Lookup now key b = (let (e, s) = mem_get now key (own_Store b) in (e, set_own_store s b))"

definition own_Record :: "cache_record \<Rightarrow> own_box \<Rightarrow> own_box" where
  "own_Record r b = b\<lparr>ow_recorder := snd (Record r (ow_recorder b))\<rparr>"

definition own_Stats :: "own_box \<Rightarrow> store_stats \<times> recorder_stats" where
  "own_Stats b = (mem_stats (own_Store b), recorder_Stats (ow_recorder b))"

definition MaxBodyBytes :: "own_box \<Rightarrow> int" where "MaxBodyBytes b = ow_max_body b"
definition OTelCaptureLimit :: "own_box \<Rightarrow> int" where "OTelCaptureLimit b = ow_otel b"

text \<open>
  The operations in the order they take effect: those of the callers, the rounds of the drain goroutine, and
  \<open>Stop\<close>, which is the recorder's, up to the wait for the drain goroutine.
\<close>

datatype own_op = OwnLookup int string | OwnRecord cache_record | OwnReceive | OwnProcess | OwnStop

definition recorder_stop :: "'s recorder \<Rightarrow> 's recorder" where
  "recorder_stop s = (let (won, s') = stop_cas s in if won then s'\<lparr>rc_closed := True\<rparr> else s')"

fun own_step :: "own_op \<Rightarrow> own_box \<Rightarrow> entry option \<times> own_box" where
  "own_step (OwnLookup now key) b = own_Lookup now key b"
| "own_step (OwnRecord r) b = (None, own_Record r b)"
| "own_step OwnReceive b =
     (None, if rc_hand (ow_recorder b) = None then b\<lparr>ow_recorder := drain_receive (ow_recorder b)\<rparr> else b)"
| "own_step OwnProcess b = (None, b\<lparr>ow_recorder := drain_process mem_put (ow_rec_key b) (ow_recorder b)\<rparr>)"
| "own_step OwnStop b = (None, b\<lparr>ow_recorder := recorder_stop (ow_recorder b)\<rparr>)"

text \<open>The same of the coordinator with the built-in recorder.\<close>

fun box_step :: "own_op \<Rightarrow> cachebox \<Rightarrow> entry option \<times> cachebox" where
  "box_step (OwnLookup now key) b = (let (e, b') = Lookup now key (Some b) in (e, the b'))"
| "box_step (OwnRecord r) b = (None, the (CacheBox_Record r (Some b)))"
| "box_step OwnReceive b =
     (None, if rc_hand (cb_recorder b) = None then b\<lparr>cb_recorder := drain_receive (cb_recorder b)\<rparr> else b)"
| "box_step OwnProcess b = (None, b\<lparr>cb_recorder := drain_process mem_put (cb_keyFn b) (cb_recorder b)\<rparr>)"
| "box_step OwnStop b = (None, b\<lparr>cb_recorder := recorder_stop (cb_recorder b)\<rparr>)"

primrec run_ops :: "('o \<Rightarrow> 'b \<Rightarrow> 'e \<times> 'b) \<Rightarrow> 'o list \<Rightarrow> 'b \<Rightarrow> 'e list \<times> 'b" where
  "run_ops step [] b = ([], b)"
| "run_ops step (x # xs) b = (let (r, b') = step x b; (rs, b'') = run_ops step xs b' in (r # rs, b''))"

section \<open>The built-in recorder as a special case\<close>

definition with_recorder :: "cachebox \<Rightarrow> own_box" where
  "with_recorder b =
     \<lparr>ow_store = None, ow_recorder = cb_recorder b, ow_rec_key = cb_keyFn b, ow_keyFn = cb_keyFn b, ow_strategy = cb_strategy b,
      ow_max_body = cb_max_body b, ow_otel = cb_otel b, ow_delay = cb_delay b\<rparr>"

lemma with_recorder_step: "own_step x (with_recorder b) = (fst (box_step x b), with_recorder (snd (box_step x b)))"
  by (cases x) (auto simp: with_recorder_def own_Lookup_def own_Store_def set_own_store_def own_Record_def Lookup_def CacheBox_Record_def
      Let_def split: prod.splits)

lemma with_recorder_run: "run_ops own_step xs (with_recorder b) = (fst (run_ops box_step xs b), with_recorder (snd (run_ops box_step xs b)))"
  by (induction xs arbitrary: b) (auto simp: with_recorder_step Let_def split: prod.splits)

text \<open>The operations that reach a store of the coordinator's own.\<close>

definition lookups :: "own_op list \<Rightarrow> (int \<times> string) list" where
  "lookups xs = concat (map (\<lambda>x. case x of OwnLookup now key \<Rightarrow> [(now, key)] | _ \<Rightarrow> []) xs)"

lemma own_store_run:
  assumes "ow_store b = Some s"
  shows "ow_store (snd (run_ops own_step xs b)) = Some (fold (\<lambda>p s. snd (mem_get (fst p) (snd p) s)) (lookups xs) s)"
  using assms
proof (induction xs arbitrary: b s)
  case (Cons x xs)
  have "ow_store (snd (own_step x b)) = Some (fold (\<lambda>p s. snd (mem_get (fst p) (snd p) s)) (lookups [x]) s)"
    using Cons.prems by (cases x) (auto simp: own_Lookup_def own_Store_def set_own_store_def own_Record_def lookups_def Let_def split: prod.splits)
  from Cons.IH [OF this] show ?case by (simp add: Let_def split_beta lookups_def)
qed (simp add: lookups_def)

definition holds_nothing :: "memstore \<Rightarrow> bool" where
  "holds_nothing s \<longleftrightarrow> ms_entries s = Map.empty"

lemma empty_lookup: "holds_nothing s \<Longrightarrow> fst (mem_get now key s) = None \<and> holds_nothing (snd (mem_get now key s))"
  by (simp add: mem_get_def holds_nothing_def)

lemma foreign_run:
  "ow_store b = Some s \<Longrightarrow> holds_nothing s \<Longrightarrow> fst (run_ops own_step xs b) = replicate (length xs) None"
proof (induction xs arbitrary: b s)
  case (Cons x xs)
  have "fst (own_step x b) = None \<and> (\<exists>s'. ow_store (snd (own_step x b)) = Some s' \<and> holds_nothing s')"
    using Cons.prems empty_lookup [OF Cons.prems(2)]
    by (cases x) (auto simp: own_Lookup_def own_Store_def set_own_store_def own_Record_def Let_def split_beta)
  with Cons.IH show ?case by (auto simp: Let_def split_beta)
qed simp

section \<open>Properties\<close>

text \<open>
  With the built-in recorder the general coordinator is the one of the dispatch: it is built from the same
  configuration, and every sequence of operations has the same answers and ends in the same state, with the same
  statistics.
\<close>

theorem own_box_refined:
  "own_New cfg None = with_recorder (CacheBox_New cfg) \<and>
   fst (run_ops own_step xs (own_New cfg None)) = fst (run_ops box_step xs (CacheBox_New cfg)) \<and>
   own_Stats (snd (run_ops own_step xs (own_New cfg None))) = CacheBox_Stats (snd (run_ops box_step xs (CacheBox_New cfg)))"
proof -
  have new: "own_New cfg None = with_recorder (CacheBox_New cfg)"
    by (simp add: own_New_def with_recorder_def CacheBox_New_def Let_def)
  have "own_Stats (with_recorder b) = CacheBox_Stats b" for b
    by (simp add: own_Stats_def own_Store_def with_recorder_def CacheBox_Stats_def)
  then show ?thesis unfolding new with_recorder_run by simp
qed

text \<open>
  A configuration with a recorder of its own and no store gets a store that the recorder does not write to: whatever is
  recorded, no lookup ever finds an entry, while the recorder counts what it records.
\<close>

theorem foreign_recorder_never_serves:
  assumes "cf_store cfg = None"
  shows "fst (run_ops own_step xs (own_New cfg (Some r))) = replicate (length xs) None"
proof (rule foreign_run)
  show "ow_store (own_New cfg (Some r)) = Some (NewMemStore 10000 0)" using assms by (simp add: own_New_def Let_def)
  show "holds_nothing (NewMemStore 10000 0)" by (simp add: holds_nothing_def NewMemStore_def)
qed

definition sample_own :: own_recorder where
  "sample_own = \<lparr>or_recorder = NewRecorder (NewMemStore 10 0) False 4, or_key = exactKey, or_same_store = False\<rparr>"

definition sample_own_record :: cache_record where
  "sample_own_record =
     \<lparr>cr_request = key_view (sample_get []), cr_request_body = [], cr_status = 200, cr_header = None, cr_body = ''ok'', cr_latency = 1, cr_timestamp = 2\<rparr>"

definition sample_own_ops :: "own_op list" where
  "sample_own_ops = [OwnRecord sample_own_record, OwnReceive, OwnProcess, OwnLookup 3 (exactKey (key_view (sample_get [])) [])]"

theorem foreign_recorder_never_serves_witness:
  "fst (run_ops own_step sample_own_ops (own_New sample_cfg (Some sample_own))) = [None, None, None, None] \<and>
   rs_recorded (snd (own_Stats (snd (run_ops own_step sample_own_ops (own_New sample_cfg (Some sample_own)))))) = 1"
proof
  show "fst (run_ops own_step sample_own_ops (own_New sample_cfg (Some sample_own))) = [None, None, None, None]"
    using foreign_recorder_never_serves [of sample_cfg sample_own_ops sample_own]
    by (simp add: sample_cfg_def sample_own_ops_def numeral_eq_Suc del: run_ops.simps)
  show "rs_recorded (snd (own_Stats (snd (run_ops own_step sample_own_ops (own_New sample_cfg (Some sample_own)))))) = 1"
    by (simp add: sample_own_ops_def own_New_def sample_cfg_def sample_own_def NewRecorder_def own_Record_def Record_def select_send_def
        drain_receive_def drain_process_def own_Lookup_def own_Store_def set_own_store_def own_Stats_def recorder_Stats_def Let_def split_beta)
qed

text \<open>
  A recorder that shares the store but not the key function stores under its own keys: a request that was recorded is
  found again under the key of the coordinator exactly if the two functions agree on it.
\<close>

theorem own_key_decides:
  assumes "ow_store b = None" and "rc_ch (ow_recorder b) = []" and "rc_hand (ow_recorder b) = None" and "\<not> rc_stopped (ow_recorder b)"
    and "\<not> rc_closed (ow_recorder b)" and "0 < rc_cap (ow_recorder b)" and "rc_store (ow_recorder b) = NewMemStore cap ttl" and "0 < cap"
    and "\<not> expired ttl now (record_entry (ow_rec_key b) r)"
  shows "fst (own_Lookup now (ow_keyFn b (cr_request r) (cr_request_body r))
           (snd (run_ops own_step [OwnRecord r, OwnReceive, OwnProcess] b))) =
     (if ow_keyFn b (cr_request r) (cr_request_body r) = record_key (ow_rec_key b) r
      then Some (bump_hits (record_entry (ow_rec_key b) r)) else None)"
proof -
  let ?e = "record_entry (ow_rec_key b) r" and ?k = "record_key (ow_rec_key b) r"
  have "fst (own_Lookup now key (snd (run_ops own_step [OwnRecord r, OwnReceive, OwnProcess] b))) =
      fst (mem_get now key (mem_put ?k (Some ?e) (NewMemStore cap ttl)))" for key
    using assms(1-7) by (simp add: own_Record_def Record_def select_send_def drain_receive_def drain_process_def own_Lookup_def own_Store_def
        Let_def split_beta)
  moreover have "fst (mem_get now ?k (mem_put ?k (Some ?e) (NewMemStore cap ttl))) = Some (bump_hits ?e)"
    using assms(9) NewMemStore_correct by (intro mem.put_then_get) (simp_all add: mem_live_def NewMemStore_def)
  moreover have "fst (mem_get now key (mem_put ?k (Some ?e) (NewMemStore cap ttl))) = None" if "key \<noteq> ?k" for key
  proof -
    have "\<not> cap < 1" using assms(8) by simp
    with that show ?thesis by (simp add: mem_put_def NewMemStore_def evict_loop.simps mem_get_def Let_def)
  qed
  ultimately show ?thesis by auto
qed

end
