(* ===== verification/Trace_Names.thy ===== *)
theory Trace_Names
  imports Proxy_Lifecycle Phase_Emitter Cachebox_Dispatch Trace_Backend
begin

text \<open>
  The names of \<open>internal/trace/attrs.go\<close> that the other components do not declare, and what they are used
  for: the names and the attributes of the network events (\<open>internal/fault/network/proxy.go\<close> and
  \<open>conn.go\<close>) and the names of the phase events (\<open>internal/fault/resource/ramp.go\<close>).
\<close>

section \<open>Names\<close>

definition AttrFaultDurationMs :: string where "AttrFaultDurationMs = ''atropos.fault.duration_ms''"
definition AttrFaultActualDuration :: string where "AttrFaultActualDuration = ''atropos.fault.actual_duration''"
definition AttrFaultDetail :: string where "AttrFaultDetail = ''atropos.fault.detail''"
definition AttrNetConnID :: string where "AttrNetConnID = ''atropos.net.conn.id''"
definition AttrNetConnRemoteAddr :: string where "AttrNetConnRemoteAddr = ''atropos.net.conn.remote_addr''"
definition AttrNetConnAffected :: string where "AttrNetConnAffected = ''atropos.net.conn.affected''"
definition AttrNetToxicPhase :: string where "AttrNetToxicPhase = ''atropos.net.toxic.phase''"
definition AttrNetToxicType :: string where "AttrNetToxicType = ''atropos.net.toxic.type''"
definition AttrNetUpstreamAddr :: string where "AttrNetUpstreamAddr = ''atropos.net.upstream.addr''"
definition AttrNetDialDurationMs :: string where "AttrNetDialDurationMs = ''atropos.net.upstream.dial_duration_ms''"
definition AttrNetConnDurationMs :: string where "AttrNetConnDurationMs = ''atropos.net.conn.duration_ms''"
definition AttrNetBytesUp :: string where "AttrNetBytesUp = ''atropos.net.bytes_up''"
definition AttrNetBytesDown :: string where "AttrNetBytesDown = ''atropos.net.bytes_down''"
definition AttrResourceTargetLoad :: string where "AttrResourceTargetLoad = ''atropos.resource.target_load''"
definition AttrResourceTargetRate :: string where "AttrResourceTargetRate = ''atropos.resource.target_rate''"
definition AttrResourceRampUpMs :: string where "AttrResourceRampUpMs = ''atropos.resource.ramp_up_ms''"
definition AttrResourceRampDownMs :: string where "AttrResourceRampDownMs = ''atropos.resource.ramp_down_ms''"
definition EventNetConnAccepted :: string where "EventNetConnAccepted = ''atropos.net.conn.accepted''"
definition EventNetToxicHijack :: string where "EventNetToxicHijack = ''atropos.net.toxic.hijack''"
definition EventNetUpstreamDial :: string where "EventNetUpstreamDial = ''atropos.net.upstream.dial''"
definition EventNetConnError :: string where "EventNetConnError = ''atropos.net.conn.error''"
definition EventNetConnClosed :: string where "EventNetConnClosed = ''atropos.net.conn.closed''"
definition EventResourceRampUpStart :: string where "EventResourceRampUpStart = ''atropos.resource.ramp_up.start''"
definition EventResourceRampUpComplete :: string where "EventResourceRampUpComplete = ''atropos.resource.ramp_up.complete''"
definition EventResourceSustainStart :: string where "EventResourceSustainStart = ''atropos.resource.sustain.start''"
definition EventResourceRampDownStart :: string where "EventResourceRampDownStart = ''atropos.resource.ramp_down.start''"
definition EventResourceRampDownComplete :: string where "EventResourceRampDownComplete =
''atropos.resource.ramp_down.complete''"

definition attr_names :: "string list" where
  "attr_names =
     [AttrFaultType, AttrFaultInjectionPoint, AttrFaultReason, AttrFaultDurationMs, AttrFaultActualDuration,
      AttrFaultDetail, AttrHookName, AttrHTTPMethod, AttrHTTPPath, AttrHTTPQuery, AttrHTTPHost, AttrHTTPUserAgent,
      AttrGRPCMethod, AttrGRPCUserAgent, AttrNetConnID, AttrNetConnRemoteAddr, AttrNetConnAffected, AttrNetToxicPhase,
      AttrNetToxicType, AttrNetUpstreamAddr, AttrNetDialDurationMs, AttrNetConnDurationMs, AttrNetBytesUp,
      AttrNetBytesDown, AttrResourceTargetLoad, AttrResourceTargetRate, AttrResourceRampUpMs, AttrResourceRampDownMs,
      AttrCacheBoxMode, AttrCacheBoxKey, AttrCacheBoxHit, AttrCacheBoxLatencyUs, AttrCacheBoxResponseSize,
      AttrCacheBoxResponseBody, AttrCacheBoxWorkflow, AttrCacheBoxReason, AttrCacheBoxInjection]"

definition event_names :: "string list" where
  "event_names =
     [EventFaultInjected, EventFaultSkipped, EventFaultCheckErr, EventNetConnAccepted, EventNetToxicHijack,
      EventNetUpstreamDial, EventNetConnError, EventNetConnClosed, EventResourceRampUpStart,
      EventResourceRampUpComplete, EventResourceSustainStart, EventResourceRampDownStart,
      EventResourceRampDownComplete, EventCacheBoxRecord, EventCacheBoxReplay, EventCacheBoxMiss,
      EventCacheBoxOversize, EventCacheBoxError]"

lemmas name_defs = AttrFaultType_def AttrFaultInjectionPoint_def AttrFaultReason_def AttrFaultDurationMs_def
  AttrFaultActualDuration_def AttrFaultDetail_def AttrHookName_def AttrHTTPMethod_def AttrHTTPPath_def
  AttrHTTPQuery_def AttrHTTPHost_def AttrHTTPUserAgent_def AttrGRPCMethod_def AttrGRPCUserAgent_def AttrNetConnID_def
  AttrNetConnRemoteAddr_def AttrNetConnAffected_def AttrNetToxicPhase_def AttrNetToxicType_def AttrNetUpstreamAddr_def
  AttrNetDialDurationMs_def AttrNetConnDurationMs_def AttrNetBytesUp_def AttrNetBytesDown_def
  AttrResourceTargetLoad_def AttrResourceTargetRate_def AttrResourceRampUpMs_def AttrResourceRampDownMs_def
  AttrCacheBoxMode_def AttrCacheBoxKey_def AttrCacheBoxHit_def AttrCacheBoxLatencyUs_def AttrCacheBoxResponseSize_def
  AttrCacheBoxResponseBody_def AttrCacheBoxWorkflow_def AttrCacheBoxReason_def AttrCacheBoxInjection_def
  SpanFaultInject_def SpanCacheBoxCheck_def SpanHookPrefix_def EventFaultInjected_def EventFaultSkipped_def
  EventFaultCheckErr_def EventNetConnAccepted_def EventNetToxicHijack_def EventNetUpstreamDial_def
  EventNetConnError_def EventNetConnClosed_def EventResourceRampUpStart_def EventResourceRampUpComplete_def
  EventResourceSustainStart_def EventResourceRampDownStart_def EventResourceRampDownComplete_def
  EventCacheBoxRecord_def EventCacheBoxReplay_def EventCacheBoxMiss_def EventCacheBoxOversize_def
  EventCacheBoxError_def

section \<open>Events\<close>

definition phase_event_name :: "phase_event \<Rightarrow> string" where
  "phase_event_name ev =
     (case ev of
        RampUpStart \<Rightarrow> EventResourceRampUpStart
      | RampUpComplete \<Rightarrow> EventResourceRampUpComplete
      | SustainStart \<Rightarrow> EventResourceSustainStart
      | RampDownStart \<Rightarrow> EventResourceRampDownStart
      | RampDownComplete \<Rightarrow> EventResourceRampDownComplete)"

text \<open>\<open>%T\<close> of a toxic that can hijack a connection, and of the others.\<close>

definition toxic_type :: "toxic \<Rightarrow> string" where
  "toxic_type t =
     (case t of
        LatencyToxic _ _ \<Rightarrow> ''*network.Latency''
      | LossToxic _ _ _ \<Rightarrow> ''*network.Loss''
      | BlackholeToxic \<Rightarrow> ''*network.Blackhole''
      | DripToxic _ _ \<Rightarrow> ''*network.Drip''
      | RSTToxic _ _ \<Rightarrow> ''*network.RST''
      | ThrottleToxic _ \<Rightarrow> ''*network.Throttle'')"

definition bool_text :: "bool \<Rightarrow> string" where
  "bool_text b = (if b then ''true'' else ''false'')"

definition net_event_name :: "net_event \<Rightarrow> string" where
  "net_event_name ev =
     (case ev of
        ConnAccepted _ _ _ \<Rightarrow> EventNetConnAccepted
      | ToxicHijack _ _ _ \<Rightarrow> EventNetToxicHijack
      | UpstreamDial _ _ _ \<Rightarrow> EventNetUpstreamDial
      | ConnError _ _ \<Rightarrow> EventNetConnError
      | ConnClosed _ _ \<Rightarrow> EventNetConnClosed)"

text \<open>The attributes: \<open>ms\<close> is the duration that is measured, \<open>err\<close> the text of the
error; numbers and booleans as text.\<close>

definition net_event_attrs :: "int \<Rightarrow> string \<Rightarrow> net_event \<Rightarrow> labels" where
  "net_event_attrs ms err ev =
     (case ev of
        ConnAccepted n remote affected \<Rightarrow>
          [(AttrNetConnID, format_int n), (AttrNetConnRemoteAddr, remote), (AttrNetConnAffected, bool_text affected)]
      | ToxicHijack n post t \<Rightarrow>
          [(AttrNetConnID, format_int n), (AttrNetToxicPhase, if post then ''post_dial'' else ''pre_dial''),
          (AttrNetToxicType, toxic_type t)]
      | UpstreamDial n addr failed \<Rightarrow>
          [(AttrNetConnID, format_int n), (AttrNetUpstreamAddr, addr), (AttrNetDialDurationMs, format_int ms),
           (''atropos.net.upstream.error'', bool_text failed)]
      | ConnError n worker \<Rightarrow>
          [(AttrNetConnID, format_int n), (''error'', err)] @
          (case worker of None \<Rightarrow> []
           | Some (_, d) \<Rightarrow> [(''atropos.net.direction'', case d of Up \<Rightarrow> ''upstream'' | Down
           \<Rightarrow> ''downstream'')])
      | ConnClosed n reason \<Rightarrow>
          [(AttrNetConnID, format_int n), (AttrNetConnDurationMs, format_int ms)] @
          (case reason of None \<Rightarrow> [] | Some r \<Rightarrow> [(''atropos.net.close_reason'', r)]))"

section \<open>Properties\<close>

text \<open>
  The names are all in the namespace of the library and no two are the same, within the attributes and within the events; so
  a reader of a trace can tell the events and attributes of the components apart.
\<close>

theorem names_namespaced:
  "list_all (prefix ''atropos.'') (attr_names @ event_names) \<and> distinct attr_names \<and> distinct event_names"
  by (simp add: attr_names_def event_names_def name_defs)

text \<open>
  What a network event carries: always the number of its connection, and no key twice; the keys are in the namespace but for the
  text of an error, whose key is a bare \<open>error\<close>; none says how many bytes a connection has moved,
  although there are names for it.
\<close>

theorem net_event_keys:
  "(let keys = map fst (net_event_attrs ms err ev)
    in hd keys = AttrNetConnID \<and> distinct keys \<and>
       (\<forall>k. k \<in> set keys \<longrightarrow> prefix ''atropos.net.'' k \<or> k = ''error'') \<and>
       (''error'' \<in> set keys \<longleftrightarrow> net_event_name ev = EventNetConnError) \<and>
       AttrNetBytesUp \<notin> set keys \<and> AttrNetBytesDown \<notin> set keys)"
  by (cases ev) (auto simp: net_event_attrs_def net_event_name_def name_defs Let_def split: option.splits)

end
