(* ===== verification/Spec2Isabelle.thy ===== *)
theory Spec2Isabelle
  imports Cachebox_Dispatch Cpu_Stress Memory_Stress Stress_Start Network_Proxy Cache_Push Manteion_Client Event_Stream
    Request_Metrics Bootstrap Proxy_Lifecycle Cache_Wire Package_Middleware Stress_Lifecycle Trace_Backend Health_Wire
    Memory_Lifecycle Cpu_Lifecycle Inline_Lifecycle Poc_Main Own_Recorder Trace_Names
begin

text \<open>
  A verification development for atropos-go, a Go library that injects faults into a service
  (latency, errors, hangs, network toxics, CPU, memory, disk and I/O pressure) and records and
  replays its outbound HTTP traffic, the cache box. A control plane, Manteion, can hand out the
  rules.

  \<^bold>\<open>The program.\<close> Middleware and hooks ask an evaluator whether a rule matches a request at an
  injection point. A decision names a fault, which the interceptor validates, starts under a
  trace span and, for faults that outlive the request, registers so that it runs once; or it
  names a cache-box action, which the egress transport carries out with a key function, a store
  with least-recently-used eviction, an asynchronous recorder and a delay source. Recorded
  entries are pushed to the control plane in batches. A client registers with the control
  plane, polls it for compiled rules, which it decodes and installs, listens to its events, and
  reports its health; HTTP endpoints do the same by hand.

  \<^bold>\<open>The theories\<close>, in the order of their imports, and the code under \<open>src/\<close> each one models:

  \<^item> \<open>Atropos_Prelude\<close>: Go integers with wrap-around, comparison of floating point values,
    maps with string keys, list lemmas.
  \<^item> \<open>Fault_Model\<close> and \<open>Fault_Kinds\<close>: \<open>internal/fault/fault.go\<close>, \<open>internal/fault/inline\<close>, the
    configurations under \<open>internal/fault/network\<close> and \<open>internal/fault/resource\<close>, \<open>faults.go\<close>. Go
    structs are records, the \<open>Fault\<close> interface is the datatype \<open>fault\<close>, an error result is an
    option. What every validation accepts is stated exactly.
  \<^item> \<open>Evaluator\<close>: \<open>internal/evaluator\<close> and the demo evaluator of \<open>admin.go\<close>. The locale
    \<open>rule_store\<close> is what installing rules promises.
  \<^item> \<open>Fault_Registry\<close>: \<open>Handle\<close> and \<open>internal/interceptor/registry.go\<close>. The record \<open>world\<close> holds
    the handles, the registry and a log of span operations; \<open>reg_step\<close> interleaves starts,
    registrations of callbacks, results and closing. \<open>reg_inv\<close> is its invariant.
  \<^item> \<open>Interceptor\<close>: \<open>internal/interceptor/interceptor.go\<close>, \<open>hook.go\<close>, the ingress part and the labels
    of \<open>middleware.go\<close>, \<open>grpc/interceptor.go\<close>, \<open>Configure\<close> of \<open>atropos.go\<close>.
  \<^item> \<open>Cachebox_Key\<close>: \<open>internal/cachebox/key.go\<close>. The insertion sort is proved equal to the
    library's \<open>sort\<close>, and the keys are characterised.
  \<^item> \<open>Cachebox_Store\<close>: \<open>store.go\<close> and \<open>memstore.go\<close> of \<open>internal/cachebox\<close>. The store, a map and a
    list of numbered elements, refines a recency list (\<open>mem_abs\<close>, \<open>abs_get\<close>, \<open>abs_put\<close>,
    \<open>abs_delete\<close>); the locale \<open>cache_store\<close> is the contract its clients use.
  \<^item> \<open>Cachebox_Recorder\<close>: \<open>internal/cachebox/recorder.go\<close> as the step relation \<open>rec_step\<close>, with the
    invariant \<open>rec_inv\<close>.
  \<^item> \<open>Cachebox_Delay\<close>: \<open>delay.go\<close> and \<open>wire.go\<close> of \<open>internal/cachebox\<close>, the insertion loop of
    \<open>cache_seed.go\<close>. A source with a distribution keeps its parameters and seed.
  \<^item> \<open>Go_Encoding\<close> and \<open>Cache_Wire\<close>: how the standard library writes strings, bytes and instants in JSON, and with it the
    entries on the wire, the envelope of \<open>cache_push.go\<close> and \<open>Seed\<close> of \<open>cache_seed.go\<close>, from one instance's
    store to another's.
  \<^item> \<open>Cachebox_Dispatch\<close>: \<open>internal/cachebox/cachebox.go\<close>, \<open>internal/interceptor/cachebox.go\<close> and
    \<open>EgressTransport\<close> of \<open>middleware.go\<close>. The record \<open>box_world\<close> holds the cache box, the spans,
    the requests forwarded and the delays slept. \<open>Own_Recorder\<close> is a cache box that is configured with a
    recorder of the caller's, and what it shares with the store it looks things up in.
  \<^item> \<open>Token_Bucket\<close> and \<open>Resource_Stress\<close>: the token bucket, the workers and the phase events of
    \<open>internal/fault/resource\<close>. The locale \<open>rate_limiter\<close> bounds what a limiter grants.
  \<^item> \<open>Float_Arith\<close>: the operations on \<open>float64\<close> values the faults compute with, and what rounding keeps.
  \<^item> \<open>Resource_Ramp\<close>: \<open>rampLoop\<close>, and the bucket under the workers and the ramp together; the locale
    \<open>adjustable_limiter\<close> extends \<open>rate_limiter\<close> by changes of the rate.
  \<^item> \<open>Cpu_Stress\<close>, \<open>Memory_Stress\<close> and \<open>Stress_Start\<close>: the files \<open>stress.go\<close> and \<open>detect.go\<close> of the four
    resource faults: how limits are found, loads and chunks are sized, workers burn, allocate, thrash and
    read, and what \<open>Start\<close> returns and sends. \<open>Go_Text\<close> is how files and streams are split into lines and
    words.
  \<^item> \<open>Phase_Emitter\<close>: the goroutine that emits the phase events, which the disk, I/O and CPU faults share.
  \<^item> \<open>Stress_Lifecycle\<close>: the running disk and I/O faults: the workers, the ramp, the emitter of the phase events and the
    goroutine that joins them, as the function \<open>stress_step\<close> over labels that say who moves. Every interleaving refines the
    sequential workers of \<open>Resource_Stress\<close>; the locale \<open>metered_body\<close> is what a worker may do with its tokens.
  \<^item> \<open>Fault_Clock\<close>: the context and the clock of a running fault, and the locale \<open>winding_down\<close>: a fault whose own
    moves use something up is over after boundedly many of them.
  \<^item> \<open>Memory_Lifecycle\<close>: the running memory fault (\<open>memory/stress.go\<close>): the goroutine that allocates, holds and releases
    chunks and the workers that thrash them, over one shared slice of buffers, with the race between the release and the
    workers.
  \<^item> \<open>Cpu_Lifecycle\<close>: the running CPU fault (\<open>cpu/stress.go\<close>): the workers that burn and sleep, and how much they can
    burn; \<open>Inline_Lifecycle\<close>: the goroutines of \<open>internal/fault/inline\<close>.
  \<^item> \<open>Poc_Main\<close>: the four programs under \<open>cmd\<close>: flags, configurations, and the loop that prints until the result is
    there. The locale \<open>awaited_fault\<close> is what the loop needs of a fault; it is interpreted on the four running faults.
  \<^item> \<open>Network_Proxy\<close>: \<open>internal/fault/network\<close>. Each \<open>Pipe\<close> loop is a function over the rounds of
    its reads; the locale \<open>toxic_pipe\<close>, interpreted on every one of them, says that a stream
    delivers a prefix of what its source offers.
  \<^item> \<open>Proxy_Lifecycle\<close>: the goroutines of \<open>proxy.go\<close> and \<open>conn.go\<close>, the accept loop, the connections and their streams,
    as the step relations \<open>conn_step\<close> and \<open>proxy_step\<close>, and the calls of \<open>external.go\<close>: when the proxy ends, and what
    keeps it from ending.
  \<^item> \<open>Cache_Push\<close>: \<open>cache_push.go\<close> as the step relation \<open>push_step\<close>.
  \<^item> \<open>Go_Stdlib\<close>: what the code uses of Go's library: steps that can fail, rounding to \<open>float64\<close>,
    the parsers of numbers and durations, and how a parsed JSON document fills a struct.
  \<^item> \<open>Compiled_Rules\<close>: \<open>compiled_rule.go\<close>, from a rule on the wire to a rule of the evaluator.
  \<^item> \<open>Control_Plane\<close>: \<open>admin.go\<close>, \<open>rules_admin.go\<close>, \<open>cachebox_admin.go\<close> and \<open>register.go\<close>: the
    endpoints and \<open>Apply\<close>, with which a registration takes effect.
  \<^item> \<open>Manteion_Requests\<close> and \<open>Manteion_Client\<close>: \<open>manteion.go\<close>, \<open>manteion_client.go\<close> and \<open>health.go\<close>.
    The client's goroutines are the step relation \<open>client_step\<close>, with a registration's answer of
    any age, and with the end of \<open>ConnectManteion\<close>, which stores its status while they already run.
  \<^item> \<open>Health_Wire\<close>: the body of a registration (\<open>register.go\<close>) and the answer of the health endpoint (\<open>health.go\<close>).
  \<^item> \<open>Request_Metrics\<close>: \<open>metrics.go\<close> and the package-level middleware of \<open>middleware.go\<close>: the status and
    the cache-box counters it records, against what was sent and what the cache box did.
  \<^item> \<open>Package_Middleware\<close>: the default interceptor of \<open>atropos.go\<close> and the constructors of \<open>middleware.go\<close> over it: which
    interceptor a middleware keeps, and a request through the metrics and the interceptor.
  \<^item> \<open>Bootstrap\<close>: \<open>options.go\<close>, \<open>config_file.go\<close>, \<open>init.go\<close>, \<open>span.go\<close> and the spans of
    \<open>internal/trace/trace.go\<close>: which setting wins, and what a failed start leaves behind.
  \<^item> \<open>Trace_Backend\<close>: what \<open>trace.go\<close> and \<open>noop.go\<close> of \<open>internal/trace\<close> make of the operations on a span; the locale
    \<open>span_backend\<close> is interpreted on both.
  \<^item> \<open>Trace_Names\<close>: the names of \<open>internal/trace/attrs.go\<close> and the attributes of the network events.
  \<^item> \<open>Event_Stream\<close>: \<open>listenSSE\<close> and \<open>sseStream\<close> of \<open>manteion_client.go\<close>.

  The properties stand at the end of each theory. Together they say: what is recorded is
  replayed, and nothing is lost between the proxy path, the recorder, the store, the push
  client and an instance that is seeded; the store is a bounded least-recently-used map; one fault runs per rule, under a wait
  group that is exact; only valid faults start, and middleware always serves the request; toxics
  never corrupt a stream; limits on rates and sizes hold under stated bounds, the
  resource faults follow their timelines, spend what their loads say and end by themselves, the file of the disk fault
  within the larger of its maximum and one chunk; decoding is all or nothing, keeps of every rule what the wire says and
  keeps the priorities; \<open>Apply\<close> installs exactly the categories before the first that fails; and the client returns,
  backs off and recovers. Where the code falls short of what it means to do, a property states exactly when: the registry's lost
  callback, and the span of a registered fault, which stays open, the recorder's panic when it is stopped during a call, keys shared by
  oversize bodies, overflowing ramps and delays, a token bucket that starves, polls
  that never install a network rule, a late registration that wins over newer rules, a CPU quota
  so small that it counts as none, an idle connection that keeps the proxy from ending, a reset that comes after a clean
  end, keys that become one on the wire, middleware that keeps the interceptor of before \<open>Configure\<close>, a result that comes
  before its file is removed, a memory fault that ends before its duration, a status that is stored over that of a poll, a cache box whose recorder
  fills a store it never reads.

  \<^bold>\<open>Modelling decisions.\<close> Goroutines that share state are step relations with one rule per atomic
  access or critical section, so an invariant holds in every interleaving; operations under one
  lock are functions. Time, random draws, results of system calls, of the transport and of timers are
  arguments: instants in nanoseconds, draws as values, and lists of rounds for loops. No fuel is
  needed: the loops run over their lists of rounds, and the eviction loop, the insertion sort
  and the drip loop are shown to terminate. Durations and counters of 64 bits are integers with
  \<open>wrap64\<close> where the code can leave the range; lengths of slices and numbers of records are
  unbounded. \<open>float64\<close> values are rationals, infinities or NaN, rounded as the standard says where
  the code computes with them; random and transcendental values are parameters.

  \<^bold>\<open>Not modelled.\<close> OpenTelemetry itself, sockets, files and the HTTP client are outside; so are
  the text of a JSON document, of which the parsed form is taken, and the encoding of the answers but for the health
  report. Of the command line programs the parsing of the flags and the text of the lines they print are left out;
  \<open>types.go\<close> only renames types of the packages modelled. The token bucket of the I/O fault is the same
  code as that of the disk fault and stands here once. The path of a temporary file is left out, its name within the
  directory is not. Allocation is taken to succeed: \<open>make\<close> with a negative or huge length, as of a chunk of the disk
  fault or of the list of chunks of the memory fault, panics in the code. The numbers a random generator draws are
  arguments, so its state after the seed is left out. The reading of the clock with which a token bucket starts and that
  of its fault are one instant. A read, the wait of a toxic and the write of one round of a proxy's stream are one step
  of the peer, so that a stream blocked in a write counts as being in the read of that round; and the goroutine a
  \<open>Pipe\<close> leaves in \<open>io.Copy\<close> when its context is done is not followed.
\<close>

end
